(* ===== verification/Prelude_C.thy ===== *)
theory Prelude_C
  imports Main "HOL-Library.Word" "HOL-Library.Monad_Syntax"
begin

text \<open>
  Shared vocabulary of the development: the C integer types as words, a flat byte memory with
  checked loads and stores, and the cursor write (\<open>*buf++ = x\<close>, \<open>memcpy(buf, ...); buf += n\<close>)
  that every packet builder is made of.

  A memory is the list of bytes of one C object (the send buffer, the receive buffer, a DMA
  buffer); a pointer into it is the offset from its start. An access outside the object is
  undefined behaviour in C and is the value \<open>None\<close> here, so that a theorem that an operation
  returns \<open>Some\<close> is a memory-safety theorem.
\<close>

unbundle bit_operations_syntax

type_synonym u8 = "8 word"
type_synonym u16 = "16 word"
type_synonym u32 = "32 word"
type_synonym u64 = "64 word"

text \<open>The range of \<open>int\<close>.\<close>

definition INT_MIN :: int where "INT_MIN = -2147483648"
definition INT_MAX :: int where "INT_MAX = 2147483647"

text \<open>The \<open>errno\<close> of an interrupted system call.\<close>

definition EINTR :: int where "EINTR = 4"
type_synonym mem = "u8 list"

named_theorems mem_simps \<open>rewriting of checked memory accesses\<close>
named_theorems len_simps \<open>sizes of memories and encodings\<close>

subsection \<open>Checked access\<close>

definition load :: "mem \<Rightarrow> nat \<Rightarrow> u8 option" where
  "load m i = (if i < length m then Some (m ! i) else None)"

definition store :: "mem \<Rightarrow> nat \<Rightarrow> u8 \<Rightarrow> mem option" where
  "store m i b = (if i < length m then Some (m[i := b]) else None)"

definition read_bytes :: "mem \<Rightarrow> nat \<Rightarrow> nat \<Rightarrow> u8 list option" where
  "read_bytes m i n = (if i + n \<le> length m then Some (take n (drop i m)) else None)"

text \<open>The memory with the bytes \<open>bs\<close> written at offset \<open>i\<close>.\<close>

definition patch :: "mem \<Rightarrow> nat \<Rightarrow> u8 list \<Rightarrow> mem" where
  "patch m i bs = take i m @ bs @ drop (i + length bs) m"

text \<open>Write at a cursor and advance it.\<close>

definition put :: "mem \<times> nat \<Rightarrow> u8 list \<Rightarrow> (mem \<times> nat) option" where
  "put s bs = (let (m, p) = s in
     if p + length bs \<le> length m then Some (patch m p bs, p + length bs) else None)"

text \<open>\<open>memmove(mem + dst, mem + src, n)\<close> inside one object.\<close>

definition memmove :: "mem \<Rightarrow> nat \<Rightarrow> nat \<Rightarrow> nat \<Rightarrow> mem option" where
  "memmove m dst src n =
     do { bs \<leftarrow> read_bytes m src n;
          (m', _) \<leftarrow> put (m, dst) bs;
          Some m' }"

subsection \<open>Laws\<close>

lemma length_patch [simp, len_simps]:
  "i + length bs \<le> length m \<Longrightarrow> length (patch m i bs) = length m"
  by (simp add: patch_def)

lemma patch_Nil [simp]: "patch m i [] = m"
  by (simp add: patch_def)

lemma patch_patch [mem_simps]:
  "i \<le> length m \<Longrightarrow> j = i + length as \<Longrightarrow> patch (patch m i as) j bs = patch m i (as @ bs)"
  by (simp add: patch_def ac_simps)

lemma patch_same:
  "i + length as \<le> length m \<Longrightarrow> length bs = length as \<Longrightarrow> patch (patch m i as) i bs = patch m i bs"
  by (simp add: patch_def)

lemma store_patch [mem_simps]:
  "store m i b = (if i < length m then Some (patch m i [b]) else None)"
  by (simp add: store_def patch_def upd_conv_take_nth_drop)

lemma load_patch_same [mem_simps]:
  "i < length m \<Longrightarrow> load (patch m i [b]) i = Some b"
  by (simp add: load_def patch_def nth_append)

lemma nth_patch:
  "i + length bs \<le> length m \<Longrightarrow> k < length m \<Longrightarrow>
     patch m i bs ! k = (if i \<le> k \<and> k < i + length bs then bs ! (k - i) else m ! k)"
  by (auto simp: patch_def nth_append)

lemma take_patch [mem_simps]:
  "i \<le> length m \<Longrightarrow> k \<le> i \<Longrightarrow> take k (patch m i bs) = take k m"
  by (simp add: patch_def min_def)

lemma drop_patch [mem_simps]:
  "i \<le> length m \<Longrightarrow> i + length bs \<le> k \<Longrightarrow> drop k (patch m i bs) = drop k m"
  by (simp add: patch_def)

lemma read_patch_same [mem_simps]:
  "i + length bs \<le> length m \<Longrightarrow> read_bytes (patch m i bs) i (length bs) = Some bs"
  by (simp add: read_bytes_def) (simp add: patch_def)

lemma read_bytes_outside:
  assumes "i + length bs \<le> length m" "j + n \<le> i \<or> i + length bs \<le> j"
  shows "read_bytes (patch m i bs) j n = read_bytes m j n"
  using assms
  by (auto simp: read_bytes_def intro!: nth_equalityI simp: nth_patch)

lemma load_read: "load m i = map_option hd (read_bytes m i 1)"
  by (simp add: load_def read_bytes_def hd_drop_conv_nth)

lemma load_Some_iff: "load m i = Some b \<longleftrightarrow> i < length m \<and> m ! i = b"
  by (auto simp: load_def)

lemma read_bytes_length: "read_bytes m i n = Some bs \<Longrightarrow> length bs = n"
  by (auto simp: read_bytes_def split: if_splits)

lemma put_Some [mem_simps]:
  "p + length bs \<le> length m \<Longrightarrow> put (m, p) bs = Some (patch m p bs, p + length bs)"
  by (simp add: put_def)

lemma put_None: "length m < p + length bs \<Longrightarrow> put (m, p) bs = None"
  by (simp add: put_def)

text \<open>
  Consecutive cursor writes are one write of the concatenation: the law that turns a builder
  into the encoding it writes.
\<close>

lemma put_put [mem_simps]:
  "Option.bind (put s as) (\<lambda>s. Option.bind (put s bs) f) = Option.bind (put s (as @ bs)) f"
  by (cases s) (auto simp: put_def patch_patch add.assoc)

lemma put_put_last [mem_simps]:
  "Option.bind (put s as) (\<lambda>s. put s bs) = put s (as @ bs)"
  by (cases s) (auto simp: put_def patch_patch)

lemma put_SomeD:
  "put (m, p) bs = Some (m', q) \<Longrightarrow>
     m' = patch m p bs \<and> q = p + length bs \<and> p + length bs \<le> length m"
  by (auto simp: put_def split: if_splits)

lemma memmove_down:
  assumes "src + n \<le> length m" "dst \<le> src"
  shows "memmove m dst src n = Some (patch m dst (take n (drop src m)))"
  using assms by (simp add: memmove_def read_bytes_def put_def)

lemma memmove_None: "length m < src + n \<Longrightarrow> memmove m dst src n = None"
  by (simp add: memmove_def read_bytes_def)

subsection \<open>Bytes known to be at an offset\<close>

definition at_mem :: "mem \<Rightarrow> nat \<Rightarrow> u8 list \<Rightarrow> bool" where
  "at_mem m i bs \<longleftrightarrow> (\<forall>k < length bs. load m (i + k) = Some (bs ! k))"

lemma at_mem_Nil [simp]: "at_mem m i []"
  by (simp add: at_mem_def)

lemma at_mem_Cons: "at_mem m i (b # bs) \<longleftrightarrow> load m i = Some b \<and> at_mem m (Suc i) bs"
  by (auto simp: at_mem_def All_less_Suc2)

lemma at_mem_append:
  "at_mem m i (as @ bs) \<longleftrightarrow> at_mem m i as \<and> at_mem m (i + length as) bs"
  by (induction as arbitrary: i) (auto simp: at_mem_Cons)

lemma at_mem_bound:
  assumes "at_mem m i bs" "bs \<noteq> []"
  shows "i + length bs \<le> length m"
proof -
  from assms have "load m (i + (length bs - 1)) = Some (bs ! (length bs - 1))"
    by (simp add: at_mem_def)
  then have "i + (length bs - 1) < length m" by (simp add: load_Some_iff)
  with assms(2) show ?thesis by (cases bs) simp_all
qed

lemma at_mem_read:
  assumes "at_mem m i bs" "i + length bs \<le> length m"
  shows "read_bytes m i (length bs) = Some bs"
  using assms by (auto simp: read_bytes_def at_mem_def load_Some_iff intro!: nth_equalityI)

lemma at_mem_patch [mem_simps]: "i + length bs \<le> length m \<Longrightarrow> at_mem (patch m i bs) i bs"
  by (auto simp: at_mem_def load_Some_iff nth_patch)

subsection \<open>Words\<close>

lemma unat_of_nat_small [simp]:
  "n < 2 ^ LENGTH('a::len) \<Longrightarrow> unat (of_nat n :: 'a word) = n"
  by (simp add: unat_of_nat take_bit_nat_eq_self)

lemma word_of_unat: "unat w = n \<Longrightarrow> w = of_nat n"
  by auto

lemma unat_u8_bound [simp]: "unat (b :: u8) < 256"
  using unsigned_less [of b] by simp

lemma unat_u16_bound [simp]: "unat (b :: u16) < 65536"
  using unsigned_less [of b] by simp

text \<open>A property of a byte holds when it holds of the 256 bytes: decided by evaluation.\<close>

lemma all_u8: "(\<forall>b::u8. P b) \<longleftrightarrow> list_all P (map of_nat [0..<256])"
proof
  assume *: "list_all P (map of_nat [0..<256])"
  show "\<forall>b::u8. P b"
  proof
    fix b :: u8
    have "unat b \<in> set [0..<256]" by simp
    with * have "P (of_nat (unat b))"
      unfolding list_all_iff by (metis (no_types) imageI list.set_map)
    then show "P b" by simp
  qed
qed (simp add: list_all_iff)

lemma byte_or_0x80: "b < 128 \<Longrightarrow> (b :: u8) OR 0x80 = 128 + b"
proof -
  have "\<forall>b::u8. b < 128 \<longrightarrow> b OR 0x80 = 128 + b" unfolding all_u8 by code_simp
  then show "b < 128 \<Longrightarrow> b OR 0x80 = 128 + b" by blast
qed

lemma byte_and_0x80: "((b :: u8) AND 0x80 \<noteq> 0) \<longleftrightarrow> 128 \<le> unat b"
proof -
  have "\<forall>b::u8. (b AND 0x80 \<noteq> 0) \<longleftrightarrow> 128 \<le> unat b" unfolding all_u8 by code_simp
  then show ?thesis by blast
qed

lemma byte_and_0x7F: "unat ((b :: u8) AND 0x7F) = unat b mod 128"
proof -
  have "\<forall>b::u8. unat (b AND 0x7F) = unat b mod 128" unfolding all_u8 by code_simp
  then show ?thesis by blast
qed

lemma or80_and80: "((b :: u8) OR 0x80) AND 0x80 \<noteq> 0"
proof -
  have "\<forall>b::u8. (b OR 0x80) AND 0x80 \<noteq> 0" unfolding all_u8 by code_simp
  then show ?thesis by blast
qed

end
