(* ===== verification/Mqtt_Types.thy ===== *)
theory Mqtt_Types
  imports Prelude_C
begin

text \<open>
  The enumerations of \<open>src/mqtt-c/include/mqtt.h\<close>: error codes and their printable names,
  control packet types, and the return values of the packet routines.
\<close>

unbundle bit_operations_syntax

subsection \<open>Error codes\<close>

datatype MQTTErrors =
    MQTT_ERROR_UNKNOWN
  | MQTT_ERROR_NULLPTR
  | MQTT_ERROR_CONTROL_FORBIDDEN_TYPE
  | MQTT_ERROR_CONTROL_INVALID_FLAGS
  | MQTT_ERROR_CONTROL_WRONG_TYPE
  | MQTT_ERROR_CONNECT_CLIENT_ID_REFUSED
  | MQTT_ERROR_CONNECT_NULL_WILL_MESSAGE
  | MQTT_ERROR_CONNECT_FORBIDDEN_WILL_QOS
  | MQTT_ERROR_CONNACK_FORBIDDEN_FLAGS
  | MQTT_ERROR_CONNACK_FORBIDDEN_CODE
  | MQTT_ERROR_PUBLISH_FORBIDDEN_QOS
  | MQTT_ERROR_SUBSCRIBE_TOO_MANY_TOPICS
  | MQTT_ERROR_MALFORMED_RESPONSE
  | MQTT_ERROR_UNSUBSCRIBE_TOO_MANY_TOPICS
  | MQTT_ERROR_RESPONSE_INVALID_CONTROL_TYPE
  | MQTT_ERROR_CONNECT_NOT_CALLED
  | MQTT_ERROR_SEND_BUFFER_IS_FULL
  | MQTT_ERROR_SOCKET_ERROR
  | MQTT_ERROR_MALFORMED_REQUEST
  | MQTT_ERROR_RECV_BUFFER_TOO_SMALL
  | MQTT_ERROR_ACK_OF_UNKNOWN
  | MQTT_ERROR_NOT_IMPLEMENTED
  | MQTT_ERROR_CONNECTION_REFUSED
  | MQTT_ERROR_SUBSCRIBE_FAILED
  | MQTT_ERROR_CONNECTION_CLOSED
  | MQTT_ERROR_INITIAL_RECONNECT
  | MQTT_ERROR_INVALID_REMAINING_LENGTH
  | MQTT_ERROR_CLEAN_SESSION_IS_REQUIRED
  | MQTT_ERROR_RECONNECT_FAILED
  | MQTT_ERROR_RECONNECTING
  | MQTT_OK

text \<open>
  The values the C enumeration gives its members: \<open>MQTT_ERROR_UNKNOWN=INT_MIN\<close>, then one more
  for each, and \<open>MQTT_OK = 1\<close>.
\<close>

definition all_errors :: "MQTTErrors list" where
  "all_errors =
    [MQTT_ERROR_UNKNOWN, MQTT_ERROR_NULLPTR, MQTT_ERROR_CONTROL_FORBIDDEN_TYPE,
     MQTT_ERROR_CONTROL_INVALID_FLAGS, MQTT_ERROR_CONTROL_WRONG_TYPE,
     MQTT_ERROR_CONNECT_CLIENT_ID_REFUSED, MQTT_ERROR_CONNECT_NULL_WILL_MESSAGE,
     MQTT_ERROR_CONNECT_FORBIDDEN_WILL_QOS, MQTT_ERROR_CONNACK_FORBIDDEN_FLAGS,
     MQTT_ERROR_CONNACK_FORBIDDEN_CODE, MQTT_ERROR_PUBLISH_FORBIDDEN_QOS,
     MQTT_ERROR_SUBSCRIBE_TOO_MANY_TOPICS, MQTT_ERROR_MALFORMED_RESPONSE,
     MQTT_ERROR_UNSUBSCRIBE_TOO_MANY_TOPICS, MQTT_ERROR_RESPONSE_INVALID_CONTROL_TYPE,
     MQTT_ERROR_CONNECT_NOT_CALLED, MQTT_ERROR_SEND_BUFFER_IS_FULL, MQTT_ERROR_SOCKET_ERROR,
     MQTT_ERROR_MALFORMED_REQUEST, MQTT_ERROR_RECV_BUFFER_TOO_SMALL, MQTT_ERROR_ACK_OF_UNKNOWN,
     MQTT_ERROR_NOT_IMPLEMENTED, MQTT_ERROR_CONNECTION_REFUSED, MQTT_ERROR_SUBSCRIBE_FAILED,
     MQTT_ERROR_CONNECTION_CLOSED, MQTT_ERROR_INITIAL_RECONNECT,
     MQTT_ERROR_INVALID_REMAINING_LENGTH, MQTT_ERROR_CLEAN_SESSION_IS_REQUIRED,
     MQTT_ERROR_RECONNECT_FAILED, MQTT_ERROR_RECONNECTING]"

primrec err_index :: "MQTTErrors \<Rightarrow> nat" where
  "err_index MQTT_ERROR_UNKNOWN = 0"
| "err_index MQTT_ERROR_NULLPTR = 1"
| "err_index MQTT_ERROR_CONTROL_FORBIDDEN_TYPE = 2"
| "err_index MQTT_ERROR_CONTROL_INVALID_FLAGS = 3"
| "err_index MQTT_ERROR_CONTROL_WRONG_TYPE = 4"
| "err_index MQTT_ERROR_CONNECT_CLIENT_ID_REFUSED = 5"
| "err_index MQTT_ERROR_CONNECT_NULL_WILL_MESSAGE = 6"
| "err_index MQTT_ERROR_CONNECT_FORBIDDEN_WILL_QOS = 7"
| "err_index MQTT_ERROR_CONNACK_FORBIDDEN_FLAGS = 8"
| "err_index MQTT_ERROR_CONNACK_FORBIDDEN_CODE = 9"
| "err_index MQTT_ERROR_PUBLISH_FORBIDDEN_QOS = 10"
| "err_index MQTT_ERROR_SUBSCRIBE_TOO_MANY_TOPICS = 11"
| "err_index MQTT_ERROR_MALFORMED_RESPONSE = 12"
| "err_index MQTT_ERROR_UNSUBSCRIBE_TOO_MANY_TOPICS = 13"
| "err_index MQTT_ERROR_RESPONSE_INVALID_CONTROL_TYPE = 14"
| "err_index MQTT_ERROR_CONNECT_NOT_CALLED = 15"
| "err_index MQTT_ERROR_SEND_BUFFER_IS_FULL = 16"
| "err_index MQTT_ERROR_SOCKET_ERROR = 17"
| "err_index MQTT_ERROR_MALFORMED_REQUEST = 18"
| "err_index MQTT_ERROR_RECV_BUFFER_TOO_SMALL = 19"
| "err_index MQTT_ERROR_ACK_OF_UNKNOWN = 20"
| "err_index MQTT_ERROR_NOT_IMPLEMENTED = 21"
| "err_index MQTT_ERROR_CONNECTION_REFUSED = 22"
| "err_index MQTT_ERROR_SUBSCRIBE_FAILED = 23"
| "err_index MQTT_ERROR_CONNECTION_CLOSED = 24"
| "err_index MQTT_ERROR_INITIAL_RECONNECT = 25"
| "err_index MQTT_ERROR_INVALID_REMAINING_LENGTH = 26"
| "err_index MQTT_ERROR_CLEAN_SESSION_IS_REQUIRED = 27"
| "err_index MQTT_ERROR_RECONNECT_FAILED = 28"
| "err_index MQTT_ERROR_RECONNECTING = 29"
| "err_index MQTT_OK = 0"

definition err_code :: "MQTTErrors \<Rightarrow> int" where
  "err_code e = (if e = MQTT_OK then 1 else INT_MIN + int (err_index e))"

text \<open>\<open>client->error < 0\<close> holds of every member but \<open>MQTT_OK\<close>.\<close>

lemma err_code_neg_iff [simp]: "err_code e < 0 \<longleftrightarrow> e \<noteq> MQTT_OK"
  by (cases e) (simp_all add: err_code_def INT_MIN_def)

lemma err_index_nth: "e \<noteq> MQTT_OK \<Longrightarrow> err_index e < 30 \<and> all_errors ! err_index e = e"
  by (cases e) (simp_all add: all_errors_def)

lemma err_code_inj: "err_code e = err_code e' \<Longrightarrow> e = e'"
proof -
  assume eq: "err_code e = err_code e'"
  show "e = e'"
  proof (cases "e = MQTT_OK \<or> e' = MQTT_OK")
    case True
    with eq err_code_neg_iff [of e] err_code_neg_iff [of e'] show ?thesis by metis
  next
    case False
    with eq have "err_index e = err_index e'" by (simp add: err_code_def)
    with False err_index_nth [of e] err_index_nth [of e'] show ?thesis by metis
  qed
qed

text \<open>The enumeration is ordered by the values of its members, as C compares them.\<close>

instantiation MQTTErrors :: linorder
begin

definition less_eq_MQTTErrors :: "MQTTErrors \<Rightarrow> MQTTErrors \<Rightarrow> bool" where
  "less_eq_MQTTErrors a b \<longleftrightarrow> err_code a \<le> err_code b"

definition less_MQTTErrors :: "MQTTErrors \<Rightarrow> MQTTErrors \<Rightarrow> bool" where
  "less_MQTTErrors a b \<longleftrightarrow> err_code a < err_code b"

instance
  by standard (auto simp: less_eq_MQTTErrors_def less_MQTTErrors_def intro: err_code_inj)

end

lemma less_MQTT_OK [simp]: "e < MQTT_OK \<longleftrightarrow> e \<noteq> MQTT_OK"
  using err_code_neg_iff [of e] by (auto simp: less_MQTTErrors_def err_code_def)

subsection \<open>Printable names\<close>

text \<open>
  \<open>MQTT_ERRORS_STR\<close>: the text of member 0, then the spelling of every other member, as the
  stringizing macro \<open>GENERATE_STRING\<close> produces it.
\<close>

definition MQTT_ERRORS_STR :: "string list" where
  "MQTT_ERRORS_STR =
    [''MQTT_UNKNOWN_ERROR'', ''MQTT_ERROR_NULLPTR'', ''MQTT_ERROR_CONTROL_FORBIDDEN_TYPE'',
     ''MQTT_ERROR_CONTROL_INVALID_FLAGS'', ''MQTT_ERROR_CONTROL_WRONG_TYPE'',
     ''MQTT_ERROR_CONNECT_CLIENT_ID_REFUSED'', ''MQTT_ERROR_CONNECT_NULL_WILL_MESSAGE'',
     ''MQTT_ERROR_CONNECT_FORBIDDEN_WILL_QOS'', ''MQTT_ERROR_CONNACK_FORBIDDEN_FLAGS'',
     ''MQTT_ERROR_CONNACK_FORBIDDEN_CODE'', ''MQTT_ERROR_PUBLISH_FORBIDDEN_QOS'',
     ''MQTT_ERROR_SUBSCRIBE_TOO_MANY_TOPICS'', ''MQTT_ERROR_MALFORMED_RESPONSE'',
     ''MQTT_ERROR_UNSUBSCRIBE_TOO_MANY_TOPICS'', ''MQTT_ERROR_RESPONSE_INVALID_CONTROL_TYPE'',
     ''MQTT_ERROR_CONNECT_NOT_CALLED'', ''MQTT_ERROR_SEND_BUFFER_IS_FULL'',
     ''MQTT_ERROR_SOCKET_ERROR'', ''MQTT_ERROR_MALFORMED_REQUEST'',
     ''MQTT_ERROR_RECV_BUFFER_TOO_SMALL'', ''MQTT_ERROR_ACK_OF_UNKNOWN'',
     ''MQTT_ERROR_NOT_IMPLEMENTED'', ''MQTT_ERROR_CONNECTION_REFUSED'',
     ''MQTT_ERROR_SUBSCRIBE_FAILED'', ''MQTT_ERROR_CONNECTION_CLOSED'',
     ''MQTT_ERROR_INITIAL_RECONNECT'', ''MQTT_ERROR_INVALID_REMAINING_LENGTH'',
     ''MQTT_ERROR_CLEAN_SESSION_IS_REQUIRED'', ''MQTT_ERROR_RECONNECT_FAILED'',
     ''MQTT_ERROR_RECONNECTING'']"

text \<open>
  \<open>mqtt_error_str\<close> on the integer value of its argument. The subtraction
  \<open>error - MQTT_ERROR_UNKNOWN\<close> is on \<open>int\<close>: a result that does not fit is undefined behaviour,
  and so is an index past the end of the table; both are \<open>None\<close>.
\<close>

definition mqtt_error_str :: "int \<Rightarrow> string option" where
  "mqtt_error_str error =
     (let offset = error - INT_MIN in
      if offset < INT_MIN \<or> INT_MAX < offset then None
      else if 0 \<le> offset then
        (if nat offset < length MQTT_ERRORS_STR then Some (MQTT_ERRORS_STR ! nat offset) else None)
      else if error = 0 then Some ''MQTT_ERROR: Buffer too small.''
      else if 0 < error then Some ''MQTT_OK''
      else Some (MQTT_ERRORS_STR ! 0))"

lemma length_MQTT_ERRORS_STR [simp]: "length MQTT_ERRORS_STR = 30"
  by (simp add: MQTT_ERRORS_STR_def)

lemma mqtt_error_str_error:
  assumes "e \<noteq> MQTT_OK"
  shows "mqtt_error_str (err_code e) = Some (MQTT_ERRORS_STR ! err_index e)"
proof -
  have "err_index e < 30" using err_index_nth [OF assms] by simp
  with assms show ?thesis
    by (simp add: mqtt_error_str_def err_code_def INT_MIN_def INT_MAX_def Let_def)
qed

lemma MQTT_ERRORS_STR_distinct: "distinct MQTT_ERRORS_STR"
  by (simp add: MQTT_ERRORS_STR_def)

lemma mqtt_error_str_nonneg: "0 \<le> error \<Longrightarrow> mqtt_error_str error = None"
  by (simp add: mqtt_error_str_def INT_MIN_def INT_MAX_def Let_def)

subsection \<open>Return values\<close>

text \<open>
  A packet routine returns an \<open>ssize_t\<close>: an error code when negative, otherwise a number of bytes
  (0 means that the buffer is too small, or that more bytes are needed).
\<close>

datatype ssize = Err MQTTErrors | Cnt nat

subsection \<open>Control packet types\<close>

text \<open>
  The four-bit packet type. The enumerators are 1 to 14; the receiver casts any nibble to the
  enumeration, so 0 and 15 are values too.
\<close>

datatype MQTTControlPacketType =
    MQTT_CONTROL_RESERVED_0
  | MQTT_CONTROL_CONNECT
  | MQTT_CONTROL_CONNACK
  | MQTT_CONTROL_PUBLISH
  | MQTT_CONTROL_PUBACK
  | MQTT_CONTROL_PUBREC
  | MQTT_CONTROL_PUBREL
  | MQTT_CONTROL_PUBCOMP
  | MQTT_CONTROL_SUBSCRIBE
  | MQTT_CONTROL_SUBACK
  | MQTT_CONTROL_UNSUBSCRIBE
  | MQTT_CONTROL_UNSUBACK
  | MQTT_CONTROL_PINGREQ
  | MQTT_CONTROL_PINGRESP
  | MQTT_CONTROL_DISCONNECT
  | MQTT_CONTROL_RESERVED_15

definition control_types :: "MQTTControlPacketType list" where
  "control_types =
    [MQTT_CONTROL_RESERVED_0, MQTT_CONTROL_CONNECT, MQTT_CONTROL_CONNACK, MQTT_CONTROL_PUBLISH,
     MQTT_CONTROL_PUBACK, MQTT_CONTROL_PUBREC, MQTT_CONTROL_PUBREL, MQTT_CONTROL_PUBCOMP,
     MQTT_CONTROL_SUBSCRIBE, MQTT_CONTROL_SUBACK, MQTT_CONTROL_UNSUBSCRIBE,
     MQTT_CONTROL_UNSUBACK, MQTT_CONTROL_PINGREQ, MQTT_CONTROL_PINGRESP,
     MQTT_CONTROL_DISCONNECT, MQTT_CONTROL_RESERVED_15]"

primrec control_code :: "MQTTControlPacketType \<Rightarrow> nat" where
  "control_code MQTT_CONTROL_RESERVED_0 = 0"
| "control_code MQTT_CONTROL_CONNECT = 1"
| "control_code MQTT_CONTROL_CONNACK = 2"
| "control_code MQTT_CONTROL_PUBLISH = 3"
| "control_code MQTT_CONTROL_PUBACK = 4"
| "control_code MQTT_CONTROL_PUBREC = 5"
| "control_code MQTT_CONTROL_PUBREL = 6"
| "control_code MQTT_CONTROL_PUBCOMP = 7"
| "control_code MQTT_CONTROL_SUBSCRIBE = 8"
| "control_code MQTT_CONTROL_SUBACK = 9"
| "control_code MQTT_CONTROL_UNSUBSCRIBE = 10"
| "control_code MQTT_CONTROL_UNSUBACK = 11"
| "control_code MQTT_CONTROL_PINGREQ = 12"
| "control_code MQTT_CONTROL_PINGRESP = 13"
| "control_code MQTT_CONTROL_DISCONNECT = 14"
| "control_code MQTT_CONTROL_RESERVED_15 = 15"

text \<open>The cast of a byte's upper nibble to the enumeration.\<close>

definition control_of :: "u8 \<Rightarrow> MQTTControlPacketType" where
  "control_of nibble = control_types ! (unat nibble mod 16)"

lemma control_code_bound [simp]: "control_code t < 16"
  by (cases t) simp_all

lemma control_of_code [simp]: "control_of (of_nat (control_code t)) = t"
  by (cases t) (simp_all add: control_of_def control_types_def)

lemma control_code_of: "control_code (control_of w) = unat w mod 16"
proof -
  have "\<forall>n < 16. control_code (control_types ! n) = n"
    by (simp add: control_types_def All_less_Suc numeral_eq_Suc)
  then show ?thesis by (simp add: control_of_def)
qed

end
