(* ===== verification/Mqtt_Fixed_Header.thy ===== *)
theory Mqtt_Fixed_Header
  imports Mqtt_Types
begin

text \<open>
  The MQTT fixed header of \<open>src/mqtt-c/src/mqtt.c\<close> (section FIXED HEADER): the flag rules, the
  packer and the unpacker with their base-128 length loops, the encoding they implement, and the
  round trip between them.
\<close>

unbundle bit_operations_syntax

record mqtt_fixed_header =
  control_type :: MQTTControlPacketType
  control_flags :: u8
  remaining_length :: u32

subsection \<open>Flag rules\<close>

definition control_type_is_valid :: "u8 list" where
  "control_type_is_valid = [0, 1, 1, 1, 1, 1, 1, 1, 1, 1, 1, 1, 1, 1, 1, 0]"

definition required_flags :: "u8 list" where
  "required_flags = [0, 0, 0, 0, 0, 0, 0x02, 0, 0x02, 0, 0x02, 0, 0, 0, 0, 0]"

definition mask_required_flags :: "u8 list" where
  "mask_required_flags =
     [0, 0x0F, 0x0F, 0x00, 0x0F, 0x0F, 0x0F, 0x0F, 0x0F, 0x0F, 0x0F, 0x0F, 0x0F, 0x0F, 0x0F, 0]"

definition mqtt_fixed_header_rule_violation :: "mqtt_fixed_header \<Rightarrow> MQTTErrors option" where
  "mqtt_fixed_header_rule_violation fh =
     (let ct = control_code (control_type fh);
          flags = control_flags fh;
          req = required_flags ! ct;
          msk = mask_required_flags ! ct
      in if control_type_is_valid ! ct = 0 then Some MQTT_ERROR_CONTROL_FORBIDDEN_TYPE
         else if (flags XOR req) AND msk \<noteq> 0 then Some MQTT_ERROR_CONTROL_INVALID_FLAGS
         else None)"

subsection \<open>Packing\<close>

text \<open>
  The \<open>do\<close> loop of the packer. \<open>(buf, bufsz)\<close> are the pointer and the room before the
  iteration; the iteration consumes one byte of room before it writes. \<open>Inl\<close> is the early
  \<open>return 0\<close>, \<open>Inr (buf, bufsz)\<close> the fall through with the last written byte at \<open>buf\<close>.
  The room is positive whenever the loop is entered.
\<close>

fun pack_length_loop :: "mem \<Rightarrow> nat \<Rightarrow> nat \<Rightarrow> u32 \<Rightarrow> (mem \<times> (unit + nat \<times> nat)) option" where
  "pack_length_loop m buf 0 rl = None"
| "pack_length_loop m buf (Suc bufsz) rl =
     (let buf = buf + 1 in
      if bufsz = 0 then Some (m, Inl ())
      else do {
        m \<leftarrow> store m buf (ucast (rl AND 0x7F));
        b \<leftarrow> load m buf;
        m \<leftarrow> (if rl > 127 then store m buf (b OR 0x80) else Some m);
        b \<leftarrow> load m buf;
        let rl = drop_bit 7 rl;
        if b AND 0x80 \<noteq> 0 then pack_length_loop m buf bufsz rl
        else Some (m, Inr (buf, bufsz))
      })"

definition mqtt_pack_fixed_header ::
    "mem \<Rightarrow> nat option \<Rightarrow> nat \<Rightarrow> mqtt_fixed_header \<Rightarrow> (mem \<times> ssize) option" where
  "mqtt_pack_fixed_header m buf bufsz fh =
     (case buf of None \<Rightarrow> Some (m, Err MQTT_ERROR_NULLPTR)
      | Some start \<Rightarrow>
        (case mqtt_fixed_header_rule_violation fh of Some errcode \<Rightarrow> Some (m, Err errcode)
         | None \<Rightarrow>
           if bufsz = 0 then Some (m, Cnt 0)
           else do {
             m \<leftarrow> store m start (push_bit 4 (of_nat (control_code (control_type fh))) AND 0xF0);
             b \<leftarrow> load m start;
             m \<leftarrow> store m start (b OR (control_flags fh AND 0x0F));
             if remaining_length fh \<ge> 256 * 1024 * 1024
             then Some (m, Err MQTT_ERROR_INVALID_REMAINING_LENGTH)
             else do {
               (m, r) \<leftarrow> pack_length_loop m start bufsz (remaining_length fh);
               (case r of Inl _ \<Rightarrow> Some (m, Cnt 0)
                | Inr (buf, bufsz) \<Rightarrow>
                    let bufsz = bufsz - 1; buf = buf + 1 in
                    if bufsz < unat (remaining_length fh) then Some (m, Cnt 0)
                    else Some (m, Cnt (buf - start)))
             }
           }))"

subsection \<open>Unpacking\<close>

text \<open>
  The \<open>do\<close> loop of the unpacker. \<open>Inl (Err e)\<close> and \<open>Inl (Cnt 0)\<close> are the early returns.
\<close>

function unpack_length_loop ::
    "mem \<Rightarrow> nat \<Rightarrow> nat \<Rightarrow> nat \<Rightarrow> u32 \<Rightarrow> (u32 \<times> (ssize + nat \<times> nat)) option" where
  "unpack_length_loop m buf bufsz lshift rl =
     (if lshift = 28 then Some (rl, Inl (Err MQTT_ERROR_INVALID_REMAINING_LENGTH))
      else if bufsz = 0 then None
      else
        let bufsz = bufsz - 1; buf = buf + 1 in
        if bufsz = 0 then Some (rl, Inl (Cnt 0))
        else do {
          b \<leftarrow> load m buf;
          let rl = rl + push_bit lshift (ucast (b AND 0x7F));
          if b AND 0x80 \<noteq> 0 then unpack_length_loop m buf bufsz (lshift + 7) rl
          else Some (rl, Inr (buf, bufsz))
        })"
  by pat_completeness auto
termination
  by (relation "measure (\<lambda>(m, buf, bufsz, lshift, rl). bufsz)") auto

declare unpack_length_loop.simps [simp del]

text \<open>
  The header is an output parameter: \<open>fh\<close> is its previous value, and the fields assigned before
  an early return keep what was assigned.
\<close>

definition mqtt_unpack_fixed_header ::
    "mqtt_fixed_header \<Rightarrow> mem \<Rightarrow> nat option \<Rightarrow> nat \<Rightarrow> (mqtt_fixed_header \<times> ssize) option" where
  "mqtt_unpack_fixed_header fh m buf bufsz =
     (case buf of None \<Rightarrow> Some (fh, Err MQTT_ERROR_NULLPTR)
      | Some start \<Rightarrow>
      if bufsz = 0 then Some (fh, Cnt 0)
      else do {
        b \<leftarrow> load m start;
        let fh = fh\<lparr>control_type := control_of (drop_bit 4 b), control_flags := b AND 0x0F,
                    remaining_length := 0\<rparr>;
        (rl, r) \<leftarrow> unpack_length_loop m start bufsz 0 0;
        let fh = fh\<lparr>remaining_length := rl\<rparr>;
        (case r of Inl v \<Rightarrow> Some (fh, v)
         | Inr (buf, bufsz) \<Rightarrow>
             let bufsz = bufsz - 1; buf = buf + 1 in
             (case mqtt_fixed_header_rule_violation fh of Some e \<Rightarrow> Some (fh, Err e)
              | None \<Rightarrow>
                  if bufsz < unat (remaining_length fh) then Some (fh, Cnt 0)
                  else Some (fh, Cnt (buf - start))))
      })"

subsection \<open>The encoding\<close>

text \<open>
  Base 128, least significant digit first, every byte but the last with bit 7 set
  (MQTT 3.1.1, section 2.2.3): the specification the two loops are proved against.
\<close>

fun enc_length :: "nat \<Rightarrow> u8 list" where
  "enc_length n = (if n < 128 then [of_nat n] else of_nat (128 + n mod 128) # enc_length (n div 128))"

declare enc_length.simps [simp del]

definition header_byte :: "mqtt_fixed_header \<Rightarrow> u8" where
  "header_byte fh =
     (push_bit 4 (of_nat (control_code (control_type fh))) AND 0xF0) OR (control_flags fh AND 0x0F)"

definition enc_fixed_header :: "mqtt_fixed_header \<Rightarrow> u8 list" where
  "enc_fixed_header fh = header_byte fh # enc_length (unat (remaining_length fh))"

lemma enc_length_nonempty [simp]: "enc_length n \<noteq> []"
  by (subst enc_length.simps) simp

lemma length_enc_length_pos [simp]: "0 < length (enc_length n)"
  by simp

lemma length_enc_length_le: "n < 128 ^ k \<Longrightarrow> 0 < k \<Longrightarrow> length (enc_length n) \<le> k"
proof (induction n arbitrary: k rule: enc_length.induct)
  case (1 n)
  show ?case
  proof (cases "n < 128")
    case True
    with "1.prems" show ?thesis by (subst enc_length.simps) simp
  next
    case False
    from "1.prems" obtain j where k: "k = Suc j" by (cases k) auto
    with "1.prems" False have j: "0 < j" by (cases j) auto
    from "1.prems" k have "n div 128 < 128 ^ j" by (simp add: less_mult_imp_div_less mult.commute)
    with False j "1.IH" have "length (enc_length (n div 128)) \<le> j" by simp
    with False k show ?thesis by (subst enc_length.simps) simp
  qed
qed

lemma length_enc_fixed_header:
  "unat (remaining_length fh) < 2 ^ 28 \<Longrightarrow> length (enc_fixed_header fh) \<le> 5"
  using length_enc_length_le [of "unat (remaining_length fh)" 4] by (simp add: enc_fixed_header_def)

subsection \<open>Bits of one length byte\<close>

lemma gt_127_iff: "(rl :: u32) > 127 \<longleftrightarrow> 128 \<le> unat rl"
  by (auto simp: word_less_nat_alt)

lemma unat_drop_bit_7: "unat (drop_bit 7 (rl :: u32)) = unat rl div 128"
  by (simp add: unat_drop_bit_eq) (simp add: drop_bit_eq_div)

lemma low_7_bits: "(ucast (rl AND 0x7F :: u32) :: u8) = of_nat (unat rl mod 128)"
proof -
  have "take_bit 7 rl = rl AND 0x7F"
    by (simp add: take_bit_eq_mask mask_eq_exp_minus_1)
  then have "unat (rl AND 0x7F) = unat (take_bit 7 rl)" by simp
  then have "unat (rl AND 0x7F) = unat rl mod 128"
    by (simp add: unsigned_take_bit_eq) (simp add: take_bit_eq_mod)
  then have "unat (ucast (rl AND 0x7F) :: u8) = unat rl mod 128"
    by (simp add: unsigned_ucast_eq take_bit_nat_eq_self)
  then have "(of_nat (unat (ucast (rl AND 0x7F) :: u8)) :: u8) = of_nat (unat rl mod 128)"
    by (rule arg_cong)
  then show ?thesis by (simp only: of_nat_unat ucast_id)
qed

lemma low_7_bits_lt: "(ucast (rl AND 0x7F :: u32) :: u8) < 128"
  by (simp add: low_7_bits word_less_nat_alt)

lemma low_7_bits_or: "(ucast (rl AND 0x7F :: u32) :: u8) OR 0x80 = of_nat (128 + unat rl mod 128)"
  using byte_or_0x80 [OF low_7_bits_lt [of rl]] by (simp add: low_7_bits)

lemma low_7_bits_stop: "(ucast (rl AND 0x7F :: u32) :: u8) AND 0x80 = 0"
  using byte_and_0x80 [of "ucast (rl AND 0x7F)"] by (auto simp: low_7_bits not_le [symmetric])

lemmas length_bits = gt_127_iff unat_drop_bit_7 low_7_bits_or or80_and80

subsection \<open>The packer implements the encoding\<close>

lemma pack_length_loop_enc:
  "buf + bufsz \<le> length m \<Longrightarrow> 0 < bufsz \<Longrightarrow>
   pack_length_loop m buf bufsz rl =
     Some (patch m (buf + 1) (take (bufsz - 1) (enc_length (unat rl))),
       if length (enc_length (unat rl)) \<le> bufsz - 1
       then Inr (buf + length (enc_length (unat rl)), bufsz - length (enc_length (unat rl)))
       else Inl ())"
proof (induction m buf bufsz rl rule: pack_length_loop.induct)
  case (2 m buf k rl)
  let ?b = "ucast (rl AND 0x7F) :: u8" and ?enc = "enc_length (unat rl)"
  show ?case
  proof (cases "k = 0")
    case True
    then show ?thesis by simp
  next
    case pos: False
    show ?thesis
    proof (cases "rl > 127")
      case True
      then have enc: "?enc = (?b OR 0x80) # enc_length (unat (drop_bit 7 rl))"
        by (subst enc_length.simps) (simp add: length_bits)
      have "pack_length_loop m buf (Suc k) rl =
          pack_length_loop (patch m (buf + 1) [?b OR 0x80]) (buf + 1) k (drop_bit 7 rl)"
        using pos True "2.prems" by (simp add: mem_simps patch_same or80_and80)
      also have "\<dots> = Some (patch (patch m (buf + 1) [?b OR 0x80]) (buf + 2) (take (k - 1) (tl ?enc)),
          if length ?enc \<le> k then Inr (buf + length ?enc, Suc k - length ?enc) else Inl ())"
        using "2.IH" [of "buf + 1" "patch m (buf + 1) [?b]" ?b "patch m (buf + 1) [?b OR 0x80]"
            "?b OR 0x80" "drop_bit 7 rl"] pos "2.prems" True enc
        by (auto simp: mem_simps patch_same or80_and80)
      finally show ?thesis using pos "2.prems" enc by (simp add: mem_simps take_Cons')
    next
      case False
      then have "?enc = [?b]"
        by (subst enc_length.simps) (simp add: gt_127_iff low_7_bits)
      with pos False "2.prems" show ?thesis by (simp add: mem_simps low_7_bits_stop)
    qed
  qed
qed simp

lemma pack_fixed_header_eq:
  assumes room: "p + bufsz \<le> length m"
    and ok: "mqtt_fixed_header_rule_violation fh = None"
    and len: "unat (remaining_length fh) < 2 ^ 28"
  shows "mqtt_pack_fixed_header m (Some p) bufsz fh =
    Some (patch m p (take bufsz (enc_fixed_header fh)),
      if length (enc_fixed_header fh) + unat (remaining_length fh) \<le> bufsz
      then Cnt (length (enc_fixed_header fh)) else Cnt 0)"
proof (cases "bufsz = 0")
  case True
  with ok show ?thesis by (simp add: mqtt_pack_fixed_header_def enc_fixed_header_def)
next
  case False
  have small: "\<not> 256 * 1024 * 1024 \<le> remaining_length fh"
    using len by (simp add: word_le_nat_alt)
  let ?m = "patch m p [header_byte fh]" and ?enc = "enc_length (unat (remaining_length fh))"
  have "pack_length_loop ?m p bufsz (remaining_length fh) =
      Some (patch m p (take bufsz (enc_fixed_header fh)),
        if length ?enc \<le> bufsz - 1 then Inr (p + length ?enc, bufsz - length ?enc) else Inl ())"
    using False room
    by (subst pack_length_loop_enc) (auto simp: mem_simps enc_fixed_header_def take_Cons')
  with False room ok small show ?thesis
    by (auto simp: mqtt_pack_fixed_header_def mem_simps patch_same header_byte_def [symmetric]
        enc_fixed_header_def)
qed

lemma pack_fixed_header_rule:
  "mqtt_fixed_header_rule_violation fh = Some e \<Longrightarrow>
     mqtt_pack_fixed_header m (Some p) bufsz fh = Some (m, Err e)"
  by (simp add: mqtt_pack_fixed_header_def)

lemma pack_fixed_header_too_long:
  assumes "p + bufsz \<le> length m" "0 < bufsz" "mqtt_fixed_header_rule_violation fh = None"
    and "2 ^ 28 \<le> unat (remaining_length fh)"
  shows "mqtt_pack_fixed_header m (Some p) bufsz fh =
    Some (patch m p [header_byte fh], Err MQTT_ERROR_INVALID_REMAINING_LENGTH)"
  using assms
  by (auto simp: mqtt_pack_fixed_header_def mem_simps patch_same header_byte_def word_le_nat_alt)

subsection \<open>The unpacker\<close>

lemma unat_length_step:
  assumes "lshift < 28" "7 dvd lshift" "unat rl < 2 ^ lshift"
  shows "unat (rl + push_bit lshift (ucast ((b :: u8) AND 0x7F)) :: u32) =
           unat rl + (unat b mod 128) * 2 ^ lshift"
    and "unat rl + (unat b mod 128) * 2 ^ lshift < 2 ^ (lshift + 7)"
proof -
  from assms(1,2) have l: "lshift \<le> 21" by (auto elim!: dvdE)
  then have p: "(2::nat) ^ (lshift + 7) \<le> 2 ^ 28" by (intro power_increasing) auto
  have "unat rl + (unat b mod 128) * 2 ^ lshift < 2 ^ lshift + 127 * 2 ^ lshift"
    using assms(3) by (intro add_less_le_mono mult_right_mono) auto
  then show lt: "unat rl + (unat b mod 128) * 2 ^ lshift < 2 ^ (lshift + 7)"
    by (simp add: power_add)
  have "unat (ucast (b AND 0x7F) :: u32) = unat b mod 128"
    by (simp add: unsigned_ucast_eq byte_and_0x7F take_bit_nat_eq_self)
  then have w: "(ucast (b AND 0x7F) :: u32) = of_nat (unat b mod 128)" by (rule word_of_unat)
  have "rl + push_bit lshift (ucast (b AND 0x7F)) = of_nat (unat rl + (unat b mod 128) * 2 ^ lshift)"
    by (simp only: w push_bit_eq_mult of_nat_add of_nat_mult of_nat_power of_nat_numeral of_nat_unat
        ucast_id)
  moreover have "unat (of_nat (unat rl + (unat b mod 128) * 2 ^ lshift) :: u32) =
      unat rl + (unat b mod 128) * 2 ^ lshift"
    by (rule unat_of_nat_small) (use lt p in simp)
  ultimately show "unat (rl + push_bit lshift (ucast (b AND 0x7F))) =
      unat rl + (unat b mod 128) * 2 ^ lshift"
    by (simp only:)
qed

text \<open>
  On any bytes the loop stays inside the \<open>bufsz\<close> bytes it was given, reads at most four length
  bytes, and leaves a length below \<open>2 ^ 28\<close>.
\<close>

definition length_loop_result :: "nat \<Rightarrow> nat \<Rightarrow> nat \<Rightarrow> ssize + nat \<times> nat \<Rightarrow> bool" where
  "length_loop_result buf bufsz lshift r \<longleftrightarrow>
     (case r of Inl v \<Rightarrow> v = Cnt 0 \<or> v = Err MQTT_ERROR_INVALID_REMAINING_LENGTH
      | Inr (buf', bufsz') \<Rightarrow>
          0 < bufsz' \<and> buf < buf' \<and> buf' + bufsz' = buf + bufsz \<and> buf' + lshift div 7 \<le> buf + 4)"

lemma length_loop_result_step:
  "length_loop_result (buf + 1) (bufsz - 1) (lshift + 7) r \<Longrightarrow> 0 < bufsz \<Longrightarrow>
     length_loop_result buf bufsz lshift r"
  by (auto simp: length_loop_result_def split: sum.splits)

lemma unpack_length_loop_safe:
  "buf + bufsz \<le> length m \<Longrightarrow> 0 < bufsz \<Longrightarrow> lshift \<le> 28 \<Longrightarrow> 7 dvd lshift \<Longrightarrow>
   unat rl < 2 ^ lshift \<Longrightarrow>
   \<exists>rl' r. unpack_length_loop m buf bufsz lshift rl = Some (rl', r) \<and> unat rl' < 2 ^ 28 \<and>
     length_loop_result buf bufsz lshift r"
proof (induction m buf bufsz lshift rl rule: unpack_length_loop.induct)
  case (1 m buf bufsz lshift rl)
  show ?case
  proof (cases "lshift = 28 \<or> bufsz = 1")
    case True
    with "1.prems" power_increasing [of lshift 28 "2::nat"] show ?thesis
      by (subst unpack_length_loop.simps) (auto simp: length_loop_result_def intro: less_le_trans)
  next
    case False
    with "1.prems" have lt: "lshift < 28" and sz: "1 < bufsz" "buf + 1 < length m" by auto
    then obtain b where b: "load m (buf + 1) = Some b" by (simp add: load_def)
    let ?rl = "rl + push_bit lshift (ucast (b AND 0x7F))"
    have rl: "unat ?rl < 2 ^ (lshift + 7)"
      using unat_length_step [OF lt "1.prems"(4,5), of b] by simp
    from lt "1.prems"(4) have l: "lshift + 7 \<le> 28" "7 dvd lshift + 7" by (auto elim!: dvdE)
    show ?thesis
    proof (cases "b AND 0x80 = 0")
      case True
      from rl l power_increasing [of "lshift + 7" 28 "2::nat"] have "unat ?rl < 2 ^ 28"
        by (auto intro: less_le_trans)
      moreover from l have "Suc (lshift div 7) \<le> 4" by (auto elim!: dvdE)
      ultimately show ?thesis
        using True False lt sz b "1.prems"
        by (subst unpack_length_loop.simps) (auto simp: length_loop_result_def)
    next
      case cont: False
      have "\<exists>rl' r. unpack_length_loop m (buf + 1) (bufsz - 1) (lshift + 7) ?rl = Some (rl', r) \<and>
          unat rl' < 2 ^ 28 \<and> length_loop_result (buf + 1) (bufsz - 1) (lshift + 7) r"
        using False lt sz b cont l rl "1.prems" by (intro "1.IH") auto
      moreover have "unpack_length_loop m buf bufsz lshift rl =
          unpack_length_loop m (buf + 1) (bufsz - 1) (lshift + 7) ?rl"
        using False lt sz b cont by (subst unpack_length_loop.simps) simp
      ultimately show ?thesis
        using length_loop_result_step [of buf bufsz lshift] "1.prems"(2) by auto
    qed
  qed
qed

text \<open>On an encoded length followed by anything, the loop recovers the length.\<close>

lemma unpack_length_loop_enc:
  "at_mem m (buf + 1) (enc_length n) \<Longrightarrow> length (enc_length n) < bufsz \<Longrightarrow>
   lshift < 28 \<Longrightarrow> 7 dvd lshift \<Longrightarrow> n * 2 ^ lshift < 2 ^ 28 \<Longrightarrow> unat rl < 2 ^ lshift \<Longrightarrow>
   \<exists>rl'. unpack_length_loop m buf bufsz lshift rl =
       Some (rl', Inr (buf + length (enc_length n), bufsz - length (enc_length n))) \<and>
     unat rl' = unat rl + n * 2 ^ lshift"
proof (induction n arbitrary: buf bufsz lshift rl rule: enc_length.induct)
  case (1 n)
  show ?case
  proof (cases "n < 128")
    case True
    then have enc: "enc_length n = [of_nat n]" by (subst enc_length.simps) simp
    with True "1.prems" have b: "load m (Suc buf) = Some (of_nat n)" by (simp add: at_mem_Cons)
    have u: "unat (of_nat n :: u8) mod 128 = n" using True by simp
    have "(of_nat n :: u8) AND 0x80 = 0" using True byte_and_0x80 [of "of_nat n"] by auto
    with enc b u "1.prems" unat_length_step [of lshift rl "of_nat n"] show ?thesis
      by (subst unpack_length_loop.simps) auto
  next
    case False
    let ?b = "of_nat (128 + n mod 128) :: u8"
    let ?rl = "rl + push_bit lshift (ucast (?b AND 0x7F))"
    have enc: "enc_length n = ?b # enc_length (n div 128)"
      using False by (subst enc_length.simps) simp
    have ub: "unat ?b = 128 + n mod 128"
      using mod_less_divisor [of 128 n] by (intro unat_of_nat_small) (simp del: mod_less_divisor)
    have digits: "n * 2 ^ lshift = (n mod 128) * 2 ^ lshift + (n div 128) * 2 ^ (lshift + 7)"
    proof -
      have "n * 2 ^ lshift = (n mod 128 + 128 * (n div 128)) * 2 ^ lshift" by simp
      then show ?thesis by (simp only: distrib_right power_add) simp
    qed
    have lt: "lshift + 7 < 28"
    proof (rule ccontr)
      assume "\<not> lshift + 7 < 28"
      then have "(2::nat) ^ 28 \<le> 2 ^ (lshift + 7)" by (intro power_increasing) auto
      also have "\<dots> \<le> n * 2 ^ lshift" using False by (simp add: power_add)
      finally show False using "1.prems"(5) by simp
    qed
    have sz: "length (enc_length (n div 128)) < bufsz - 1" using "1.prems"(2) enc by simp
    note step = unat_length_step [OF "1.prems"(3,4,6), of ?b]
    have "\<exists>rl'. unpack_length_loop m (buf + 1) (bufsz - 1) (lshift + 7) ?rl =
        Some (rl', Inr (buf + 1 + length (enc_length (n div 128)),
          bufsz - 1 - length (enc_length (n div 128)))) \<and>
        unat rl' = unat ?rl + (n div 128) * 2 ^ (lshift + 7)"
      using False "1.prems" enc lt digits step ub sz by (intro "1.IH") (auto simp: at_mem_Cons)
    moreover have "unpack_length_loop m buf bufsz lshift rl =
        unpack_length_loop m (buf + 1) (bufsz - 1) (lshift + 7) ?rl"
      using "1.prems" enc ub byte_and_0x80 [of ?b]
      by (subst unpack_length_loop.simps) (auto simp: at_mem_Cons)
    ultimately show ?thesis using enc digits step(1) ub by auto
  qed
qed

subsection \<open>Unpacking a whole header\<close>

lemma drop_4_low_nibble: "drop_bit 4 ((b :: u8) AND 0x0F) = 0"
proof -
  have "\<forall>b::u8. drop_bit 4 (b AND 0x0F) = 0" unfolding all_u8 by code_simp
  then show ?thesis by blast
qed

lemma header_byte_type [simp]: "control_of (drop_bit 4 (header_byte fh)) = control_type fh"
proof -
  have "drop_bit 4 (push_bit 4 (of_nat (control_code t)) AND 0xF0) = (of_nat (control_code t) :: u8)" for t
    by (cases t) simp_all
  then have "drop_bit 4 (header_byte fh) = of_nat (control_code (control_type fh))"
    by (simp add: header_byte_def drop_bit_or drop_4_low_nibble)
  then show ?thesis by simp
qed

lemma header_byte_flags [simp]: "header_byte fh AND 0x0F = control_flags fh AND 0x0F"
proof -
  have "push_bit 4 (of_nat (control_code t)) AND 0xF0 AND 0x0F = (0 :: u8)" for t
    by (cases t) simp_all
  then show ?thesis by (simp add: header_byte_def bit.conj_disj_distrib2 and.assoc)
qed

text \<open>
  On any received bytes: the unpacker never reads past \<open>bufsz\<close>; when it reports a positive count,
  the header it filled in obeys the flag rules and the whole packet has arrived.
\<close>

lemma unpack_fixed_header_safe:
  assumes "start + bufsz \<le> length m"
  shows "\<exists>fh' r. mqtt_unpack_fixed_header fh m (Some start) bufsz = Some (fh', r) \<and>
    (\<forall>k. r = Cnt k \<longrightarrow> k = 0 \<or>
       2 \<le> k \<and> k \<le> 5 \<and> k + unat (remaining_length fh') \<le> bufsz \<and>
       unat (remaining_length fh') < 2 ^ 28 \<and> mqtt_fixed_header_rule_violation fh' = None)"
proof (cases "bufsz = 0")
  case True
  then show ?thesis by (simp add: mqtt_unpack_fixed_header_def)
next
  case False
  with assms obtain b where b: "load m start = Some b" by (simp add: load_def)
  from unpack_length_loop_safe [of start bufsz m 0 0] assms False
  obtain rl r where loop: "unpack_length_loop m start bufsz 0 0 = Some (rl, r)"
    and rl: "unat rl < 2 ^ 28" and r: "length_loop_result start bufsz 0 r" by auto
  from b loop rl r False show ?thesis
    by (auto simp: mqtt_unpack_fixed_header_def length_loop_result_def Let_def
        split: sum.splits option.splits)
qed

text \<open>The round trip: a packed header is unpacked to itself.\<close>

lemma unpack_fixed_header_enc:
  assumes at: "at_mem m start (enc_fixed_header fh)"
    and ok: "mqtt_fixed_header_rule_violation fh = None"
    and flags: "control_flags fh AND 0x0F = control_flags fh"
    and rl: "unat (remaining_length fh) < 2 ^ 28"
    and room: "length (enc_fixed_header fh) + unat (remaining_length fh) \<le> bufsz"
  shows "mqtt_unpack_fixed_header fh0 m (Some start) bufsz = Some (fh, Cnt (length (enc_fixed_header fh)))"
proof -
  let ?enc = "enc_length (unat (remaining_length fh))"
  from at have b: "load m start = Some (header_byte fh)" and l: "at_mem m (start + 1) ?enc"
    by (simp_all add: enc_fixed_header_def at_mem_Cons)
  from room have sz: "length ?enc < bufsz" by (simp add: enc_fixed_header_def)
  from unpack_length_loop_enc [OF l sz, of 0 0] rl
  obtain rl' where loop: "unpack_length_loop m start bufsz 0 0 =
      Some (rl', Inr (start + length ?enc, bufsz - length ?enc))"
    and "unat rl' = unat (remaining_length fh)" by auto
  then have "rl' = remaining_length fh" by (simp add: word_unat_eq_iff)
  moreover have "mqtt_fixed_header_rule_violation (fh0\<lparr>control_type := control_type fh,
      control_flags := control_flags fh, remaining_length := remaining_length fh\<rparr>) = None"
    using ok by (simp add: mqtt_fixed_header_rule_violation_def)
  ultimately show ?thesis using b loop sz room ok flags
    by (simp add: mqtt_unpack_fixed_header_def enc_fixed_header_def Let_def)
qed

end
