(* ===== verification/Mqtt_Pack.thy ===== *)
theory Mqtt_Pack
  imports Mqtt_Fixed_Header
begin

text \<open>
  The request packers of \<open>src/mqtt-c/src/mqtt.c\<close>: CONNECT, PUBLISH, PUBACK/PUBREC/PUBREL/PUBCOMP,
  SUBSCRIBE, UNSUBSCRIBE, PINGREQ and DISCONNECT, and the packets they are proved to write.

  A \<open>const char*\<close> argument is the bytes before the terminating zero, \<open>None\<close> for \<open>NULL\<close>. A
  \<open>const void*\<close> argument is the bytes of the object it points to, so that copying more bytes than
  the object holds is undefined behaviour (\<open>None\<close>). Buffer pointers are offsets into the send
  buffer, \<open>None\<close> for \<open>NULL\<close>. Sums of sizes are only used after a cast to \<open>uint32_t\<close>, which takes
  them modulo \<open>2 ^ 32\<close> whatever the width of \<open>size_t\<close>.
\<close>

unbundle bit_operations_syntax

type_synonym cstring = "u8 list"

subsection \<open>Integers and strings\<close>

text \<open>\<open>__mqtt_pack_uint16\<close>: network byte order.\<close>

definition be16 :: "u16 \<Rightarrow> u8 list" where
  "be16 w = [ucast (drop_bit 8 w), ucast w]"

definition mqtt_pack_uint16 :: "mem \<times> nat \<Rightarrow> u16 \<Rightarrow> (mem \<times> nat) option" where
  "mqtt_pack_uint16 s integer = put s (be16 integer)"

definition mqtt_packed_cstrlen :: "cstring \<Rightarrow> nat" where
  "mqtt_packed_cstrlen x = 2 + length x"

text \<open>The length is cast to \<open>uint16_t\<close> and bounds the copy loop.\<close>

definition mqtt_pack_str :: "mem \<times> nat \<Rightarrow> cstring \<Rightarrow> (mem \<times> nat) option" where
  "mqtt_pack_str s str =
     do { let len = of_nat (length str);
          s \<leftarrow> mqtt_pack_uint16 s len;
          put s (take (unat len) str) }"

text \<open>\<open>memcpy(buf, src, n); buf += n\<close>\<close>

definition put_object :: "mem \<times> nat \<Rightarrow> u8 list \<Rightarrow> nat \<Rightarrow> (mem \<times> nat) option" where
  "put_object s src n = do { bs \<leftarrow> read_bytes src 0 n; put s bs }"

subsection \<open>The common frame of a packer\<close>

text \<open>
  Every packer with a body does the same around it: pack the fixed header, return its result when
  it is not positive, advance, check the room again, write the body at the cursor and return the
  number of bytes written.
\<close>

definition with_fixed_header ::
    "mem \<Rightarrow> nat option \<Rightarrow> nat \<Rightarrow> mqtt_fixed_header \<Rightarrow> (mem \<times> nat \<Rightarrow> (mem \<times> nat) option)
       \<Rightarrow> (mem \<times> ssize) option" where
  "with_fixed_header m buf bufsz fh body =
     do { (m, rv) \<leftarrow> mqtt_pack_fixed_header m buf bufsz fh;
          (case rv of
             Err e \<Rightarrow> Some (m, Err e)
           | Cnt n \<Rightarrow>
               if n = 0 then Some (m, Cnt 0)
               else if bufsz - n < unat (remaining_length fh) then Some (m, Cnt 0)
               else do { start \<leftarrow> buf;
                         (m, buf) \<leftarrow> body (m, start + n);
                         Some (m, Cnt (buf - start)) }) }"

subsection \<open>CONNECT\<close>

definition MQTT_CONNECT_RESERVED :: u8 where "MQTT_CONNECT_RESERVED = 1"
definition MQTT_CONNECT_CLEAN_SESSION :: u8 where "MQTT_CONNECT_CLEAN_SESSION = 2"
definition MQTT_CONNECT_WILL_FLAG :: u8 where "MQTT_CONNECT_WILL_FLAG = 4"
definition MQTT_CONNECT_WILL_RETAIN :: u8 where "MQTT_CONNECT_WILL_RETAIN = 32"
definition MQTT_CONNECT_PASSWORD :: u8 where "MQTT_CONNECT_PASSWORD = 64"
definition MQTT_CONNECT_USER_NAME :: u8 where "MQTT_CONNECT_USER_NAME = 128"
definition MQTT_PROTOCOL_LEVEL :: u8 where "MQTT_PROTOCOL_LEVEL = 4"

record will =
  will_topic :: "cstring option"
  will_message :: "u8 list option"
  will_message_size :: nat

text \<open>
  The first half of \<open>mqtt_pack_connection_request\<close>: the flags actually sent and the remaining
  length, or the error return.
\<close>

definition connect_flags_and_length ::
    "cstring \<Rightarrow> will \<Rightarrow> cstring option \<Rightarrow> cstring option \<Rightarrow> u8 \<Rightarrow> MQTTErrors + u8 \<times> nat" where
  "connect_flags_and_length client_id w user_name password flags =
     (let flags = flags AND NOT MQTT_CONNECT_RESERVED;
          len = 10 in
      if client_id = [] \<and> flags AND MQTT_CONNECT_CLEAN_SESSION = 0
      then Inl MQTT_ERROR_CLEAN_SESSION_IS_REQUIRED
      else
        let len = len + mqtt_packed_cstrlen client_id;
            will_part =
              (case will_topic w of
                 Some topic \<Rightarrow>
                   let flags = flags OR MQTT_CONNECT_WILL_FLAG;
                       len = len + mqtt_packed_cstrlen topic in
                   if will_message w = None then Inl MQTT_ERROR_CONNECT_NULL_WILL_MESSAGE
                   else
                     let len = len + 2 + will_message_size w in
                     if flags AND 0x18 = 0x18 then Inl MQTT_ERROR_CONNECT_FORBIDDEN_WILL_QOS
                     else Inr (flags, len)
               | None \<Rightarrow>
                   Inr (flags AND NOT MQTT_CONNECT_WILL_FLAG AND NOT 0x18
                          AND NOT MQTT_CONNECT_WILL_RETAIN, len))
        in case will_part of Inl e \<Rightarrow> Inl e
           | Inr (flags, len) \<Rightarrow>
               let (flags, len) =
                     (case user_name of
                        Some u \<Rightarrow> (flags OR MQTT_CONNECT_USER_NAME, len + mqtt_packed_cstrlen u)
                      | None \<Rightarrow> (flags AND NOT MQTT_CONNECT_USER_NAME, len));
                   (flags, len) =
                     (case password of
                        Some p \<Rightarrow> (flags OR MQTT_CONNECT_PASSWORD, len + mqtt_packed_cstrlen p)
                      | None \<Rightarrow> (flags AND NOT MQTT_CONNECT_PASSWORD, len))
               in Inr (flags, len))"

text \<open>The second half: the variable header and the payload at the cursor.\<close>

definition connect_body ::
    "cstring \<Rightarrow> will \<Rightarrow> cstring option \<Rightarrow> cstring option \<Rightarrow> u8 \<Rightarrow> u16 \<Rightarrow> mem \<times> nat
       \<Rightarrow> (mem \<times> nat) option" where
  "connect_body client_id w user_name password flags keep_alive s =
     do { s \<leftarrow> put s [0x00, 0x04, 0x4D, 0x51, 0x54, 0x54, MQTT_PROTOCOL_LEVEL, flags];
          s \<leftarrow> mqtt_pack_uint16 s keep_alive;
          s \<leftarrow> mqtt_pack_str s client_id;
          s \<leftarrow> (if flags AND MQTT_CONNECT_WILL_FLAG \<noteq> 0 then
                 do { topic \<leftarrow> will_topic w;
                      s \<leftarrow> mqtt_pack_str s topic;
                      s \<leftarrow> mqtt_pack_uint16 s (of_nat (will_message_size w));
                      msg \<leftarrow> will_message w;
                      put_object s msg (will_message_size w) }
               else Some s);
          s \<leftarrow> (if flags AND MQTT_CONNECT_USER_NAME \<noteq> 0
               then do { u \<leftarrow> user_name; mqtt_pack_str s u } else Some s);
          (if flags AND MQTT_CONNECT_PASSWORD \<noteq> 0
           then do { p \<leftarrow> password; mqtt_pack_str s p } else Some s) }"

definition mqtt_pack_connection_request ::
    "mem \<Rightarrow> nat option \<Rightarrow> nat \<Rightarrow> cstring option \<Rightarrow> will \<Rightarrow> cstring option \<Rightarrow> cstring option
       \<Rightarrow> u8 \<Rightarrow> u16 \<Rightarrow> (mem \<times> ssize) option" where
  "mqtt_pack_connection_request m buf bufsz client_id w user_name password flags keep_alive =
     (let client_id = (case client_id of None \<Rightarrow> [] | Some c \<Rightarrow> c) in
      case connect_flags_and_length client_id w user_name password flags of
        Inl e \<Rightarrow> Some (m, Err e)
      | Inr (flags, len) \<Rightarrow>
          with_fixed_header m buf bufsz
            \<lparr>control_type = MQTT_CONTROL_CONNECT, control_flags = 0, remaining_length = of_nat len\<rparr>
            (connect_body client_id w user_name password flags keep_alive))"

subsection \<open>DISCONNECT and PINGREQ\<close>

definition mqtt_pack_disconnect :: "mem \<Rightarrow> nat option \<Rightarrow> nat \<Rightarrow> (mem \<times> ssize) option" where
  "mqtt_pack_disconnect m buf bufsz =
     mqtt_pack_fixed_header m buf bufsz
       \<lparr>control_type = MQTT_CONTROL_DISCONNECT, control_flags = 0, remaining_length = 0\<rparr>"

definition mqtt_pack_ping_request :: "mem \<Rightarrow> nat option \<Rightarrow> nat \<Rightarrow> (mem \<times> ssize) option" where
  "mqtt_pack_ping_request m buf bufsz =
     mqtt_pack_fixed_header m buf bufsz
       \<lparr>control_type = MQTT_CONTROL_PINGREQ, control_flags = 0, remaining_length = 0\<rparr>"

subsection \<open>PUBLISH\<close>

definition MQTT_PUBLISH_DUP :: u8 where "MQTT_PUBLISH_DUP = 8"
definition MQTT_PUBLISH_QOS_MASK :: u8 where "MQTT_PUBLISH_QOS_MASK = 6"
definition MQTT_PUBLISH_RETAIN :: u8 where "MQTT_PUBLISH_RETAIN = 1"

text \<open>\<open>(flags & MQTT_PUBLISH_QOS_MASK) >> 1\<close>\<close>

definition publish_qos :: "u8 \<Rightarrow> u8" where
  "publish_qos flags = drop_bit 1 (flags AND MQTT_PUBLISH_QOS_MASK)"

definition mqtt_pack_publish_request ::
    "mem \<Rightarrow> nat option \<Rightarrow> nat \<Rightarrow> cstring option \<Rightarrow> u16 \<Rightarrow> u8 list \<Rightarrow> nat \<Rightarrow> u8
       \<Rightarrow> (mem \<times> ssize) option" where
  "mqtt_pack_publish_request m buf bufsz topic_name packet_id message message_size publish_flags =
     (case (buf, topic_name) of
        (Some start, Some topic) \<Rightarrow>
          let inspected_qos = publish_qos publish_flags;
              len = (of_nat (mqtt_packed_cstrlen topic) :: u32);
              len = (if inspected_qos > 0 then len + 2 else len);
              len = len + of_nat message_size;
              publish_flags = (if inspected_qos = 0 then publish_flags AND NOT MQTT_PUBLISH_DUP
                               else publish_flags)
          in
          if inspected_qos = 3 then Some (m, Err MQTT_ERROR_PUBLISH_FORBIDDEN_QOS)
          else
            with_fixed_header m buf bufsz
              \<lparr>control_type = MQTT_CONTROL_PUBLISH, control_flags = publish_flags AND 0x7,
               remaining_length = len\<rparr>
              (\<lambda>s. do { s \<leftarrow> mqtt_pack_str s topic;
                        s \<leftarrow> (if inspected_qos > 0 then mqtt_pack_uint16 s packet_id else Some s);
                        put_object s message message_size })
      | _ \<Rightarrow> Some (m, Err MQTT_ERROR_NULLPTR))"

subsection \<open>PUBACK, PUBREC, PUBREL, PUBCOMP\<close>

definition mqtt_pack_pubxxx_request ::
    "mem \<Rightarrow> nat option \<Rightarrow> nat \<Rightarrow> MQTTControlPacketType \<Rightarrow> u16 \<Rightarrow> (mem \<times> ssize) option" where
  "mqtt_pack_pubxxx_request m buf bufsz ctype packet_id =
     (case buf of None \<Rightarrow> Some (m, Err MQTT_ERROR_NULLPTR)
      | Some _ \<Rightarrow>
          with_fixed_header m buf bufsz
            \<lparr>control_type = ctype, control_flags = (if ctype = MQTT_CONTROL_PUBREL then 0x02 else 0),
             remaining_length = 2\<rparr>
            (\<lambda>s. mqtt_pack_uint16 s packet_id))"

subsection \<open>SUBSCRIBE and UNSUBSCRIBE\<close>

text \<open>
  The variable arguments up to the terminating \<open>NULL\<close>, as a list. The loop stores one, counts it
  and gives up when the count reaches the size of its arrays.
\<close>

fun collect_topics :: "nat \<Rightarrow> nat \<Rightarrow> 'a list \<Rightarrow> 'a list option" where
  "collect_topics limit num [] = Some []"
| "collect_topics limit num (t # ts) =
     (if Suc num \<ge> limit then None else map_option (Cons t) (collect_topics limit (Suc num) ts))"

definition MQTT_SUBSCRIBE_REQUEST_MAX_NUM_TOPICS :: nat where
  "MQTT_SUBSCRIBE_REQUEST_MAX_NUM_TOPICS = 8"

definition MQTT_UNSUBSCRIBE_REQUEST_MAX_NUM_TOPICS :: nat where
  "MQTT_UNSUBSCRIBE_REQUEST_MAX_NUM_TOPICS = 8"

fun put_subscriptions :: "mem \<times> nat \<Rightarrow> (cstring \<times> u8) list \<Rightarrow> (mem \<times> nat) option" where
  "put_subscriptions s [] = Some s"
| "put_subscriptions s ((topic, max_qos) # ts) =
     do { s \<leftarrow> mqtt_pack_str s topic; s \<leftarrow> put s [max_qos]; put_subscriptions s ts }"

fun put_topics :: "mem \<times> nat \<Rightarrow> cstring list \<Rightarrow> (mem \<times> nat) option" where
  "put_topics s [] = Some s"
| "put_topics s (topic # ts) = do { s \<leftarrow> mqtt_pack_str s topic; put_topics s ts }"

definition mqtt_pack_subscribe_request ::
    "mem \<Rightarrow> nat option \<Rightarrow> nat \<Rightarrow> u32 \<Rightarrow> (cstring \<times> u8) list \<Rightarrow> (mem \<times> ssize) option" where
  "mqtt_pack_subscribe_request m buf bufsz packet_id args =
     (case collect_topics MQTT_SUBSCRIBE_REQUEST_MAX_NUM_TOPICS 0 args of
        None \<Rightarrow> Some (m, Err MQTT_ERROR_SUBSCRIBE_TOO_MANY_TOPICS)
      | Some subs \<Rightarrow>
          with_fixed_header m buf bufsz
            \<lparr>control_type = MQTT_CONTROL_SUBSCRIBE, control_flags = 2,
             remaining_length =
               foldl (\<lambda>rl (topic, _). rl + of_nat (mqtt_packed_cstrlen topic + 1)) 2 subs\<rparr>
            (\<lambda>s. do { s \<leftarrow> mqtt_pack_uint16 s (ucast packet_id); put_subscriptions s subs }))"

definition mqtt_pack_unsubscribe_request ::
    "mem \<Rightarrow> nat option \<Rightarrow> nat \<Rightarrow> u32 \<Rightarrow> cstring list \<Rightarrow> (mem \<times> ssize) option" where
  "mqtt_pack_unsubscribe_request m buf bufsz packet_id args =
     (case collect_topics MQTT_UNSUBSCRIBE_REQUEST_MAX_NUM_TOPICS 0 args of
        None \<Rightarrow> Some (m, Err MQTT_ERROR_UNSUBSCRIBE_TOO_MANY_TOPICS)
      | Some topics \<Rightarrow>
          with_fixed_header m buf bufsz
            \<lparr>control_type = MQTT_CONTROL_UNSUBSCRIBE, control_flags = 2,
             remaining_length =
               foldl (\<lambda>rl topic. rl + of_nat (mqtt_packed_cstrlen topic)) 2 topics\<rparr>
            (\<lambda>s. do { s \<leftarrow> mqtt_pack_uint16 s (ucast packet_id); put_topics s topics }))"

subsection \<open>The packets written\<close>

text \<open>
  Every packer is proved equal to one cursor write of the packet's bytes: a string is its
  big-endian length and its bytes, a packet its fixed header and its body.
\<close>

definition enc_str :: "cstring \<Rightarrow> u8 list" where
  "enc_str s = be16 (of_nat (length s)) @ s"

lemma pack_str_put: "length s < 65536 \<Longrightarrow> mqtt_pack_str c s = put c (enc_str s)"
  by (simp add: mqtt_pack_str_def mqtt_pack_uint16_def enc_str_def mem_simps)

lemma put_object_put: "put_object c src (length src) = put c src"
  by (simp add: put_object_def read_bytes_def)

lemma with_fixed_header_put:
  assumes room: "p + bufsz \<le> length m"
    and ok: "mqtt_fixed_header_rule_violation fh = None"
    and len: "unat (remaining_length fh) = length bs" "length bs < 2 ^ 28"
    and body: "\<And>s. body s = put s bs"
  shows "with_fixed_header m (Some p) bufsz fh body =
    Some (if length (enc_fixed_header fh @ bs) \<le> bufsz
      then (patch m p (enc_fixed_header fh @ bs), Cnt (length (enc_fixed_header fh @ bs)))
      else (patch m p (take bufsz (enc_fixed_header fh)), Cnt 0))"
proof -
  have ne: "0 < length (enc_fixed_header fh)" by (simp add: enc_fixed_header_def)
  show ?thesis
  proof (cases "length (enc_fixed_header fh @ bs) \<le> bufsz")
    case True
    with pack_fixed_header_eq [OF room ok] len ne room show ?thesis
      by (simp add: with_fixed_header_def body mem_simps)
  next
    case False
    with pack_fixed_header_eq [OF room ok] len show ?thesis
      by (simp add: with_fixed_header_def)
  qed
qed

text \<open>A packer that writes \<open>pkt\<close>, or reports that the room is too small.\<close>

definition packs :: "(mem \<times> ssize) option \<Rightarrow> mem \<Rightarrow> nat \<Rightarrow> nat \<Rightarrow> u8 list \<Rightarrow> bool" where
  "packs res m p bufsz pkt \<longleftrightarrow>
     (if length pkt \<le> bufsz then res = Some (patch m p pkt, Cnt (length pkt))
      else \<exists>bs. length bs \<le> bufsz \<and> res = Some (patch m p bs, Cnt 0))"

lemma with_fixed_header_packs:
  assumes "p + bufsz \<le> length m" "mqtt_fixed_header_rule_violation fh = None"
    and "unat (remaining_length fh) = length bs" "length bs < 2 ^ 28" "\<And>s. body s = put s bs"
  shows "packs (with_fixed_header m (Some p) bufsz fh body) m p bufsz (enc_fixed_header fh @ bs)"
  unfolding packs_def with_fixed_header_put [OF assms]
  by (auto intro: exI [of _ "take bufsz (enc_fixed_header fh)"])

lemma fixed_header_packs:
  assumes "p + bufsz \<le> length m" "mqtt_fixed_header_rule_violation fh = None"
    and "remaining_length fh = 0"
  shows "packs (mqtt_pack_fixed_header m (Some p) bufsz fh) m p bufsz (enc_fixed_header fh)"
  using pack_fixed_header_eq [OF assms(1,2)] assms(3)
  by (auto simp: packs_def intro: exI [of _ "take bufsz (enc_fixed_header fh)"])

lemma length_be16 [simp]: "length (be16 w) = 2"
  by (simp add: be16_def)

lemma length_enc_str [simp]: "length (enc_str s) = mqtt_packed_cstrlen s"
  by (simp add: enc_str_def mqtt_packed_cstrlen_def)

subsection \<open>Packets\<close>

definition enc_pubxxx :: "MQTTControlPacketType \<Rightarrow> u16 \<Rightarrow> u8 list" where
  "enc_pubxxx ct pid =
     enc_fixed_header \<lparr>control_type = ct, control_flags = (if ct = MQTT_CONTROL_PUBREL then 2 else 0),
       remaining_length = 2\<rparr> @ be16 pid"

definition publish_body :: "u8 \<Rightarrow> cstring \<Rightarrow> u16 \<Rightarrow> u8 list \<Rightarrow> u8 list" where
  "publish_body flags topic pid msg =
     enc_str topic @ (if publish_qos flags > 0 then be16 pid else []) @ msg"

definition enc_publish :: "u8 \<Rightarrow> cstring \<Rightarrow> u16 \<Rightarrow> u8 list \<Rightarrow> u8 list" where
  "enc_publish flags topic pid msg =
     enc_fixed_header \<lparr>control_type = MQTT_CONTROL_PUBLISH, control_flags = flags AND 7,
       remaining_length = of_nat (length (publish_body flags topic pid msg))\<rparr>
     @ publish_body flags topic pid msg"

lemma pubxxx_packs:
  assumes "p + bufsz \<le> length m"
    and "ct \<in> {MQTT_CONTROL_PUBACK, MQTT_CONTROL_PUBREC, MQTT_CONTROL_PUBREL, MQTT_CONTROL_PUBCOMP}"
  shows "packs (mqtt_pack_pubxxx_request m (Some p) bufsz ct pid) m p bufsz (enc_pubxxx ct pid)"
  unfolding mqtt_pack_pubxxx_request_def enc_pubxxx_def option.case
  using assms
  by (intro with_fixed_header_packs)
    (auto simp: mqtt_fixed_header_rule_violation_def control_type_is_valid_def required_flags_def
      mask_required_flags_def mqtt_pack_uint16_def)

lemma publish_rules [simp]:
  "mqtt_fixed_header_rule_violation
     \<lparr>control_type = MQTT_CONTROL_PUBLISH, control_flags = f, remaining_length = n\<rparr> = None"
  by (simp add: mqtt_fixed_header_rule_violation_def control_type_is_valid_def mask_required_flags_def)

lemma length_publish_body:
  "length (publish_body flags topic pid msg) =
     mqtt_packed_cstrlen topic + (if publish_qos flags > 0 then 2 else 0) + length msg"
  by (simp add: publish_body_def)

lemma publish_flags_dup:
  "(if publish_qos flags = 0 then flags AND NOT MQTT_PUBLISH_DUP else flags) AND 7 = flags AND 7"
proof -
  have "\<forall>f::u8. (f AND NOT 8) AND 7 = f AND 7" unfolding all_u8 by code_simp
  then show ?thesis
    by (cases "publish_qos flags = 0") (simp_all only: if_True if_False MQTT_PUBLISH_DUP_def simp_thms)
qed

lemma publish_packs:
  assumes "p + bufsz \<le> length m" "length topic < 65536" "publish_qos flags \<noteq> 3"
    and "length (publish_body flags topic pid msg) < 2 ^ 28"
  shows "packs (mqtt_pack_publish_request m (Some p) bufsz (Some topic) pid msg (length msg) flags)
    m p bufsz (enc_publish flags topic pid msg)"
proof -
  let ?len = "length (publish_body flags topic pid msg)"
  let ?qos = "publish_qos flags"
  have rl: "(if ?qos > 0 then of_nat (mqtt_packed_cstrlen topic) + 2 else of_nat (mqtt_packed_cstrlen topic))
      + of_nat (length msg) = (of_nat ?len :: u32)"
    by (simp add: length_publish_body)
  have body: "do { s \<leftarrow> mqtt_pack_str s topic;
                   s \<leftarrow> (if ?qos > 0 then mqtt_pack_uint16 s pid else Some s);
                   put_object s msg (length msg) } = put s (publish_body flags topic pid msg)" for s
    using assms(2) by (simp add: pack_str_put put_object_put mqtt_pack_uint16_def publish_body_def mem_simps)
  have "mqtt_pack_publish_request m (Some p) bufsz (Some topic) pid msg (length msg) flags =
      with_fixed_header m (Some p) bufsz
        \<lparr>control_type = MQTT_CONTROL_PUBLISH, control_flags = flags AND 7, remaining_length = of_nat ?len\<rparr>
        (\<lambda>s. put s (publish_body flags topic pid msg))"
    by (simp only: mqtt_pack_publish_request_def Let_def option.case prod.case rl publish_flags_dup body assms(3) if_False)
  then show ?thesis
    unfolding enc_publish_def using assms by (simp only:) (rule with_fixed_header_packs; simp)
qed

lemma publish_forbidden_qos:
  "publish_qos flags = 3 \<Longrightarrow>
     mqtt_pack_publish_request m (Some p) bufsz (Some topic) pid msg n flags =
       Some (m, Err MQTT_ERROR_PUBLISH_FORBIDDEN_QOS)"
  by (simp only: mqtt_pack_publish_request_def Let_def option.case prod.case if_True
      simp_thms)

subsection \<open>SUBSCRIBE, UNSUBSCRIBE\<close>

definition subscribe_body :: "u16 \<Rightarrow> (cstring \<times> u8) list \<Rightarrow> u8 list" where
  "subscribe_body pid subs = be16 pid @ concat (map (\<lambda>(topic, qos). enc_str topic @ [qos]) subs)"

definition enc_subscribe :: "u16 \<Rightarrow> (cstring \<times> u8) list \<Rightarrow> u8 list" where
  "enc_subscribe pid subs =
     enc_fixed_header \<lparr>control_type = MQTT_CONTROL_SUBSCRIBE, control_flags = 2,
       remaining_length = of_nat (length (subscribe_body pid subs))\<rparr> @ subscribe_body pid subs"

definition unsubscribe_body :: "u16 \<Rightarrow> cstring list \<Rightarrow> u8 list" where
  "unsubscribe_body pid topics = be16 pid @ concat (map enc_str topics)"

definition enc_unsubscribe :: "u16 \<Rightarrow> cstring list \<Rightarrow> u8 list" where
  "enc_unsubscribe pid topics =
     enc_fixed_header \<lparr>control_type = MQTT_CONTROL_UNSUBSCRIBE, control_flags = 2,
       remaining_length = of_nat (length (unsubscribe_body pid topics))\<rparr> @ unsubscribe_body pid topics"

lemma collect_topics_eq:
  "collect_topics limit num ts = (if ts = [] \<or> num + length ts < limit then Some ts else None)"
  by (induction limit num ts rule: collect_topics.induct) auto

lemma put_subscriptions_put:
  "\<forall>(topic, _) \<in> set subs. length topic < 65536 \<Longrightarrow>
     Option.bind (put s as) (\<lambda>s. put_subscriptions s subs) =
       put s (as @ concat (map (\<lambda>(topic, qos). enc_str topic @ [qos]) subs))"
  by (induction subs arbitrary: as) (auto simp: pack_str_put mem_simps)

lemma put_topics_put:
  "\<forall>topic \<in> set topics. length topic < 65536 \<Longrightarrow>
     Option.bind (put s as) (\<lambda>s. put_topics s topics) = put s (as @ concat (map enc_str topics))"
  by (induction topics arbitrary: as) (auto simp: pack_str_put mem_simps)

lemma sum_subscriptions:
  "foldl (\<lambda>rl (topic, _). rl + of_nat (mqtt_packed_cstrlen topic + 1)) (of_nat n) subs =
     (of_nat (n + length (concat (map (\<lambda>(topic, qos :: u8). enc_str topic @ [qos]) subs))) :: u32)"
proof (induction subs arbitrary: n)
  case (Cons a subs)
  obtain topic qos where a: "a = (topic, qos)" by (cases a)
  have "(of_nat n + of_nat (mqtt_packed_cstrlen topic + 1) :: u32) = of_nat (n + (mqtt_packed_cstrlen topic + 1))"
    by (simp only: of_nat_add)
  then show ?case using Cons [of "n + (mqtt_packed_cstrlen topic + 1)"] by (simp add: a ac_simps)
qed simp

lemma sum_topics:
  "foldl (\<lambda>rl topic. rl + of_nat (mqtt_packed_cstrlen topic)) (of_nat n) topics =
     (of_nat (n + length (concat (map enc_str topics))) :: u32)"
proof (induction topics arbitrary: n)
  case (Cons topic topics)
  then show ?case using Cons [of "n + mqtt_packed_cstrlen topic"] by (simp add: ac_simps)
qed simp

lemma length_concat_le:
  "\<forall>x \<in> set xs. length (f x) \<le> n \<Longrightarrow> length (concat (map f xs)) \<le> n * length xs"
  by (induction xs) auto

lemma subscribe_rules [simp]:
  "mqtt_fixed_header_rule_violation
     \<lparr>control_type = MQTT_CONTROL_SUBSCRIBE, control_flags = 2, remaining_length = n\<rparr> = None"
  "mqtt_fixed_header_rule_violation
     \<lparr>control_type = MQTT_CONTROL_UNSUBSCRIBE, control_flags = 2, remaining_length = n\<rparr> = None"
  by (simp_all add: mqtt_fixed_header_rule_violation_def control_type_is_valid_def
      required_flags_def mask_required_flags_def)

lemma subscribe_packs:
  assumes "p + bufsz \<le> length m" "length subs < 8" "\<forall>(topic, _) \<in> set subs. length topic < 65536"
  shows "packs (mqtt_pack_subscribe_request m (Some p) bufsz pid subs) m p bufsz
    (enc_subscribe (ucast pid) subs)"
proof -
  have "length (concat (map (\<lambda>(topic, qos). enc_str topic @ [qos]) subs)) \<le> 65538 * length subs"
    using assms(3) by (intro length_concat_le) (auto simp: mqtt_packed_cstrlen_def)
  with assms(2) have small: "length (subscribe_body (ucast pid) subs) < 2 ^ 28"
    by (simp add: subscribe_body_def)
  have "mqtt_pack_subscribe_request m (Some p) bufsz pid subs =
      with_fixed_header m (Some p) bufsz
        \<lparr>control_type = MQTT_CONTROL_SUBSCRIBE, control_flags = 2,
         remaining_length = of_nat (length (subscribe_body (ucast pid) subs))\<rparr>
        (\<lambda>s. put s (subscribe_body (ucast pid) subs))"
    using assms(2,3) sum_subscriptions [of 2 subs]
    by (simp add: mqtt_pack_subscribe_request_def collect_topics_eq mqtt_pack_uint16_def
        MQTT_SUBSCRIBE_REQUEST_MAX_NUM_TOPICS_def put_subscriptions_put subscribe_body_def)
  then show ?thesis
    unfolding enc_subscribe_def using assms(1) small
    by (simp only:) (rule with_fixed_header_packs; simp)
qed

lemma subscribe_too_many:
  "8 \<le> length subs \<Longrightarrow> mqtt_pack_subscribe_request m buf bufsz pid subs =
     Some (m, Err MQTT_ERROR_SUBSCRIBE_TOO_MANY_TOPICS)"
  by (auto simp: mqtt_pack_subscribe_request_def collect_topics_eq
      MQTT_SUBSCRIBE_REQUEST_MAX_NUM_TOPICS_def)

lemma unsubscribe_packs:
  assumes "p + bufsz \<le> length m" "length topics < 8" "\<forall>topic \<in> set topics. length topic < 65536"
  shows "packs (mqtt_pack_unsubscribe_request m (Some p) bufsz pid topics) m p bufsz
    (enc_unsubscribe (ucast pid) topics)"
proof -
  have "length (concat (map enc_str topics)) \<le> 65537 * length topics"
    using assms(3) by (intro length_concat_le) (auto simp: mqtt_packed_cstrlen_def)
  with assms(2) have small: "length (unsubscribe_body (ucast pid) topics) < 2 ^ 28"
    by (simp add: unsubscribe_body_def)
  have "mqtt_pack_unsubscribe_request m (Some p) bufsz pid topics =
      with_fixed_header m (Some p) bufsz
        \<lparr>control_type = MQTT_CONTROL_UNSUBSCRIBE, control_flags = 2,
         remaining_length = of_nat (length (unsubscribe_body (ucast pid) topics))\<rparr>
        (\<lambda>s. put s (unsubscribe_body (ucast pid) topics))"
    using assms(2,3) sum_topics [of 2 topics]
    by (simp add: mqtt_pack_unsubscribe_request_def collect_topics_eq mqtt_pack_uint16_def
        MQTT_UNSUBSCRIBE_REQUEST_MAX_NUM_TOPICS_def put_topics_put unsubscribe_body_def)
  then show ?thesis
    unfolding enc_unsubscribe_def using assms(1) small
    by (simp only:) (rule with_fixed_header_packs; simp)
qed

subsection \<open>PINGREQ, DISCONNECT\<close>

definition enc_empty :: "MQTTControlPacketType \<Rightarrow> u8 list" where
  "enc_empty ct = enc_fixed_header \<lparr>control_type = ct, control_flags = 0, remaining_length = 0\<rparr>"

lemma ping_packs:
  "p + bufsz \<le> length m \<Longrightarrow>
     packs (mqtt_pack_ping_request m (Some p) bufsz) m p bufsz (enc_empty MQTT_CONTROL_PINGREQ)"
  unfolding mqtt_pack_ping_request_def enc_empty_def
  by (rule fixed_header_packs) (simp_all add: mqtt_fixed_header_rule_violation_def
      control_type_is_valid_def required_flags_def mask_required_flags_def)

lemma disconnect_packs:
  "p + bufsz \<le> length m \<Longrightarrow>
     packs (mqtt_pack_disconnect m (Some p) bufsz) m p bufsz (enc_empty MQTT_CONTROL_DISCONNECT)"
  unfolding mqtt_pack_disconnect_def enc_empty_def
  by (rule fixed_header_packs) (simp_all add: mqtt_fixed_header_rule_violation_def
      control_type_is_valid_def required_flags_def mask_required_flags_def)

subsection \<open>CONNECT\<close>

definition connect_body_bytes ::
    "cstring \<Rightarrow> will \<Rightarrow> cstring option \<Rightarrow> cstring option \<Rightarrow> u8 \<Rightarrow> u16 \<Rightarrow> u8 list" where
  "connect_body_bytes client_id w user_name password flags keep_alive =
     [0x00, 0x04, 0x4D, 0x51, 0x54, 0x54, MQTT_PROTOCOL_LEVEL, flags] @ be16 keep_alive
     @ enc_str client_id
     @ (case (will_topic w, will_message w) of
          (Some topic, Some msg) \<Rightarrow> enc_str topic @ enc_str msg | _ \<Rightarrow> [])
     @ (case user_name of Some u \<Rightarrow> enc_str u | None \<Rightarrow> [])
     @ (case password of Some p \<Rightarrow> enc_str p | None \<Rightarrow> [])"

definition enc_connect ::
    "cstring \<Rightarrow> will \<Rightarrow> cstring option \<Rightarrow> cstring option \<Rightarrow> u8 \<Rightarrow> u16 \<Rightarrow> u8 list" where
  "enc_connect client_id w user_name password flags keep_alive =
     (let body = connect_body_bytes client_id w user_name password flags keep_alive in
      enc_fixed_header \<lparr>control_type = MQTT_CONTROL_CONNECT, control_flags = 0,
        remaining_length = of_nat (length body)\<rparr> @ body)"

lemma byte_flags:
  "((b :: u8) AND 2 = 0) = (\<not> bit b 1)" "(b AND 4 = 0) = (\<not> bit b 2)"
  "(b AND 64 = 0) = (\<not> bit b 6)" "(b AND 128 = 0) = (\<not> bit b 7)"
  using and_exp_eq_0_iff_not_bit [of b 1] and_exp_eq_0_iff_not_bit [of b 2]
    and_exp_eq_0_iff_not_bit [of b 6] and_exp_eq_0_iff_not_bit [of b 7]
  by simp_all

definition fits :: "cstring option \<Rightarrow> bool" where
  "fits s \<longleftrightarrow> (case s of None \<Rightarrow> True | Some s \<Rightarrow> length s < 65536)"

text \<open>The flags byte that is sent tells exactly which optional fields follow.\<close>

lemma connect_flags_bits:
  assumes "connect_flags_and_length client_id w user_name password flags = Inr (flags', len)"
  shows "flags' AND MQTT_CONNECT_WILL_FLAG \<noteq> 0 \<longleftrightarrow> will_topic w \<noteq> None"
    and "flags' AND MQTT_CONNECT_USER_NAME \<noteq> 0 \<longleftrightarrow> user_name \<noteq> None"
    and "flags' AND MQTT_CONNECT_PASSWORD \<noteq> 0 \<longleftrightarrow> password \<noteq> None"
    and "will_topic w \<noteq> None \<Longrightarrow> will_message w \<noteq> None"
  using assms
  by (auto simp: connect_flags_and_length_def Let_def MQTT_CONNECT_WILL_FLAG_def MQTT_CONNECT_USER_NAME_def
      MQTT_CONNECT_PASSWORD_def byte_flags bit_simps
      split: option.splits if_splits)

lemma connect_flags_reserved:
  assumes "connect_flags_and_length client_id w user_name password flags = Inr (flags', len)"
  shows "\<not> bit flags' 0"
  using assms
  by (auto simp: connect_flags_and_length_def Let_def MQTT_CONNECT_RESERVED_def MQTT_CONNECT_USER_NAME_def
      MQTT_CONNECT_PASSWORD_def MQTT_CONNECT_WILL_FLAG_def bit_simps even_or_iff even_and_iff
      split: option.splits if_splits simp del: bit_0)

lemma connect_length:
  assumes "connect_flags_and_length client_id w user_name password flags = Inr (flags', len)"
    and "length client_id < 65536" "fits (will_topic w)" "fits (will_message w)" "fits user_name" "fits password"
    and "\<forall>msg. will_message w = Some msg \<longrightarrow> will_message_size w = length msg"
  shows "len = length (connect_body_bytes client_id w user_name password flags' keep_alive)"
    and "len < 2 ^ 28"
  using assms
  by (auto simp: connect_flags_and_length_def Let_def connect_body_bytes_def mqtt_packed_cstrlen_def fits_def
      split: option.splits if_splits)

lemma connect_body_put:
  assumes "connect_flags_and_length client_id w user_name password flags = Inr (flags', len)"
    and "length client_id < 65536" "fits (will_topic w)" "fits (will_message w)" "fits user_name" "fits password"
    and "\<forall>msg. will_message w = Some msg \<longrightarrow> will_message_size w = length msg"
  shows "connect_body client_id w user_name password flags' keep_alive s =
    put s (connect_body_bytes client_id w user_name password flags' keep_alive)"
  using assms(2-) connect_flags_bits [OF assms(1)]
  by (auto simp: connect_body_def connect_body_bytes_def mqtt_pack_uint16_def pack_str_put put_object_put
      enc_str_def [symmetric] mem_simps fits_def split: option.splits)

lemma connect_packs:
  assumes "p + bufsz \<le> length m"
    and flags: "connect_flags_and_length (case client_id of None \<Rightarrow> [] | Some c \<Rightarrow> c) w user_name password flags
           = Inr (flags', len)"
    and "fits client_id" "fits (will_topic w)" "fits (will_message w)" "fits user_name" "fits password"
    and "\<forall>msg. will_message w = Some msg \<longrightarrow> will_message_size w = length msg"
  shows "packs (mqtt_pack_connection_request m (Some p) bufsz client_id w user_name password flags keep_alive)
    m p bufsz (enc_connect (case client_id of None \<Rightarrow> [] | Some c \<Rightarrow> c) w user_name password flags' keep_alive)"
proof -
  let ?c = "case client_id of None \<Rightarrow> [] | Some c \<Rightarrow> c"
  let ?body = "connect_body_bytes ?c w user_name password flags' keep_alive"
  have c: "length ?c < 65536" using assms(3) by (auto simp: fits_def split: option.splits)
  note len = connect_length [OF flags c assms(4-8)]
  have "mqtt_pack_connection_request m (Some p) bufsz client_id w user_name password flags keep_alive =
      with_fixed_header m (Some p) bufsz
        \<lparr>control_type = MQTT_CONTROL_CONNECT, control_flags = 0, remaining_length = of_nat (length ?body)\<rparr>
        (connect_body ?c w user_name password flags' keep_alive)"
    using len(1) [of keep_alive] by (simp add: mqtt_pack_connection_request_def flags Let_def)
  then show ?thesis
    unfolding enc_connect_def Let_def using assms(1) len connect_body_put [OF flags c assms(4-8)]
    by (simp only:) (rule with_fixed_header_packs; simp add: mqtt_fixed_header_rule_violation_def
        control_type_is_valid_def required_flags_def mask_required_flags_def)
qed
end
