(* ===== verification/Mqtt_Unpack.thy ===== *)
theory Mqtt_Unpack
  imports Mqtt_Pack
begin

text \<open>
  The response unpackers of \<open>src/mqtt-c/src/mqtt.c\<close>, for the bytes received from the broker.

  Pointers into the received bytes are offsets into the receive buffer. The union \<open>decoded\<close> is a
  datatype with one constructor per member. An unpacker that fails returns only its error: no caller
  reads the response structure after a non-positive result.
\<close>

unbundle bit_operations_syntax

subsection \<open>Data\<close>

datatype MQTTConnackReturnCode =
    MQTT_CONNACK_ACCEPTED
  | MQTT_CONNACK_REFUSED_PROTOCOL_VERSION
  | MQTT_CONNACK_REFUSED_IDENTIFIER_REJECTED
  | MQTT_CONNACK_REFUSED_SERVER_UNAVAILABLE
  | MQTT_CONNACK_REFUSED_BAD_USER_NAME_OR_PASSWORD
  | MQTT_CONNACK_REFUSED_NOT_AUTHORIZED

definition connack_code_of :: "u8 \<Rightarrow> MQTTConnackReturnCode" where
  "connack_code_of b =
     [MQTT_CONNACK_ACCEPTED, MQTT_CONNACK_REFUSED_PROTOCOL_VERSION,
      MQTT_CONNACK_REFUSED_IDENTIFIER_REJECTED, MQTT_CONNACK_REFUSED_SERVER_UNAVAILABLE,
      MQTT_CONNACK_REFUSED_BAD_USER_NAME_OR_PASSWORD, MQTT_CONNACK_REFUSED_NOT_AUTHORIZED]
     ! (unat b mod 6)"

definition MQTT_SUBACK_FAILURE :: u8 where "MQTT_SUBACK_FAILURE = 128"

text \<open>
  A received PUBLISH. \<open>pub_packet_id\<close> is \<open>None\<close> when the unpacker leaves the field unassigned.
\<close>

record mqtt_response_publish =
  dup_flag :: u8
  qos_level :: u8
  retain_flag :: u8
  topic_name_size :: u16
  topic_name :: nat
  pub_packet_id :: "u16 option"
  application_message :: nat
  application_message_size :: nat

datatype decoded =
    Undecoded
  | Connack u8 MQTTConnackReturnCode
  | Publish mqtt_response_publish
  | Puback u16
  | Pubrec u16
  | Pubrel u16
  | Pubcomp u16
  | Suback u16 nat nat
  | Unsuback u16
  | Pingresp

subsection \<open>The unpackers\<close>

definition of_be16 :: "u8 \<Rightarrow> u8 \<Rightarrow> u16" where
  "of_be16 hi lo = push_bit 8 (ucast hi) OR ucast lo"

definition mqtt_unpack_uint16 :: "mem \<Rightarrow> nat \<Rightarrow> u16 option" where
  "mqtt_unpack_uint16 m buf = do { hi \<leftarrow> load m buf; lo \<leftarrow> load m (buf + 1); Some (of_be16 hi lo) }"

definition mqtt_unpack_connack_response ::
    "mqtt_fixed_header \<Rightarrow> mem \<Rightarrow> nat \<Rightarrow> (MQTTErrors + nat \<times> decoded) option" where
  "mqtt_unpack_connack_response fh m start =
     (if remaining_length fh \<noteq> 2 then Some (Inl MQTT_ERROR_MALFORMED_RESPONSE)
      else do {
        b \<leftarrow> load m start;
        if b AND 0xFE \<noteq> 0 then Some (Inl MQTT_ERROR_CONNACK_FORBIDDEN_FLAGS)
        else do {
          let session_present = b;
          let buf = start + 1;
          b \<leftarrow> load m buf;
          if b > 5 then Some (Inl MQTT_ERROR_CONNACK_FORBIDDEN_CODE)
          else Some (Inr (buf + 1 - start, Connack session_present (connack_code_of b)))
        }})"

definition mqtt_unpack_publish_response ::
    "mqtt_fixed_header \<Rightarrow> mem \<Rightarrow> nat \<Rightarrow> (MQTTErrors + nat \<times> decoded) option" where
  "mqtt_unpack_publish_response fh m start =
     (let dup = drop_bit 3 (control_flags fh AND MQTT_PUBLISH_DUP);
          qos = publish_qos (control_flags fh);
          retain = control_flags fh AND MQTT_PUBLISH_RETAIN
      in if remaining_length fh < 4 then Some (Inl MQTT_ERROR_MALFORMED_RESPONSE)
      else do {
        tsize \<leftarrow> mqtt_unpack_uint16 m start;
        let topic = start + 2;
        let buf = topic + unat tsize;
        (pid, buf) \<leftarrow> (if qos > 0
                       then do { pid \<leftarrow> mqtt_unpack_uint16 m buf; Some (Some pid, buf + 2) }
                       else Some (None, buf));
        let message = buf;
        let msize = unat (if qos = 0 then remaining_length fh - ucast tsize - 2
                          else remaining_length fh - ucast tsize - 4);
        let buf = buf + msize;
        Some (Inr (buf - start,
          Publish \<lparr>dup_flag = dup, qos_level = qos, retain_flag = retain, topic_name_size = tsize,
            topic_name = topic, pub_packet_id = pid, application_message = message,
            application_message_size = msize\<rparr>))
      })"

definition mqtt_unpack_pubxxx_response ::
    "mqtt_fixed_header \<Rightarrow> mem \<Rightarrow> nat \<Rightarrow> (MQTTErrors + nat \<times> decoded) option" where
  "mqtt_unpack_pubxxx_response fh m start =
     (if remaining_length fh \<noteq> 2 then Some (Inl MQTT_ERROR_MALFORMED_RESPONSE)
      else do {
        pid \<leftarrow> mqtt_unpack_uint16 m start;
        let buf = start + 2;
        let d = (if control_type fh = MQTT_CONTROL_PUBACK then Puback pid
                 else if control_type fh = MQTT_CONTROL_PUBREC then Pubrec pid
                 else if control_type fh = MQTT_CONTROL_PUBREL then Pubrel pid
                 else Pubcomp pid);
        Some (Inr (buf - start, d))
      })"

definition mqtt_unpack_suback_response ::
    "mqtt_fixed_header \<Rightarrow> mem \<Rightarrow> nat \<Rightarrow> (MQTTErrors + nat \<times> decoded) option" where
  "mqtt_unpack_suback_response fh m start =
     (if remaining_length fh < 3 then Some (Inl MQTT_ERROR_MALFORMED_RESPONSE)
      else do {
        pid \<leftarrow> mqtt_unpack_uint16 m start;
        let buf = start + 2;
        let n = unat (remaining_length fh - 2);
        Some (Inr (buf + n - start, Suback pid buf n))
      })"

definition mqtt_unpack_unsuback_response ::
    "mqtt_fixed_header \<Rightarrow> mem \<Rightarrow> nat \<Rightarrow> (MQTTErrors + nat \<times> decoded) option" where
  "mqtt_unpack_unsuback_response fh m start =
     (if remaining_length fh \<noteq> 2 then Some (Inl MQTT_ERROR_MALFORMED_RESPONSE)
      else do {
        pid \<leftarrow> mqtt_unpack_uint16 m start;
        Some (Inr (start + 2 - start, Unsuback pid))
      })"

record mqtt_response =
  fixed_header :: mqtt_fixed_header
  decoded :: decoded

definition unpack_body ::
    "mqtt_fixed_header \<Rightarrow> mem \<Rightarrow> nat \<Rightarrow> (MQTTErrors + nat \<times> decoded) option" where
  "unpack_body fh m buf =
     (case control_type fh of
        MQTT_CONTROL_CONNACK \<Rightarrow> mqtt_unpack_connack_response fh m buf
      | MQTT_CONTROL_PUBLISH \<Rightarrow> mqtt_unpack_publish_response fh m buf
      | MQTT_CONTROL_PUBACK \<Rightarrow> mqtt_unpack_pubxxx_response fh m buf
      | MQTT_CONTROL_PUBREC \<Rightarrow> mqtt_unpack_pubxxx_response fh m buf
      | MQTT_CONTROL_PUBREL \<Rightarrow> mqtt_unpack_pubxxx_response fh m buf
      | MQTT_CONTROL_PUBCOMP \<Rightarrow> mqtt_unpack_pubxxx_response fh m buf
      | MQTT_CONTROL_SUBACK \<Rightarrow> mqtt_unpack_suback_response fh m buf
      | MQTT_CONTROL_UNSUBACK \<Rightarrow> mqtt_unpack_unsuback_response fh m buf
      | MQTT_CONTROL_PINGRESP \<Rightarrow> Some (Inr (0, Pingresp))
      | _ \<Rightarrow> Some (Inl MQTT_ERROR_RESPONSE_INVALID_CONTROL_TYPE))"

definition mqtt_unpack_response ::
    "mqtt_response \<Rightarrow> mem \<Rightarrow> nat option \<Rightarrow> nat \<Rightarrow> (mqtt_response \<times> ssize) option" where
  "mqtt_unpack_response r m buf bufsz =
     do { (fh, rv) \<leftarrow> mqtt_unpack_fixed_header (fixed_header r) m buf bufsz;
          let r = r\<lparr>fixed_header := fh\<rparr>;
          (case rv of
             Err e \<Rightarrow> Some (r, Err e)
           | Cnt n \<Rightarrow>
               if n = 0 then Some (r, Cnt 0)
               else do {
                 start \<leftarrow> buf;
                 res \<leftarrow> unpack_body fh m (start + n);
                 (case res of
                    Inl e \<Rightarrow> Some (r, Err e)
                  | Inr (k, d) \<Rightarrow> Some (r\<lparr>decoded := d\<rparr>, Cnt (n + k)))
               }) }"

subsection \<open>Reading what the packers write\<close>

lemma of_be16_be16 [simp]: "of_be16 (ucast (drop_bit 8 w)) (ucast w) = w"
  by (rule bit_word_eqI) (auto simp: of_be16_def bit_simps)

lemma unpack_uint16_be16: "at_mem m i (be16 w) \<Longrightarrow> mqtt_unpack_uint16 m i = Some w"
  by (simp add: mqtt_unpack_uint16_def be16_def at_mem_Cons)

lemma unpack_uint16_Some: "i + 2 \<le> length m \<Longrightarrow> \<exists>w. mqtt_unpack_uint16 m i = Some w"
  by (simp add: mqtt_unpack_uint16_def load_def)

subsection \<open>Bounds of the unpackers\<close>

text \<open>
  The one condition the header check does not give: in a PUBLISH, the topic and the packet
  identifier lie inside the remaining length.
\<close>

definition publish_fits :: "mqtt_fixed_header \<Rightarrow> u16 \<Rightarrow> bool" where
  "publish_fits fh tsize \<longleftrightarrow>
     unat tsize + (if publish_qos (control_flags fh) = 0 then 2 else 4) \<le> unat (remaining_length fh)"

lemma unat_sub_u32: "unat (b :: u32) \<le> unat a \<Longrightarrow> unat (a - b) = unat a - unat b"
  by (simp add: unat_sub word_le_nat_alt)

lemma publish_size:
  assumes "publish_fits fh tsize"
  shows "unat (if publish_qos (control_flags fh) = 0
      then remaining_length fh - ucast tsize - 2 else remaining_length fh - ucast tsize - 4) =
    unat (remaining_length fh) - unat tsize - (if publish_qos (control_flags fh) = 0 then 2 else 4)"
proof -
  have "unat tsize < 2 ^ 32" by (rule order.strict_trans [OF unat_u16_bound]) simp
  then have t: "unat (ucast tsize :: u32) = unat tsize"
    by (simp add: unsigned_ucast_eq take_bit_nat_eq_self)
  then have "unat (remaining_length fh - ucast tsize) = unat (remaining_length fh) - unat tsize"
    using assms by (subst unat_sub_u32) (auto simp: publish_fits_def split: if_splits)
  then show ?thesis
    using assms
    by (auto simp: publish_fits_def unat_sub_u32)
qed

text \<open>
  An unpacker is exact when it stays inside the buffer and, if it succeeds, consumes the remaining
  length announced by the header, neither less nor more.
\<close>

definition exact :: "mqtt_fixed_header \<Rightarrow> (MQTTErrors + nat \<times> decoded) option \<Rightarrow> bool" where
  "exact fh x \<longleftrightarrow>
     (\<exists>res. x = Some res \<and> (\<forall>k d. res = Inr (k, d) \<longrightarrow> k = unat (remaining_length fh)))"

lemma exact_error [simp]: "exact fh (Some (Inl e))"
  by (simp add: exact_def)

lemma exact_count [simp]: "exact fh (Some (Inr (k, d))) \<longleftrightarrow> k = unat (remaining_length fh)"
  by (simp add: exact_def)

lemma connack_exact:
  "buf + unat (remaining_length fh) \<le> length m \<Longrightarrow> exact fh (mqtt_unpack_connack_response fh m buf)"
  by (cases "remaining_length fh = 2") (simp_all add: mqtt_unpack_connack_response_def load_def)

lemma pubxxx_exact:
  "buf + unat (remaining_length fh) \<le> length m \<Longrightarrow> exact fh (mqtt_unpack_pubxxx_response fh m buf)"
  using unpack_uint16_Some [of buf m] by (auto simp: mqtt_unpack_pubxxx_response_def)

lemma unsuback_exact:
  "buf + unat (remaining_length fh) \<le> length m \<Longrightarrow> exact fh (mqtt_unpack_unsuback_response fh m buf)"
  using unpack_uint16_Some [of buf m] by (auto simp: mqtt_unpack_unsuback_response_def)

lemma suback_exact:
  assumes "buf + unat (remaining_length fh) \<le> length m"
  shows "exact fh (mqtt_unpack_suback_response fh m buf)"
proof (cases "remaining_length fh < 3")
  case False
  then have "3 \<le> unat (remaining_length fh)" by (simp add: word_less_nat_alt)
  with assms unpack_uint16_Some [of buf m] False show ?thesis
    by (auto simp: mqtt_unpack_suback_response_def unat_sub_u32)
qed (simp add: mqtt_unpack_suback_response_def)

lemma publish_exact:
  assumes "buf + unat (remaining_length fh) \<le> length m"
    and fits: "\<And>tsize. mqtt_unpack_uint16 m buf = Some tsize \<Longrightarrow> publish_fits fh tsize"
  shows "exact fh (mqtt_unpack_publish_response fh m buf)"
proof (cases "remaining_length fh < 4")
  case False
  then have rl: "4 \<le> unat (remaining_length fh)" by (simp add: word_less_nat_alt)
  with assms(1) unpack_uint16_Some [of buf m]
  obtain tsize where t: "mqtt_unpack_uint16 m buf = Some tsize" by auto
  note f = fits [OF t]
  show ?thesis
  proof (cases "publish_qos (control_flags fh) = 0")
    case True
    with False t f publish_size [OF f] show ?thesis
      by (simp add: mqtt_unpack_publish_response_def Let_def publish_fits_def)
  next
    case qos: False
    from qos f assms(1) have "buf + 2 + unat tsize + 2 \<le> length m" by (simp add: publish_fits_def)
    with unpack_uint16_Some [of "buf + 2 + unat tsize" m] obtain pid where
      "mqtt_unpack_uint16 m (buf + 2 + unat tsize) = Some pid" by auto
    moreover from qos have "0 < publish_qos (control_flags fh)" by (simp add: word_neq_0_conv)
    ultimately show ?thesis using qos False t f publish_size [OF f]
      by (simp add: mqtt_unpack_publish_response_def Let_def publish_fits_def)
  qed
qed (simp add: mqtt_unpack_publish_response_def)

lemma unpack_body_exact:
  assumes "buf + unat (remaining_length fh) \<le> length m"
    and "\<And>tsize. control_type fh = MQTT_CONTROL_PUBLISH \<Longrightarrow> mqtt_unpack_uint16 m buf = Some tsize \<Longrightarrow>
      publish_fits fh tsize"
    and "control_type fh = MQTT_CONTROL_PINGRESP \<Longrightarrow> remaining_length fh = 0"
  shows "exact fh (unpack_body fh m buf)"
  using assms
  by (cases "control_type fh")
    (simp_all add: unpack_body_def connack_exact pubxxx_exact suback_exact unsuback_exact publish_exact)

text \<open>
  A whole response: no access outside the buffer, and a positive count is a complete packet that
  lies inside the received bytes.
\<close>

lemma unpack_response_safe:
  assumes room: "start + bufsz \<le> length m"
    and pub: "\<And>fh n tsize. mqtt_unpack_fixed_header (fixed_header r) m (Some start) bufsz = Some (fh, Cnt n) \<Longrightarrow>
      0 < n \<Longrightarrow> control_type fh = MQTT_CONTROL_PUBLISH \<Longrightarrow>
      mqtt_unpack_uint16 m (start + n) = Some tsize \<Longrightarrow> publish_fits fh tsize"
  shows "\<exists>r' rv. mqtt_unpack_response r m (Some start) bufsz = Some (r', rv) \<and>
    (\<forall>k. rv = Cnt k \<longrightarrow> k \<le> bufsz)"
proof -
  from unpack_fixed_header_safe [OF room, of "fixed_header r"] obtain fh rv
    where fh: "mqtt_unpack_fixed_header (fixed_header r) m (Some start) bufsz = Some (fh, rv)"
    and rv: "\<And>k. rv = Cnt k \<Longrightarrow> k = 0 \<or> 2 \<le> k \<and> k + unat (remaining_length fh) \<le> bufsz" by blast
  show ?thesis
  proof (cases "\<exists>n. rv = Cnt n \<and> 0 < n")
    case False
    with fh show ?thesis by (cases rv) (auto simp: mqtt_unpack_response_def)
  next
    case True
    then obtain n where n: "rv = Cnt n" "0 < n" by blast
    with rv have k: "n + unat (remaining_length fh) \<le> bufsz" by fastforce
    obtain res where "unpack_body fh m (start + n) = Some res"
      and "\<And>k d. res = Inr (k, d) \<Longrightarrow> n + k \<le> bufsz"
    proof (cases "control_type fh = MQTT_CONTROL_PINGRESP")
      case True
      with k that show ?thesis by (simp add: unpack_body_def)
    next
      case False
      have "exact fh (unpack_body fh m (start + n))"
        using False k room n fh pub by (intro unpack_body_exact) auto
      with k that show ?thesis by (auto simp: exact_def)
    qed
    with fh n show ?thesis by (cases res) (auto simp: mqtt_unpack_response_def)
  qed
qed

subsection \<open>Types\<close>

text \<open>
  What the union holds: the member that was assigned is the one the control type selects, and its fields are in their
  ranges. Only the two lowest bits of a QoS were looked at, so 3 is a possible value.
\<close>

definition decoded_typed :: "mqtt_fixed_header \<Rightarrow> decoded \<Rightarrow> bool" where
  "decoded_typed fh d \<longleftrightarrow> (case d of
     Undecoded \<Rightarrow> False
   | Connack session_present return_code \<Rightarrow>
       control_type fh = MQTT_CONTROL_CONNACK \<and> remaining_length fh = 2 \<and> session_present \<le> 1
   | Publish p \<Rightarrow>
       control_type fh = MQTT_CONTROL_PUBLISH \<and> 4 \<le> remaining_length fh \<and> dup_flag p \<le> 1 \<and> qos_level p \<le> 3 \<and>
       retain_flag p \<le> 1 \<and> (pub_packet_id p \<noteq> None \<longleftrightarrow> 0 < qos_level p) \<and>
       application_message p = topic_name p + unat (topic_name_size p) + (if qos_level p = 0 then 0 else 2)
   | Puback pid \<Rightarrow> control_type fh = MQTT_CONTROL_PUBACK \<and> remaining_length fh = 2
   | Pubrec pid \<Rightarrow> control_type fh = MQTT_CONTROL_PUBREC \<and> remaining_length fh = 2
   | Pubrel pid \<Rightarrow> control_type fh = MQTT_CONTROL_PUBREL \<and> remaining_length fh = 2
   | Pubcomp pid \<Rightarrow> control_type fh = MQTT_CONTROL_PUBCOMP \<and> remaining_length fh = 2
   | Suback pid codes n \<Rightarrow>
       control_type fh = MQTT_CONTROL_SUBACK \<and> 1 \<le> n \<and> unat (remaining_length fh) = n + 2
   | Unsuback pid \<Rightarrow> control_type fh = MQTT_CONTROL_UNSUBACK \<and> remaining_length fh = 2
   | Pingresp \<Rightarrow> control_type fh = MQTT_CONTROL_PINGRESP)"

lemma publish_fields: "drop_bit 3 ((f :: u8) AND MQTT_PUBLISH_DUP) \<le> 1" "publish_qos f \<le> 3" "f AND MQTT_PUBLISH_RETAIN \<le> 1"
proof -
  have "\<forall>f :: u8. drop_bit 3 (f AND 8) \<le> 1 \<and> drop_bit 1 (f AND 6) \<le> 3 \<and> f AND 1 \<le> 1" unfolding all_u8 by code_simp
  then show "drop_bit 3 ((f :: u8) AND MQTT_PUBLISH_DUP) \<le> 1" "publish_qos f \<le> 3" "f AND MQTT_PUBLISH_RETAIN \<le> 1"
    by (simp_all only: publish_qos_def MQTT_PUBLISH_QOS_MASK_def MQTT_PUBLISH_DUP_def MQTT_PUBLISH_RETAIN_def)
qed

lemma session_present_bit: "(b :: u8) AND 0xFE = 0 \<Longrightarrow> b \<le> 1"
proof -
  have "\<forall>b :: u8. b AND 0xFE = 0 \<longrightarrow> b \<le> 1" unfolding all_u8 by code_simp
  then show "b AND 0xFE = 0 \<Longrightarrow> b \<le> 1" by simp
qed

lemma unpack_body_typed: "unpack_body fh m buf = Some (Inr (k, d)) \<Longrightarrow> decoded_typed fh d"
proof (cases "control_type fh")
  case MQTT_CONTROL_PUBLISH
  assume "unpack_body fh m buf = Some (Inr (k, d))"
  then show ?thesis using MQTT_CONTROL_PUBLISH
    by (auto simp: unpack_body_def mqtt_unpack_publish_response_def decoded_typed_def publish_fields [simplified] Let_def not_less
        bind_eq_Some_conv word_neq_0_conv split: if_splits) (metis)
next
  case MQTT_CONTROL_SUBACK
  assume r: "unpack_body fh m buf = Some (Inr (k, d))"
  then have three: "3 \<le> remaining_length fh" using MQTT_CONTROL_SUBACK
    by (auto simp: unpack_body_def mqtt_unpack_suback_response_def not_less split: if_splits)
  then have "unat (remaining_length fh - 2) = unat (remaining_length fh) - 2" "3 \<le> unat (remaining_length fh)"
    by (simp_all add: unat_sub word_le_nat_alt)
  then show ?thesis using r MQTT_CONTROL_SUBACK
    by (auto simp: unpack_body_def mqtt_unpack_suback_response_def decoded_typed_def Let_def bind_eq_Some_conv split: if_splits)
qed (auto simp: unpack_body_def mqtt_unpack_connack_response_def mqtt_unpack_pubxxx_response_def mqtt_unpack_unsuback_response_def
    decoded_typed_def Let_def bind_eq_Some_conv session_present_bit split: if_splits)

lemma unpack_length_loop_early:
  "unpack_length_loop m buf bufsz lshift rl = Some (rl', Inl (Cnt n)) \<Longrightarrow> n = 0"
proof (induction m buf bufsz lshift rl rule: unpack_length_loop.induct)
  case (1 m buf bufsz lshift rl)
  show ?case
    using "1.prems" "1.IH"
    by (simp add: unpack_length_loop.simps [of m buf bufsz lshift rl] Let_def bind_eq_Some_conv split: if_splits)
      (auto split: if_splits)
qed

lemma unpack_fixed_header_ok:
  assumes "mqtt_unpack_fixed_header fh m buf bufsz = Some (fh', Cnt n)" "0 < n"
  shows "mqtt_fixed_header_rule_violation fh' = None"
proof -
  obtain start b where s: "buf = Some start" "0 < bufsz" "load m start = Some b"
    using assms by (auto simp: mqtt_unpack_fixed_header_def bind_eq_Some_conv split: option.splits if_splits)
  then obtain rl v where l: "unpack_length_loop m start bufsz 0 0 = Some (rl, v)"
    using assms(1) by (cases "unpack_length_loop m start bufsz 0 0") (auto simp: mqtt_unpack_fixed_header_def Let_def)
  show ?thesis
  proof (cases v)
    case (Inl e)
    then have "e = Cnt n" using assms(1) s l by (simp add: mqtt_unpack_fixed_header_def Let_def)
    then show ?thesis using unpack_length_loop_early l Inl assms(2) by blast
  next
    case (Inr q)
    then show ?thesis using assms s l
      by (cases q) (auto simp: mqtt_unpack_fixed_header_def Let_def split: option.splits if_splits)
  qed
qed

subsection \<open>Round trips\<close>

lemma unpack_response_enc:
  assumes at: "at_mem m start (enc_fixed_header fh @ body)"
    and ok: "mqtt_fixed_header_rule_violation fh = None"
    and flags: "control_flags fh AND 0x0F = control_flags fh"
    and rl: "unat (remaining_length fh) = length body" "length body < 2 ^ 28"
    and room: "length (enc_fixed_header fh @ body) \<le> bufsz"
    and ub: "unpack_body fh m (start + length (enc_fixed_header fh)) = Some (Inr (length body, d))"
  shows "mqtt_unpack_response r m (Some start) bufsz =
    Some (\<lparr>fixed_header = fh, decoded = d\<rparr>, Cnt (length (enc_fixed_header fh @ body)))"
proof -
  from at have a: "at_mem m start (enc_fixed_header fh)" by (simp add: at_mem_append)
  have "mqtt_unpack_fixed_header (fixed_header r) m (Some start) bufsz =
      Some (fh, Cnt (length (enc_fixed_header fh)))"
    using unpack_fixed_header_enc [OF a ok flags] rl room by simp
  then show ?thesis using ub
    by (simp add: mqtt_unpack_response_def) (simp add: enc_fixed_header_def)
qed

lemma unpack_pubxxx_enc:
  assumes at: "at_mem m start (enc_pubxxx ct pid)" and sz: "length (enc_pubxxx ct pid) \<le> bufsz"
    and ct: "(ct, d) \<in> {(MQTT_CONTROL_PUBACK, Puback pid), (MQTT_CONTROL_PUBREC, Pubrec pid),
      (MQTT_CONTROL_PUBREL, Pubrel pid), (MQTT_CONTROL_PUBCOMP, Pubcomp pid)}"
  shows "\<exists>fh. mqtt_unpack_response r m (Some start) bufsz =
      Some (\<lparr>fixed_header = fh, decoded = d\<rparr>, Cnt (length (enc_pubxxx ct pid))) \<and> control_type fh = ct"
proof -
  let ?fh = "\<lparr>control_type = ct, control_flags = (if ct = MQTT_CONTROL_PUBREL then 2 else 0 :: u8),
    remaining_length = 2\<rparr>"
  from at have b: "at_mem m (start + length (enc_fixed_header ?fh)) (be16 pid)"
    by (simp add: enc_pubxxx_def at_mem_append)
  have "unpack_body ?fh m (start + length (enc_fixed_header ?fh)) = Some (Inr (length (be16 pid), d))"
    using ct unpack_uint16_be16 [OF b]
    by (auto simp: unpack_body_def mqtt_unpack_pubxxx_response_def)
  moreover have "mqtt_fixed_header_rule_violation ?fh = None"
    using ct by (auto simp: mqtt_fixed_header_rule_violation_def control_type_is_valid_def
        required_flags_def mask_required_flags_def)
  ultimately show ?thesis
    using at sz unfolding enc_pubxxx_def
    by (subst unpack_response_enc) auto
qed

lemma publish_qos_low: "publish_qos (f AND 7) = publish_qos f"
proof -
  have "\<forall>f::u8. drop_bit 1 ((f AND 7) AND 6) = drop_bit 1 (f AND 6)" unfolding all_u8 by code_simp
  then show ?thesis by (simp only: publish_qos_def MQTT_PUBLISH_QOS_MASK_def)
qed

lemma publish_flag_bits:
  "(f AND 7) AND 0x0F = (f AND 7 :: u8)" "drop_bit 3 ((f AND 7) AND MQTT_PUBLISH_DUP) = 0"
  "(f AND 7) AND MQTT_PUBLISH_RETAIN = f AND 1"
proof -
  have "\<forall>f::u8. (f AND 7) AND 0x0F = f AND 7 \<and> drop_bit 3 ((f AND 7) AND 8) = 0 \<and> (f AND 7) AND 1 = f AND 1"
    unfolding all_u8 by code_simp
  then show "(f AND 7) AND 0x0F = (f AND 7 :: u8)" "drop_bit 3 ((f AND 7) AND MQTT_PUBLISH_DUP) = 0"
    "(f AND 7) AND MQTT_PUBLISH_RETAIN = f AND 1"
    unfolding MQTT_PUBLISH_DUP_def MQTT_PUBLISH_RETAIN_def by blast+
qed

lemma publish_response_eq:
  assumes rl: "4 \<le> unat (remaining_length fh)" and t: "mqtt_unpack_uint16 m buf = Some ts"
    and i: "publish_qos (control_flags fh) > 0 \<Longrightarrow> mqtt_unpack_uint16 m (buf + 2 + unat ts) = Some pid"
    and sz: "unat (remaining_length fh) =
      2 + unat ts + (if publish_qos (control_flags fh) > 0 then 2 else 0) + msz"
  shows "mqtt_unpack_publish_response fh m buf = Some (Inr (unat (remaining_length fh), Publish
    \<lparr>dup_flag = drop_bit 3 (control_flags fh AND MQTT_PUBLISH_DUP),
     qos_level = publish_qos (control_flags fh),
     retain_flag = control_flags fh AND MQTT_PUBLISH_RETAIN,
     topic_name_size = ts, topic_name = buf + 2,
     pub_packet_id = (if publish_qos (control_flags fh) > 0 then Some pid else None),
     application_message = buf + 2 + unat ts + (if publish_qos (control_flags fh) > 0 then 2 else 0),
     application_message_size = msz\<rparr>))"
proof -
  have fits: "publish_fits fh ts"
    using sz by (auto simp: publish_fits_def word_neq_0_conv)
  from rl have "\<not> remaining_length fh < 4" by (simp add: word_less_nat_alt)
  then show ?thesis
    using t i sz publish_size [OF fits] word_neq_0_conv [of "publish_qos (control_flags fh)"]
    by (cases "publish_qos (control_flags fh) = 0")
      (simp_all add: mqtt_unpack_publish_response_def Let_def)
qed

lemma unpack_publish_enc:
  assumes at: "at_mem m start (enc_publish flags topic pid msg)"
    and bound: "start + length (enc_publish flags topic pid msg) \<le> length m"
    and sz: "length (enc_publish flags topic pid msg) \<le> bufsz"
    and topic: "length topic < 65536"
    and rl: "4 \<le> length (publish_body flags topic pid msg)"
      "length (publish_body flags topic pid msg) < 2 ^ 28"
  shows "\<exists>fh p. mqtt_unpack_response r m (Some start) bufsz =
      Some (\<lparr>fixed_header = fh, decoded = Publish p\<rparr>, Cnt (length (enc_publish flags topic pid msg))) \<and>
    control_type fh = MQTT_CONTROL_PUBLISH \<and>
    dup_flag p = 0 \<and> qos_level p = publish_qos flags \<and> retain_flag p = flags AND 1 \<and>
    pub_packet_id p = (if publish_qos flags > 0 then Some pid else None) \<and>
    read_bytes m (topic_name p) (unat (topic_name_size p)) = Some topic \<and>
    read_bytes m (application_message p) (application_message_size p) = Some msg"
proof -
  let ?body = "publish_body flags topic pid msg"
  let ?fh = "\<lparr>control_type = MQTT_CONTROL_PUBLISH, control_flags = flags AND 7,
    remaining_length = of_nat (length ?body)\<rparr>"
  let ?b = "start + length (enc_fixed_header ?fh)" and ?n = "of_nat (length topic) :: u16"
  let ?q = "if publish_qos flags > 0 then 2 else 0 :: nat"
  let ?p = "\<lparr>dup_flag = 0, qos_level = publish_qos flags, retain_flag = flags AND 1,
    topic_name_size = ?n, topic_name = ?b + 2,
    pub_packet_id = (if publish_qos flags > 0 then Some pid else None),
    application_message = ?b + 2 + length topic + ?q, application_message_size = length msg\<rparr>"
  have n: "unat ?n = length topic" using topic by simp
  have rlen: "unat (remaining_length ?fh) = length ?body" using rl by simp
  from at have body: "at_mem m ?b ?body" by (simp add: enc_publish_def at_mem_append)
  then have t: "at_mem m ?b (be16 ?n)" "at_mem m (?b + 2) topic"
    and i: "publish_qos flags > 0 \<Longrightarrow> at_mem m (?b + 2 + length topic) (be16 pid)"
    and msg: "at_mem m (?b + 2 + length topic + ?q) msg"
    by (auto simp: publish_body_def enc_str_def at_mem_append mqtt_packed_cstrlen_def add.assoc)
  have "mqtt_unpack_publish_response ?fh m ?b = Some (Inr (unat (remaining_length ?fh), Publish ?p))"
    using publish_response_eq [of ?fh m ?b ?n pid "length msg"] unpack_uint16_be16 [OF t(1)]
      unpack_uint16_be16 [OF i] rl(1) rlen
    unfolding mqtt_fixed_header.select_convs publish_qos_low publish_flag_bits n rlen
    by (simp add: length_publish_body mqtt_packed_cstrlen_def)
  then have "unpack_body ?fh m ?b = Some (Inr (length ?body, Publish ?p))"
    unfolding rlen by (simp add: unpack_body_def)
  then have "mqtt_unpack_response r m (Some start) bufsz =
      Some (\<lparr>fixed_header = ?fh, decoded = Publish ?p\<rparr>, Cnt (length (enc_publish flags topic pid msg)))"
    using at sz rl rlen unfolding enc_publish_def
    by (intro unpack_response_enc) (simp_all add: publish_flag_bits)
  moreover have "read_bytes m (?b + 2) (length topic) = Some topic"
    "read_bytes m (?b + 2 + length topic + ?q) (length msg) = Some msg"
    using t(2) msg bound
    by (auto intro!: at_mem_read simp: enc_publish_def length_publish_body mqtt_packed_cstrlen_def)
  ultimately show ?thesis using n by auto
qed

subsection \<open>Where the PUBLISH unpacker goes wrong\<close>

text \<open>
  The topic size is not compared with the remaining length. When the topic claims more bytes than the
  packet has, the 32-bit subtraction wraps and the reported number of consumed bytes is the
  remaining length plus \<open>2 ^ 32\<close>.
\<close>

lemma publish_overrun:
  assumes "publish_qos (control_flags fh) = 0" "4 \<le> unat (remaining_length fh)"
    and "mqtt_unpack_uint16 m buf = Some tsize" "\<not> publish_fits fh tsize"
  shows "\<exists>p. mqtt_unpack_publish_response fh m buf =
    Some (Inr (unat (remaining_length fh) + 2 ^ 32, Publish p))"
proof -
  have "unat tsize + 2 < 2 ^ 32"
    by (rule order.strict_trans [of _ "65536 + 2"]) (use unat_u16_bound [of tsize] in linarith, simp)
  then have t: "unat (ucast tsize + 2 :: u32) = unat tsize + 2"
    by (simp add: unat_plus_if_size word_size unsigned_ucast_eq take_bit_nat_eq_self)
  have "unat (remaining_length fh - (ucast tsize + 2)) = unat (remaining_length fh) + 2 ^ 32 - (unat tsize + 2)"
    using assms(1,4) t by (subst unat_sub_if_size) (simp add: word_size publish_fits_def)
  moreover have "remaining_length fh - (ucast tsize + 2) = remaining_length fh - ucast tsize - 2"
    by simp
  moreover have "\<not> remaining_length fh < 4" using assms(2) by (simp add: word_less_nat_alt)
  ultimately show ?thesis using assms(1,3) \<open>unat tsize + 2 < 2 ^ 32\<close>
    by (simp add: mqtt_unpack_publish_response_def Let_def)
qed

text \<open>
  A PUBLISH with a one-character topic, QoS 0 and an empty payload is legal and has remaining length
  3; the unpacker rejects every remaining length below 4.
\<close>

lemma publish_short_rejected:
  "unat (remaining_length fh) < 4 \<Longrightarrow>
     mqtt_unpack_publish_response fh m buf = Some (Inl MQTT_ERROR_MALFORMED_RESPONSE)"
  by (simp add: mqtt_unpack_publish_response_def word_less_nat_alt Let_def)

lemma unpack_publish_short:
  assumes at: "at_mem m start (enc_publish flags topic pid msg)"
    and sz: "length (enc_publish flags topic pid msg) \<le> bufsz"
    and short: "length (publish_body flags topic pid msg) < 4"
  shows "\<exists>r'. mqtt_unpack_response r m (Some start) bufsz = Some (r', Err MQTT_ERROR_MALFORMED_RESPONSE)"
proof -
  let ?body = "publish_body flags topic pid msg"
  let ?fh = "\<lparr>control_type = MQTT_CONTROL_PUBLISH, control_flags = flags AND 7,
    remaining_length = of_nat (length ?body)\<rparr>"
  have rlen: "unat (remaining_length ?fh) = length ?body" using short by simp
  have header: "mqtt_unpack_fixed_header (fixed_header r) m (Some start) bufsz =
      Some (?fh, Cnt (length (enc_fixed_header ?fh)))"
    by (rule unpack_fixed_header_enc) (use at sz short rlen in \<open>simp_all add: enc_publish_def at_mem_append publish_flag_bits\<close>)
  have "mqtt_unpack_publish_response ?fh m (start + length (enc_fixed_header ?fh)) = Some (Inl MQTT_ERROR_MALFORMED_RESPONSE)"
    by (rule publish_short_rejected) (use short rlen in simp)
  then have "unpack_body ?fh m (start + length (enc_fixed_header ?fh)) = Some (Inl MQTT_ERROR_MALFORMED_RESPONSE)"
    by (simp add: unpack_body_def)
  then show ?thesis using header by (simp add: mqtt_unpack_response_def enc_fixed_header_def)
qed

end
