(* ===== verification/Mqtt_Queue.thy ===== *)
theory Mqtt_Queue
  imports Mqtt_Pack
begin

text \<open>
  The message queue of \<open>src/mqtt-c/src/mqtt.c\<close> (\<open>mqtt_mq_*\<close>) and the interface the client uses it by.

  One buffer of the user holds both the packed messages, which grow from its start, and their
  descriptors (\<open>struct mqtt_queued_message\<close>), which grow down from its end: descriptor \<open>i\<close> is at
  \<open>mem_end - (i + 1) * sizeof(struct mqtt_queued_message)\<close>. The model keeps the bytes as \<open>mq_mem\<close>
  (offsets from \<open>mem_start\<close>, so \<open>mem_end\<close> is the length) and the descriptors as the list
  \<open>mq_msgs\<close>, index 0 first; \<open>queue_tail\<close> is computed from its length. That the two areas do not
  overlap, on which this separation rests, is part of the invariant \<open>mq_inv\<close> and every operation keeps it.

  \<open>mqtt_mq_register\<close> leaves three fields of the new descriptor unassigned. What the memory holds
  there is arbitrary: \<open>mq_junk k\<close> is the content found by the \<open>k\<close>-th registration from now on.
\<close>

subsection \<open>Data\<close>

datatype MQTTQueuedMessageState =
    MQTT_QUEUED_UNSENT
  | MQTT_QUEUED_AWAITING_ACK
  | MQTT_QUEUED_COMPLETE

record mqtt_queued_message =
  q_start :: nat
  q_size :: nat
  q_state :: MQTTQueuedMessageState
  q_time_sent :: int
  q_control_type :: MQTTControlPacketType
  q_packet_id :: u16

record mqtt_message_queue =
  mq_mem :: mem
  mq_curr :: nat
  mq_curr_sz :: nat
  mq_msgs :: "mqtt_queued_message list"
  mq_junk :: "nat \<Rightarrow> mqtt_queued_message"

text \<open>The descriptor size of the LP64 layout: two words, two enumerations, a time and a short.\<close>

definition sizeof_queued_message :: nat where "sizeof_queued_message = 40"

subsection \<open>Operations\<close>

definition mem_end :: "mqtt_message_queue \<Rightarrow> nat" where
  "mem_end mq = length (mq_mem mq)"

definition queue_tail :: "mqtt_message_queue \<Rightarrow> int" where
  "queue_tail mq = int (mem_end mq) - int (sizeof_queued_message * length (mq_msgs mq))"

definition mqtt_mq_get :: "mqtt_message_queue \<Rightarrow> nat \<Rightarrow> mqtt_queued_message option" where
  "mqtt_mq_get mq i = (if i < length (mq_msgs mq) then Some (mq_msgs mq ! i) else None)"

definition mqtt_mq_length :: "mqtt_message_queue \<Rightarrow> nat" where
  "mqtt_mq_length mq = length (mq_msgs mq)"

definition mqtt_mq_currsz :: "mqtt_message_queue \<Rightarrow> nat" where
  "mqtt_mq_currsz mq =
     (let limit = queue_tail mq - int sizeof_queued_message
      in if int (mq_curr mq) \<ge> limit then 0 else nat (limit - int (mq_curr mq)))"

text \<open>\<open>mq->curr_sz = (size_t) (mqtt_mq_currsz(mq))\<close>, the last step of every operation.\<close>

definition set_curr_sz :: "mqtt_message_queue \<Rightarrow> mqtt_message_queue" where
  "set_curr_sz mq = mq\<lparr>mq_curr_sz := mqtt_mq_currsz mq\<rparr>"

definition mqtt_mq_init :: "mqtt_message_queue \<Rightarrow> mem option \<Rightarrow> mqtt_message_queue" where
  "mqtt_mq_init mq buf =
     (case buf of
        None \<Rightarrow> mq
      | Some bytes \<Rightarrow> set_curr_sz (mq\<lparr>mq_mem := bytes, mq_curr := 0, mq_msgs := []\<rparr>))"

definition mqtt_mq_register :: "mqtt_message_queue \<Rightarrow> nat \<Rightarrow> mqtt_message_queue" where
  "mqtt_mq_register mq nbytes =
     (let msg = (mq_junk mq 0)\<lparr>q_start := mq_curr mq, q_size := nbytes, q_state := MQTT_QUEUED_UNSENT\<rparr>
      in set_curr_sz (mq\<lparr>mq_msgs := mq_msgs mq @ [msg], mq_junk := (\<lambda>k. mq_junk mq (Suc k)),
           mq_curr := mq_curr mq + nbytes\<rparr>))"

text \<open>The loop that looks for the new head: the index of the first message that is not complete.\<close>

fun new_head :: "mqtt_queued_message list \<Rightarrow> nat" where
  "new_head [] = 0"
| "new_head (q # qs) = (if q_state q \<noteq> MQTT_QUEUED_COMPLETE then 0 else Suc (new_head qs))"

text \<open>The loop that bumps the starts back; a start below the removed length would leave the buffer.\<close>

fun bump_starts :: "nat \<Rightarrow> mqtt_queued_message list \<Rightarrow> mqtt_queued_message list option" where
  "bump_starts removing [] = Some []"
| "bump_starts removing (q # qs) =
     (if q_start q < removing then None
      else do { qs' \<leftarrow> bump_starts removing qs;
                Some (q\<lparr>q_start := q_start q - removing\<rparr> # qs') })"

definition mqtt_mq_clean :: "mqtt_message_queue \<Rightarrow> mqtt_message_queue option" where
  "mqtt_mq_clean mq =
     (let h = new_head (mq_msgs mq)
      in if h = length (mq_msgs mq) then
           Some (set_curr_sz (mq\<lparr>mq_curr := 0, mq_msgs := []\<rparr>))
         else if h = 0 then Some mq
         else do {
           head \<leftarrow> mqtt_mq_get mq h;
           if mq_curr mq < q_start head then None
           else do {
             let n = mq_curr mq - q_start head;
             let removing = q_start head;
             bytes \<leftarrow> memmove (mq_mem mq) 0 (q_start head) n;
             msgs \<leftarrow> bump_starts removing (drop h (mq_msgs mq));
             Some (set_curr_sz (mq\<lparr>mq_mem := bytes, mq_curr := n, mq_msgs := msgs\<rparr>))
           }})"

definition msg_matches ::
    "MQTTControlPacketType \<Rightarrow> u16 option \<Rightarrow> mqtt_queued_message \<Rightarrow> bool" where
  "msg_matches ct pid q \<longleftrightarrow> q_control_type q = ct \<and>
     (case pid of None \<Rightarrow> q_state q \<noteq> MQTT_QUEUED_COMPLETE | Some p \<Rightarrow> p = q_packet_id q)"

fun find_msg ::
    "MQTTControlPacketType \<Rightarrow> u16 option \<Rightarrow> mqtt_queued_message list \<Rightarrow> nat option" where
  "find_msg ct pid [] = None"
| "find_msg ct pid (q # qs) =
     (if msg_matches ct pid q then Some 0 else map_option Suc (find_msg ct pid qs))"

definition mqtt_mq_find ::
    "mqtt_message_queue \<Rightarrow> MQTTControlPacketType \<Rightarrow> u16 option \<Rightarrow> nat option" where
  "mqtt_mq_find mq ct pid = find_msg ct pid (mq_msgs mq)"

text \<open>Assignments through the pointer \<open>mqtt_mq_get\<close>, \<open>mqtt_mq_find\<close> or \<open>mqtt_mq_register\<close> returned.\<close>

definition mq_update ::
    "nat \<Rightarrow> (mqtt_queued_message \<Rightarrow> mqtt_queued_message) \<Rightarrow> mqtt_message_queue \<Rightarrow> mqtt_message_queue" where
  "mq_update i f mq = mq\<lparr>mq_msgs := (mq_msgs mq)[i := f (mq_msgs mq ! i)]\<rparr>"

subsection \<open>Invariant\<close>

text \<open>The messages are packed one behind the other from \<open>p\<close> to \<open>c\<close>, none of them empty.\<close>

fun laid_out :: "nat \<Rightarrow> mqtt_queued_message list \<Rightarrow> nat \<Rightarrow> bool" where
  "laid_out p [] c \<longleftrightarrow> c = p"
| "laid_out p (q # qs) c \<longleftrightarrow> q_start q = p \<and> 0 < q_size q \<and> laid_out (p + q_size q) qs c"

definition mq_inv :: "mqtt_message_queue \<Rightarrow> bool" where
  "mq_inv mq \<longleftrightarrow> laid_out 0 (mq_msgs mq) (mq_curr mq) \<and> int (mq_curr mq) \<le> queue_tail mq \<and>
     mq_curr_sz mq = mqtt_mq_currsz mq"

lemma laid_out_append:
  "laid_out p (xs @ ys) c \<longleftrightarrow> (\<exists>m. laid_out p xs m \<and> laid_out m ys c)"
  by (induction xs arbitrary: p) auto

lemma laid_out_mono: "laid_out p qs c \<Longrightarrow> p \<le> c"
  by (induction qs arbitrary: p) fastforce+

lemma laid_out_bound: "laid_out p qs c \<Longrightarrow> q \<in> set qs \<Longrightarrow> p \<le> q_start q \<and> q_start q + q_size q \<le> c \<and> 0 < q_size q"
proof (induction qs arbitrary: p)
  case (Cons a qs)
  then have "laid_out (p + q_size a) qs c" by simp
  from laid_out_mono [OF this] Cons show ?case by (cases "q = a") force+
qed simp

lemma laid_out_shift:
  "laid_out p qs c \<Longrightarrow> d \<le> p \<Longrightarrow>
     laid_out (p - d) (map (\<lambda>q. q\<lparr>q_start := q_start q - d\<rparr>) qs) (c - d)"
proof (induction qs arbitrary: p)
  case (Cons a qs)
  from Cons.prems have eq: "p + q_size a - d = p - d + q_size a" by simp
  have "laid_out (p - d + q_size a) (map (\<lambda>q. q\<lparr>q_start := q_start q - d\<rparr>) qs) (c - d)"
    unfolding eq [symmetric] using Cons by simp
  then show ?case using Cons.prems by simp
qed simp

lemma bump_starts_Some:
  "\<forall>q \<in> set qs. d \<le> q_start q \<Longrightarrow> bump_starts d qs = Some (map (\<lambda>q. q\<lparr>q_start := q_start q - d\<rparr>) qs)"
  by (induction qs) auto

text \<open>Changes of the descriptors that keep their place and size keep the layout.\<close>

lemma laid_out_update:
  assumes "\<And>q. q_start (f q) = q_start q \<and> q_size (f q) = q_size q"
  shows "laid_out p (qs[i := f (qs ! i)]) c \<longleftrightarrow> laid_out p qs c"
proof (induction qs arbitrary: p i)
  case (Cons a qs)
  then show ?case using assms [of a] by (cases i) simp_all
qed simp

lemma queue_tail_simps [simp]:
  "queue_tail (mq\<lparr>mq_curr_sz := n\<rparr>) = queue_tail mq" "queue_tail (mq\<lparr>mq_curr := c\<rparr>) = queue_tail mq"
  "queue_tail (mq\<lparr>mq_junk := j\<rparr>) = queue_tail mq"
  by (simp_all add: queue_tail_def mem_end_def)

lemma set_curr_sz_simps [simp]:
  "mq_msgs (set_curr_sz mq) = mq_msgs mq" "mq_mem (set_curr_sz mq) = mq_mem mq"
  "mq_curr (set_curr_sz mq) = mq_curr mq" "queue_tail (set_curr_sz mq) = queue_tail mq"
  "mqtt_mq_currsz (set_curr_sz mq) = mqtt_mq_currsz mq" "mq_curr_sz (set_curr_sz mq) = mqtt_mq_currsz mq"
  by (simp_all add: set_curr_sz_def mqtt_mq_currsz_def Let_def)

lemma mq_inv_set_curr_sz:
  "mq_inv (set_curr_sz mq) \<longleftrightarrow> laid_out 0 (mq_msgs mq) (mq_curr mq) \<and> int (mq_curr mq) \<le> queue_tail mq"
  by (simp add: mq_inv_def)

text \<open>What may be written at \<open>curr\<close>: after it, and after the new descriptor, nothing overlaps.\<close>

lemma currsz_room:
  "mq_inv mq \<Longrightarrow> 0 < mq_curr_sz mq \<Longrightarrow>
     mq_curr mq + mq_curr_sz mq + sizeof_queued_message * Suc (length (mq_msgs mq)) = mem_end mq"
  by (auto simp: mq_inv_def mqtt_mq_currsz_def queue_tail_def Let_def sizeof_queued_message_def
      split: if_splits)

lemma curr_room: "mq_inv mq \<Longrightarrow> mq_curr mq + mq_curr_sz mq \<le> length (mq_mem mq)"
  using currsz_room [of mq] by (cases "mq_curr_sz mq = 0") (auto simp: mq_inv_def queue_tail_def mem_end_def sizeof_queued_message_def)

lemma msg_in_mem:
  assumes "mq_inv mq" "q \<in> set (mq_msgs mq)"
  shows "q_start q + q_size q \<le> mq_curr mq" "0 < q_size q" "q_start q + q_size q \<le> length (mq_mem mq)"
  using laid_out_bound [of 0 "mq_msgs mq" "mq_curr mq" q] assms curr_room [OF assms(1)]
  by (auto simp: mq_inv_def)

lemma mq_init_inv: "mq_inv (mqtt_mq_init mq (Some bytes))"
  by (simp add: mqtt_mq_init_def mq_inv_set_curr_sz) (simp add: queue_tail_def mem_end_def)

lemma mq_register_inv:
  assumes "mq_inv mq" "0 < n" "n \<le> mq_curr_sz mq"
  shows "mq_inv (mqtt_mq_register mq n)"
  using assms currsz_room [of mq]
  by (auto simp: mqtt_mq_register_def Let_def mq_inv_set_curr_sz laid_out_append mq_inv_def)
    (auto simp: queue_tail_def mem_end_def sizeof_queued_message_def)

lemma mq_update_inv:
  assumes "\<And>q. q_start (f q) = q_start q \<and> q_size (f q) = q_size q"
  shows "mq_inv (mq_update i f mq) \<longleftrightarrow> mq_inv mq"
  by (simp add: mq_update_def mq_inv_def laid_out_update [OF assms] mqtt_mq_currsz_def
      queue_tail_def mem_end_def Let_def)

subsection \<open>Cleaning\<close>

lemma new_head_takeWhile: "new_head qs = length (takeWhile (\<lambda>q. q_state q = MQTT_QUEUED_COMPLETE) qs)"
  by (induction qs) auto

lemma drop_new_head: "drop (new_head qs) qs = dropWhile (\<lambda>q. q_state q = MQTT_QUEUED_COMPLETE) qs"
  by (simp add: new_head_takeWhile dropWhile_eq_drop)

lemma new_head_le: "new_head qs \<le> length qs"
  by (simp add: new_head_takeWhile length_takeWhile_le)

text \<open>What a queue stands for: the bytes of each message with its descriptor, oldest first.\<close>

definition msg_bytes :: "mem \<Rightarrow> mqtt_queued_message \<Rightarrow> u8 list" where
  "msg_bytes m q = take (q_size q) (drop (q_start q) m)"

definition mq_abs :: "mqtt_message_queue \<Rightarrow> (u8 list \<times> mqtt_queued_message) list" where
  "mq_abs mq = map (\<lambda>q. (msg_bytes (mq_mem mq) q, q\<lparr>q_start := 0\<rparr>)) (mq_msgs mq)"

definition msg_done :: "u8 list \<times> mqtt_queued_message \<Rightarrow> bool" where
  "msg_done x \<longleftrightarrow> q_state (snd x) = MQTT_QUEUED_COMPLETE"

lemma dropWhile_abs:
  "map (\<lambda>q. (f q, q\<lparr>q_start := 0\<rparr>)) (dropWhile (\<lambda>q. q_state q = MQTT_QUEUED_COMPLETE) qs) =
   dropWhile msg_done (map (\<lambda>q. (f q, q\<lparr>q_start := 0\<rparr>)) qs)"
  by (induction qs) (auto simp: msg_done_def)

lemma msg_bytes_moved:
  assumes "h \<le> q_start q" "q_start q + q_size q \<le> c" "c \<le> length m"
  shows "msg_bytes (patch m 0 (take (c - h) (drop h m))) (q\<lparr>q_start := q_start q - h\<rparr>) = msg_bytes m q"
proof -
  have "(q_size q + (q_start q - h)) \<le> c - h" using assms by simp
  with assms show ?thesis
    by (simp add: msg_bytes_def patch_def drop_take take_append) 
qed

lemma mq_clean_refines:
  assumes inv: "mq_inv mq"
  shows "\<exists>mq'. mqtt_mq_clean mq = Some mq' \<and> mq_inv mq' \<and> mq_abs mq' = dropWhile msg_done (mq_abs mq) \<and>
    length (mq_mem mq') = length (mq_mem mq) \<and> mq_junk mq' = mq_junk mq"
proof -
  let ?qs = "mq_msgs mq" and ?h = "new_head (mq_msgs mq)"
  let ?rest = "dropWhile (\<lambda>q. q_state q = MQTT_QUEUED_COMPLETE) ?qs"
  from inv have lo: "laid_out 0 ?qs (mq_curr mq)" and tail: "int (mq_curr mq) \<le> queue_tail mq"
    by (simp_all add: mq_inv_def)
  have abs: "dropWhile msg_done (mq_abs mq) =
      map (\<lambda>q. (msg_bytes (mq_mem mq) q, q\<lparr>q_start := 0\<rparr>)) ?rest"
    by (simp add: mq_abs_def dropWhile_abs)
  consider "?h = length ?qs" | "?h \<noteq> length ?qs" "?h = 0" | "?h < length ?qs" "?h \<noteq> 0"
    using new_head_le [of ?qs] by linarith
  then show ?thesis
  proof cases
    case 1
    then have "?rest = []" by (metis drop_all drop_new_head order_refl)
    then have abs0: "dropWhile msg_done (mq_abs mq) = []" unfolding abs by simp
    from 1 tail show ?thesis unfolding abs0
      by (simp add: mqtt_mq_clean_def mq_inv_set_curr_sz)
        (simp add: mq_abs_def queue_tail_def mem_end_def set_curr_sz_def)
  next
    case 2
    then have "?rest = ?qs" using drop_new_head [of ?qs] by simp
    with 2 abs inv show ?thesis by (simp add: mqtt_mq_clean_def mq_abs_def)
  next
    case 3
    let ?q = "?qs ! ?h" and ?m = "mq_mem mq"
    let ?d = "q_start ?q"
    let ?m' = "patch ?m 0 (take (mq_curr mq - ?d) (drop ?d ?m))"
    let ?qs' = "map (\<lambda>q. q\<lparr>q_start := q_start q - ?d\<rparr>) ?rest"
    from lo obtain p where p: "laid_out p (drop ?h ?qs) (mq_curr mq)"
      using laid_out_append [of 0 "take ?h ?qs" "drop ?h ?qs"] by auto
    moreover have dr: "drop ?h ?qs = ?q # drop (Suc ?h) ?qs" using 3 by (simp add: Cons_nth_drop_Suc)
    ultimately have pd: "p = ?d" by simp
    have rest: "laid_out ?d ?rest (mq_curr mq)" using p pd by (simp add: drop_new_head)
    then have dle: "?d \<le> mq_curr mq" by (rule laid_out_mono)
    have cle: "mq_curr mq \<le> length ?m" using curr_room [OF inv] by simp
    have bound: "?d \<le> q_start q" "q_start q + q_size q \<le> mq_curr mq" if "q \<in> set ?rest" for q
      using laid_out_bound [OF rest that] by simp_all
    have "bump_starts ?d ?rest = Some ?qs'" using bound(1) by (intro bump_starts_Some) blast
    moreover have "memmove ?m 0 ?d (mq_curr mq - ?d) = Some ?m'"
      using dle cle by (intro memmove_down) auto
    ultimately have clean: "mqtt_mq_clean mq = Some (set_curr_sz
        (mq\<lparr>mq_mem := ?m', mq_curr := mq_curr mq - ?d, mq_msgs := ?qs'\<rparr>))"
      using 3 dle by (simp add: mqtt_mq_clean_def mqtt_mq_get_def Let_def drop_new_head)
    have len: "length ?m' = length ?m" using dle cle by simp
    have "length ?qs' \<le> length ?qs" by (simp add: length_dropWhile_le)
    then have "int (mq_curr mq - ?d) + int (sizeof_queued_message * length ?qs') \<le> int (length ?m)"
      using tail dle by (simp add: queue_tail_def mem_end_def sizeof_queued_message_def)
    then have "int (mq_curr mq - ?d) \<le> queue_tail (mq\<lparr>mq_mem := ?m', mq_curr := mq_curr mq - ?d, mq_msgs := ?qs'\<rparr>)"
      unfolding queue_tail_def mem_end_def by (simp add: len)
    moreover have "laid_out 0 ?qs' (mq_curr mq - ?d)"
      using laid_out_shift [OF rest, of ?d] by simp
    moreover have "mq_abs (set_curr_sz (mq\<lparr>mq_mem := ?m', mq_curr := mq_curr mq - ?d, mq_msgs := ?qs'\<rparr>)) =
        dropWhile msg_done (mq_abs mq)"
      unfolding abs using bound cle by (simp add: mq_abs_def msg_bytes_moved)
    ultimately show ?thesis using clean len
      by (intro exI [of _ "set_curr_sz (mq\<lparr>mq_mem := ?m', mq_curr := mq_curr mq - ?d, mq_msgs := ?qs'\<rparr>)"])
        (simp only: mq_inv_set_curr_sz set_curr_sz_simps simp_thms, simp add: set_curr_sz_def)
  qed
qed

subsection \<open>Finding\<close>

lemma find_msg_Some:
  "find_msg ct pid qs = Some i \<longleftrightarrow>
     i < length qs \<and> msg_matches ct pid (qs ! i) \<and> (\<forall>j < i. \<not> msg_matches ct pid (qs ! j))"
proof (induction qs arbitrary: i)
  case (Cons a qs)
  then show ?case by (cases i) (auto simp: All_less_Suc2)
qed simp

lemma find_msg_None: "find_msg ct pid qs = None \<longleftrightarrow> (\<forall>q \<in> set qs. \<not> msg_matches ct pid q)"
  by (induction qs) auto

lemma mq_find_bound: "mqtt_mq_find mq ct pid = Some i \<Longrightarrow> i < mqtt_mq_length mq"
  by (simp add: mqtt_mq_find_def find_msg_Some mqtt_mq_length_def)

subsection \<open>Packing into the queue\<close>

text \<open>
  A call of a packer with the queue's \<open>curr\<close> and \<open>curr_sz\<close>. The packer is the argument: a function
  of the memory, the pointer and the room.
\<close>

type_synonym packer = "mem \<Rightarrow> nat option \<Rightarrow> nat \<Rightarrow> (mem \<times> ssize) option"

definition pack_at :: "mqtt_message_queue \<Rightarrow> packer \<Rightarrow> (mqtt_message_queue \<times> ssize) option" where
  "pack_at mq pack =
     do { (m, rv) \<leftarrow> pack (mq_mem mq) (Some (mq_curr mq)) (mq_curr_sz mq);
          Some (mq\<lparr>mq_mem := m\<rparr>, rv) }"

text \<open>Pack, and when the room is too small clean the queue and pack once more.\<close>

definition pack_with_retry ::
    "('q \<Rightarrow> 'p \<Rightarrow> ('q \<times> ssize) option) \<Rightarrow> ('q \<Rightarrow> 'q option) \<Rightarrow> 'q \<Rightarrow> 'p \<Rightarrow> ('q \<times> ssize) option" where
  "pack_with_retry pack clean q p =
     do { (q, rv) \<leftarrow> pack q p;
          (if rv = Cnt 0 then do { q \<leftarrow> clean q; pack q p } else Some (q, rv)) }"

text \<open>
  What the client relies on. \<open>abs\<close> is the list of the queued messages, \<open>writes p b\<close> says that the
  packer \<open>p\<close> writes the packet \<open>b\<close> where it fits, \<open>entry q b\<close> is the message it becomes.
\<close>

locale packet_queue =
  fixes inv :: "'q \<Rightarrow> bool" and abs :: "'q \<Rightarrow> 'm list" and finished :: "'m \<Rightarrow> bool"
    and clean :: "'q \<Rightarrow> 'q option" and pack :: "'q \<Rightarrow> 'p \<Rightarrow> ('q \<times> ssize) option"
    and writes :: "'p \<Rightarrow> 'b \<Rightarrow> bool" and register :: "'q \<Rightarrow> nat \<Rightarrow> 'q" and entry :: "'q \<Rightarrow> 'b \<Rightarrow> 'm"
  assumes clean_ok: "inv q \<Longrightarrow> \<exists>q'. clean q = Some q' \<and> inv q' \<and> abs q' = dropWhile finished (abs q) \<and>
      (\<forall>b. entry q' b = entry q b)"
    and pack_ok: "inv q \<Longrightarrow> writes p b \<Longrightarrow> \<exists>q' n. pack q p = Some (q', Cnt n) \<and> inv q' \<and> abs q' = abs q \<and>
      (\<forall>b. entry q' b = entry q b) \<and>
      (0 < n \<longrightarrow> inv (register q' n) \<and> abs (register q' n) = abs q @ [entry q b])"
    and entry_unfinished: "\<not> finished (entry q b)"
begin

text \<open>
  The retried packing either reports no room, and then only finished messages at the head are gone,
  or the packet can be registered behind what is left.
\<close>

lemma retry_ok:
  assumes inv: "inv q" and w: "writes p b"
  shows "\<exists>q' n. pack_with_retry pack clean q p = Some (q', Cnt n) \<and> inv q' \<and>
    (abs q' = abs q \<or> abs q' = dropWhile finished (abs q)) \<and>
    (0 < n \<longrightarrow> inv (register q' n) \<and> abs (register q' n) = abs q' @ [entry q b])"
proof -
  from pack_ok [OF inv w] obtain q1 n1 where 1: "pack q p = Some (q1, Cnt n1)" "inv q1" "abs q1 = abs q" "entry q1 b = entry q b"
    "0 < n1 \<longrightarrow> inv (register q1 n1) \<and> abs (register q1 n1) = abs q @ [entry q b]" by blast
  show ?thesis
  proof (cases "n1 = 0")
    case False
    with 1 show ?thesis by (auto simp: pack_with_retry_def)
  next
    case True
    from clean_ok [OF 1(2)] obtain q2 where 2: "clean q1 = Some q2" "inv q2"
      "abs q2 = dropWhile finished (abs q1)" "entry q2 b = entry q1 b" by blast
    from pack_ok [OF 2(2) w] obtain q3 n3 where 3: "pack q2 p = Some (q3, Cnt n3)" "inv q3" "abs q3 = abs q2"
      "0 < n3 \<longrightarrow> inv (register q3 n3) \<and> abs (register q3 n3) = abs q2 @ [entry q2 b]" by blast
    with 1 2 3 True show ?thesis by (auto simp: pack_with_retry_def)
  qed
qed

text \<open>No message that is not finished leaves the queue, and the order is kept.\<close>

lemma retry_keeps_unfinished:
  assumes "inv q" "writes p b" "pack_with_retry pack clean q p = Some (q', rv)"
  shows "filter (\<lambda>m. \<not> finished m) (abs q') = filter (\<lambda>m. \<not> finished m) (abs q)"
proof -
  have "filter (\<lambda>m. \<not> finished m) (dropWhile finished xs) = filter (\<lambda>m. \<not> finished m) xs" for xs
    by (induction xs) auto
  with retry_ok [OF assms(1,2)] assms(3) show ?thesis by auto
qed

end

subsection \<open>The queue provides the interface\<close>

definition writes_packet :: "packer \<Rightarrow> u8 list \<Rightarrow> bool" where
  "writes_packet pack b \<longleftrightarrow>
     b \<noteq> [] \<and> (\<forall>m p n. p + n \<le> length m \<longrightarrow> packs (pack m (Some p) n) m p n b)"

definition mq_entry :: "mqtt_message_queue \<Rightarrow> u8 list \<Rightarrow> u8 list \<times> mqtt_queued_message" where
  "mq_entry mq b = (b, (mq_junk mq 0)\<lparr>q_start := 0, q_size := length b, q_state := MQTT_QUEUED_UNSENT\<rparr>)"

lemma msg_bytes_patch:
  assumes "q_start q + q_size q \<le> c" "c \<le> length m"
  shows "msg_bytes (patch m c b) q = msg_bytes m q"
  using assms by (simp add: msg_bytes_def patch_def take_drop)

lemma register_abs:
  assumes "mq_curr mq + n \<le> length (mq_mem mq)"
  shows "mq_abs (mqtt_mq_register mq n) = mq_abs mq @ [mq_entry mq (take n (drop (mq_curr mq) (mq_mem mq)))]"
  using assms by (simp add: mqtt_mq_register_def Let_def mq_abs_def mq_entry_def msg_bytes_def)

lemma pack_at_ok:
  assumes inv: "mq_inv mq" and w: "writes_packet pack b"
  shows "\<exists>mq' n. pack_at mq pack = Some (mq', Cnt n) \<and> mq_inv mq' \<and> mq_abs mq' = mq_abs mq \<and>
    (\<forall>b. mq_entry mq' b = mq_entry mq b) \<and>
    (0 < n \<longrightarrow> mq_inv (mqtt_mq_register mq' n) \<and> mq_abs (mqtt_mq_register mq' n) = mq_abs mq @ [mq_entry mq b])"
proof -
  let ?c = "mq_curr mq" and ?n = "mq_curr_sz mq" and ?m = "mq_mem mq"
  note room = curr_room [OF inv]
  have patched: "mq_inv (mq\<lparr>mq_mem := patch ?m ?c bs\<rparr>)" "mq_abs (mq\<lparr>mq_mem := patch ?m ?c bs\<rparr>) = mq_abs mq"
    if "length bs \<le> ?n" for bs
  proof -
    have len: "length (patch ?m ?c bs) = length ?m" using that room by simp
    with inv show "mq_inv (mq\<lparr>mq_mem := patch ?m ?c bs\<rparr>)"
      by (simp add: mq_inv_def mqtt_mq_currsz_def queue_tail_def mem_end_def Let_def)
    have "msg_bytes (patch ?m ?c bs) q = msg_bytes ?m q" if "q \<in> set (mq_msgs mq)" for q
      using msg_in_mem [OF inv that] room by (intro msg_bytes_patch) auto
    then show "mq_abs (mq\<lparr>mq_mem := patch ?m ?c bs\<rparr>) = mq_abs mq" by (simp add: mq_abs_def)
  qed
  from w room have pk: "packs (pack ?m (Some ?c) ?n) ?m ?c ?n b" and ne: "0 < length b"
    by (simp_all add: writes_packet_def)
  show ?thesis
  proof (cases "length b \<le> ?n")
    case True
    let ?mq = "mq\<lparr>mq_mem := patch ?m ?c b\<rparr>"
    have "pack_at mq pack = Some (?mq, Cnt (length b))"
      using pk True by (simp add: packs_def pack_at_def)
    moreover have "mq_inv (mqtt_mq_register ?mq (length b))"
      using patched(1) [OF True] ne True by (intro mq_register_inv) simp_all
    moreover have "mq_abs (mqtt_mq_register ?mq (length b)) = mq_abs mq @ [mq_entry mq b]"
      using True room patched(2) [OF True]
      by (subst register_abs) (simp_all add: mq_entry_def, simp add: patch_def)
    ultimately show ?thesis using patched [OF True] by (simp add: mq_entry_def)
  next
    case False
    with pk obtain bs where bs: "length bs \<le> ?n" "pack ?m (Some ?c) ?n = Some (patch ?m ?c bs, Cnt 0)"
      by (auto simp: packs_def)
    then show ?thesis using patched [OF bs(1)] by (simp add: pack_at_def mq_entry_def)
  qed
qed

lemma mq_clean_ok:
  "mq_inv mq \<Longrightarrow> \<exists>mq'. mqtt_mq_clean mq = Some mq' \<and> mq_inv mq' \<and>
     mq_abs mq' = dropWhile msg_done (mq_abs mq) \<and> (\<forall>b. mq_entry mq' b = mq_entry mq b)"
  using mq_clean_refines [of mq] by (auto simp: mq_entry_def)

interpretation mqueue: packet_queue mq_inv mq_abs msg_done mqtt_mq_clean pack_at writes_packet
  mqtt_mq_register mq_entry
  using mq_clean_ok pack_at_ok
  by unfold_locales (simp_all add: msg_done_def mq_entry_def)

subsection \<open>The packers of the client write packets\<close>

lemma pubxxx_writes:
  "ct \<in> {MQTT_CONTROL_PUBACK, MQTT_CONTROL_PUBREC, MQTT_CONTROL_PUBREL, MQTT_CONTROL_PUBCOMP} \<Longrightarrow>
     writes_packet (\<lambda>m p n. mqtt_pack_pubxxx_request m p n ct pid) (enc_pubxxx ct pid)"
  using pubxxx_packs by (simp add: writes_packet_def) (simp add: enc_pubxxx_def enc_fixed_header_def)

lemma ping_writes: "writes_packet mqtt_pack_ping_request (enc_empty MQTT_CONTROL_PINGREQ)"
  using ping_packs by (simp add: writes_packet_def) (simp add: enc_empty_def enc_fixed_header_def)

lemma disconnect_writes: "writes_packet mqtt_pack_disconnect (enc_empty MQTT_CONTROL_DISCONNECT)"
  using disconnect_packs by (simp add: writes_packet_def) (simp add: enc_empty_def enc_fixed_header_def)

lemma publish_writes:
  assumes "length topic < 65536" "publish_qos flags \<noteq> 3" "length (publish_body flags topic pid msg) < 2 ^ 28"
  shows "writes_packet (\<lambda>m p n. mqtt_pack_publish_request m p n (Some topic) pid msg (length msg) flags)
    (enc_publish flags topic pid msg)"
  unfolding writes_packet_def using publish_packs assms
  by (auto simp: enc_publish_def enc_fixed_header_def)

lemma subscribe_writes:
  assumes "length topic < 65536"
  shows "writes_packet (\<lambda>m p n. mqtt_pack_subscribe_request m p n pid [(topic, qos)])
    (enc_subscribe (ucast pid) [(topic, qos)])"
  unfolding writes_packet_def
  using subscribe_packs [of _ _ _ "[(topic, qos)]" pid] assms
  by (simp add: enc_subscribe_def enc_fixed_header_def)

lemma unsubscribe_writes:
  assumes "length topic < 65536"
  shows "writes_packet (\<lambda>m p n. mqtt_pack_unsubscribe_request m p n pid [topic])
    (enc_unsubscribe (ucast pid) [topic])"
  unfolding writes_packet_def
  using unsubscribe_packs [of _ _ _ "[topic]" pid] assms
  by (simp add: enc_unsubscribe_def enc_fixed_header_def)

end
