(* ===== verification/Mqtt_Pid.thy ===== *)
theory Mqtt_Pid
  imports Mqtt_Queue
begin

text \<open>
  Packet identifiers: \<open>__mqtt_next_pid\<close> of \<open>src/mqtt-c/src/mqtt.c\<close>. The identifiers come from a 16-bit
  shift register; one that a queued message carries is skipped.

  The loop has no bound of its own. That it ends rests on the period of the register: from any
  non-zero state it runs through all 65535 non-zero words before it repeats (\<open>lfsr_full_period\<close>).
  One step is a linear map on bits, so the \<open>n\<close>-fold step is determined by its value at \<open>0x8000\<close> and the
  values at the five exponents that decide the order are computed by squaring.
\<close>

unbundle bit_operations_syntax

subsection \<open>The register and the search\<close>

definition lfsr_step :: "u16 \<Rightarrow> u16" where
  "lfsr_step w =
     (let lsb = w AND 1; w = drop_bit 1 w in if lsb \<noteq> 0 then w XOR 0xB400 else w)"

text \<open>The \<open>do ... while(pid_exists)\<close> loop; \<open>used\<close> are the packet ids of the queued messages.\<close>

partial_function (option) next_pid_loop :: "u16 list \<Rightarrow> u16 \<Rightarrow> u16 option" where
  "next_pid_loop used w =
     (let w = lfsr_step w in if w \<in> set used then next_pid_loop used w else Some w)"

text \<open>The new value of \<open>client->pid_lfsr\<close>, which is also the result.\<close>

definition mqtt_next_pid :: "mqtt_message_queue \<Rightarrow> u16 \<Rightarrow> u16 option" where
  "mqtt_next_pid mq pid_lfsr =
     next_pid_loop (map q_packet_id (mq_msgs mq)) (if pid_lfsr = 0 then 163 else pid_lfsr)"

subsection \<open>The step is linear\<close>

lemma lfsr_step_bit: "lfsr_step w = drop_bit 1 w XOR (if bit w 0 then 0xB400 else 0)"
  by (simp add: lfsr_step_def Let_def and_one_eq odd_iff_mod_2_eq_one bit_0)

lemma lfsr_step_xor: "lfsr_step (a XOR b) = lfsr_step a XOR lfsr_step b"
  by (auto simp: lfsr_step_bit bit_xor_iff drop_bit_xor ac_simps xor.left_commute)

lemma lfsr_step_0 [simp]: "lfsr_step 0 = 0"
  by (simp add: lfsr_step_bit)

abbreviation lfsr :: "nat \<Rightarrow> u16 \<Rightarrow> u16" where
  "lfsr n \<equiv> lfsr_step ^^ n"

lemma lfsr_xor: "lfsr n (a XOR b) = lfsr n a XOR lfsr n b"
  by (induction n) (simp_all add: lfsr_step_xor)

lemma lfsr_zero [simp]: "lfsr n 0 = 0"
  by (induction n) simp_all

lemma lfsr_shift: "lfsr n (lfsr_step w) = lfsr_step (lfsr n w)"
  by (metis comp_apply funpow.simps(2) funpow_swap1)

text \<open>
  The product of the \<open>n\<close>-fold step with a word: the sum of the shifts of its value at the top bit, one
  for each bit set. The bits are listed from the top.
\<close>

primrec mult_bits :: "u16 \<Rightarrow> u16 \<Rightarrow> nat list \<Rightarrow> u16" where
  "mult_bits v w [] = 0"
| "mult_bits v w (k # ks) =
     (if bit w k then v XOR mult_bits (lfsr_step v) w ks else mult_bits (lfsr_step v) w ks)"

definition lfsr_mult :: "u16 \<Rightarrow> u16 \<Rightarrow> u16" where
  "lfsr_mult v w = mult_bits v w [15, 14, 13, 12, 11, 10, 9, 8, 7, 6, 5, 4, 3, 2, 1, 0]"

lemma mult_bits_lfsr: "lfsr n (mult_bits v w ks) = mult_bits (lfsr n v) w ks"
  by (induction ks arbitrary: v) (simp_all add: lfsr_xor lfsr_shift)

definition one_bit :: "nat \<Rightarrow> u16" where
  "one_bit k = push_bit k 1"

lemma bit_one_bit: "bit (one_bit k) n \<longleftrightarrow> n = k \<and> n < 16"
  by (auto simp: one_bit_def push_bit_of_1 bit_2_iff simp flip: take_bit_eq_mod)
    (auto simp: bit_exp_iff)

lemma lfsr_step_one_bit: "Suc k < 16 \<Longrightarrow> lfsr_step (one_bit (Suc k)) = one_bit k"
  by (rule bit_word_eqI) (auto simp: lfsr_step_bit bit_drop_bit_eq bit_one_bit)

lemma mult_bits_take: "k < 16 \<Longrightarrow> mult_bits (one_bit k) w (rev [0..<Suc k]) = take_bit (Suc k) w"
proof (induction k)
  case 0
  then show ?case by (auto intro!: bit_word_eqI simp: bit_take_bit_iff bit_one_bit simp flip: bit_0)
next
  case (Suc k)
  have "(if bit w (Suc k) then one_bit (Suc k) XOR take_bit (Suc k) w else take_bit (Suc k) w) =
      take_bit (Suc (Suc k)) w"
    by (rule bit_word_eqI)
      (use Suc.prems in \<open>auto simp: bit_take_bit_iff bit_xor_iff bit_one_bit less_Suc_eq\<close>)
  moreover have "rev [0..<Suc (Suc k)] = Suc k # rev [0..<Suc k]" by simp
  ultimately show ?case using Suc by (simp only: mult_bits.simps lfsr_step_one_bit Suc_lessD)
qed

lemma lfsr_mult_top: "lfsr_mult 0x8000 w = w"
proof -
  have r: "rev [0..<Suc 15] = [15, 14, 13, 12, 11, 10, 9, 8, 7, 6, 5, 4, 3, 2, 1, 0::nat]"
    by (simp add: upt_rec)
  have o: "one_bit 15 = 0x8000" by (simp add: one_bit_def)
  have t: "take_bit (Suc 15) w = w" by (simp add: take_bit_word_eq_self)
  have "(15::nat) < 16" by simp
  from mult_bits_take [OF this, of w, unfolded r o t] show ?thesis by (simp only: lfsr_mult_def)
qed

lemma lfsr_eq_mult: "lfsr n w = lfsr_mult (lfsr n 0x8000) w"
  using mult_bits_lfsr [of n "0x8000" w] lfsr_mult_top [of w] unfolding lfsr_mult_def by metis

text \<open>Powers by squaring; the digits of the exponent come lowest first.\<close>

definition lfsr_square :: "u16 \<Rightarrow> u16" where
  "lfsr_square v = lfsr_mult v v"

primrec lfsr_pow :: "bool list \<Rightarrow> u16" where
  "lfsr_pow [] = 0x8000"
| "lfsr_pow (b # bs) =
     (if b then lfsr_step (lfsr_square (lfsr_pow bs)) else lfsr_square (lfsr_pow bs))"

primrec digits_val :: "bool list \<Rightarrow> nat" where
  "digits_val [] = 0"
| "digits_val (b # bs) = of_bool b + 2 * digits_val bs"

lemma lfsr_pow_eq: "lfsr_pow bs = lfsr (digits_val bs) 0x8000"
proof (induction bs)
  case (Cons b bs)
  have "lfsr_square (lfsr (digits_val bs) 0x8000) = lfsr (2 * digits_val bs) 0x8000"
    unfolding lfsr_square_def lfsr_eq_mult [symmetric] by (simp add: mult_2 funpow_add)
  with Cons show ?case by simp
qed simp

lemma lfsr_powers:
  "lfsr 65535 0x8000 = 0x8000" "lfsr 21845 0x8000 \<noteq> 0x8000" "lfsr 13107 0x8000 \<noteq> 0x8000"
  "lfsr 3855 0x8000 \<noteq> 0x8000" "lfsr 255 0x8000 \<noteq> 0x8000"
proof -
  have *: "lfsr_pow [True, True, True, True, True, True, True, True, True, True, True, True, True, True, True, True] = 0x8000"
    "lfsr_pow [True, False, True, False, True, False, True, False, True, False, True, False, True, False, True] \<noteq> 0x8000"
    "lfsr_pow [True, True, False, False, True, True, False, False, True, True, False, False, True, True] \<noteq> 0x8000"
    "lfsr_pow [True, True, True, True, False, False, False, False, True, True, True, True] \<noteq> 0x8000"
    "lfsr_pow [True, True, True, True, True, True, True, True] \<noteq> 0x8000"
    by (simp_all add: lfsr_square_def lfsr_mult_def lfsr_step_def)
  have d: "digits_val [True, True, True, True, True, True, True, True, True, True, True, True, True, True, True, True] = 65535"
    "digits_val [True, False, True, False, True, False, True, False, True, False, True, False, True, False, True] = 21845"
    "digits_val [True, True, False, False, True, True, False, False, True, True, False, False, True, True] = 13107"
    "digits_val [True, True, True, True, False, False, False, False, True, True, True, True] = 3855"
    "digits_val [True, True, True, True, True, True, True, True] = 255"
    by simp_all
  show "lfsr 65535 0x8000 = 0x8000" "lfsr 21845 0x8000 \<noteq> 0x8000" "lfsr 13107 0x8000 \<noteq> 0x8000"
    "lfsr 3855 0x8000 \<noteq> 0x8000" "lfsr 255 0x8000 \<noteq> 0x8000"
    using * unfolding lfsr_pow_eq d by blast+
qed

subsection \<open>The period\<close>

lemma lfsr_id: "lfsr 65535 w = w"
  using lfsr_eq_mult [of 65535 w] lfsr_powers(1) lfsr_mult_top [of w] by metis

lemma lfsr_add: "lfsr (m + n) w = lfsr m (lfsr n w)"
  by (simp add: funpow_add)

lemma inj_lfsr: "inj (lfsr n)"
proof -
  have "inj lfsr_step"
  proof (rule injI)
    fix a b assume eq: "lfsr_step a = lfsr_step b"
    have *: "lfsr 65534 (lfsr_step w) = w" for w
    proof -
      have "lfsr 65534 (lfsr_step w) = lfsr (65534 + 1) w" unfolding lfsr_add by simp
      also have "(65534 + 1 :: nat) = 65535" by simp
      finally show ?thesis by (simp only: lfsr_id)
    qed
    from * [of a] * [of b] eq show "a = b" by metis
  qed
  then show ?thesis by (rule inj_fn)
qed

lemma lfsr_eq_iff: "lfsr n a = lfsr n b \<longleftrightarrow> a = b"
  using inj_lfsr [of n] by (auto dest: injD)

lemma lfsr_nonzero: "w \<noteq> 0 \<Longrightarrow> lfsr n w \<noteq> 0"
  using lfsr_eq_iff [of n w 0] by simp

text \<open>\<open>d\<close> is a period of the orbit of \<open>0x8000\<close>.\<close>

definition period :: "nat \<Rightarrow> bool" where
  "period d \<longleftrightarrow> lfsr d 0x8000 = 0x8000"

lemma period_mult: "period d \<Longrightarrow> period (d * k)"
proof (induction k)
  case (Suc k)
  then have "lfsr d (lfsr (d * k) 0x8000) = 0x8000" unfolding period_def by metis
  then show ?case unfolding period_def mult_Suc_right lfsr_add .
qed (simp add: period_def)

lemma period_dvd: "period d \<Longrightarrow> d dvd n \<Longrightarrow> period n"
  using period_mult by (auto simp: dvd_def)

lemma period_gcd:
  assumes "period a" "period b" "a \<noteq> 0"
  shows "period (gcd a b)"
proof -
  from bezout_nat [OF assms(3)] obtain x y where xy: "a * x = b * y + gcd a b" by blast
  have "lfsr (gcd a b + b * y) 0x8000 = 0x8000"
    using period_mult [OF assms(1), of x] unfolding period_def xy by (simp only: add.commute)
  then show ?thesis
    using period_mult [OF assms(2), of y] unfolding period_def lfsr_add by metis
qed

lemma proper_divisor:
  fixes g :: nat
  assumes "g dvd 65535" "g \<noteq> 65535"
  shows "g dvd 21845 \<or> g dvd 13107 \<or> g dvd 3855 \<or> g dvd 255"
proof -
  from assms(1) obtain k where k: "65535 = g * k" by (auto simp: dvd_def)
  have small: "\<forall>g \<in> set [1..255::int]. g dvd 65535 \<longrightarrow> g dvd 255" by code_simp
  have large: "\<forall>k \<in> set [2..256::int]. k dvd 65535 \<longrightarrow> 3 dvd k \<or> 5 dvd k \<or> 17 dvd k" by code_simp
  show ?thesis
  proof (cases "g \<le> 255")
    case True
    from assms(1) have "int g dvd int 65535" by (simp only: int_dvd_int_iff)
    moreover have "g \<noteq> 0" using k by (intro notI) simp
    then have "int g \<in> set [1..255]" using True unfolding set_upto atLeastAtMost_iff by linarith
    ultimately have "int g dvd int 255" using small by (simp only: of_nat_numeral)
    then have "g dvd 255" by (simp only: int_dvd_int_iff)
    then show ?thesis by (intro disjI2)
  next
    case False
    then have "256 * k \<le> g * k" by (intro mult_le_mono1) simp
    then have "256 * k \<le> 65535" unfolding k [symmetric] .
    then have "k \<le> 256" by simp
    moreover have "k \<noteq> 0" "k \<noteq> 1" using k assms(2) by (auto intro: Nat.gr0I)
    ultimately have "int k \<in> set [2..256]" unfolding set_upto atLeastAtMost_iff by linarith
    moreover have "int k dvd int 65535" unfolding int_dvd_int_iff k by simp
    ultimately have "int 3 dvd int k \<or> int 5 dvd int k \<or> int 17 dvd int k"
      using large by (simp only: of_nat_numeral)
    then have "3 dvd k \<or> 5 dvd k \<or> 17 dvd k" by (simp only: int_dvd_int_iff)
    then obtain p j where p: "k = p * j" "p = 3 \<or> p = 5 \<or> p = 17" by (auto simp: dvd_def)
    from p(2) show ?thesis
    proof (elim disjE)
      assume "p = 3"
      with k p(1) have "21845 = g * j" by simp
      then show ?thesis by (metis dvd_triv_left)
    next
      assume "p = 5"
      with k p(1) have "13107 = g * j" by simp
      then show ?thesis by (metis dvd_triv_left)
    next
      assume "p = 17"
      with k p(1) have "3855 = g * j" by simp
      then show ?thesis by (metis dvd_triv_left)
    qed
  qed
qed

lemma period_65535:
  assumes "period d" "d \<noteq> 0"
  shows "65535 dvd d"
proof -
  have "period 65535" using lfsr_powers(1) by (simp only: period_def)
  with assms have "period (gcd d 65535)" by (intro period_gcd)
  moreover have "\<not> period 21845" "\<not> period 13107" "\<not> period 3855" "\<not> period 255"
    using lfsr_powers(2-) by (simp_all only: period_def not_False_eq_True simp_thms)
  ultimately have "gcd d 65535 = 65535"
    using proper_divisor [OF gcd_dvd2] period_dvd by metis
  then show ?thesis by (metis gcd_dvd1)
qed

lemma top_distinct: "inj_on (\<lambda>i. lfsr i 0x8000) {..<65535}"
proof -
  have *: False if "lfsr i 0x8000 = lfsr j 0x8000" "i < j" "j < 65535" for i j
  proof -
    from that(2) have "j = i + (j - i)" by simp
    with that(1) have "lfsr i 0x8000 = lfsr i (lfsr (j - i) 0x8000)" by (metis lfsr_add)
    then have "period (j - i)" unfolding period_def lfsr_eq_iff by metis
    with that(2) have "65535 dvd j - i" by (intro period_65535) simp_all
    then have "65535 \<le> j - i" using that(2) by (intro dvd_imp_le) simp_all
    with that(3) show False by simp
  qed
  show ?thesis
  proof (rule inj_onI)
    fix i j assume a: "i \<in> {..<65535}" "j \<in> {..<65535}" "lfsr i 0x8000 = lfsr j 0x8000"
    show "i = j"
      using * [OF a(3)] * [OF a(3) [symmetric]] a(1,2) by (cases i j rule: linorder_cases) simp_all
  qed
qed

lemma top_orbit: "(\<lambda>i. lfsr i 0x8000) ` {..<65535} = UNIV - {0}"
proof (rule card_subset_eq)
  have "card (UNIV - {0::u16}) = 65535" by (subst card_Diff_singleton) (simp_all add: card_word)
  then show "card ((\<lambda>i. lfsr i 0x8000) ` {..<65535}) = card (UNIV - {0::u16})"
    by (simp only: card_image [OF top_distinct] card_lessThan)
  show "(\<lambda>i. lfsr i 0x8000) ` {..<65535} \<subseteq> UNIV - {0}"
    using lfsr_nonzero [of "0x8000"] by auto
qed simp

text \<open>From any non-zero state the register visits every non-zero word once in 65535 steps.\<close>

lemma lfsr_distinct:
  assumes "w \<noteq> 0"
  shows "inj_on (\<lambda>i. lfsr (Suc i) w) {..<65535}"
proof -
  have "w \<in> (\<lambda>i. lfsr i 0x8000) ` {..<65535}" unfolding top_orbit using assms by simp
  then obtain j where w: "w = lfsr j 0x8000" by (rule imageE)
  show ?thesis
  proof (rule inj_onI)
    fix i k assume a: "i \<in> {..<65535}" "k \<in> {..<65535}" "lfsr (Suc i) w = lfsr (Suc k) w"
    have sw: "lfsr (Suc n) w = lfsr (Suc j) (lfsr n 0x8000)" for n
      unfolding w lfsr_add [symmetric] by (simp only: add_Suc add_Suc_right add.commute)
    from a(3) have "lfsr i 0x8000 = lfsr k 0x8000" unfolding sw lfsr_eq_iff .
    with top_distinct show "i = k" using a(1,2) by (rule inj_onD)
  qed
qed

lemma lfsr_full_period:
  assumes "w \<noteq> 0"
  shows "(\<lambda>i. lfsr (Suc i) w) ` {..<65535} = UNIV - {0}"
proof (rule card_subset_eq)
  have "card (UNIV - {0::u16}) = 65535" by (subst card_Diff_singleton) (simp_all add: card_word)
  then show "card ((\<lambda>i. lfsr (Suc i) w) ` {..<65535}) = card (UNIV - {0::u16})"
    by (simp only: card_image [OF lfsr_distinct [OF assms]] card_lessThan)
  show "(\<lambda>i. lfsr (Suc i) w) ` {..<65535} \<subseteq> UNIV - {0}"
    using lfsr_nonzero [OF assms] by (auto simp del: funpow.simps)
qed simp

subsection \<open>The search ends\<close>

lemma next_pid_loop_steps:
  "(\<And>k. k < i \<Longrightarrow> lfsr (Suc k) w \<in> set used) \<Longrightarrow> lfsr (Suc i) w \<notin> set used \<Longrightarrow>
     next_pid_loop used w = Some (lfsr (Suc i) w)"
proof (induction i arbitrary: w)
  case 0
  then show ?case by (simp add: next_pid_loop.simps [of used w])
next
  case (Suc i)
  from Suc.prems(1) [of 0] have "lfsr_step w \<in> set used" by simp
  then have "next_pid_loop used w = next_pid_loop used (lfsr_step w)"
    by (simp add: next_pid_loop.simps [of used w])
  also have "\<dots> = Some (lfsr (Suc i) (lfsr_step w))"
    using Suc.prems(1) [of "Suc _"] Suc.prems(2) by (intro Suc.IH) (simp_all add: lfsr_shift)
  finally show ?case by (simp add: lfsr_shift)
qed

lemma next_pid_loop_fresh:
  assumes "length used < 65535" "w \<noteq> 0"
  shows "\<exists>pid. next_pid_loop used w = Some pid \<and> pid \<notin> set used \<and> pid \<noteq> 0"
proof -
  have "card (set used) < 65535" using assms(1) card_length [of used] by simp
  moreover have "card ((\<lambda>i. lfsr (Suc i) w) ` {..<65535}) = 65535"
    by (simp only: card_image [OF lfsr_distinct [OF assms(2)]] card_lessThan)
  ultimately have "\<not> (\<lambda>i. lfsr (Suc i) w) ` {..<65535} \<subseteq> set used"
    by (metis List.finite_set card_mono not_less)
  then have ex: "\<exists>i. lfsr (Suc i) w \<notin> set used" by auto
  define i where "i = (LEAST i. lfsr (Suc i) w \<notin> set used)"
  have i: "lfsr (Suc i) w \<notin> set used" unfolding i_def using ex by (rule LeastI_ex)
  have "lfsr (Suc k) w \<in> set used" if "k < i" for k
    using that not_less_Least unfolding i_def by blast
  from next_pid_loop_steps [OF this i] i lfsr_nonzero [OF assms(2)] show ?thesis by blast
qed

lemma next_pid_loop_sound:
  assumes "next_pid_loop used w = Some pid"
  shows "w \<noteq> 0 \<longrightarrow> pid \<notin> set used \<and> pid \<noteq> 0"
proof (rule next_pid_loop.raw_induct [where P = "\<lambda>used w pid. w \<noteq> 0 \<longrightarrow> pid \<notin> set used \<and> pid \<noteq> 0", OF _ assms])
  fix loop used w pid
  assume IH: "\<And>used w pid. loop used w = Some pid \<Longrightarrow> w \<noteq> 0 \<longrightarrow> pid \<notin> set used \<and> pid \<noteq> 0"
    and eq: "(let w = lfsr_step w in if w \<in> set used then loop used w else Some w) = Some pid"
  have "w \<noteq> 0 \<Longrightarrow> lfsr_step w \<noteq> 0" using lfsr_nonzero [of w 1] by simp
  with IH [of used "lfsr_step w" pid] eq show "w \<noteq> 0 \<longrightarrow> pid \<notin> set used \<and> pid \<noteq> 0"
    by (auto simp: Let_def split: if_splits)
qed

text \<open>When every identifier is taken the loop does not end.\<close>

lemma next_pid_loop_full:
  assumes "UNIV - {0} \<subseteq> set used" "w \<noteq> 0"
  shows "next_pid_loop used w = None"
  using next_pid_loop_sound [of used w] assms by (cases "next_pid_loop used w") auto

lemma next_pid_fresh:
  assumes "length (mq_msgs mq) < 65535"
  shows "\<exists>pid. mqtt_next_pid mq l = Some pid \<and> pid \<noteq> 0 \<and> (\<forall>q \<in> set (mq_msgs mq). q_packet_id q \<noteq> pid)"
proof -
  have "(if l = 0 then 163 else l) \<noteq> (0 :: u16)" by simp
  moreover have "length (map q_packet_id (mq_msgs mq)) < 65535" using assms by simp
  ultimately show ?thesis
    using next_pid_loop_fresh [of "map q_packet_id (mq_msgs mq)"] unfolding mqtt_next_pid_def by fastforce
qed

end
