(* ===== verification/Mqtt_Pal.thy ===== *)
theory Mqtt_Pal
  imports Mqtt_Types
begin

text \<open>
  The POSIX part of the platform layer, \<open>src/mqtt-c/src/mqtt_pal.c\<close>: sending and receiving as much as a
  non-blocking socket takes, and the clock and the mutex macros of \<open>mqtt_pal.h\<close>.

  The socket and the clock are the environment: \<open>env\<close> holds the system calls as functions of a world
  \<open>'w\<close>. A call that fails returns its \<open>errno\<close>. What POSIX promises of them is \<open>env_ok\<close>: a receive
  delivers at most as many bytes as were asked for, a send accepts at most as many as it was given
  and appends exactly those to the stream \<open>wire\<close>.
\<close>

subsection \<open>System calls\<close>

datatype 'a sysret = Ret 'a | Errno int

record 'w env =
  sys_send :: "'w \<Rightarrow> u8 list \<Rightarrow> 'w \<times> nat sysret"
  sys_recv :: "'w \<Rightarrow> nat \<Rightarrow> 'w \<times> u8 list sysret"
  sys_time :: "'w \<Rightarrow> 'w \<times> int"

definition EAGAIN :: int where "EAGAIN = 11"
definition EWOULDBLOCK :: int where "EWOULDBLOCK = EAGAIN"

subsection \<open>Sending\<close>

function sendall_loop :: "'w env \<Rightarrow> 'w \<Rightarrow> u8 list \<Rightarrow> nat \<Rightarrow> 'w \<times> nat \<times> ssize" where
  "sendall_loop env w bytes sent =
     (if sent < length bytes then
        (case sys_send env w (drop sent bytes) of
           (w, Errno e) \<Rightarrow>
             if e = EAGAIN then (w, sent, Cnt 0) else (w, sent, Err MQTT_ERROR_SOCKET_ERROR)
         | (w, Ret rv) \<Rightarrow>
             if rv = 0 then (w, sent, Err MQTT_ERROR_SOCKET_ERROR)
             else sendall_loop env w bytes (sent + rv))
      else (w, sent, Cnt 0))"
  by pat_completeness auto

termination
  by (relation "measure (\<lambda>(env, w, bytes, sent). length bytes - sent)") auto

declare sendall_loop.simps [simp del]

definition mqtt_pal_sendall ::
    "'w env \<Rightarrow> 'w \<Rightarrow> mem \<Rightarrow> nat \<Rightarrow> nat \<Rightarrow> ('w \<times> ssize) option" where
  "mqtt_pal_sendall env w m buf len =
     do { bytes \<leftarrow> read_bytes m buf len;
          let (w, sent, error) = sendall_loop env w bytes 0;
          Some (w, if sent = 0 then error else Cnt sent) }"

subsection \<open>Receiving\<close>

text \<open>
  The loop writes at \<open>buf\<close> while room is left; a kernel that wrote more than it was asked for would
  have overrun the buffer.
\<close>

function recvall_loop ::
    "'w env \<Rightarrow> 'w \<Rightarrow> mem \<Rightarrow> nat \<Rightarrow> nat \<Rightarrow> ('w \<times> mem \<times> nat \<times> ssize) option" where
  "recvall_loop env w m buf bufsz =
     (case sys_recv env w bufsz of
        (w, Errno e) \<Rightarrow>
          if e = EAGAIN \<or> e = EWOULDBLOCK then Some (w, m, buf, Cnt 0)
          else Some (w, m, buf, Err MQTT_ERROR_SOCKET_ERROR)
      | (w, Ret data) \<Rightarrow>
          if data = [] then Some (w, m, buf, Err MQTT_ERROR_SOCKET_ERROR)
          else if bufsz < length data then None
          else do {
            (m, buf) \<leftarrow> put (m, buf) data;
            (if bufsz - length data > 0 then recvall_loop env w m buf (bufsz - length data)
             else Some (w, m, buf, Cnt 0))
          })"
  by pat_completeness auto

termination
  by (relation "measure (\<lambda>(env, w, m, buf, bufsz). bufsz)") auto

declare recvall_loop.simps [simp del]

definition mqtt_pal_recvall ::
    "'w env \<Rightarrow> 'w \<Rightarrow> mem \<Rightarrow> nat \<Rightarrow> nat \<Rightarrow> ('w \<times> mem \<times> ssize) option" where
  "mqtt_pal_recvall env w m start bufsz =
     do { (w, m, buf, error) \<leftarrow> recvall_loop env w m start bufsz;
          Some (w, m, if buf = start then error else Cnt (buf - start)) }"

subsection \<open>The contract of the environment\<close>

definition env_ok :: "('w \<Rightarrow> u8 list) \<Rightarrow> 'w env \<Rightarrow> bool" where
  "env_ok wire env \<longleftrightarrow>
     (\<forall>w bytes. case sys_send env w bytes of
        (w', Ret n) \<Rightarrow> n \<le> length bytes \<and> wire w' = wire w @ take n bytes
      | (w', Errno e) \<Rightarrow> wire w' = wire w) \<and>
     (\<forall>w n. case sys_recv env w n of
        (w', Ret data) \<Rightarrow> length data \<le> n \<and> wire w' = wire w
      | (w', Errno e) \<Rightarrow> wire w' = wire w) \<and>
     (\<forall>w. wire (fst (sys_time env w)) = wire w)"

lemma env_send:
  assumes "env_ok wire env" "sys_send env w bytes = (w', r)"
  shows "case r of Ret n \<Rightarrow> n \<le> length bytes \<and> wire w' = wire w @ take n bytes | Errno e \<Rightarrow> wire w' = wire w"
  using assms by (auto simp: env_ok_def split: sysret.splits prod.splits) metis+

lemma env_recv:
  assumes "env_ok wire env" "sys_recv env w n = (w', r)"
  shows "(case r of Ret data \<Rightarrow> length data \<le> n | Errno e \<Rightarrow> True) \<and> wire w' = wire w"
proof -
  from assms(1) have "case sys_recv env w n of (w', Ret data) \<Rightarrow> length data \<le> n \<and> wire w' = wire w
    | (w', Errno e) \<Rightarrow> wire w' = wire w" by (simp add: env_ok_def)
  with assms(2) show ?thesis by (auto split: sysret.splits)
qed

lemma env_time: "env_ok wire env \<Longrightarrow> sys_time env w = (w', t) \<Longrightarrow> wire w' = wire w"
  by (simp add: env_ok_def) (metis fst_conv)

text \<open>
  Sending is exact: the reported count is the number of bytes that reached the stream, they are
  the first bytes of the message, and an error is reported only if none did.
\<close>

lemma sendall_loop_wire:
  "env_ok wire env \<Longrightarrow> sent \<le> length bytes \<Longrightarrow> sendall_loop env w bytes sent = (w', sent', error) \<Longrightarrow>
    sent \<le> sent' \<and> sent' \<le> length bytes \<and> wire w' = wire w @ drop sent (take sent' bytes) \<and>
    (error = Cnt 0 \<or> error = Err MQTT_ERROR_SOCKET_ERROR)"
proof (induction env w bytes sent arbitrary: w' sent' error rule: sendall_loop.induct)
  case (1 env w bytes sent)
  note env = "1.prems"(1) and prems = "1.prems"(2,3)
  show ?case
  proof (cases "sent < length bytes")
    case False
    with prems show ?thesis by (simp add: sendall_loop.simps)
  next
    case True
    obtain w1 r where c: "sys_send env w (drop sent bytes) = (w1, r)" by (cases "sys_send env w (drop sent bytes)")
    note r = env_send [OF env c]
    show ?thesis
    proof (cases "\<exists>n. r = Ret n \<and> n \<noteq> 0")
      case False
      then have "w' = w1" "sent' = sent" "error = Cnt 0 \<or> error = Err MQTT_ERROR_SOCKET_ERROR" "wire w1 = wire w"
        using prems(2) True c r
        by (simp_all add: sendall_loop.simps [of env w bytes sent] split: sysret.splits if_splits)
      then show ?thesis using prems(1) by simp
    next
      case False': True
      then obtain n where n: "r = Ret n" "n \<noteq> 0" by blast
      with r have le: "n \<le> length bytes - sent" and wire: "wire w1 = wire w @ take n (drop sent bytes)" by auto
      have "sendall_loop env w1 bytes (sent + n) = (w', sent', error)"
        using prems(2) True c n by (simp add: sendall_loop.simps [of env w bytes sent])
      with "1.IH" [OF True c [symmetric] n(1) n(2) env] le True
      have "sent + n \<le> sent'" "sent' \<le> length bytes" "wire w' = wire w1 @ drop (sent + n) (take sent' bytes)"
        "error = Cnt 0 \<or> error = Err MQTT_ERROR_SOCKET_ERROR" by auto
      moreover from \<open>sent + n \<le> sent'\<close>
      have "take n (drop sent bytes) @ drop (sent + n) (take sent' bytes) = drop sent (take sent' bytes)"
        using take_add [of n "sent' - (sent + n)" "drop sent bytes"] by (simp add: drop_take add.commute)
      ultimately show ?thesis using wire by simp
    qed
  qed
qed

lemma sendall_wire:
  assumes "env_ok wire env" "buf + len \<le> length m"
  shows "\<exists>w' rv. mqtt_pal_sendall env w m buf len = Some (w', rv) \<and>
    (case rv of Cnt n \<Rightarrow> n \<le> len \<and> wire w' = wire w @ take n (drop buf m)
     | Err e \<Rightarrow> e = MQTT_ERROR_SOCKET_ERROR \<and> wire w' = wire w)"
proof -
  let ?bs = "take len (drop buf m)"
  obtain w' sent' error where l: "sendall_loop env w ?bs 0 = (w', sent', error)"
    by (metis prod_cases3)
  have len: "length ?bs = len" using assms(2) by simp
  from sendall_loop_wire [OF assms(1) _ l] have le: "sent' \<le> len"
    and "wire w' = wire w @ take sent' (drop buf m)" "error = Cnt 0 \<or> error = Err MQTT_ERROR_SOCKET_ERROR"
    unfolding len by (simp_all add: min_absorb1)
  with l assms(2) show ?thesis
    by (auto simp: mqtt_pal_sendall_def read_bytes_def split: ssize.split)
qed

text \<open>
  Receiving stays in the room it was given, changes nothing else, and reports what it wrote.
\<close>

lemma recvall_loop_safe:
  assumes env: "env_ok wire env"
  shows "buf + bufsz \<le> length m \<Longrightarrow>
    \<exists>w' bs error. recvall_loop env w m buf bufsz = Some (w', patch m buf bs, buf + length bs, error) \<and>
      length bs \<le> bufsz \<and> wire w' = wire w \<and> (error = Cnt 0 \<or> error = Err MQTT_ERROR_SOCKET_ERROR)"
proof (induction bufsz arbitrary: w m buf rule: less_induct)
  case (less bufsz)
  obtain w1 r where c: "sys_recv env w bufsz = (w1, r)" by (cases "sys_recv env w bufsz")
  note r = env_recv [OF env c]
  show ?case
  proof (cases "\<exists>data. r = Ret data \<and> data \<noteq> []")
    case False
    with c r have "\<exists>error. recvall_loop env w m buf bufsz = Some (w1, m, buf, error) \<and>
        (error = Cnt 0 \<or> error = Err MQTT_ERROR_SOCKET_ERROR)"
      by (subst recvall_loop.simps) (auto split: sysret.splits)
    with r show ?thesis by (metis (no_types) add_0_right le0 list.size(3) patch_Nil)
  next
    case True
    then obtain data where d: "r = Ret data" "data \<noteq> []" by blast
    with r have le: "length data \<le> bufsz" and wire: "wire w1 = wire w" by auto
    let ?m = "patch m buf data" and ?b = "buf + length data"
    have put: "put (m, buf) data = Some (?m, ?b)" using le less.prems by (simp add: put_Some)
    show ?thesis
    proof (cases "length data = bufsz")
      case True
      with c d le put have "recvall_loop env w m buf bufsz = Some (w1, ?m, ?b, Cnt 0)"
        by (subst recvall_loop.simps) simp
      with wire le show ?thesis by blast
    next
      case False
      let ?n = "bufsz - length data"
      have "?n < bufsz" "?b + ?n \<le> length ?m" using d le less.prems False by auto
      from less.IH [OF this, of w1] obtain w' bs error where
        rec: "recvall_loop env w1 ?m ?b ?n = Some (w', patch ?m ?b bs, ?b + length bs, error)"
        "length bs \<le> ?n" "wire w' = wire w1" "error = Cnt 0 \<or> error = Err MQTT_ERROR_SOCKET_ERROR" by blast
      have "patch ?m ?b bs = patch m buf (data @ bs)" using less.prems by (simp add: patch_patch)
      moreover have "recvall_loop env w m buf bufsz = recvall_loop env w1 ?m ?b ?n"
        using c d le put False by (subst recvall_loop.simps) simp
      ultimately show ?thesis using rec wire le
        by (intro exI [of _ w'] exI [of _ "data @ bs"] exI [of _ error]) simp
    qed
  qed
qed

lemma recvall_safe:
  assumes "env_ok wire env" "start + bufsz \<le> length m"
  shows "\<exists>w' bs rv. mqtt_pal_recvall env w m start bufsz = Some (w', patch m start bs, rv) \<and>
    length bs \<le> bufsz \<and> wire w' = wire w \<and>
    (case rv of Cnt n \<Rightarrow> n = length bs | Err e \<Rightarrow> e = MQTT_ERROR_SOCKET_ERROR \<and> bs = [])"
proof -
  from recvall_loop_safe [OF assms] obtain w' bs error where
    "recvall_loop env w m start bufsz = Some (w', patch m start bs, start + length bs, error)"
    "length bs \<le> bufsz" "wire w' = wire w" "error = Cnt 0 \<or> error = Err MQTT_ERROR_SOCKET_ERROR" by blast
  then show ?thesis by (auto simp: mqtt_pal_recvall_def)
qed

end
