(* ===== verification/Mqtt_Client.thy ===== *)
theory Mqtt_Client
  imports Mqtt_Unpack Mqtt_Pid Mqtt_Pal
begin

text \<open>
  The client of \<open>src/mqtt-c/src/mqtt.c\<close>: its state (\<open>struct mqtt_client\<close>), initialisation, and the operations
  that queue a packet (\<open>mqtt_connect\<close>, \<open>mqtt_publish\<close>, ..., \<open>__mqtt_puback\<close>, ...).

  \<open>cl_mutex\<close> says whether the client's mutex is held. Locking a held mutex blocks the (only) thread for
  ever, unlocking a free one is undefined: both are \<open>None\<close>, so a theorem that an operation returns
  \<open>Some\<close> includes its locking discipline.

  \<open>typical_response_time\<close> is a float that no code reads; it is kept as the expression that computes
  it. The publish callback is user code: its calls are recorded in \<open>cl_published\<close>, with the bytes its
  argument points to at that moment. The other callbacks are kept as set or \<open>NULL\<close>.
\<close>

subsection \<open>State\<close>

datatype response_time =
    Unmeasured
  | Measured int
  | Averaged response_time int

record publish_call =
  call_publish :: mqtt_response_publish
  call_topic :: "u8 list option"
  call_message :: "u8 list option"

record mqtt_client =
  cl_socketfd :: int
  cl_pid_lfsr :: u16
  cl_keep_alive :: u16
  cl_number_of_keep_alives :: int
  cl_send_offset :: nat
  cl_time_of_last_send :: int
  cl_error :: MQTTErrors
  cl_response_timeout :: int
  cl_number_of_timeouts :: int
  cl_typical_response_time :: response_time
  cl_published :: "publish_call list"
  cl_inspector_callback :: bool
  cl_reconnect_callback :: bool
  cl_recv_mem :: mem
  cl_recv_curr :: nat
  cl_recv_curr_sz :: nat
  cl_mutex :: bool
  cl_mq :: mqtt_message_queue

definition mutex_lock :: "mqtt_client \<Rightarrow> mqtt_client option" where
  "mutex_lock c = (if cl_mutex c then None else Some (c\<lparr>cl_mutex := True\<rparr>))"

definition mutex_unlock :: "mqtt_client \<Rightarrow> mqtt_client option" where
  "mutex_unlock c = (if cl_mutex c then Some (c\<lparr>cl_mutex := False\<rparr>) else None)"

subsection \<open>Initialisation\<close>

definition mqtt_init ::
    "mqtt_client option \<Rightarrow> int \<Rightarrow> mem option \<Rightarrow> mem option \<Rightarrow> mqtt_client option \<times> MQTTErrors" where
  "mqtt_init client sockfd sendbuf recvbuf =
     (case (client, sendbuf, recvbuf) of
        (Some c, Some sb, Some rb) \<Rightarrow>
          (Some (c\<lparr>cl_mutex := True,
             cl_socketfd := sockfd,
             cl_mq := mqtt_mq_init (cl_mq c) (Some sb),
             cl_recv_mem := rb, cl_recv_curr := 0, cl_recv_curr_sz := length rb,
             cl_error := MQTT_ERROR_CONNECT_NOT_CALLED,
             cl_response_timeout := 30, cl_number_of_timeouts := 0, cl_number_of_keep_alives := 0,
             cl_typical_response_time := Unmeasured,
             cl_pid_lfsr := 0, cl_send_offset := 0,
             cl_inspector_callback := False, cl_reconnect_callback := False\<rparr>), MQTT_OK)
      | _ \<Rightarrow> (client, MQTT_ERROR_NULLPTR))"

definition mqtt_init_reconnect :: "mqtt_client \<Rightarrow> bool \<Rightarrow> mqtt_client" where
  "mqtt_init_reconnect c reconnect =
     c\<lparr>cl_mutex := False,
       cl_socketfd := -1,
       cl_mq := mqtt_mq_init (cl_mq c) None,
       cl_recv_mem := [], cl_recv_curr := 0, cl_recv_curr_sz := 0,
       cl_error := MQTT_ERROR_INITIAL_RECONNECT,
       cl_response_timeout := 30, cl_number_of_timeouts := 0, cl_number_of_keep_alives := 0,
       cl_typical_response_time := Unmeasured,
       cl_send_offset := 0,
       cl_inspector_callback := False, cl_reconnect_callback := reconnect\<rparr>"

definition mqtt_reinit :: "mqtt_client \<Rightarrow> int \<Rightarrow> mem option \<Rightarrow> mem \<Rightarrow> mqtt_client" where
  "mqtt_reinit c socketfd sendbuf recvbuf =
     c\<lparr>cl_error := MQTT_ERROR_CONNECT_NOT_CALLED,
       cl_socketfd := socketfd,
       cl_mq := mqtt_mq_init (cl_mq c) sendbuf,
       cl_recv_mem := recvbuf, cl_recv_curr := 0, cl_recv_curr_sz := length recvbuf\<rparr>"

subsection \<open>Queuing a packet\<close>

text \<open>
  The macro \<open>MQTT_CLIENT_TRY_PACK\<close>: \<open>Inl e\<close> is its \<open>return\<close> out of the calling function, \<open>Inr i\<close> the
  index of the registered message. Its two attempts and their error handling are alike.
\<close>

definition pack_fails ::
    "mqtt_client \<Rightarrow> MQTTErrors \<Rightarrow> bool \<Rightarrow> (mqtt_client \<times> (MQTTErrors + nat)) option" where
  "pack_fails c e release =
     do { c \<leftarrow> (if release then mutex_unlock c else Some c); Some (c, Inl e) }"

definition MQTT_CLIENT_TRY_PACK ::
    "mqtt_client \<Rightarrow> packer \<Rightarrow> bool \<Rightarrow> (mqtt_client \<times> (MQTTErrors + nat)) option" where
  "MQTT_CLIENT_TRY_PACK c pack release =
     (if err_code (cl_error c) < 0 then pack_fails c (cl_error c) release
      else do {
        (mq, tmp) \<leftarrow> pack_with_retry pack_at mqtt_mq_clean (cl_mq c) pack;
        let c = c\<lparr>cl_mq := mq\<rparr>;
        (case tmp of
           Err e \<Rightarrow> pack_fails (c\<lparr>cl_error := e\<rparr>) e release
         | Cnt n \<Rightarrow>
             if n = 0 then
               pack_fails (c\<lparr>cl_error := MQTT_ERROR_SEND_BUFFER_IS_FULL\<rparr>) MQTT_ERROR_SEND_BUFFER_IS_FULL release
             else Some (c\<lparr>cl_mq := mqtt_mq_register mq n\<rparr>, Inr (mqtt_mq_length mq)))
      })"

text \<open>The rest of every queuing operation: set fields of the message, unlock if asked, succeed.\<close>

definition queue_packet ::
    "mqtt_client \<Rightarrow> packer \<Rightarrow> bool \<Rightarrow> (mqtt_queued_message \<Rightarrow> mqtt_queued_message)
       \<Rightarrow> (mqtt_client \<times> MQTTErrors) option" where
  "queue_packet c pack release assign =
     do { (c, r) \<leftarrow> MQTT_CLIENT_TRY_PACK c pack release;
          (case r of
             Inl e \<Rightarrow> Some (c, e)
           | Inr i \<Rightarrow> do {
               let c = c\<lparr>cl_mq := mq_update i assign (cl_mq c)\<rparr>;
               c \<leftarrow> (if release then mutex_unlock c else Some c);
               Some (c, MQTT_OK)
             }) }"

definition mqtt_connect ::
    "mqtt_client \<Rightarrow> cstring option \<Rightarrow> will \<Rightarrow> cstring option \<Rightarrow> cstring option \<Rightarrow> u8 \<Rightarrow> u16
       \<Rightarrow> (mqtt_client \<times> MQTTErrors) option" where
  "mqtt_connect c client_id w user_name password connect_flags keep_alive =
     (let c = c\<lparr>cl_keep_alive := keep_alive\<rparr>;
          c = (if cl_error c = MQTT_ERROR_CONNECT_NOT_CALLED then c\<lparr>cl_error := MQTT_OK\<rparr> else c)
      in queue_packet c
           (\<lambda>m p n. mqtt_pack_connection_request m p n client_id w user_name password
              connect_flags keep_alive)
           True (\<lambda>q. q\<lparr>q_control_type := MQTT_CONTROL_CONNECT\<rparr>))"

definition client_next_pid :: "mqtt_client \<Rightarrow> (mqtt_client \<times> u16) option" where
  "client_next_pid c =
     do { pid \<leftarrow> mqtt_next_pid (cl_mq c) (cl_pid_lfsr c);
          Some (c\<lparr>cl_pid_lfsr := pid\<rparr>, pid) }"

definition mqtt_publish ::
    "mqtt_client \<Rightarrow> cstring option \<Rightarrow> u8 list \<Rightarrow> nat \<Rightarrow> u8 \<Rightarrow> (mqtt_client \<times> MQTTErrors) option" where
  "mqtt_publish c topic message message_size publish_flags =
     do { c \<leftarrow> mutex_lock c;
          (c, packet_id) \<leftarrow> client_next_pid c;
          queue_packet c
            (\<lambda>m p n. mqtt_pack_publish_request m p n topic packet_id message message_size
               publish_flags)
            True (\<lambda>q. q\<lparr>q_control_type := MQTT_CONTROL_PUBLISH, q_packet_id := packet_id\<rparr>) }"

text \<open>\<open>__mqtt_puback\<close>, \<open>__mqtt_pubrec\<close>, \<open>__mqtt_pubrel\<close> and \<open>__mqtt_pubcomp\<close> differ in the type only.\<close>

definition mqtt_pubxxx ::
    "MQTTControlPacketType \<Rightarrow> mqtt_client \<Rightarrow> u16 \<Rightarrow> (mqtt_client \<times> MQTTErrors) option" where
  "mqtt_pubxxx ctype c packet_id =
     queue_packet c (\<lambda>m p n. mqtt_pack_pubxxx_request m p n ctype packet_id) False
       (\<lambda>q. q\<lparr>q_control_type := ctype, q_packet_id := packet_id\<rparr>)"

definition mqtt_puback :: "mqtt_client \<Rightarrow> u16 \<Rightarrow> (mqtt_client \<times> MQTTErrors) option" where
  "mqtt_puback c packet_id = mqtt_pubxxx MQTT_CONTROL_PUBACK c packet_id"

definition mqtt_pubrec :: "mqtt_client \<Rightarrow> u16 \<Rightarrow> (mqtt_client \<times> MQTTErrors) option" where
  "mqtt_pubrec c packet_id = mqtt_pubxxx MQTT_CONTROL_PUBREC c packet_id"

definition mqtt_pubrel :: "mqtt_client \<Rightarrow> u16 \<Rightarrow> (mqtt_client \<times> MQTTErrors) option" where
  "mqtt_pubrel c packet_id = mqtt_pubxxx MQTT_CONTROL_PUBREL c packet_id"

definition mqtt_pubcomp :: "mqtt_client \<Rightarrow> u16 \<Rightarrow> (mqtt_client \<times> MQTTErrors) option" where
  "mqtt_pubcomp c packet_id = mqtt_pubxxx MQTT_CONTROL_PUBCOMP c packet_id"

definition mqtt_subscribe ::
    "mqtt_client \<Rightarrow> cstring \<Rightarrow> u8 \<Rightarrow> (mqtt_client \<times> MQTTErrors) option" where
  "mqtt_subscribe c topic max_qos_level =
     do { c \<leftarrow> mutex_lock c;
          (c, packet_id) \<leftarrow> client_next_pid c;
          queue_packet c
            (\<lambda>m p n. mqtt_pack_subscribe_request m p n (ucast packet_id) [(topic, max_qos_level)])
            True (\<lambda>q. q\<lparr>q_control_type := MQTT_CONTROL_SUBSCRIBE, q_packet_id := packet_id\<rparr>) }"

text \<open>Here the identifier is drawn before the mutex is locked.\<close>

definition mqtt_unsubscribe ::
    "mqtt_client \<Rightarrow> cstring \<Rightarrow> (mqtt_client \<times> MQTTErrors) option" where
  "mqtt_unsubscribe c topic =
     do { (c, packet_id) \<leftarrow> client_next_pid c;
          c \<leftarrow> mutex_lock c;
          queue_packet c
            (\<lambda>m p n. mqtt_pack_unsubscribe_request m p n (ucast packet_id) [topic])
            True (\<lambda>q. q\<lparr>q_control_type := MQTT_CONTROL_UNSUBSCRIBE, q_packet_id := packet_id\<rparr>) }"

definition mqtt_ping_locked :: "mqtt_client \<Rightarrow> (mqtt_client \<times> MQTTErrors) option" where
  "mqtt_ping_locked c =
     queue_packet c mqtt_pack_ping_request False (\<lambda>q. q\<lparr>q_control_type := MQTT_CONTROL_PINGREQ\<rparr>)"

definition mqtt_ping :: "mqtt_client \<Rightarrow> (mqtt_client \<times> MQTTErrors) option" where
  "mqtt_ping c =
     do { c \<leftarrow> mutex_lock c;
          (c, rv) \<leftarrow> mqtt_ping_locked c;
          c \<leftarrow> mutex_unlock c;
          Some (c, rv) }"

definition mqtt_disconnect :: "mqtt_client \<Rightarrow> (mqtt_client \<times> MQTTErrors) option" where
  "mqtt_disconnect c =
     do { c \<leftarrow> mutex_lock c;
          queue_packet c mqtt_pack_disconnect True
            (\<lambda>q. q\<lparr>q_control_type := MQTT_CONTROL_DISCONNECT\<rparr>) }"

definition mqtt_reconnect :: "mqtt_client \<Rightarrow> (mqtt_client \<times> MQTTErrors) option" where
  "mqtt_reconnect c =
     do { (c, err) \<leftarrow> mqtt_disconnect c;
          (if err = MQTT_OK then do {
             c \<leftarrow> mutex_lock c;
             let c = c\<lparr>cl_error := MQTT_ERROR_RECONNECTING\<rparr>;
             c \<leftarrow> mutex_unlock c;
             Some (c, err)
           } else Some (c, err)) }"

subsection \<open>The invariant of the client\<close>

definition client_inv :: "mqtt_client \<Rightarrow> bool" where
  "client_inv c \<longleftrightarrow> mq_inv (cl_mq c) \<and> cl_recv_curr c + cl_recv_curr_sz c = length (cl_recv_mem c)"

lemma client_inv_simps [simp]:
  "client_inv (c\<lparr>cl_mutex := b\<rparr>) = client_inv c" "client_inv (c\<lparr>cl_error := e\<rparr>) = client_inv c"
  "client_inv (c\<lparr>cl_pid_lfsr := p\<rparr>) = client_inv c" "client_inv (c\<lparr>cl_keep_alive := k\<rparr>) = client_inv c"
  "client_inv (c\<lparr>cl_send_offset := n\<rparr>) = client_inv c"
  "client_inv (c\<lparr>cl_time_of_last_send := t\<rparr>) = client_inv c"
  "client_inv (c\<lparr>cl_number_of_timeouts := i\<rparr>) = client_inv c"
  "client_inv (c\<lparr>cl_typical_response_time := r\<rparr>) = client_inv c"
  "client_inv (c\<lparr>cl_published := ps\<rparr>) = client_inv c"
  by (simp_all add: client_inv_def)

lemma client_inv_mq [simp]:
  "client_inv c \<Longrightarrow> client_inv (c\<lparr>cl_mq := mq\<rparr>) = mq_inv mq"
  by (simp add: client_inv_def)

lemma client_inv_mqD: "client_inv c \<Longrightarrow> mq_inv (cl_mq c)"
  by (simp add: client_inv_def)

lemma mqtt_init_inv:
  "mqtt_init (Some c) fd (Some sb) (Some rb) = (Some c', e) \<Longrightarrow> client_inv c' \<and> cl_mutex c' \<and> e = MQTT_OK"
  by (auto simp: mqtt_init_def client_inv_def mq_init_inv)

lemma mqtt_reinit_inv: "client_inv (mqtt_reinit c fd (Some sb) rb)"
  by (simp add: mqtt_reinit_def client_inv_def mq_init_inv)

text \<open>The messages still to be sent or acknowledged, with their bytes.\<close>

definition pending :: "mqtt_client \<Rightarrow> (u8 list \<times> mqtt_queued_message) list" where
  "pending c = filter (\<lambda>x. \<not> msg_done x) (mq_abs (cl_mq c))"

lemma pending_simps [simp]:
  "pending (c\<lparr>cl_mutex := b\<rparr>) = pending c" "pending (c\<lparr>cl_error := e\<rparr>) = pending c"
  "pending (c\<lparr>cl_pid_lfsr := p\<rparr>) = pending c" "pending (c\<lparr>cl_keep_alive := k\<rparr>) = pending c"
  by (simp_all add: pending_def)

subsection \<open>What queuing does\<close>

lemma mq_abs_update_last:
  assumes keep: "\<And>q. q_start (f q) = q_start q \<and> q_size (f q) = q_size q"
    and abs: "mq_abs mq = xs @ [(b, q)]"
  shows "\<exists>r. q = r\<lparr>q_start := 0\<rparr> \<and> mq_abs (mq_update (length xs) f mq) = xs @ [(b, (f r)\<lparr>q_start := 0\<rparr>)]"
proof -
  have len: "length (mq_msgs mq) = Suc (length xs)"
    using arg_cong [OF abs, of length] by (simp add: mq_abs_def)
  then obtain qs r where qs: "mq_msgs mq = qs @ [r]" by (cases "mq_msgs mq" rule: rev_cases) auto
  with abs len keep [of r] show ?thesis
    by (auto simp: mq_abs_def mq_update_def msg_bytes_def nth_append)
qed

text \<open>
  The general law: the caller holds the mutex; afterwards it is released if asked for, the invariant
  holds, and the pending messages are the old ones, with the new packet behind them exactly if the
  result is \<open>MQTT_OK\<close>. A failure is also the client's new error.
\<close>

definition queued ::
    "mqtt_client \<Rightarrow> mqtt_client \<Rightarrow> MQTTErrors \<Rightarrow> u8 list \<Rightarrow> (mqtt_queued_message \<Rightarrow> mqtt_queued_message) \<Rightarrow> bool"
  where
  "queued c c' e b f \<longleftrightarrow>
     (if e = MQTT_OK
      then cl_error c' = cl_error c \<and>
        (\<exists>r. pending c' = pending c @ [(b, (f r)\<lparr>q_start := 0\<rparr>)] \<and> q_state r = MQTT_QUEUED_UNSENT)
      else cl_error c' = e \<and> pending c' = pending c)"

text \<open>Queuing touches the queue, the error and the mutex only.\<close>

definition queue_frame :: "mqtt_client \<Rightarrow> mqtt_client \<Rightarrow> bool" where
  "queue_frame c c' \<longleftrightarrow> c' = c\<lparr>cl_mq := cl_mq c', cl_error := cl_error c', cl_mutex := cl_mutex c'\<rparr>"

lemma queue_frameI [intro]:
  "queue_frame c c" "queue_frame c c' \<Longrightarrow> queue_frame c (c'\<lparr>cl_mq := mq\<rparr>)"
  "queue_frame c c' \<Longrightarrow> queue_frame c (c'\<lparr>cl_error := e\<rparr>)" "queue_frame c c' \<Longrightarrow> queue_frame c (c'\<lparr>cl_mutex := b\<rparr>)"
  by (cases c; cases c'; simp add: queue_frame_def)+

lemma queue_frameD:
  assumes "queue_frame c c'"
  shows "cl_send_offset c' = cl_send_offset c" "cl_keep_alive c' = cl_keep_alive c"
    "cl_recv_mem c' = cl_recv_mem c" "cl_recv_curr c' = cl_recv_curr c" "cl_recv_curr_sz c' = cl_recv_curr_sz c"
    "cl_published c' = cl_published c" "cl_reconnect_callback c' = cl_reconnect_callback c"
    "cl_inspector_callback c' = cl_inspector_callback c" "cl_pid_lfsr c' = cl_pid_lfsr c"
  by (subst assms [unfolded queue_frame_def], simp)+

lemma queue_packet_ok:
  assumes inv: "client_inv c" and locked: "cl_mutex c" and w: "writes_packet pack b"
    and keep: "\<And>q. q_start (f q) = q_start q \<and> q_size (f q) = q_size q \<and> q_state (f q) = q_state q"
  shows "\<exists>c' e. queue_packet c pack release f = Some (c', e) \<and> client_inv c' \<and> cl_mutex c' = (\<not> release) \<and>
    queued c c' e b f \<and> queue_frame c c' \<and> (cl_error c \<noteq> MQTT_OK \<longrightarrow> e \<noteq> MQTT_OK)"
proof (cases "cl_error c = MQTT_OK")
  case False
  have "queue_packet c pack release f =
      Some (if release then c\<lparr>cl_mutex := False\<rparr> else c, cl_error c)"
    using False locked
    by (simp add: queue_packet_def MQTT_CLIENT_TRY_PACK_def pack_fails_def mutex_unlock_def Let_def)
  with False inv locked show ?thesis by (auto simp: queued_def)
next
  case True
  from mqueue.retry_ok [OF client_inv_mqD [OF inv] w] obtain mq n where
    mq: "pack_with_retry pack_at mqtt_mq_clean (cl_mq c) pack = Some (mq, Cnt n)" "mq_inv mq"
    and reg: "0 < n \<Longrightarrow> mq_inv (mqtt_mq_register mq n)"
      "0 < n \<Longrightarrow> mq_abs (mqtt_mq_register mq n) = mq_abs mq @ [mq_entry (cl_mq c) b]" by blast
  have pend: "filter (\<lambda>x. \<not> msg_done x) (mq_abs mq) = pending c"
    using mqueue.retry_keeps_unfinished [OF client_inv_mqD [OF inv] w mq(1)] by (simp add: pending_def)
  show ?thesis
  proof (cases "n = 0")
    case n: True
    let ?c = "c\<lparr>cl_mq := mq, cl_error := MQTT_ERROR_SEND_BUFFER_IS_FULL\<rparr>"
    have "queue_packet c pack release f =
        Some (if release then ?c\<lparr>cl_mutex := False\<rparr> else ?c, MQTT_ERROR_SEND_BUFFER_IS_FULL)"
      using True mq n locked
      by (simp add: queue_packet_def MQTT_CLIENT_TRY_PACK_def pack_fails_def mutex_unlock_def Let_def)
    moreover have "pending ?c = pending c" using pend by (simp add: pending_def)
    ultimately show ?thesis using mq inv locked True by (auto simp: queued_def)
  next
    case False
    let ?mq = "mq_update (length (mq_msgs mq)) f (mqtt_mq_register mq n)"
    from reg(2) False have abs: "mq_abs (mqtt_mq_register mq n) = mq_abs mq @ [mq_entry (cl_mq c) b]" by simp
    from mq_abs_update_last [OF _ abs [unfolded mq_entry_def], of f] keep obtain r where
      r: "(mq_junk (cl_mq c) 0)\<lparr>q_start := 0, q_size := length b, q_state := MQTT_QUEUED_UNSENT\<rparr> = r\<lparr>q_start := 0\<rparr>"
      and up: "mq_abs ?mq = mq_abs mq @ [(b, (f r)\<lparr>q_start := 0\<rparr>)]"
      by (auto simp: mq_abs_def)
    from arg_cong [OF r, of q_state] have st: "q_state r = MQTT_QUEUED_UNSENT" by simp
    have "mq_inv ?mq" using reg(1) False keep by (simp add: mq_update_inv)
    moreover have "pending (c\<lparr>cl_mq := ?mq\<rparr>) = pending c @ [(b, (f r)\<lparr>q_start := 0\<rparr>)]"
      using up pend st keep by (simp add: pending_def msg_done_def)
    moreover have "queue_packet c pack release f = Some
        (if release then c\<lparr>cl_mq := ?mq, cl_mutex := False\<rparr> else c\<lparr>cl_mq := ?mq\<rparr>, MQTT_OK)"
      using True mq False locked
      by (simp add: queue_packet_def MQTT_CLIENT_TRY_PACK_def mutex_unlock_def mqtt_mq_length_def Let_def)
    ultimately show ?thesis using inv locked st True by (auto simp: queued_def)
  qed
qed

lemma next_pid_ok:
  assumes "length (mq_msgs (cl_mq c)) < 65535"
  shows "\<exists>pid. client_next_pid c = Some (c\<lparr>cl_pid_lfsr := pid\<rparr>, pid) \<and> pid \<noteq> 0 \<and>
    (\<forall>q \<in> set (mq_msgs (cl_mq c)). q_packet_id q \<noteq> pid)"
  using next_pid_fresh [OF assms, of "cl_pid_lfsr c"] by (auto simp: client_next_pid_def)

text \<open>Every send buffer below 2.6 megabytes holds fewer messages than there are identifiers.\<close>

lemma few_messages:
  assumes "client_inv c" "length (mq_mem (cl_mq c)) < 2621400"
  shows "length (mq_msgs (cl_mq c)) < 65535"
  using assms by (auto simp: client_inv_def mq_inv_def queue_tail_def mem_end_def sizeof_queued_message_def)

subsection \<open>The operations\<close>

lemma queued_simps [simp]:
  "queued (c\<lparr>cl_mutex := b\<rparr>) = queued c" "queued (c\<lparr>cl_pid_lfsr := p\<rparr>) = queued c"
  "queued c (c'\<lparr>cl_mutex := b\<rparr>) = queued c c'"
  by (simp_all add: fun_eq_iff queued_def)

text \<open>Operations that draw an identifier, lock, queue and unlock.\<close>

lemma with_pid_ok:
  assumes inv: "client_inv c" and few: "length (mq_mem (cl_mq c)) < 2621400"
    and w: "\<And>pid. writes_packet (pack pid) (b pid)"
    and keep: "\<And>pid q. q_start (f pid q) = q_start q \<and> q_size (f pid q) = q_size q \<and> q_state (f pid q) = q_state q"
  shows "\<exists>c' e pid. client_next_pid c = Some (c\<lparr>cl_pid_lfsr := pid\<rparr>, pid) \<and>
    pid \<noteq> 0 \<and> (\<forall>q \<in> set (mq_msgs (cl_mq c)). q_packet_id q \<noteq> pid) \<and>
    queue_packet (c\<lparr>cl_mutex := True, cl_pid_lfsr := pid\<rparr>) (pack pid) True (f pid) = Some (c', e) \<and>
    client_inv c' \<and> \<not> cl_mutex c' \<and> queued c c' e (b pid) (f pid)"
proof -
  from next_pid_ok [OF few_messages [OF inv few]] obtain pid where
    pid: "client_next_pid c = Some (c\<lparr>cl_pid_lfsr := pid\<rparr>, pid)" "pid \<noteq> 0"
      "\<forall>q \<in> set (mq_msgs (cl_mq c)). q_packet_id q \<noteq> pid" by blast
  let ?c = "c\<lparr>cl_mutex := True, cl_pid_lfsr := pid\<rparr>"
  have "client_inv ?c" "cl_mutex ?c" using inv by simp_all
  from queue_packet_ok [OF this w [of pid] keep [of pid], of True] pid show ?thesis by fastforce
qed

lemma publish_ok:
  assumes inv: "client_inv c" and free: "\<not> cl_mutex c" and few: "length (mq_mem (cl_mq c)) < 2621400"
    and args: "length topic < 65536" "publish_qos flags \<noteq> 3"
      "\<And>pid. length (publish_body flags topic pid msg) < 2 ^ 28"
  shows "\<exists>c' e pid. mqtt_publish c (Some topic) msg (length msg) flags = Some (c', e) \<and>
    client_inv c' \<and> \<not> cl_mutex c' \<and> pid \<noteq> 0 \<and> (\<forall>q \<in> set (mq_msgs (cl_mq c)). q_packet_id q \<noteq> pid) \<and>
    queued c c' e (enc_publish flags topic pid msg)
      (\<lambda>q. q\<lparr>q_control_type := MQTT_CONTROL_PUBLISH, q_packet_id := pid\<rparr>)"
proof -
  have lock: "mqtt_publish c (Some topic) msg (length msg) flags =
      do { (c, pid) \<leftarrow> client_next_pid (c\<lparr>cl_mutex := True\<rparr>);
           queue_packet c (\<lambda>m p n. mqtt_pack_publish_request m p n (Some topic) pid msg (length msg) flags)
             True (\<lambda>q. q\<lparr>q_control_type := MQTT_CONTROL_PUBLISH, q_packet_id := pid\<rparr>) }"
    using free by (simp add: mqtt_publish_def mutex_lock_def)
  have "client_inv (c\<lparr>cl_mutex := True\<rparr>)" "length (mq_mem (cl_mq (c\<lparr>cl_mutex := True\<rparr>))) < 2621400"
    using inv few by simp_all
  from with_pid_ok [OF this publish_writes [OF args],
      of "\<lambda>pid q. q\<lparr>q_control_type := MQTT_CONTROL_PUBLISH, q_packet_id := pid\<rparr>"]
  show ?thesis unfolding lock by fastforce
qed

lemma ucast_u16_u32 [simp]: "ucast (ucast (w :: u16) :: u32) = w"
  by (rule bit_word_eqI) (auto simp: bit_simps)

lemma subscribe_writes_pid:
  "length topic < 65536 \<Longrightarrow>
     writes_packet (\<lambda>m p n. mqtt_pack_subscribe_request m p n (ucast pid) [(topic, qos)])
       (enc_subscribe pid [(topic, qos)])"
  using subscribe_writes [of topic "ucast pid" qos] by simp

lemma unsubscribe_writes_pid:
  "length topic < 65536 \<Longrightarrow>
     writes_packet (\<lambda>m p n. mqtt_pack_unsubscribe_request m p n (ucast pid) [topic])
       (enc_unsubscribe pid [topic])"
  using unsubscribe_writes [of topic "ucast pid"] by simp

lemma subscribe_ok:
  assumes inv: "client_inv c" and free: "\<not> cl_mutex c" and few: "length (mq_mem (cl_mq c)) < 2621400"
    and args: "length topic < 65536"
  shows "\<exists>c' e pid. mqtt_subscribe c topic qos = Some (c', e) \<and>
    client_inv c' \<and> \<not> cl_mutex c' \<and> pid \<noteq> 0 \<and> (\<forall>q \<in> set (mq_msgs (cl_mq c)). q_packet_id q \<noteq> pid) \<and>
    queued c c' e (enc_subscribe pid [(topic, qos)])
      (\<lambda>q. q\<lparr>q_control_type := MQTT_CONTROL_SUBSCRIBE, q_packet_id := pid\<rparr>)"
proof -
  have lock: "mqtt_subscribe c topic qos =
      do { (c, pid) \<leftarrow> client_next_pid (c\<lparr>cl_mutex := True\<rparr>);
           queue_packet c (\<lambda>m p n. mqtt_pack_subscribe_request m p n (ucast pid) [(topic, qos)])
             True (\<lambda>q. q\<lparr>q_control_type := MQTT_CONTROL_SUBSCRIBE, q_packet_id := pid\<rparr>) }"
    using free by (simp add: mqtt_subscribe_def mutex_lock_def)
  have "client_inv (c\<lparr>cl_mutex := True\<rparr>)" "length (mq_mem (cl_mq (c\<lparr>cl_mutex := True\<rparr>))) < 2621400"
    using inv few by simp_all
  from with_pid_ok [OF this, where pack = "\<lambda>pid m p n. mqtt_pack_subscribe_request m p n (ucast pid) [(topic, qos)]"
      and b = "\<lambda>pid. enc_subscribe pid [(topic, qos)]"
      and f = "\<lambda>pid q. q\<lparr>q_control_type := MQTT_CONTROL_SUBSCRIBE, q_packet_id := pid\<rparr>"]
    subscribe_writes_pid [OF args]
  show ?thesis unfolding lock by fastforce
qed

lemma unsubscribe_ok:
  assumes inv: "client_inv c" and free: "\<not> cl_mutex c" and few: "length (mq_mem (cl_mq c)) < 2621400"
    and args: "length topic < 65536"
  shows "\<exists>c' e pid. mqtt_unsubscribe c topic = Some (c', e) \<and>
    client_inv c' \<and> \<not> cl_mutex c' \<and> pid \<noteq> 0 \<and> (\<forall>q \<in> set (mq_msgs (cl_mq c)). q_packet_id q \<noteq> pid) \<and>
    queued c c' e (enc_unsubscribe pid [topic])
      (\<lambda>q. q\<lparr>q_control_type := MQTT_CONTROL_UNSUBSCRIBE, q_packet_id := pid\<rparr>)"
proof -
  from with_pid_ok [OF inv few, where pack = "\<lambda>pid m p n. mqtt_pack_unsubscribe_request m p n (ucast pid) [topic]"
      and b = "\<lambda>pid. enc_unsubscribe pid [topic]"
      and f = "\<lambda>pid q. q\<lparr>q_control_type := MQTT_CONTROL_UNSUBSCRIBE, q_packet_id := pid\<rparr>"]
    unsubscribe_writes_pid [OF args]
  obtain c' e pid where pid: "client_next_pid c = Some (c\<lparr>cl_pid_lfsr := pid\<rparr>, pid)" "pid \<noteq> 0"
      "\<forall>q \<in> set (mq_msgs (cl_mq c)). q_packet_id q \<noteq> pid"
    and q: "queue_packet (c\<lparr>cl_mutex := True, cl_pid_lfsr := pid\<rparr>)
      (\<lambda>m p n. mqtt_pack_unsubscribe_request m p n (ucast pid) [topic]) True
      (\<lambda>q. q\<lparr>q_control_type := MQTT_CONTROL_UNSUBSCRIBE, q_packet_id := pid\<rparr>) = Some (c', e)"
      "client_inv c'" "\<not> cl_mutex c'" "queued c c' e (enc_unsubscribe pid [topic])
      (\<lambda>q. q\<lparr>q_control_type := MQTT_CONTROL_UNSUBSCRIBE, q_packet_id := pid\<rparr>)" by auto
  have comm: "c\<lparr>cl_pid_lfsr := pid, cl_mutex := True\<rparr> = c\<lparr>cl_mutex := True, cl_pid_lfsr := pid\<rparr>" by simp
  from pid(1) free have "mqtt_unsubscribe c topic =
      queue_packet (c\<lparr>cl_pid_lfsr := pid, cl_mutex := True\<rparr>)
        (\<lambda>m p n. mqtt_pack_unsubscribe_request m p n (ucast pid) [topic]) True
        (\<lambda>q. q\<lparr>q_control_type := MQTT_CONTROL_UNSUBSCRIBE, q_packet_id := pid\<rparr>)"
    by (simp add: mqtt_unsubscribe_def mutex_lock_def)
  also have "\<dots> = Some (c', e)" unfolding comm by (rule q(1))
  finally have "mqtt_unsubscribe c topic = Some (c', e)" .
  with pid q show ?thesis by blast
qed

lemma pubxxx_ok:
  assumes "client_inv c" "cl_mutex c"
    and "ct \<in> {MQTT_CONTROL_PUBACK, MQTT_CONTROL_PUBREC, MQTT_CONTROL_PUBREL, MQTT_CONTROL_PUBCOMP}"
  shows "\<exists>c' e. mqtt_pubxxx ct c pid = Some (c', e) \<and> client_inv c' \<and> cl_mutex c' \<and>
    queued c c' e (enc_pubxxx ct pid) (\<lambda>q. q\<lparr>q_control_type := ct, q_packet_id := pid\<rparr>) \<and>
    queue_frame c c' \<and> (cl_error c \<noteq> MQTT_OK \<longrightarrow> e \<noteq> MQTT_OK)"
  using queue_packet_ok [OF assms(1,2) pubxxx_writes [OF assms(3)],
      of "\<lambda>q. q\<lparr>q_control_type := ct, q_packet_id := pid\<rparr>" pid False]
  by (simp add: mqtt_pubxxx_def)

lemma ping_locked_ok:
  assumes "client_inv c" "cl_mutex c"
  shows "\<exists>c' e. mqtt_ping_locked c = Some (c', e) \<and> client_inv c' \<and> cl_mutex c' \<and>
    queued c c' e (enc_empty MQTT_CONTROL_PINGREQ) (\<lambda>q. q\<lparr>q_control_type := MQTT_CONTROL_PINGREQ\<rparr>) \<and>
    queue_frame c c' \<and> (cl_error c \<noteq> MQTT_OK \<longrightarrow> e \<noteq> MQTT_OK)"
  using queue_packet_ok [OF assms ping_writes, of "\<lambda>q. q\<lparr>q_control_type := MQTT_CONTROL_PINGREQ\<rparr>" False]
  by (simp add: mqtt_ping_locked_def)

lemma ping_ok:
  assumes "client_inv c" "\<not> cl_mutex c"
  shows "\<exists>c' e. mqtt_ping c = Some (c', e) \<and> client_inv c' \<and> \<not> cl_mutex c' \<and>
    queued c c' e (enc_empty MQTT_CONTROL_PINGREQ) (\<lambda>q. q\<lparr>q_control_type := MQTT_CONTROL_PINGREQ\<rparr>)"
  using ping_locked_ok [of "c\<lparr>cl_mutex := True\<rparr>"] assms
  by (fastforce simp: mqtt_ping_def mutex_lock_def mutex_unlock_def)

lemma disconnect_ok:
  assumes "client_inv c" "\<not> cl_mutex c"
  shows "\<exists>c' e. mqtt_disconnect c = Some (c', e) \<and> client_inv c' \<and> \<not> cl_mutex c' \<and>
    queued c c' e (enc_empty MQTT_CONTROL_DISCONNECT) (\<lambda>q. q\<lparr>q_control_type := MQTT_CONTROL_DISCONNECT\<rparr>)"
  using queue_packet_ok [OF _ _ disconnect_writes, of "c\<lparr>cl_mutex := True\<rparr>"
      "\<lambda>q. q\<lparr>q_control_type := MQTT_CONTROL_DISCONNECT\<rparr>" True] assms
  by (simp add: mqtt_disconnect_def mutex_lock_def) blast

text \<open>Reconnecting queues the DISCONNECT and marks the client; without room it only reports the error.\<close>

lemma reconnect_ok:
  assumes "client_inv c" "\<not> cl_mutex c"
  shows "\<exists>c' e. mqtt_reconnect c = Some (c', e) \<and> client_inv c' \<and> \<not> cl_mutex c' \<and>
    cl_error c' = (if e = MQTT_OK then MQTT_ERROR_RECONNECTING else e) \<and>
    (e = MQTT_OK \<longrightarrow> (\<exists>q. pending c' = pending c @ [(enc_empty MQTT_CONTROL_DISCONNECT, q)]))"
proof -
  from disconnect_ok [OF assms] obtain c1 e where d: "mqtt_disconnect c = Some (c1, e)" "client_inv c1"
    "\<not> cl_mutex c1" "queued c c1 e (enc_empty MQTT_CONTROL_DISCONNECT) (\<lambda>q. q\<lparr>q_control_type := MQTT_CONTROL_DISCONNECT\<rparr>)"
    by blast
  show ?thesis
  proof (cases "e = MQTT_OK")
    case True
    with d show ?thesis by (auto simp: mqtt_reconnect_def mutex_lock_def mutex_unlock_def queued_def)
  next
    case False
    with d show ?thesis by (auto simp: mqtt_reconnect_def queued_def)
  qed
qed

text \<open>
  \<open>mqtt_connect\<close> is called with the mutex held, as \<open>mqtt_init\<close> leaves it, and releases it; it ends the
  state in which a connection is required first.
\<close>

lemma connect_ok:
  assumes inv: "client_inv c" and locked: "cl_mutex c" and err: "cl_error c = MQTT_ERROR_CONNECT_NOT_CALLED"
    and flags: "connect_flags_and_length (case client_id of None \<Rightarrow> [] | Some c \<Rightarrow> c) w user password flags
           = Inr (flags', len)"
    and fits: "fits client_id" "fits (will_topic w)" "fits (will_message w)" "fits user" "fits password"
      "\<forall>msg. will_message w = Some msg \<longrightarrow> will_message_size w = length msg"
  shows "\<exists>c' e. mqtt_connect c client_id w user password flags keep_alive = Some (c', e) \<and>
    client_inv c' \<and> \<not> cl_mutex c' \<and> cl_keep_alive c' = keep_alive \<and>
    queued (c\<lparr>cl_error := MQTT_OK\<rparr>) c' e
      (enc_connect (case client_id of None \<Rightarrow> [] | Some c \<Rightarrow> c) w user password flags' keep_alive)
      (\<lambda>q. q\<lparr>q_control_type := MQTT_CONTROL_CONNECT\<rparr>)"
proof -
  let ?c = "c\<lparr>cl_keep_alive := keep_alive, cl_error := MQTT_OK\<rparr>"
  let ?f = "\<lambda>q :: mqtt_queued_message. q\<lparr>q_control_type := MQTT_CONTROL_CONNECT\<rparr>"
  let ?pack = "\<lambda>m p n. mqtt_pack_connection_request m p n client_id w user password flags keep_alive"
  have "writes_packet ?pack
      (enc_connect (case client_id of None \<Rightarrow> [] | Some c \<Rightarrow> c) w user password flags' keep_alive)"
    using connect_packs [OF _ flags fits]
    by (simp add: writes_packet_def) (simp add: enc_connect_def enc_fixed_header_def Let_def)
  moreover have "client_inv ?c" "cl_mutex ?c" using inv locked by simp_all
  moreover have "mqtt_connect c client_id w user password flags keep_alive = queue_packet ?c ?pack True ?f"
    using err by (simp add: mqtt_connect_def Let_def)
  ultimately show ?thesis
    using queue_packet_ok [of ?c ?pack _ ?f True] queue_frameD(2) [of ?c] by (fastforce simp: queued_def)
qed

end
