(* ===== verification/Mqtt_Send.thy ===== *)
theory Mqtt_Send
  imports Mqtt_Client "HOL-Library.Sublist"
begin

text \<open>
  Egress: \<open>__mqtt_send\<close> of \<open>src/mqtt-c/src/mqtt.c\<close>, the pass over the queue that sends what is unsent, resends
  what has timed out, moves every message on to its next state and keeps the connection alive.
\<close>

unbundle bit_operations_syntax

subsection \<open>One message\<close>

text \<open>How an iteration of the loop ends: with the next message, a \<open>break\<close>, or a \<open>return\<close>.\<close>

datatype send_exit = Go_on | Break | Return MQTTErrors

text \<open>\<open>resend\<close> after the first two tests, with the time-out bookkeeping.\<close>

definition check_resend ::
    "'w env \<Rightarrow> 'w \<Rightarrow> mqtt_client \<Rightarrow> mqtt_queued_message \<Rightarrow> 'w \<times> mqtt_client \<times> bool" where
  "check_resend env w c msg =
     (if q_state msg = MQTT_QUEUED_UNSENT then (w, c, True)
      else if q_state msg = MQTT_QUEUED_AWAITING_ACK then
        (let (w, now) = sys_time env w in
         if now > q_time_sent msg + cl_response_timeout c
         then (w, c\<lparr>cl_number_of_timeouts := cl_number_of_timeouts c + 1, cl_send_offset := 0\<rparr>, True)
         else (w, c, False))
      else (w, c, False))"

text \<open>\<open>0x03 & (start[0] >> 1)\<close>\<close>

definition header_qos :: "u8 \<Rightarrow> u8" where
  "header_qos b = 0x03 AND drop_bit 1 b"

text \<open>The QoS 2 rule: a second incomplete QoS 2 PUBLISH is held back.\<close>

definition hold_back_qos2 ::
    "mem \<Rightarrow> mqtt_queued_message \<Rightarrow> bool \<Rightarrow> bool \<Rightarrow> (bool \<times> bool) option" where
  "hold_back_qos2 m msg resend inflight_qos2 =
     (if q_control_type msg = MQTT_CONTROL_PUBLISH \<and>
         (q_state msg = MQTT_QUEUED_UNSENT \<or> q_state msg = MQTT_QUEUED_AWAITING_ACK)
      then do {
        b \<leftarrow> load m (q_start msg);
        let inspected = header_qos b;
        (if inspected = 2 then Some (if inflight_qos2 then False else resend, True)
         else Some (resend, inflight_qos2))
      } else Some (resend, inflight_qos2))"

text \<open>The state after the message has been sent in full, and the byte \<open>start[0]\<close> then.\<close>

definition sent_state ::
    "mem \<Rightarrow> mqtt_queued_message \<Rightarrow> (mem \<times> MQTTQueuedMessageState option) option" where
  "sent_state m msg =
     (case q_control_type msg of
        MQTT_CONTROL_PUBACK \<Rightarrow> Some (m, Some MQTT_QUEUED_COMPLETE)
      | MQTT_CONTROL_PUBCOMP \<Rightarrow> Some (m, Some MQTT_QUEUED_COMPLETE)
      | MQTT_CONTROL_DISCONNECT \<Rightarrow> Some (m, Some MQTT_QUEUED_COMPLETE)
      | MQTT_CONTROL_PUBLISH \<Rightarrow>
          do { b \<leftarrow> load m (q_start msg);
               let inspected = publish_qos b;
               (if inspected = 0 then Some (m, Some MQTT_QUEUED_COMPLETE)
                else if inspected = 1 then do {
                  m \<leftarrow> store m (q_start msg) (b OR MQTT_PUBLISH_DUP);
                  Some (m, Some MQTT_QUEUED_AWAITING_ACK)
                } else Some (m, Some MQTT_QUEUED_AWAITING_ACK)) }
      | MQTT_CONTROL_CONNECT \<Rightarrow> Some (m, Some MQTT_QUEUED_AWAITING_ACK)
      | MQTT_CONTROL_PUBREC \<Rightarrow> Some (m, Some MQTT_QUEUED_AWAITING_ACK)
      | MQTT_CONTROL_PUBREL \<Rightarrow> Some (m, Some MQTT_QUEUED_AWAITING_ACK)
      | MQTT_CONTROL_SUBSCRIBE \<Rightarrow> Some (m, Some MQTT_QUEUED_AWAITING_ACK)
      | MQTT_CONTROL_UNSUBSCRIBE \<Rightarrow> Some (m, Some MQTT_QUEUED_AWAITING_ACK)
      | MQTT_CONTROL_PINGREQ \<Rightarrow> Some (m, Some MQTT_QUEUED_AWAITING_ACK)
      | _ \<Rightarrow> Some (m, None))"

definition set_mq_mem :: "mem \<Rightarrow> mqtt_client \<Rightarrow> mqtt_client" where
  "set_mq_mem m c = c\<lparr>cl_mq := (cl_mq c)\<lparr>mq_mem := m\<rparr>\<rparr>"

definition update_msg :: "nat \<Rightarrow> (mqtt_queued_message \<Rightarrow> mqtt_queued_message) \<Rightarrow> mqtt_client \<Rightarrow> mqtt_client" where
  "update_msg i f c = c\<lparr>cl_mq := mq_update i f (cl_mq c)\<rparr>"

text \<open>
  Sending the bytes from the offset on. An offset beyond the message would make the unsigned length
  wrap around and the send read outside the buffer.
\<close>

definition transmit ::
    "'w env \<Rightarrow> 'w \<Rightarrow> mqtt_client \<Rightarrow> nat \<Rightarrow> mqtt_queued_message \<Rightarrow> ('w \<times> mqtt_client \<times> send_exit) option" where
  "transmit env w c i msg =
     (if q_size msg < cl_send_offset c then None
      else do {
        (w, tmp) \<leftarrow> mqtt_pal_sendall env w (mq_mem (cl_mq c)) (q_start msg + cl_send_offset c)
                     (q_size msg - cl_send_offset c);
        (case tmp of
           Err e \<Rightarrow> Some (w, c\<lparr>cl_error := e\<rparr>, Return e)
         | Cnt n \<Rightarrow>
             let c = c\<lparr>cl_send_offset := cl_send_offset c + n\<rparr> in
             if cl_send_offset c < q_size msg then Some (w, c, Break)
             else do {
               let c = c\<lparr>cl_send_offset := 0\<rparr>;
               let (w, now) = sys_time env w;
               let c = update_msg i (\<lambda>q. q\<lparr>q_time_sent := now\<rparr>) (c\<lparr>cl_time_of_last_send := now\<rparr>);
               (m, state) \<leftarrow> sent_state (mq_mem (cl_mq c)) msg;
               (case state of
                  None \<Rightarrow> Some (w, c\<lparr>cl_error := MQTT_ERROR_MALFORMED_REQUEST\<rparr>,
                            Return MQTT_ERROR_MALFORMED_REQUEST)
                | Some s \<Rightarrow> Some (w, update_msg i (\<lambda>q. q\<lparr>q_state := s\<rparr>) (set_mq_mem m c), Go_on))
             })
      })"

definition send_message ::
    "'w env \<Rightarrow> 'w \<Rightarrow> mqtt_client \<Rightarrow> nat \<Rightarrow> bool \<Rightarrow> ('w \<times> mqtt_client \<times> bool \<times> send_exit) option" where
  "send_message env w c i inflight_qos2 =
     do { msg \<leftarrow> mqtt_mq_get (cl_mq c) i;
          let (w, c, resend) = check_resend env w c msg;
          (resend, inflight_qos2) \<leftarrow> hold_back_qos2 (mq_mem (cl_mq c)) msg resend inflight_qos2;
          (if \<not> resend then Some (w, c, inflight_qos2, Go_on)
           else do {
             (w, c, e) \<leftarrow> transmit env w c i msg;
             Some (w, c, inflight_qos2, e)
           }) }"

subsection \<open>The pass\<close>

text \<open>The loop from index \<open>i\<close> on, with \<open>n\<close> messages left.\<close>

primrec send_loop ::
    "'w env \<Rightarrow> 'w \<Rightarrow> mqtt_client \<Rightarrow> nat \<Rightarrow> bool \<Rightarrow> nat \<Rightarrow> ('w \<times> mqtt_client \<times> send_exit) option" where
  "send_loop env w c i inflight_qos2 0 = Some (w, c, Go_on)"
| "send_loop env w c i inflight_qos2 (Suc n) =
     do { (w, c, inflight_qos2, e) \<leftarrow> send_message env w c i inflight_qos2;
          (if e = Go_on then send_loop env w c (Suc i) inflight_qos2 n else Some (w, c, e)) }"

definition keep_alive_check ::
    "'w env \<Rightarrow> 'w \<Rightarrow> mqtt_client \<Rightarrow> ('w \<times> mqtt_client \<times> MQTTErrors) option" where
  "keep_alive_check env w c =
     (let keep_alive_timeout = cl_time_of_last_send c + int (unat (cl_keep_alive c));
          (w, now) = sys_time env w in
      if now > keep_alive_timeout then do {
        (c, rv) \<leftarrow> mqtt_ping_locked c;
        Some (w, if rv \<noteq> MQTT_OK then c\<lparr>cl_error := rv\<rparr> else c, rv)
      } else Some (w, c, MQTT_OK))"

definition mqtt_send ::
    "'w env \<Rightarrow> 'w \<Rightarrow> mqtt_client \<Rightarrow> ('w \<times> mqtt_client \<times> MQTTErrors) option" where
  "mqtt_send env w c =
     do { c \<leftarrow> mutex_lock c;
          (if err_code (cl_error c) < 0 \<and> cl_error c \<noteq> MQTT_ERROR_SEND_BUFFER_IS_FULL then do {
             c' \<leftarrow> mutex_unlock c;
             Some (w, c', cl_error c)
           } else do {
             (w, c, e) \<leftarrow> send_loop env w c 0 False (mqtt_mq_length (cl_mq c));
             (case e of
                Return err \<Rightarrow> do { c \<leftarrow> mutex_unlock c; Some (w, c, err) }
              | _ \<Rightarrow> do {
                  (w, c, rv) \<leftarrow> keep_alive_check env w c;
                  c \<leftarrow> mutex_unlock c;
                  Some (w, c, rv)
                })
           }) }"

subsection \<open>Messages as the client sees them\<close>

abbreviation n_msgs :: "mqtt_client \<Rightarrow> nat" where
  "n_msgs c \<equiv> length (mq_msgs (cl_mq c))"

definition msg_at :: "mqtt_client \<Rightarrow> nat \<Rightarrow> u8 list \<times> mqtt_queued_message" where
  "msg_at c i = (msg_bytes (mq_mem (cl_mq c)) (mq_msgs (cl_mq c) ! i), mq_msgs (cl_mq c) ! i)"

lemma msg_at_simps [simp]:
  "msg_at (c\<lparr>cl_send_offset := n\<rparr>) = msg_at c" "msg_at (c\<lparr>cl_error := e\<rparr>) = msg_at c"
  "msg_at (c\<lparr>cl_time_of_last_send := t\<rparr>) = msg_at c" "msg_at (c\<lparr>cl_number_of_timeouts := k\<rparr>) = msg_at c"
  "msg_at (c\<lparr>cl_mutex := b\<rparr>) = msg_at c" "msg_at (c\<lparr>cl_typical_response_time := r\<rparr>) = msg_at c"
  by (simp_all add: fun_eq_iff msg_at_def)

lemma msg_at_update:
  assumes "\<And>q. q_start (f q) = q_start q \<and> q_size (f q) = q_size q" "j < n_msgs c"
  shows "msg_at (update_msg i f c) j = (if j = i then (fst (msg_at c i), f (snd (msg_at c i))) else msg_at c j)"
  using assms by (simp add: msg_at_def update_msg_def mq_update_def msg_bytes_def)

lemma update_msg_simps [simp]:
  "n_msgs (update_msg i f c) = n_msgs c" "cl_mutex (update_msg i f c) = cl_mutex c"
  "cl_send_offset (update_msg i f c) = cl_send_offset c" "cl_error (update_msg i f c) = cl_error c"
  "mq_mem (cl_mq (update_msg i f c)) = mq_mem (cl_mq c)"
  "cl_time_of_last_send (update_msg i f c) = cl_time_of_last_send c"
  by (simp_all add: update_msg_def mq_update_def)

lemma set_mq_mem_simps [simp]:
  "mq_msgs (cl_mq (set_mq_mem m c)) = mq_msgs (cl_mq c)" "cl_mutex (set_mq_mem m c) = cl_mutex c"
  "cl_send_offset (set_mq_mem m c) = cl_send_offset c" "cl_error (set_mq_mem m c) = cl_error c"
  "mq_mem (cl_mq (set_mq_mem m c)) = m"
  by (simp_all add: set_mq_mem_def)

lemma client_inv_update:
  "(\<And>q. q_start (f q) = q_start q \<and> q_size (f q) = q_size q) \<Longrightarrow> client_inv (update_msg i f c) = client_inv c"
  by (simp add: client_inv_def update_msg_def mq_update_inv)

lemma client_inv_set_mem:
  "client_inv c \<Longrightarrow> length m = length (mq_mem (cl_mq c)) \<Longrightarrow> client_inv (set_mq_mem m c)"
  by (simp add: client_inv_def set_mq_mem_def mq_inv_def mqtt_mq_currsz_def queue_tail_def mem_end_def Let_def)

text \<open>Two messages do not share a byte.\<close>

lemma laid_out_disjoint:
  "laid_out p qs c \<Longrightarrow> i < j \<Longrightarrow> j < length qs \<Longrightarrow> q_start (qs ! i) + q_size (qs ! i) \<le> q_start (qs ! j)"
proof (induction qs arbitrary: p i j)
  case (Cons a qs)
  then show ?case
  proof (cases i)
    case 0
    with Cons.prems have "qs ! (j - 1) \<in> set qs" "laid_out (p + q_size a) qs c" by auto
    from laid_out_bound [OF this(2,1)] 0 Cons.prems show ?thesis by (cases j) auto
  next
    case (Suc k)
    with Cons.prems Cons.IH [of _ k "j - 1"] show ?thesis by (cases j) auto
  qed
qed simp

lemma msg_in_client:
  assumes "client_inv c" "i < n_msgs c"
  shows "q_start (mq_msgs (cl_mq c) ! i) + q_size (mq_msgs (cl_mq c) ! i) \<le> length (mq_mem (cl_mq c))"
    "0 < q_size (mq_msgs (cl_mq c) ! i)"
    "length (fst (msg_at c i)) = q_size (mq_msgs (cl_mq c) ! i)"
  using msg_in_mem [of "cl_mq c" "mq_msgs (cl_mq c) ! i"] assms
  by (auto simp: client_inv_def msg_at_def msg_bytes_def)

lemma load_first:
  assumes "client_inv c" "i < n_msgs c"
  shows "load (mq_mem (cl_mq c)) (q_start (mq_msgs (cl_mq c) ! i)) = Some (hd (fst (msg_at c i)))"
  using msg_in_client [OF assms] by (simp add: load_def msg_at_def msg_bytes_def hd_drop_conv_nth)

lemma msg_at_patch_first:
  assumes inv: "client_inv c" and i: "i < n_msgs c" and j: "j < n_msgs c"
  shows "msg_at (set_mq_mem (patch (mq_mem (cl_mq c)) (q_start (mq_msgs (cl_mq c) ! i)) [b]) c) j =
    (if j = i then (b # tl (fst (msg_at c i)), snd (msg_at c i)) else msg_at c j)"
proof -
  let ?qs = "mq_msgs (cl_mq c)" and ?m = "mq_mem (cl_mq c)"
  have lo: "laid_out 0 ?qs (mq_curr (cl_mq c))" using inv by (simp add: client_inv_def mq_inv_def)
  note bi = msg_in_client [OF inv i] and bj = msg_in_client [OF inv j]
  show ?thesis
  proof (cases "j = i")
    case True
    with bi show ?thesis
      by (simp add: msg_at_def msg_bytes_def patch_def take_Cons' drop_Suc tl_drop tl_take)
  next
    case False
    then have "i < j \<or> j < i" by linarith
    then have "q_start (?qs ! j) + q_size (?qs ! j) \<le> q_start (?qs ! i) \<or> q_start (?qs ! i) + 1 \<le> q_start (?qs ! j)"
      using laid_out_disjoint [OF lo, of i j] laid_out_disjoint [OF lo, of j i] i j bi(2) by fastforce
    then have "msg_bytes (patch ?m (q_start (?qs ! i)) [b]) (?qs ! j) = msg_bytes ?m (?qs ! j)"
      using read_bytes_outside [of "q_start (?qs ! i)" "[b]" ?m "q_start (?qs ! j)" "q_size (?qs ! j)"] bi bj
      by (simp add: msg_bytes_def read_bytes_def split: if_splits)
    with False show ?thesis by (simp add: msg_at_def)
  qed
qed

subsection \<open>The state machine of a message\<close>

text \<open>The quality of service in the first byte of a PUBLISH.\<close>

definition qos_of :: "u8 list \<Rightarrow> u8" where
  "qos_of bytes = header_qos (hd bytes)"

definition next_state :: "MQTTControlPacketType \<Rightarrow> u8 \<Rightarrow> MQTTQueuedMessageState option" where
  "next_state ct qos =
     (if ct \<in> {MQTT_CONTROL_PUBACK, MQTT_CONTROL_PUBCOMP, MQTT_CONTROL_DISCONNECT}
      then Some MQTT_QUEUED_COMPLETE
      else if ct = MQTT_CONTROL_PUBLISH
      then Some (if qos = 0 then MQTT_QUEUED_COMPLETE else MQTT_QUEUED_AWAITING_ACK)
      else if ct \<in> {MQTT_CONTROL_CONNECT, MQTT_CONTROL_PUBREC, MQTT_CONTROL_PUBREL, MQTT_CONTROL_SUBSCRIBE,
          MQTT_CONTROL_UNSUBSCRIBE, MQTT_CONTROL_PINGREQ}
      then Some MQTT_QUEUED_AWAITING_ACK else None)"

text \<open>The bytes kept for a later resend: a QoS 1 PUBLISH gets its DUP flag.\<close>

definition resend_bytes :: "MQTTControlPacketType \<Rightarrow> u8 list \<Rightarrow> u8 list" where
  "resend_bytes ct bytes =
     (if ct = MQTT_CONTROL_PUBLISH \<and> qos_of bytes = 1
      then (hd bytes OR MQTT_PUBLISH_DUP) # tl bytes else bytes)"

lemma qos_mask: "publish_qos b = header_qos b"
proof -
  have "\<forall>b::u8. drop_bit 1 (b AND 6) = 3 AND drop_bit 1 b" unfolding all_u8 by code_simp
  then show ?thesis unfolding publish_qos_def header_qos_def MQTT_PUBLISH_QOS_MASK_def by blast
qed

lemma qos_dup [simp]: "header_qos (b OR MQTT_PUBLISH_DUP) = header_qos b"
proof -
  have "\<forall>b::u8. 3 AND drop_bit 1 (b OR 8) = 3 AND drop_bit 1 b" unfolding all_u8 by code_simp
  then show ?thesis unfolding MQTT_PUBLISH_DUP_def header_qos_def by blast
qed

lemma qos_resend [simp]: "qos_of (resend_bytes ct bytes) = qos_of bytes"
  by (simp add: resend_bytes_def qos_of_def)

lemma length_resend [simp]: "bytes \<noteq> [] \<Longrightarrow> length (resend_bytes ct bytes) = length bytes"
  by (cases bytes) (simp_all add: resend_bytes_def)

lemma sent_state_ok:
  assumes inv: "client_inv c" and i: "i < n_msgs c"
  defines "q \<equiv> mq_msgs (cl_mq c) ! i" and "bs \<equiv> fst (msg_at c i)"
  shows "\<exists>m. sent_state (mq_mem (cl_mq c)) q = Some (m, next_state (q_control_type q) (qos_of bs)) \<and>
    length m = length (mq_mem (cl_mq c)) \<and>
    (\<forall>j < n_msgs c. msg_at (set_mq_mem m c) j =
      (if j = i then (resend_bytes (q_control_type q) bs, q) else msg_at c j))"
proof -
  have same: "set_mq_mem (mq_mem (cl_mq c)) c = c" by (simp add: set_mq_mem_def)
  have snd: "snd (msg_at c i) = q" by (simp add: msg_at_def q_def)
  note first = load_first [OF inv i, folded q_def bs_def]
  show ?thesis
  proof (cases "q_control_type q = MQTT_CONTROL_PUBLISH")
    case True
    show ?thesis
    proof (cases "qos_of bs = 1")
      case qos: True
      have lt: "q_start q < length (mq_mem (cl_mq c))"
        using first by (simp add: load_Some_iff)
      then have "sent_state (mq_mem (cl_mq c)) q =
          Some (patch (mq_mem (cl_mq c)) (q_start q) [hd bs OR MQTT_PUBLISH_DUP], Some MQTT_QUEUED_AWAITING_ACK)"
        using True first qos by (simp add: sent_state_def qos_mask qos_of_def store_patch)
      moreover have "next_state (q_control_type q) (qos_of bs) = Some MQTT_QUEUED_AWAITING_ACK"
        using True qos by (simp add: next_state_def)
      ultimately show ?thesis
        using msg_at_patch_first [OF inv i, of _ "hd bs OR MQTT_PUBLISH_DUP", folded q_def bs_def] True qos lt snd
        by (simp add: resend_bytes_def)
    next
      case False
      with True first have "sent_state (mq_mem (cl_mq c)) q =
          Some (mq_mem (cl_mq c), next_state (q_control_type q) (qos_of bs))"
        by (simp add: sent_state_def next_state_def qos_mask qos_of_def)
      with False same snd show ?thesis by (auto simp: resend_bytes_def bs_def q_def msg_at_def)
    qed
  next
    case False
    then have "sent_state (mq_mem (cl_mq c)) q =
        Some (mq_mem (cl_mq c), next_state (q_control_type q) (qos_of bs))"
      by (cases "q_control_type q") (simp_all add: sent_state_def next_state_def)
    with False same show ?thesis by (auto simp: resend_bytes_def bs_def q_def msg_at_def)
  qed
qed

subsection \<open>Sending one message\<close>

text \<open>What the pass never touches.\<close>

definition send_frame :: "mqtt_client \<Rightarrow> mqtt_client \<Rightarrow> bool" where
  "send_frame c c' \<longleftrightarrow>
     cl_recv_mem c' = cl_recv_mem c \<and> cl_recv_curr c' = cl_recv_curr c \<and>
     cl_recv_curr_sz c' = cl_recv_curr_sz c \<and> cl_mutex c' = cl_mutex c \<and>
     cl_published c' = cl_published c \<and> cl_inspector_callback c' = cl_inspector_callback c \<and>
     cl_reconnect_callback c' = cl_reconnect_callback c \<and> n_msgs c' = n_msgs c"

lemma send_frame_refl [simp]: "send_frame c c"
  by (simp add: send_frame_def)

lemma send_frame_trans: "send_frame a b \<Longrightarrow> send_frame b c \<Longrightarrow> send_frame a c"
  by (simp add: send_frame_def)

lemma send_frame_simps [simp]:
  "send_frame c (c'\<lparr>cl_send_offset := n\<rparr>) = send_frame c c'" "send_frame c (c'\<lparr>cl_error := e\<rparr>) = send_frame c c'"
  "send_frame c (c'\<lparr>cl_time_of_last_send := t\<rparr>) = send_frame c c'"
  "send_frame c (c'\<lparr>cl_number_of_timeouts := k\<rparr>) = send_frame c c'"
  "send_frame c (update_msg i f c') = send_frame c c'" "send_frame c (set_mq_mem m c') = send_frame c c'"
  by (simp_all add: send_frame_def update_msg_def set_mq_mem_def mq_update_def)

text \<open>
  The effect of sending message \<open>i\<close>: on \<open>Go_on\<close> the rest of its bytes is on the wire and it is in its
  next state; on \<open>Break\<close> a part of them is, and the offset says how much; no other message changes.
\<close>

definition transmitted ::
    "('w \<Rightarrow> u8 list) \<Rightarrow> 'w \<Rightarrow> 'w \<Rightarrow> mqtt_client \<Rightarrow> mqtt_client \<Rightarrow> nat \<Rightarrow> send_exit \<Rightarrow> bool" where
  "transmitted wire w w' c c' i e \<longleftrightarrow>
     (let bs = fst (msg_at c i); q = snd (msg_at c i); ct = q_control_type q in
      (\<forall>j < n_msgs c. j \<noteq> i \<longrightarrow> msg_at c' j = msg_at c j) \<and>
      (case e of
         Go_on \<Rightarrow> cl_send_offset c' = 0 \<and> cl_error c' = cl_error c \<and>
           wire w' = wire w @ drop (cl_send_offset c) bs \<and>
           (\<exists>t s. next_state ct (qos_of bs) = Some s \<and>
             msg_at c' i = (resend_bytes ct bs, q\<lparr>q_time_sent := t, q_state := s\<rparr>))
       | Break \<Rightarrow> cl_send_offset c \<le> cl_send_offset c' \<and> cl_send_offset c' < q_size q \<and>
           cl_error c' = cl_error c \<and>
           wire w' = wire w @ drop (cl_send_offset c) (take (cl_send_offset c') bs) \<and>
           msg_at c' i = msg_at c i
       | Return err \<Rightarrow> cl_error c' = err \<and>
           (if err = MQTT_ERROR_SOCKET_ERROR
            then wire w' = wire w \<and> msg_at c' i = msg_at c i
            else err = MQTT_ERROR_MALFORMED_REQUEST \<and> next_state ct (qos_of bs) = None \<and>
              wire w' = wire w @ drop (cl_send_offset c) bs \<and>
              (\<exists>t. msg_at c' i = (bs, q\<lparr>q_time_sent := t\<rparr>)))))"

lemma sent_state_time [simp]: "sent_state m (q\<lparr>q_time_sent := t\<rparr>) = sent_state m q"
  by (cases "q_control_type q") (simp_all add: sent_state_def Let_def cong: if_cong)

lemma transmit_ok:
  assumes env: "env_ok wire env" and inv: "client_inv c" and i: "i < n_msgs c"
    and off: "cl_send_offset c \<le> q_size (mq_msgs (cl_mq c) ! i)"
  shows "\<exists>w' c' e. transmit env w c i (mq_msgs (cl_mq c) ! i) = Some (w', c', e) \<and>
    client_inv c' \<and> send_frame c c' \<and> transmitted wire w w' c c' i e"
proof -
  let ?q = "mq_msgs (cl_mq c) ! i" and ?m = "mq_mem (cl_mq c)" and ?o = "cl_send_offset c"
  let ?bs = "fst (msg_at c i)"
  have q: "snd (msg_at c i) = ?q" by (simp add: msg_at_def)
  note b = msg_in_client [OF inv i]
  have room: "(q_start ?q + ?o) + (q_size ?q - ?o) \<le> length ?m" using b off by simp
  obtain w1 rv where s: "mqtt_pal_sendall env w ?m (q_start ?q + ?o) (q_size ?q - ?o) = Some (w1, rv)"
    and rv: "case rv of Cnt n \<Rightarrow> n \<le> q_size ?q - ?o \<and> wire w1 = wire w @ take n (drop (q_start ?q + ?o) ?m)
       | Err e \<Rightarrow> e = MQTT_ERROR_SOCKET_ERROR \<and> wire w1 = wire w"
    using sendall_wire [OF env room] by blast
  have bytes: "take n (drop (q_start ?q + ?o) ?m) = drop ?o (take (?o + n) ?bs)" if "n \<le> q_size ?q - ?o" for n
    using that off by (simp add: msg_at_def msg_bytes_def drop_take min_def add.commute)
  show ?thesis
  proof (cases rv)
    case (Err e)
    with s rv off inv show ?thesis by (auto simp: transmit_def transmitted_def Let_def)
  next
    case (Cnt n)
    with rv have n: "n \<le> q_size ?q - ?o" and w1: "wire w1 = wire w @ drop ?o (take (?o + n) ?bs)"
      by (simp_all add: bytes)
    show ?thesis
    proof (cases "?o + n < q_size ?q")
      case True
      with Cnt s w1 off inv q show ?thesis by (auto simp: transmit_def transmitted_def Let_def)
    next
      case False
      with n off have full: "?o + n = q_size ?q" by simp
      with w1 b have w1: "wire w1 = wire w @ drop ?o ?bs" by simp
      obtain w2 now where t: "sys_time env w1 = (w2, now)" by (cases "sys_time env w1")
      with env_time [OF env t] w1 have w2: "wire w2 = wire w @ drop ?o ?bs" by simp
      let ?c = "update_msg i (\<lambda>q. q\<lparr>q_time_sent := now\<rparr>) (c\<lparr>cl_send_offset := 0, cl_time_of_last_send := now\<rparr>)"
      have inv1: "client_inv ?c" using inv by (simp add: client_inv_update)
      have at1: "msg_at ?c j = (if j = i then (?bs, ?q\<lparr>q_time_sent := now\<rparr>) else msg_at c j)"
        if "j < n_msgs c" for j
        using that q by (subst msg_at_update) simp_all
      have qi: "mq_msgs (cl_mq ?c) ! i = ?q\<lparr>q_time_sent := now\<rparr>" using at1 [OF i] by (simp add: msg_at_def)
      have i1: "i < n_msgs ?c" using i by simp
      have m1: "mq_mem (cl_mq ?c) = ?m" by simp
      from sent_state_ok [OF inv1 i1] obtain m where
        st: "sent_state ?m ?q = Some (m, next_state (q_control_type ?q) (qos_of ?bs))"
        and len: "length m = length ?m"
        and at: "\<forall>j < n_msgs ?c. msg_at (set_mq_mem m ?c) j =
          (if j = i then (resend_bytes (q_control_type ?q) ?bs, ?q\<lparr>q_time_sent := now\<rparr>) else msg_at ?c j)"
        unfolding qi m1 sent_state_time at1 [OF i] by auto
      have at2: "msg_at (set_mq_mem m ?c) j =
          (if j = i then (resend_bytes (q_control_type ?q) ?bs, ?q\<lparr>q_time_sent := now\<rparr>) else msg_at c j)"
        if "j < n_msgs c" for j
        using at at1 [OF that] that by simp
      show ?thesis
      proof (cases "next_state (q_control_type ?q) (qos_of ?bs)")
        case None
        have "transmit env w c i ?q =
            Some (w2, ?c\<lparr>cl_error := MQTT_ERROR_MALFORMED_REQUEST\<rparr>, Return MQTT_ERROR_MALFORMED_REQUEST)"
          using s Cnt off False t st None full by (simp add: transmit_def Let_def)
        with None inv1 w2 at1 q i show ?thesis by (auto simp: transmitted_def Let_def)
      next
        case (Some s')
        let ?c' = "update_msg i (\<lambda>q. q\<lparr>q_state := s'\<rparr>) (set_mq_mem m ?c)"
        have "transmit env w c i ?q = Some (w2, ?c', Go_on)"
          using s Cnt off False t st Some full by (simp add: transmit_def Let_def)
        moreover have "client_inv ?c'"
          using client_inv_set_mem [OF inv1, of m] len by (simp add: client_inv_update)
        moreover have "msg_at ?c' j = (if j = i then (resend_bytes (q_control_type ?q) ?bs,
            ?q\<lparr>q_time_sent := now, q_state := s'\<rparr>) else msg_at c j)" if "j < n_msgs c" for j
          using that i by (subst msg_at_update) (simp_all add: at2)
        ultimately show ?thesis using Some w2 q i by (auto simp: transmitted_def Let_def)
      qed
    qed
  qed
qed

subsection \<open>The pass over the queue\<close>

text \<open>A QoS 2 PUBLISH that is not acknowledged yet.\<close>

definition open_qos2 :: "mqtt_client \<Rightarrow> nat \<Rightarrow> bool" where
  "open_qos2 c j \<longleftrightarrow> q_control_type (snd (msg_at c j)) = MQTT_CONTROL_PUBLISH \<and>
     q_state (snd (msg_at c j)) \<noteq> MQTT_QUEUED_COMPLETE \<and> qos_of (fst (msg_at c j)) = 2"

definition msg_state :: "mqtt_client \<Rightarrow> nat \<Rightarrow> MQTTQueuedMessageState" where
  "msg_state c j = q_state (snd (msg_at c j))"

text \<open>The steps of one message: none, or sent in full, into the state its type and QoS ask for.\<close>

definition moved :: "u8 list \<times> mqtt_queued_message \<Rightarrow> u8 list \<times> mqtt_queued_message \<Rightarrow> bool" where
  "moved x y \<longleftrightarrow> y = x \<or> (q_state (snd x) \<noteq> MQTT_QUEUED_COMPLETE \<and>
     (\<exists>t. case next_state (q_control_type (snd x)) (qos_of (fst x)) of
        Some s \<Rightarrow> y = (resend_bytes (q_control_type (snd x)) (fst x), (snd x)\<lparr>q_time_sent := t, q_state := s\<rparr>)
      | None \<Rightarrow> y = (fst x, (snd x)\<lparr>q_time_sent := t\<rparr>)))"

lemma hold_back_ok:
  assumes "client_inv c" "i < n_msgs c"
  shows "hold_back_qos2 (mq_mem (cl_mq c)) (mq_msgs (cl_mq c) ! i) resend fl =
    Some (if open_qos2 c i \<and> fl then False else resend, fl \<or> open_qos2 c i)"
  using load_first [OF assms]
  by (cases "q_state (mq_msgs (cl_mq c) ! i)")
    (auto simp: hold_back_qos2_def open_qos2_def msg_at_def qos_of_def Let_def)

text \<open>The offset fits: what is still unsent is not shorter than the part already sent.\<close>

definition offset_fits :: "mqtt_client \<Rightarrow> nat \<Rightarrow> bool" where
  "offset_fits c i \<longleftrightarrow>
     (\<forall>j. i \<le> j \<and> j < n_msgs c \<and> msg_state c j = MQTT_QUEUED_UNSENT \<longrightarrow>
        cl_send_offset c \<le> q_size (snd (msg_at c j)))"

text \<open>One iteration: the message is skipped, or it is sent from the offset \<open>k\<close> on.\<close>

definition skipped :: "('w \<Rightarrow> u8 list) \<Rightarrow> 'w \<Rightarrow> 'w \<Rightarrow> mqtt_client \<Rightarrow> mqtt_client \<Rightarrow> bool \<Rightarrow> nat \<Rightarrow> send_exit \<Rightarrow> bool" where
  "skipped wire w w' c c' fl i e \<longleftrightarrow> e = Go_on \<and> wire w' = wire w \<and> msg_at c' = msg_at c \<and>
     cl_error c' = cl_error c \<and> (cl_send_offset c' = cl_send_offset c \<or> cl_send_offset c' = 0) \<and>
     (msg_state c i = MQTT_QUEUED_UNSENT \<longrightarrow> fl \<and> open_qos2 c i)"

lemma transmitted_offset:
  "transmitted wire w1 w' c1 c' i e \<Longrightarrow> msg_at c1 = msg_at c \<Longrightarrow> n_msgs c1 = n_msgs c \<Longrightarrow>
     cl_error c1 = cl_error c \<Longrightarrow> wire w1 = wire w \<Longrightarrow>
     transmitted wire w w' (c\<lparr>cl_send_offset := cl_send_offset c1\<rparr>) c' i e"
  by (cases e) (simp_all add: transmitted_def Let_def cong: if_cong)

lemma send_message_ok:
  assumes env: "env_ok wire env" and inv: "client_inv c" and i: "i < n_msgs c" and fits: "offset_fits c i"
  shows "\<exists>w' c' e. send_message env w c i fl = Some (w', c', fl \<or> open_qos2 c i, e) \<and>
    client_inv c' \<and> send_frame c c' \<and>
    (skipped wire w w' c c' fl i e \<or>
     (\<exists>k. (k = cl_send_offset c \<or> k = 0) \<and> k \<le> q_size (snd (msg_at c i)) \<and>
        transmitted wire w w' (c\<lparr>cl_send_offset := k\<rparr>) c' i e \<and>
        msg_state c i \<noteq> MQTT_QUEUED_COMPLETE \<and> \<not> (fl \<and> open_qos2 c i)))"
proof -
  let ?q = "mq_msgs (cl_mq c) ! i"
  have q: "snd (msg_at c i) = ?q" by (simp add: msg_at_def)
  obtain w1 c1 resend where ch: "check_resend env w c ?q = (w1, c1, resend)"
    by (cases "check_resend env w c ?q") auto
  note res = ch [unfolded check_resend_def]
  have same: "cl_mq c1 = cl_mq c" "cl_error c1 = cl_error c" "send_frame c c1" "client_inv c1" "wire w1 = wire w"
    using res inv env_time [OF env, of w] by (auto split: if_splits prod.splits)
  have off: "cl_send_offset c1 = cl_send_offset c \<or> cl_send_offset c1 = 0"
    using res by (auto split: if_splits prod.splits)
  have res1: "resend \<Longrightarrow> msg_state c i \<noteq> MQTT_QUEUED_COMPLETE"
    "resend \<Longrightarrow> msg_state c i \<noteq> MQTT_QUEUED_UNSENT \<Longrightarrow> cl_send_offset c1 = 0"
    "msg_state c i = MQTT_QUEUED_UNSENT \<Longrightarrow> resend \<and> c1 = c"
    using res q by (auto simp: msg_state_def split: if_splits prod.splits)
  have le: "resend \<Longrightarrow> cl_send_offset c1 \<le> q_size ?q"
    using res1 fits i q by (cases "msg_state c i = MQTT_QUEUED_UNSENT") (auto simp: offset_fits_def)
  have at: "msg_at c1 = msg_at c" and n: "n_msgs c1 = n_msgs c" using same(1) by (simp_all add: fun_eq_iff msg_at_def)
  have open': "open_qos2 c1 i = open_qos2 c i" by (simp add: open_qos2_def at)
  have i1: "i < n_msgs c1" using i n by simp
  have get: "mqtt_mq_get (cl_mq c) i = Some ?q" using i by (simp add: mqtt_mq_get_def)
  note hold = hold_back_ok [OF same(4) i1, unfolded open' same(1)]
  have run: "send_message env w c i fl =
      (if \<not> (if open_qos2 c i \<and> fl then False else resend) then Some (w1, c1, fl \<or> open_qos2 c i, Go_on)
       else do { (w, c2, e) \<leftarrow> transmit env w1 c1 i ?q; Some (w, c2, fl \<or> open_qos2 c i, e) })"
    by (simp only: send_message_def get ch hold same(1) bind.bind_lunit Let_def prod.case)
  show ?thesis
  proof (cases "resend \<and> \<not> (fl \<and> open_qos2 c i)")
    case False
    then have "\<not> (if open_qos2 c i \<and> fl then False else resend)" by auto
    then have "send_message env w c i fl = Some (w1, c1, fl \<or> open_qos2 c i, Go_on)"
      unfolding run by (rule if_P)
    moreover have "skipped wire w w1 c c1 fl i Go_on"
      using False same off at res1(3) by (auto simp: skipped_def)
    ultimately show ?thesis using same by blast
  next
    case True
    with le have "cl_send_offset c1 \<le> q_size (mq_msgs (cl_mq c1) ! i)" using same(1) by simp
    from transmit_ok [OF env same(4) i1 this, of w1] obtain w' c' e where
      t: "transmit env w1 c1 i ?q = Some (w', c', e)" "client_inv c'" "send_frame c1 c'"
        "transmitted wire w1 w' c1 c' i e" unfolding same(1) by blast
    have "\<not> \<not> (if open_qos2 c i \<and> fl then False else resend)" using True by auto
    then have "send_message env w c i fl = Some (w', c', fl \<or> open_qos2 c i, e)"
      unfolding run t(1) by (simp only: if_not_P if_False bind.bind_lunit prod.case)
    moreover have "transmitted wire w w' (c\<lparr>cl_send_offset := cl_send_offset c1\<rparr>) c' i e"
      by (rule transmitted_offset [OF t(4) at n same(2,5)])
    moreover have "cl_send_offset c1 \<le> q_size (snd (msg_at c i))" using True le q by simp
    ultimately show ?thesis using True off t(2) send_frame_trans [OF same(3) t(3)] res1(1) by blast
  qed
qed

lemma next_state_not_unsent: "next_state ct qos \<noteq> Some MQTT_QUEUED_UNSENT"
  by (simp add: next_state_def)

lemma moved_refl [simp]: "moved x x"
  by (simp add: moved_def)

lemma moved_open: "moved (msg_at c j) (msg_at c' j) \<Longrightarrow> open_qos2 c' j = open_qos2 c j"
  by (auto simp: moved_def open_qos2_def next_state_def split: option.splits if_splits)

lemma transmitted_moved:
  assumes t: "transmitted wire w w' (c\<lparr>cl_send_offset := k\<rparr>) c' i e"
    and "msg_state c i \<noteq> MQTT_QUEUED_COMPLETE" "j < n_msgs c"
  shows "moved (msg_at c j) (msg_at c' j)"
proof (cases "j = i")
  case False
  with t assms(3) show ?thesis by (simp add: transmitted_def Let_def)
next
  case True
  with t assms(2) show ?thesis
    by (cases e) (auto simp: transmitted_def Let_def moved_def msg_state_def split: if_splits)
qed

text \<open>
  The effect of the pass from index \<open>i\<close> on. \<open>sent\<close> are the packets sent in full, in queue order, \<open>part\<close> is
  the beginning of one that was not; of the first of them the bytes before \<open>d\<close> went out earlier.
\<close>

definition on_wire :: "('w \<Rightarrow> u8 list) \<Rightarrow> 'w \<Rightarrow> 'w \<Rightarrow> mqtt_client \<Rightarrow> mqtt_client \<Rightarrow> nat \<Rightarrow> send_exit \<Rightarrow> bool" where
  "on_wire wire w w' c c' i e \<longleftrightarrow>
     (\<exists>d sent part. (d = 0 \<or> d = cl_send_offset c) \<and>
        subseq sent (map (\<lambda>j. fst (msg_at c j)) [i..<n_msgs c]) \<and>
        (if e = Break then \<exists>j < n_msgs c. i \<le> j \<and> part = take (cl_send_offset c') (fst (msg_at c j)) \<and>
           cl_send_offset c' < length (fst (msg_at c j)) else part = []) \<and>
        wire w' = wire w @ drop d (concat sent @ part))"

definition passed :: "mqtt_client \<Rightarrow> mqtt_client \<Rightarrow> nat \<Rightarrow> send_exit \<Rightarrow> bool" where
  "passed c c' i e \<longleftrightarrow>
     (\<forall>j < i. msg_at c' j = msg_at c j) \<and>
     (\<forall>j < n_msgs c. moved (msg_at c j) (msg_at c' j)) \<and>
     (\<forall>j < n_msgs c. open_qos2 c j \<and> msg_at c' j \<noteq> msg_at c j \<longrightarrow> (\<forall>k < j. \<not> open_qos2 c k)) \<and>
     (case e of Return err \<Rightarrow> cl_error c' = err \<and> err \<in> {MQTT_ERROR_SOCKET_ERROR, MQTT_ERROR_MALFORMED_REQUEST}
      | _ \<Rightarrow> cl_error c' = cl_error c) \<and>
     (e = Go_on \<longrightarrow> (cl_send_offset c' = 0 \<or> cl_send_offset c' = cl_send_offset c) \<and>
        (\<forall>j < n_msgs c. i \<le> j \<and> msg_state c' j = MQTT_QUEUED_UNSENT \<longrightarrow>
           open_qos2 c' j \<and> (\<exists>k < j. open_qos2 c' k)))"

lemma upt_from: "i < n \<Longrightarrow> [i..<n] = i # [Suc i..<n]"
  by (simp add: upt_conv_Cons)

text \<open>The last iteration: the pass stops here.\<close>

lemma stop_ok:
  assumes t: "transmitted wire w w' (c\<lparr>cl_send_offset := k\<rparr>) c' i e" and e: "e \<noteq> Go_on"
    and k: "k = cl_send_offset c \<or> k = 0" and i: "i < n_msgs c" and inv: "client_inv c"
    and st: "msg_state c i \<noteq> MQTT_QUEUED_COMPLETE" and q2: "\<not> ((\<exists>k < i. open_qos2 c k) \<and> open_qos2 c i)"
  shows "passed c c' i e" and "on_wire wire w w' c c' i e"
proof -
  have other: "msg_at c' j = msg_at c j" if "j < n_msgs c" "j \<noteq> i" for j
    using t that by (simp add: transmitted_def Let_def)
  have err: "case e of Return err \<Rightarrow> cl_error c' = err \<and> err \<in> {MQTT_ERROR_SOCKET_ERROR, MQTT_ERROR_MALFORMED_REQUEST}
      | _ \<Rightarrow> cl_error c' = cl_error c"
    using t e by (cases e) (auto simp: transmitted_def Let_def split: if_splits)
  have "open_qos2 c j \<and> msg_at c' j \<noteq> msg_at c j \<longrightarrow> (\<forall>k < j. \<not> open_qos2 c k)" if "j < n_msgs c" for j
    using other [OF that] q2 by (cases "j = i") auto
  moreover have "msg_at c' j = msg_at c j" if "j < i" for j using other [of j] that i by simp
  moreover have "moved (msg_at c j) (msg_at c' j)" if "j < n_msgs c" for j
    by (rule transmitted_moved [OF t st that])
  ultimately show "passed c c' i e" unfolding passed_def using err e by blast
  have len: "length (fst (msg_at c i)) = q_size (snd (msg_at c i))"
    using msg_in_client [OF inv i] by (simp add: msg_at_def)
  show "on_wire wire w w' c c' i e"
  proof (cases e)
    case Break
    with t len have "wire w' = wire w @ drop k (take (cl_send_offset c') (fst (msg_at c i)))"
      "cl_send_offset c' < length (fst (msg_at c i))" by (simp_all add: transmitted_def Let_def)
    with Break i k show ?thesis unfolding on_wire_def
      by (intro exI [of _ k] exI [of _ "[]"] exI [of _ "take (cl_send_offset c') (fst (msg_at c i))"]) auto
  next
    case (Return err)
    show ?thesis
    proof (cases "err = MQTT_ERROR_SOCKET_ERROR")
      case True
      with t Return have "wire w' = wire w" by (simp add: transmitted_def Let_def)
      with Return show ?thesis unfolding on_wire_def
        by (intro exI [of _ 0] exI [of _ "[]"]) simp
    next
      case False
      with t Return have "wire w' = wire w @ drop k (fst (msg_at c i))" by (simp add: transmitted_def Let_def)
      with Return k i show ?thesis unfolding on_wire_def
        by (intro exI [of _ k] exI [of _ "[fst (msg_at c i)]"]) (auto simp: upt_from)
    qed
  qed (use e in simp)
qed

text \<open>An iteration that goes on, before the rest of the pass.\<close>

definition stepped :: "('w \<Rightarrow> u8 list) \<Rightarrow> 'w \<Rightarrow> 'w \<Rightarrow> mqtt_client \<Rightarrow> mqtt_client \<Rightarrow> nat \<Rightarrow> bool" where
  "stepped wire w w1 c c1 i \<longleftrightarrow>
     n_msgs c1 = n_msgs c \<and> (\<forall>j < n_msgs c. j \<noteq> i \<longrightarrow> msg_at c1 j = msg_at c j) \<and>
     moved (msg_at c i) (msg_at c1 i) \<and> cl_error c1 = cl_error c \<and>
     (cl_send_offset c1 = 0 \<or> cl_send_offset c1 = cl_send_offset c) \<and>
     (open_qos2 c i \<and> msg_at c1 i \<noteq> msg_at c i \<longrightarrow> (\<forall>k < i. \<not> open_qos2 c k)) \<and>
     (msg_state c1 i = MQTT_QUEUED_UNSENT \<longrightarrow> open_qos2 c i \<and> (\<exists>k < i. open_qos2 c k)) \<and>
     (wire w1 = wire w \<or>
      cl_send_offset c1 = 0 \<and> (\<exists>k. (k = 0 \<or> k = cl_send_offset c) \<and> k \<le> length (fst (msg_at c i)) \<and>
        wire w1 = wire w @ drop k (fst (msg_at c i))))"

lemma step_ok:
  assumes inv: "client_inv c" and i: "i < n_msgs c" and fl: "fl \<longleftrightarrow> (\<exists>k < i. open_qos2 c k)"
    and frame: "send_frame c c1"
    and s: "skipped wire w w1 c c1 fl i Go_on \<or>
     (\<exists>k. (k = cl_send_offset c \<or> k = 0) \<and> k \<le> q_size (snd (msg_at c i)) \<and>
        transmitted wire w w1 (c\<lparr>cl_send_offset := k\<rparr>) c1 i Go_on \<and>
        msg_state c i \<noteq> MQTT_QUEUED_COMPLETE \<and> \<not> (fl \<and> open_qos2 c i))"
  shows "stepped wire w w1 c c1 i"
  using s
proof
  assume "skipped wire w w1 c c1 fl i Go_on"
  with fl frame show ?thesis by (auto simp: skipped_def stepped_def send_frame_def msg_state_def)
next
  assume "\<exists>k. (k = cl_send_offset c \<or> k = 0) \<and> k \<le> q_size (snd (msg_at c i)) \<and>
        transmitted wire w w1 (c\<lparr>cl_send_offset := k\<rparr>) c1 i Go_on \<and>
        msg_state c i \<noteq> MQTT_QUEUED_COMPLETE \<and> \<not> (fl \<and> open_qos2 c i)"
  then obtain k where k: "k = cl_send_offset c \<or> k = 0" "k \<le> q_size (snd (msg_at c i))"
    and t: "transmitted wire w w1 (c\<lparr>cl_send_offset := k\<rparr>) c1 i Go_on"
    and st: "msg_state c i \<noteq> MQTT_QUEUED_COMPLETE" and q2: "\<not> (fl \<and> open_qos2 c i)" by blast
  have m: "moved (msg_at c i) (msg_at c1 i)" by (rule transmitted_moved [OF t st i])
  have len: "length (fst (msg_at c i)) = q_size (snd (msg_at c i))"
    using msg_in_client [OF inv i] by (simp add: msg_at_def)
  have "msg_state c1 i \<noteq> MQTT_QUEUED_UNSENT"
    using t next_state_not_unsent by (auto simp: transmitted_def Let_def msg_state_def)
  moreover have "wire w1 = wire w @ drop k (fst (msg_at c i))" "cl_send_offset c1 = 0" "cl_error c1 = cl_error c"
    "\<forall>j < n_msgs c. j \<noteq> i \<longrightarrow> msg_at c1 j = msg_at c j"
    using t by (simp_all add: transmitted_def Let_def)
  ultimately show ?thesis using m k len q2 fl frame unfolding stepped_def send_frame_def by auto
qed

lemma step_then_pass:
  assumes s: "stepped wire w w1 c c1 i" and i: "i < n_msgs c"
    and p: "passed c1 c' (Suc i) e" and o: "on_wire wire w1 w' c1 c' (Suc i) e"
  shows "passed c c' i e" and "on_wire wire w w' c c' i e"
proof -
  have n: "n_msgs c1 = n_msgs c" and other: "\<And>j. j < n_msgs c \<Longrightarrow> j \<noteq> i \<Longrightarrow> msg_at c1 j = msg_at c j"
    and mv: "moved (msg_at c i) (msg_at c1 i)"
    using s by (simp_all add: stepped_def)
  have ati: "msg_at c' i = msg_at c1 i" using p by (simp add: passed_def)
  have mv1: "moved (msg_at c j) (msg_at c1 j)" if "j < n_msgs c" for j
    using mv other [OF that] by (cases "j = i") simp_all
  have op: "open_qos2 c1 j = open_qos2 c j" if "j < n_msgs c" for j
    by (rule moved_open [OF mv1 [OF that]])
  have mv': "moved (msg_at c j) (msg_at c' j)" if "j < n_msgs c" for j
    using p other [OF that] mv ati n that by (cases "j = i") (auto simp: passed_def)
  have op': "open_qos2 c' j = open_qos2 c j" if "j < n_msgs c" for j
    by (rule moved_open [OF mv' [OF that]])
  have low: "msg_at c' j = msg_at c j" if "j < i" for j
    using p other [of j] that i by (simp add: passed_def)
  have q2: "\<forall>k < j. \<not> open_qos2 c k" if "j < n_msgs c" "open_qos2 c j" "msg_at c' j \<noteq> msg_at c j" for j
  proof (cases "j = i")
    case True
    with s that ati show ?thesis by (simp add: stepped_def)
  next
    case False
    with p n that other [OF that(1)] op have "\<forall>k < j. \<not> open_qos2 c1 k" by (simp add: passed_def)
    with op that(1) show ?thesis by simp
  qed
  have err: "case e of Return err \<Rightarrow> cl_error c' = err \<and> err \<in> {MQTT_ERROR_SOCKET_ERROR, MQTT_ERROR_MALFORMED_REQUEST}
      | _ \<Rightarrow> cl_error c' = cl_error c"
    using p s by (cases e) (simp_all add: passed_def stepped_def)
  have off: "cl_send_offset c' = 0 \<or> cl_send_offset c' = cl_send_offset c" if "e = Go_on"
    using p s that by (auto simp: passed_def stepped_def)
  have unsent: "open_qos2 c' j \<and> (\<exists>k < j. open_qos2 c' k)"
    if "e = Go_on" "j < n_msgs c" "i \<le> j" "msg_state c' j = MQTT_QUEUED_UNSENT" for j
  proof (cases "j = i")
    case True
    with that ati have "msg_state c1 i = MQTT_QUEUED_UNSENT" by (simp add: msg_state_def)
    with s have "open_qos2 c i \<and> (\<exists>k < i. open_qos2 c k)" by (simp add: stepped_def)
    then show ?thesis using op' i True by auto
  next
    case False
    with p n that show ?thesis by (simp add: passed_def)
  qed
  show "passed c c' i e"
    unfolding passed_def using low mv' q2 err off unsent by blast
  have up: "map (\<lambda>j. fst (msg_at c1 j)) [Suc i..<n_msgs c1] = map (\<lambda>j. fst (msg_at c j)) [Suc i..<n_msgs c]"
    using other n by simp
  obtain d sent part where d: "d = 0 \<or> d = cl_send_offset c1"
    and sub: "subseq sent (map (\<lambda>j. fst (msg_at c j)) [Suc i..<n_msgs c])"
    and part1: "if e = Break then \<exists>j < n_msgs c1. Suc i \<le> j \<and> part = take (cl_send_offset c') (fst (msg_at c1 j)) \<and>
           cl_send_offset c' < length (fst (msg_at c1 j)) else part = []"
    and w': "wire w' = wire w1 @ drop d (concat sent @ part)"
    using o unfolding on_wire_def up by blast
  have part: "if e = Break then \<exists>j < n_msgs c. i \<le> j \<and> part = take (cl_send_offset c') (fst (msg_at c j)) \<and>
           cl_send_offset c' < length (fst (msg_at c j)) else part = []"
  proof (cases "e = Break")
    case True
    with part1 n obtain j where j: "j < n_msgs c" "Suc i \<le> j" "part = take (cl_send_offset c') (fst (msg_at c1 j))"
      "cl_send_offset c' < length (fst (msg_at c1 j))" by auto
    with other [of j] True show ?thesis by (auto intro!: exI [of _ j])
  qed (use part1 in simp)
  show "on_wire wire w w' c c' i e"
  proof (cases "wire w1 = wire w")
    case True
    have "d = 0 \<or> d = cl_send_offset c" using d s by (auto simp: stepped_def)
    moreover have "subseq sent (map (\<lambda>j. fst (msg_at c j)) [i..<n_msgs c])"
      using sub i by (auto simp: upt_from intro: list_emb_Cons)
    ultimately show ?thesis using part w' True unfolding on_wire_def by metis
  next
    case False
    with s obtain k where k: "k = 0 \<or> k = cl_send_offset c" "k \<le> length (fst (msg_at c i))"
      "wire w1 = wire w @ drop k (fst (msg_at c i))" and z: "cl_send_offset c1 = 0"
      by (auto simp: stepped_def)
    with d w' have "wire w' = wire w @ drop k (concat (fst (msg_at c i) # sent) @ part)" by auto
    moreover have "subseq (fst (msg_at c i) # sent) (map (\<lambda>j. fst (msg_at c j)) [i..<n_msgs c])"
      using sub i by (simp add: upt_from)
    ultimately show ?thesis using part k(1) unfolding on_wire_def by blast
  qed
qed

lemma send_loop_ok:
  assumes env: "env_ok wire env"
  shows "client_inv c \<Longrightarrow> offset_fits c i \<Longrightarrow> i + n = n_msgs c \<Longrightarrow> (fl \<longleftrightarrow> (\<exists>k < i. open_qos2 c k)) \<Longrightarrow>
    \<exists>w' c' e. send_loop env w c i fl n = Some (w', c', e) \<and> client_inv c' \<and> send_frame c c' \<and>
      passed c c' i e \<and> on_wire wire w w' c c' i e"
proof (induction n arbitrary: w c i fl)
  case 0
  then have "passed c c i Go_on" "on_wire wire w w c c i Go_on"
    unfolding passed_def on_wire_def
    by (auto intro!: exI [of _ 0] exI [of _ "[]"])
  with 0 show ?case by auto
next
  case (Suc n)
  then have i: "i < n_msgs c" by simp
  from send_message_ok [OF env Suc.prems(1) i Suc.prems(2), of w fl] obtain w1 c1 e where
    m: "send_message env w c i fl = Some (w1, c1, fl \<or> open_qos2 c i, e)" "client_inv c1" "send_frame c c1"
    and s: "skipped wire w w1 c c1 fl i e \<or>
     (\<exists>k. (k = cl_send_offset c \<or> k = 0) \<and> k \<le> q_size (snd (msg_at c i)) \<and>
        transmitted wire w w1 (c\<lparr>cl_send_offset := k\<rparr>) c1 i e \<and>
        msg_state c i \<noteq> MQTT_QUEUED_COMPLETE \<and> \<not> (fl \<and> open_qos2 c i))" by blast
  show ?case
  proof (cases "e = Go_on")
    case False
    with s obtain k where k: "k = cl_send_offset c \<or> k = 0"
      "transmitted wire w w1 (c\<lparr>cl_send_offset := k\<rparr>) c1 i e"
      "msg_state c i \<noteq> MQTT_QUEUED_COMPLETE" "\<not> (fl \<and> open_qos2 c i)" by (auto simp: skipped_def)
    have "passed c c1 i e \<and> on_wire wire w w1 c c1 i e"
      using stop_ok [OF k(2) False k(1) i Suc.prems(1) k(3)] k(4) Suc.prems(4) by blast
    with m False show ?thesis by simp
  next
    case True
    have st: "stepped wire w w1 c c1 i"
      by (rule step_ok [OF Suc.prems(1) i Suc.prems(4) m(3) s [unfolded True]])
    have n: "n_msgs c1 = n_msgs c" using m(3) by (simp add: send_frame_def)
    have mv: "moved (msg_at c j) (msg_at c1 j)" if "j < n_msgs c" for j
      using st that by (cases "j = i") (simp_all add: stepped_def)
    have op: "open_qos2 c1 j = open_qos2 c j" if "j < n_msgs c" for j
      by (rule moved_open [OF mv [OF that]])
    have h1: "offset_fits c1 (Suc i)"
      using Suc.prems(2) st unfolding offset_fits_def stepped_def msg_state_def by auto
    have h2: "Suc i + n = n_msgs c1" using Suc.prems(3) n by simp
    have h3: "(fl \<or> open_qos2 c i) = (\<exists>k < Suc i. open_qos2 c1 k)"
      using Suc.prems(4) op i by (auto simp: less_Suc_eq)
    from Suc.IH [OF m(2) h1 h2 h3, of w1] obtain w' c' e' where
      r: "send_loop env w1 c1 (Suc i) (fl \<or> open_qos2 c i) n = Some (w', c', e')"
      "client_inv c'" "send_frame c1 c'" "passed c1 c' (Suc i) e'" "on_wire wire w1 w' c1 c' (Suc i) e'"
      by blast
    have "send_loop env w c i fl (Suc n) = Some (w', c', e')"
      by (simp only: send_loop.simps m(1) bind.bind_lunit prod.case True if_True simp_thms r(1))
    with step_then_pass [OF st i r(4,5)] r(2) send_frame_trans [OF m(3) r(3)] show ?thesis by blast
  qed
qed

subsection \<open>The whole of \<open>__mqtt_send\<close>\<close>

lemma keep_alive_ok:
  assumes env: "env_ok wire env" and inv: "client_inv c" and locked: "cl_mutex c"
  shows "\<exists>w' c' rv. keep_alive_check env w c = Some (w', c', rv) \<and> client_inv c' \<and> cl_mutex c' \<and>
    wire w' = wire w \<and> queue_frame c c' \<and>
    (if rv = MQTT_OK then cl_error c' = cl_error c else cl_error c' = rv \<and> pending c' = pending c)"
proof -
  obtain w1 now where t: "sys_time env w = (w1, now)" by (cases "sys_time env w")
  note w1 = env_time [OF env t]
  from ping_locked_ok [OF inv locked] obtain c1 rv where
    p: "mqtt_ping_locked c = Some (c1, rv)" "client_inv c1" "cl_mutex c1" "queue_frame c c1"
    and q: "queued c c1 rv (enc_empty MQTT_CONTROL_PINGREQ) (\<lambda>q. q\<lparr>q_control_type := MQTT_CONTROL_PINGREQ\<rparr>)"
    by blast
  show ?thesis
  proof (cases "now > cl_time_of_last_send c + int (unat (cl_keep_alive c))")
    case True
    with t p(1) have k: "keep_alive_check env w c =
        Some (w1, if rv \<noteq> MQTT_OK then c1\<lparr>cl_error := rv\<rparr> else c1, rv)"
      by (simp add: keep_alive_check_def)
    show ?thesis
    proof (cases "rv = MQTT_OK")
      case True
      with k p q w1 show ?thesis by (simp add: queued_def)
    next
      case False
      with k p q w1 show ?thesis by (auto simp: queued_def)
    qed
  next
    case False
    with t have "keep_alive_check env w c = Some (w1, c, MQTT_OK)" by (simp add: keep_alive_check_def)
    with inv locked w1 show ?thesis by auto
  qed
qed

lemma on_wire_mutex: "on_wire wire w w' (c\<lparr>cl_mutex := b\<rparr>) = on_wire wire w w' c"
  by (simp add: fun_eq_iff on_wire_def cong: if_cong)

text \<open>
  What went out between two worlds: packets of the queue in order, whole ones, then at most the beginning
  of one more, whose length is the offset kept; of the first, the bytes before \<open>d\<close> had gone out before.
\<close>

definition packets_sent ::
    "('w \<Rightarrow> u8 list) \<Rightarrow> 'w \<Rightarrow> 'w \<Rightarrow> mqtt_client \<Rightarrow> nat \<Rightarrow> bool" where
  "packets_sent wire w w' c offset' \<longleftrightarrow>
     (\<exists>d sent part j. (d = 0 \<or> d = cl_send_offset c) \<and>
       subseq sent (map (\<lambda>j. fst (msg_at c j)) [0..<n_msgs c]) \<and>
       (part = [] \<or> j < n_msgs c \<and> strict_prefix part (fst (msg_at c j)) \<and> offset' = length part) \<and>
       wire w' = wire w @ drop d (concat sent @ part))"

text \<open>The same from the beginning of a packet, when nothing is half-sent.\<close>

definition packets_written ::
    "('w \<Rightarrow> u8 list) \<Rightarrow> 'w \<Rightarrow> 'w \<Rightarrow> mqtt_client \<Rightarrow> nat \<Rightarrow> bool" where
  "packets_written wire w w' c offset' \<longleftrightarrow>
     (\<exists>sent part j. subseq sent (map (\<lambda>j. fst (msg_at c j)) [0..<n_msgs c]) \<and>
       (part = [] \<or> j < n_msgs c \<and> strict_prefix part (fst (msg_at c j)) \<and> offset' = length part) \<and>
       wire w' = wire w @ concat sent @ part)"

lemma packets_sent_idle: "cl_send_offset c = 0 \<Longrightarrow> packets_sent wire w w' c n = packets_written wire w w' c n"
  by (auto simp: packets_sent_def packets_written_def)

text \<open>
  From an offset that fits, the function returns, leaves the invariant and the mutex as it found them, and
  has written to the stream only packets of the queue, in order: whole ones, then at most the
  beginning of one more.
\<close>

lemma mqtt_send_ok:
  assumes env: "env_ok wire env" and inv: "client_inv c" and free: "\<not> cl_mutex c" and fits: "offset_fits c 0"
  shows "\<exists>w' c' rv. mqtt_send env w c = Some (w', c', rv) \<and> client_inv c' \<and> \<not> cl_mutex c' \<and>
    cl_recv_mem c' = cl_recv_mem c \<and> cl_recv_curr c' = cl_recv_curr c \<and>
    cl_reconnect_callback c' = cl_reconnect_callback c \<and>
    (rv \<noteq> MQTT_OK \<longrightarrow> cl_error c' = rv) \<and> (rv = MQTT_OK \<longrightarrow> cl_error c' = cl_error c) \<and>
    packets_sent wire w w' c (cl_send_offset c')"
proof -
  let ?c = "c\<lparr>cl_mutex := True\<rparr>"
  have lock: "mutex_lock c = Some ?c" using free by (simp add: mutex_lock_def)
  show ?thesis
  proof (cases "err_code (cl_error c) < 0 \<and> cl_error c \<noteq> MQTT_ERROR_SEND_BUFFER_IS_FULL")
    case True
    then have "mqtt_send env w c = Some (w, ?c\<lparr>cl_mutex := False\<rparr>, cl_error c)"
      using lock by (simp add: mqtt_send_def mutex_unlock_def)
    moreover have "packets_sent wire w w c (cl_send_offset c)"
      by (auto simp: packets_sent_def intro!: exI [of _ "0::nat"] exI [of _ "[]"])
    ultimately show ?thesis using True inv by auto
  next
    case False
    have "client_inv ?c" "offset_fits ?c 0" "0 + n_msgs ?c = n_msgs ?c"
      using inv fits by (simp_all add: offset_fits_def msg_state_def)
    from send_loop_ok [OF env this, of False w] obtain w1 c1 e where
      l: "send_loop env w ?c 0 False (n_msgs ?c) = Some (w1, c1, e)" "client_inv c1" "send_frame ?c c1"
        "passed ?c c1 0 e" "on_wire wire w w1 ?c c1 0 e" by auto
    from l(3) have locked: "cl_mutex c1" by (simp add: send_frame_def)
    have run: "mqtt_send env w c = (case e of
          Return err \<Rightarrow> do { c \<leftarrow> mutex_unlock c1; Some (w1, c, err) }
        | _ \<Rightarrow> do { (w, c, rv) \<leftarrow> keep_alive_check env w1 c1; c \<leftarrow> mutex_unlock c; Some (w, c, rv) })"
      unfolding mqtt_send_def lock bind.bind_lunit
      using False l(1) by (auto simp: mqtt_mq_length_def)
    have o: "on_wire wire w w1 c c1 0 e"
      using l(5) by (simp only: on_wire_mutex)
    obtain d sent part where
      d: "d = 0 \<or> d = cl_send_offset c"
      and sub: "subseq sent (map (\<lambda>j. fst (msg_at c j)) [0..<n_msgs c])"
      and part: "if e = Break then \<exists>j < n_msgs c. 0 \<le> j \<and> part = take (cl_send_offset c1) (fst (msg_at c j)) \<and>
           cl_send_offset c1 < length (fst (msg_at c j)) else part = []"
      and wire: "wire w1 = wire w @ drop d (concat sent @ part)"
      by (rule o [unfolded on_wire_def, THEN exE], elim exE conjE) (rule that)
    obtain j where part': "part = [] \<or> j < n_msgs c \<and> strict_prefix part (fst (msg_at c j)) \<and>
        cl_send_offset c1 = length part"
    proof (cases "e = Break")
      case True
      with part obtain j where j: "j < n_msgs c" "part = take (cl_send_offset c1) (fst (msg_at c j))"
        "cl_send_offset c1 < length (fst (msg_at c j))" by auto
      then have "length part < length (fst (msg_at c j))" by simp
      then have "strict_prefix part (fst (msg_at c j))"
        using j(2) by (metis nat_neq_iff strict_prefixI take_is_prefix)
      with j that [of j] show ?thesis by simp
    qed (use part that in simp)
    have stream: "packets_sent wire w w1 c (cl_send_offset c1)"
      using d sub part' wire unfolding packets_sent_def by blast
    note f1 = l(3) [unfolded send_frame_def, simplified]
    show ?thesis
    proof (cases "\<exists>err. e = Return err")
      case True
      then obtain err where e: "e = Return err" by blast
      with run locked have "mqtt_send env w c = Some (w1, c1\<lparr>cl_mutex := False\<rparr>, err)"
        by (simp add: mutex_unlock_def)
      moreover have "cl_error c1 = err" "err \<noteq> MQTT_OK" using l(4) e by (auto simp: passed_def)
      ultimately show ?thesis using l(2) f1 stream by simp
    next
      case False
      from keep_alive_ok [OF env l(2) locked, of w1] obtain w2 c2 rv where
        k: "keep_alive_check env w1 c1 = Some (w2, c2, rv)" "client_inv c2" "cl_mutex c2" "wire w2 = wire w1"
          "queue_frame c1 c2"
          "if rv = MQTT_OK then cl_error c2 = cl_error c1 else cl_error c2 = rv \<and> pending c2 = pending c1" by blast
      have "mqtt_send env w c = Some (w2, c2\<lparr>cl_mutex := False\<rparr>, rv)"
        unfolding run using False k(1,3) by (cases e) (simp_all add: mutex_unlock_def)
      moreover have "cl_error c1 = cl_error c" using l(4) False by (cases e) (simp_all add: passed_def)
      moreover have "packets_sent wire w w2 c (cl_send_offset c2)"
        using stream k(4) queue_frameD(1) [OF k(5)] by (simp add: packets_sent_def)
      ultimately show ?thesis
        using f1 k(2,6) queue_frameD [OF k(5)] by (cases "rv = MQTT_OK") simp_all
    qed
  qed
qed

end
