(* ===== verification/Mqtt_Recv.thy ===== *)
theory Mqtt_Recv
  imports Mqtt_Send
begin

text \<open>
  Ingress: \<open>__mqtt_recv\<close> of \<open>src/mqtt-c/src/mqtt.c\<close>, which reads what the socket has, takes one packet after the
  other off the front of the receive buffer and reacts to it, and \<open>mqtt_sync\<close>, which drives both
  directions.

  The loop of \<open>__mqtt_recv\<close> runs as long as complete packets arrive, so it has no bound of its own: the
  model runs it for a given number of iterations (\<open>fuel\<close>) and says whether it has returned by then.
\<close>

subsection \<open>Reacting to a packet\<close>

text \<open>\<open>client->error = e; mqtt_recv_ret = e; break\<close>\<close>

definition recv_fails :: "'w \<Rightarrow> mqtt_client \<Rightarrow> MQTTErrors \<Rightarrow> ('w \<times> mqtt_client \<times> MQTTErrors) option" where
  "recv_fails w c e = Some (w, c\<lparr>cl_error := e\<rparr>, e)"

text \<open>
  Releasing the message that a packet acknowledges: find it, mark it complete, and pass it on with the time
  it took; without one the client is in error.
\<close>

definition release_msg ::
    "'w env \<Rightarrow> 'w \<Rightarrow> mqtt_client \<Rightarrow> MQTTControlPacketType \<Rightarrow> u16 option
       \<Rightarrow> ('w \<Rightarrow> mqtt_client \<Rightarrow> int \<Rightarrow> ('w \<times> mqtt_client \<times> MQTTErrors) option)
       \<Rightarrow> ('w \<times> mqtt_client \<times> MQTTErrors) option" where
  "release_msg env w c ctype pid k =
     (case mqtt_mq_find (cl_mq c) ctype pid of
        None \<Rightarrow> recv_fails w c MQTT_ERROR_ACK_OF_UNKNOWN
      | Some i \<Rightarrow> do {
          msg \<leftarrow> mqtt_mq_get (cl_mq c) i;
          let c = update_msg i (\<lambda>q. q\<lparr>q_state := MQTT_QUEUED_COMPLETE\<rparr>) c;
          let (w, now) = sys_time env w;
          k w c (now - q_time_sent msg)
        })"

text \<open>\<open>client->typical_response_time = 0.875f * ... + 0.125f * (float) (...)\<close>\<close>

definition update_response_time :: "int \<Rightarrow> mqtt_client \<Rightarrow> mqtt_client" where
  "update_response_time d c = c\<lparr>cl_typical_response_time := Averaged (cl_typical_response_time c) d\<rparr>"

definition handle_connack ::
    "'w env \<Rightarrow> 'w \<Rightarrow> mqtt_client \<Rightarrow> MQTTConnackReturnCode \<Rightarrow> ('w \<times> mqtt_client \<times> MQTTErrors) option" where
  "handle_connack env w c return_code =
     release_msg env w c MQTT_CONTROL_CONNECT None (\<lambda>w c d.
       let c = c\<lparr>cl_typical_response_time := Measured d\<rparr> in
       if return_code \<noteq> MQTT_CONNACK_ACCEPTED then
         (if return_code = MQTT_CONNACK_REFUSED_IDENTIFIER_REJECTED
          then recv_fails w c MQTT_ERROR_CONNECT_CLIENT_ID_REFUSED
          else recv_fails w c MQTT_ERROR_CONNECTION_REFUSED)
       else Some (w, c, MQTT_OK))"

text \<open>\<open>client->publish_response_callback(&state, &response.decoded.publish)\<close>\<close>

definition publish_response_callback :: "mqtt_client \<Rightarrow> mqtt_response_publish \<Rightarrow> mqtt_client" where
  "publish_response_callback c p =
     c\<lparr>cl_published := cl_published c @
        [\<lparr>call_publish = p,
          call_topic = read_bytes (cl_recv_mem c) (topic_name p) (unat (topic_name_size p)),
          call_message = read_bytes (cl_recv_mem c) (application_message p) (application_message_size p)\<rparr>]\<rparr>"

text \<open>Staging a reply; an error of the packer becomes the error of the client.\<close>

definition stage_reply ::
    "'w \<Rightarrow> (mqtt_client \<times> MQTTErrors) option \<Rightarrow> (mqtt_client \<Rightarrow> mqtt_client)
       \<Rightarrow> ('w \<times> mqtt_client \<times> MQTTErrors) option" where
  "stage_reply w reply k =
     do { (c, rv) \<leftarrow> reply;
          (if rv \<noteq> MQTT_OK then recv_fails w c rv else Some (w, k c, MQTT_OK)) }"

definition handle_publish ::
    "'w \<Rightarrow> mqtt_client \<Rightarrow> mqtt_response_publish \<Rightarrow> ('w \<times> mqtt_client \<times> MQTTErrors) option" where
  "handle_publish w c p =
     (if qos_level p = 1 then do {
        pid \<leftarrow> pub_packet_id p;
        stage_reply w (mqtt_puback c pid) (\<lambda>c. publish_response_callback c p)
      } else if qos_level p = 2 then do {
        pid \<leftarrow> pub_packet_id p;
        (if mqtt_mq_find (cl_mq c) MQTT_CONTROL_PUBREC (Some pid) \<noteq> None then Some (w, c, MQTT_OK)
         else stage_reply w (mqtt_pubrec c pid) (\<lambda>c. publish_response_callback c p))
      } else Some (w, publish_response_callback c p, MQTT_OK))"

definition handle_pubrec ::
    "'w env \<Rightarrow> 'w \<Rightarrow> mqtt_client \<Rightarrow> u16 \<Rightarrow> ('w \<times> mqtt_client \<times> MQTTErrors) option" where
  "handle_pubrec env w c pid =
     (if mqtt_mq_find (cl_mq c) MQTT_CONTROL_PUBREL (Some pid) \<noteq> None then Some (w, c, MQTT_OK)
      else release_msg env w c MQTT_CONTROL_PUBLISH (Some pid) (\<lambda>w c d.
        stage_reply w (mqtt_pubrel (update_response_time d c) pid) id))"

definition handle_pubrel ::
    "'w env \<Rightarrow> 'w \<Rightarrow> mqtt_client \<Rightarrow> u16 \<Rightarrow> ('w \<times> mqtt_client \<times> MQTTErrors) option" where
  "handle_pubrel env w c pid =
     release_msg env w c MQTT_CONTROL_PUBREC (Some pid) (\<lambda>w c d.
       stage_reply w (mqtt_pubcomp (update_response_time d c) pid) id)"

text \<open>The packets that only release a message.\<close>

definition handle_ack ::
    "'w env \<Rightarrow> 'w \<Rightarrow> mqtt_client \<Rightarrow> MQTTControlPacketType \<Rightarrow> u16 option
       \<Rightarrow> ('w \<times> mqtt_client \<times> MQTTErrors) option" where
  "handle_ack env w c ctype pid =
     release_msg env w c ctype pid (\<lambda>w c d. Some (w, update_response_time d c, MQTT_OK))"

definition handle_suback ::
    "'w env \<Rightarrow> 'w \<Rightarrow> mqtt_client \<Rightarrow> u16 \<Rightarrow> nat \<Rightarrow> ('w \<times> mqtt_client \<times> MQTTErrors) option" where
  "handle_suback env w c pid return_codes =
     release_msg env w c MQTT_CONTROL_SUBSCRIBE (Some pid) (\<lambda>w c d.
       let c = update_response_time d c in
       do { code \<leftarrow> load (cl_recv_mem c) return_codes;
            (if code = MQTT_SUBACK_FAILURE then recv_fails w c MQTT_ERROR_SUBSCRIBE_FAILED
             else Some (w, c, MQTT_OK)) })"

definition handle_response ::
    "'w env \<Rightarrow> 'w \<Rightarrow> mqtt_client \<Rightarrow> decoded \<Rightarrow> ('w \<times> mqtt_client \<times> MQTTErrors) option" where
  "handle_response env w c d =
     (case d of
        Connack session_present return_code \<Rightarrow> handle_connack env w c return_code
      | Publish p \<Rightarrow> handle_publish w c p
      | Puback pid \<Rightarrow> handle_ack env w c MQTT_CONTROL_PUBLISH (Some pid)
      | Pubrec pid \<Rightarrow> handle_pubrec env w c pid
      | Pubrel pid \<Rightarrow> handle_pubrel env w c pid
      | Pubcomp pid \<Rightarrow> handle_ack env w c MQTT_CONTROL_PUBREL (Some pid)
      | Suback pid codes n \<Rightarrow> handle_suback env w c pid codes
      | Unsuback pid \<Rightarrow> handle_ack env w c MQTT_CONTROL_UNSUBSCRIBE (Some pid)
      | Pingresp \<Rightarrow> handle_ack env w c MQTT_CONTROL_PINGREQ None
      | Undecoded \<Rightarrow> recv_fails w c MQTT_ERROR_MALFORMED_RESPONSE)"

subsection \<open>The receive loop\<close>

text \<open>Moving the rest of the receive buffer to its front.\<close>

definition consume :: "mqtt_client \<Rightarrow> nat \<Rightarrow> mqtt_client option" where
  "consume c consumed =
     (if cl_recv_curr c < consumed then None
      else do {
        m \<leftarrow> memmove (cl_recv_mem c) 0 consumed (cl_recv_curr c - consumed);
        Some (c\<lparr>cl_recv_mem := m, cl_recv_curr := cl_recv_curr c - consumed,
                cl_recv_curr_sz := cl_recv_curr_sz c + consumed\<rparr>)
      })"

text \<open>One iteration: \<open>Some e\<close> is a return (or the end of the loop) with \<open>e\<close>, \<open>None\<close> another iteration.\<close>

definition recv_iteration ::
    "'w env \<Rightarrow> 'w \<Rightarrow> mqtt_client \<Rightarrow> mqtt_response
       \<Rightarrow> ('w \<times> mqtt_client \<times> mqtt_response \<times> MQTTErrors option) option" where
  "recv_iteration env w c response =
     do { (w, m, rv) \<leftarrow> mqtt_pal_recvall env w (cl_recv_mem c) (cl_recv_curr c) (cl_recv_curr_sz c);
          let c = c\<lparr>cl_recv_mem := m\<rparr>;
          (case rv of
             Err e \<Rightarrow> Some (w, c\<lparr>cl_error := e\<rparr>, response, Some e)
           | Cnt n \<Rightarrow> do {
               let c = c\<lparr>cl_recv_curr := cl_recv_curr c + n, cl_recv_curr_sz := cl_recv_curr_sz c - n\<rparr>;
               (response, consumed) \<leftarrow> mqtt_unpack_response response (cl_recv_mem c) (Some 0) (cl_recv_curr c);
               (case consumed of
                  Err e \<Rightarrow> Some (w, c\<lparr>cl_error := e\<rparr>, response, Some e)
                | Cnt k \<Rightarrow>
                    if k = 0 then
                      (if cl_recv_curr_sz c = 0
                       then Some (w, c\<lparr>cl_error := MQTT_ERROR_RECV_BUFFER_TOO_SMALL\<rparr>, response,
                              Some MQTT_ERROR_RECV_BUFFER_TOO_SMALL)
                       else Some (w, c, response, Some MQTT_OK))
                    else do {
                      (w, c, ret) \<leftarrow> handle_response env w c (decoded response);
                      c \<leftarrow> consume c k;
                      Some (w, c, response, if ret = MQTT_OK then None else Some ret)
                    })
             }) }"

primrec recv_loop ::
    "'w env \<Rightarrow> nat \<Rightarrow> 'w \<Rightarrow> mqtt_client \<Rightarrow> mqtt_response
       \<Rightarrow> ('w \<times> mqtt_client \<times> MQTTErrors option) option" where
  "recv_loop env 0 w c response = Some (w, c, None)"
| "recv_loop env (Suc fuel) w c response =
     do { (w, c, response, ret) \<leftarrow> recv_iteration env w c response;
          (case ret of None \<Rightarrow> recv_loop env fuel w c response | Some e \<Rightarrow> Some (w, c, Some e)) }"

definition mqtt_recv ::
    "'w env \<Rightarrow> nat \<Rightarrow> mqtt_response \<Rightarrow> 'w \<Rightarrow> mqtt_client
       \<Rightarrow> ('w \<times> mqtt_client \<times> MQTTErrors option) option" where
  "mqtt_recv env fuel response w c =
     do { c \<leftarrow> mutex_lock c;
          (w, c, ret) \<leftarrow> recv_loop env fuel w c response;
          (case ret of
             None \<Rightarrow> Some (w, c, None)
           | Some e \<Rightarrow> do { c \<leftarrow> mutex_unlock c; Some (w, c, Some e) }) }"

subsection \<open>\<open>mqtt_sync\<close>\<close>

text \<open>
  The callbacks of the user: \<open>inspector\<close> and \<open>reconnect\<close> are called with the mutex held; \<open>reconnect\<close> is
  expected to end in \<open>mqtt_connect\<close>, which releases it.
\<close>

record callbacks =
  cb_inspector :: "mqtt_client \<Rightarrow> mqtt_client \<times> MQTTErrors"
  cb_reconnect :: "mqtt_client \<Rightarrow> mqtt_client"

text \<open>The first part, up to the inspector: \<open>Inl\<close> is an early return, \<open>Inr\<close> the flag \<open>reconnecting\<close>.\<close>

definition sync_recover :: "callbacks \<Rightarrow> mqtt_client \<Rightarrow> (mqtt_client \<times> (MQTTErrors + bool)) option" where
  "sync_recover cb c =
     do { c \<leftarrow> mutex_lock c;
          (if cl_error c \<noteq> MQTT_ERROR_RECONNECTING \<and> cl_error c \<noteq> MQTT_OK \<and> cl_reconnect_callback c then do {
             let c = cb_reconnect cb c;
             c \<leftarrow> (if cl_error c \<noteq> MQTT_OK
                   then mutex_unlock (c\<lparr>cl_error := MQTT_ERROR_RECONNECT_FAILED\<rparr>) else Some c);
             (if cl_error c \<noteq> MQTT_OK then Some (c, Inl (cl_error c)) else Some (c, Inr False))
           } else do {
             let reconnecting = (cl_error c = MQTT_ERROR_RECONNECTING);
             let c = (if reconnecting then c\<lparr>cl_error := MQTT_OK\<rparr> else c);
             c \<leftarrow> mutex_unlock c;
             Some (c, Inr reconnecting)
           }) }"

definition sync_inspect :: "callbacks \<Rightarrow> mqtt_client \<Rightarrow> (mqtt_client \<times> MQTTErrors) option" where
  "sync_inspect cb c =
     (if cl_inspector_callback c then do {
        c \<leftarrow> mutex_lock c;
        let (c, err) = cb_inspector cb c;
        c \<leftarrow> mutex_unlock c;
        Some (c, err)
      } else Some (c, MQTT_OK))"

definition mqtt_sync ::
    "'w env \<Rightarrow> callbacks \<Rightarrow> nat \<Rightarrow> mqtt_response \<Rightarrow> 'w \<Rightarrow> mqtt_client
       \<Rightarrow> ('w \<times> mqtt_client \<times> MQTTErrors option) option" where
  "mqtt_sync env cb fuel response w c =
     do { (c, r) \<leftarrow> sync_recover cb c;
          (case r of
             Inl err \<Rightarrow> Some (w, c, Some err)
           | Inr reconnecting \<Rightarrow> do {
               (c, err) \<leftarrow> sync_inspect cb c;
               (if err \<noteq> MQTT_OK then Some (w, c, Some err)
                else do {
                  (w, c, ret) \<leftarrow> mqtt_recv env fuel response w c;
                  (case ret of
                     None \<Rightarrow> Some (w, c, None)
                   | Some err \<Rightarrow>
                       if err \<noteq> MQTT_OK then Some (w, c, Some err)
                       else do {
                         (w, c, err) \<leftarrow> mqtt_send env w c;
                         c \<leftarrow> (if reconnecting \<and> cl_reconnect_callback c
                               then do { c \<leftarrow> mutex_lock c; Some (cb_reconnect cb c) }
                               else Some c);
                         Some (w, c, Some err)
                       })
                })
             }) }"

subsection \<open>What a reaction keeps\<close>

text \<open>Reactions leave the receive buffer, the mutex and the outgoing stream alone.\<close>

definition handled ::
    "('w \<Rightarrow> u8 list) \<Rightarrow> ('w \<Rightarrow> nat) \<Rightarrow> 'w \<Rightarrow> mqtt_client \<Rightarrow> 'w \<Rightarrow> mqtt_client \<Rightarrow> MQTTErrors \<Rightarrow> bool" where
  "handled wire avail w c w' c' e \<longleftrightarrow>
     client_inv c' \<and> cl_mutex c' \<and> cl_recv_mem c' = cl_recv_mem c \<and> cl_recv_curr c' = cl_recv_curr c \<and>
     cl_recv_curr_sz c' = cl_recv_curr_sz c \<and> wire w' = wire w \<and> avail w' \<le> avail w \<and>
     cl_send_offset c' = cl_send_offset c \<and> (e \<noteq> MQTT_OK \<longrightarrow> cl_error c' = e)"

definition clock_ok :: "('w \<Rightarrow> nat) \<Rightarrow> 'w env \<Rightarrow> bool" where
  "clock_ok avail env \<longleftrightarrow> (\<forall>w. avail (fst (sys_time env w)) \<le> avail w)"

lemma handled_fails:
  "client_inv c \<Longrightarrow> cl_mutex c \<Longrightarrow> handled wire avail w c w (c\<lparr>cl_error := e\<rparr>) e"
  by (simp add: handled_def)

lemma release_msg_ok:
  assumes env: "env_ok wire env" and clock: "clock_ok avail env" and inv: "client_inv c" and locked: "cl_mutex c"
    and k: "\<And>w1 c1 d. handled wire avail w c w1 c1 MQTT_OK \<Longrightarrow>
      \<exists>w' c' e. k w1 c1 d = Some (w', c', e) \<and> handled wire avail w1 c1 w' c' e"
  shows "\<exists>w' c' e. release_msg env w c ctype pid k = Some (w', c', e) \<and> handled wire avail w c w' c' e"
proof (cases "mqtt_mq_find (cl_mq c) ctype pid")
  case None
  then show ?thesis using handled_fails [OF inv locked] by (auto simp: release_msg_def recv_fails_def)
next
  case (Some i)
  let ?c = "update_msg i (\<lambda>q. q\<lparr>q_state := MQTT_QUEUED_COMPLETE\<rparr>) c"
  from mq_find_bound [OF Some] have get: "mqtt_mq_get (cl_mq c) i = Some (mq_msgs (cl_mq c) ! i)"
    by (simp add: mqtt_mq_get_def mqtt_mq_length_def)
  obtain w1 now where t: "sys_time env w = (w1, now)" by (cases "sys_time env w")
  have av: "avail w1 \<le> avail w" using clock t unfolding clock_ok_def by (metis fst_conv)
  have "handled wire avail w c w1 ?c MQTT_OK"
    using inv locked env_time [OF env t] av
    by (simp add: handled_def client_inv_update) (simp add: update_msg_def)
  from k [OF this, of "now - q_time_sent (mq_msgs (cl_mq c) ! i)"] obtain w' c' e where
    "k w1 ?c (now - q_time_sent (mq_msgs (cl_mq c) ! i)) = Some (w', c', e)" "handled wire avail w1 ?c w' c' e"
    by blast
  moreover have "handled wire avail w c w' c' e" if "handled wire avail w1 ?c w' c' e"
    using that env_time [OF env t] av by (auto simp: handled_def update_msg_def)
  ultimately show ?thesis using Some get t by (simp add: release_msg_def)
qed

lemma handled_response_time:
  "handled wire avail w c w1 c1 MQTT_OK \<Longrightarrow> handled wire avail w1 c1 w1 (update_response_time d c1) MQTT_OK"
  by (simp add: handled_def update_response_time_def)

lemma stage_reply_ok:
  assumes inv: "client_inv c" and locked: "cl_mutex c"
    and ct: "ct \<in> {MQTT_CONTROL_PUBACK, MQTT_CONTROL_PUBREC, MQTT_CONTROL_PUBREL, MQTT_CONTROL_PUBCOMP}"
    and k: "\<And>c1. handled wire avail w c w c1 MQTT_OK \<Longrightarrow> handled wire avail w c w (k c1) MQTT_OK"
  shows "\<exists>c' e. stage_reply w (mqtt_pubxxx ct c pid) k = Some (w, c', e) \<and> handled wire avail w c w c' e"
proof -
  from pubxxx_ok [OF inv locked ct] obtain c1 e where
    p: "mqtt_pubxxx ct c pid = Some (c1, e)" "client_inv c1" "cl_mutex c1" "queue_frame c c1" by blast
  note f = queue_frameD [OF p(4)]
  have "handled wire avail w c w c1 MQTT_OK" using p f by (simp add: handled_def)
  from k [OF this] show ?thesis
    using p f by (cases "e = MQTT_OK") (auto simp: stage_reply_def recv_fails_def handled_def)
qed

lemma handled_publish_callback:
  "handled wire avail w c w c1 MQTT_OK \<Longrightarrow> handled wire avail w c w (publish_response_callback c1 p) MQTT_OK"
  by (simp add: handled_def publish_response_callback_def)

text \<open>What the unpackers guarantee of a decoded packet.\<close>

definition decoded_ok :: "mem \<Rightarrow> decoded \<Rightarrow> bool" where
  "decoded_ok m d \<longleftrightarrow>
     (case d of
        Publish p \<Rightarrow> qos_level p > 0 \<longrightarrow> pub_packet_id p \<noteq> None
      | Suback pid codes n \<Rightarrow> codes < length m
      | _ \<Rightarrow> True)"

lemma handle_response_ok:
  assumes env: "env_ok wire env" and clock: "clock_ok avail env" and inv: "client_inv c" and locked: "cl_mutex c"
    and d: "decoded_ok (cl_recv_mem c) d"
  shows "\<exists>w' c' e. handle_response env w c d = Some (w', c', e) \<and> handled wire avail w c w' c' e"
proof -
  note release = release_msg_ok [OF env clock inv locked]
  have self: "handled wire avail w c w c MQTT_OK" using inv locked by (simp add: handled_def)
  have ack: "\<exists>w' c' e. handle_ack env w c ct pid = Some (w', c', e) \<and> handled wire avail w c w' c' e" for ct pid
    unfolding handle_ack_def by (rule release) (auto intro: handled_response_time)
  have reply: "\<exists>w' c' e. stage_reply w1 (mqtt_pubxxx ct (update_response_time d c1) pid) id = Some (w', c', e) \<and>
      handled wire avail w1 c1 w' c' e"
    if "handled wire avail w c w1 c1 MQTT_OK" "ct \<in> {MQTT_CONTROL_PUBREL, MQTT_CONTROL_PUBCOMP}" for w1 c1 d ct pid
  proof -
    have u: "client_inv (update_response_time d c1)" "cl_mutex (update_response_time d c1)"
      using that(1) by (simp_all add: handled_def update_response_time_def)
    have "ct \<in> {MQTT_CONTROL_PUBACK, MQTT_CONTROL_PUBREC, MQTT_CONTROL_PUBREL, MQTT_CONTROL_PUBCOMP}"
      using that(2) by auto
    from stage_reply_ok [OF u this, of wire avail w1 id pid] obtain c' e where
      "stage_reply w1 (mqtt_pubxxx ct (update_response_time d c1) pid) id = Some (w1, c', e)"
      "handled wire avail w1 (update_response_time d c1) w1 c' e" by auto
    then show ?thesis by (auto simp: handled_def update_response_time_def)
  qed
  show ?thesis
  proof (cases d)
    case Undecoded
    then show ?thesis using handled_fails [OF inv locked] by (auto simp: handle_response_def recv_fails_def)
  next
    case (Connack sp rc)
    show ?thesis unfolding handle_response_def Connack decoded.case handle_connack_def
      by (rule release) (auto simp: handled_def recv_fails_def Let_def)
  next
    case (Publish p)
    have st: "\<exists>c' e. stage_reply w (mqtt_pubxxx ct c pid) (\<lambda>c. publish_response_callback c p) = Some (w, c', e) \<and>
        handled wire avail w c w c' e"
      if "ct \<in> {MQTT_CONTROL_PUBACK, MQTT_CONTROL_PUBREC}" for ct pid
      using that by (intro stage_reply_ok [OF inv locked]) (auto intro: handled_publish_callback)
    consider "qos_level p = 1" | "qos_level p = 2" | "qos_level p \<noteq> 1" "qos_level p \<noteq> 2" by blast
    then show ?thesis
    proof cases
      case 1
      with d Publish obtain pid where "pub_packet_id p = Some pid" by (auto simp: decoded_ok_def)
      with 1 st [of MQTT_CONTROL_PUBACK pid] Publish show ?thesis
        by (auto simp: handle_response_def handle_publish_def mqtt_puback_def)
    next
      case 2
      with d Publish obtain pid where "pub_packet_id p = Some pid" by (auto simp: decoded_ok_def)
      with 2 st [of MQTT_CONTROL_PUBREC pid] self Publish show ?thesis
        by (auto simp: handle_response_def handle_publish_def mqtt_pubrec_def)
    next
      case 3
      with handled_publish_callback [OF self] Publish show ?thesis
        by (auto simp: handle_response_def handle_publish_def)
    qed
  next
    case (Pubrec pid)
    have "\<exists>w' c' e. release_msg env w c MQTT_CONTROL_PUBLISH (Some pid)
        (\<lambda>w c d. stage_reply w (mqtt_pubrel (update_response_time d c) pid) id) = Some (w', c', e) \<and>
        handled wire avail w c w' c' e"
      unfolding mqtt_pubrel_def by (rule release) (auto intro: reply)
    with self Pubrec show ?thesis by (auto simp: handle_response_def handle_pubrec_def)
  next
    case (Pubrel pid)
    show ?thesis unfolding handle_response_def Pubrel decoded.case handle_pubrel_def mqtt_pubcomp_def
      by (rule release) (auto intro: reply)
  next
    case (Suback pid codes n)
    with d have "codes < length (cl_recv_mem c)" by (simp add: decoded_ok_def)
    then show ?thesis unfolding handle_response_def Suback decoded.case handle_suback_def
      by (intro release) (auto simp: handled_def recv_fails_def Let_def load_def update_response_time_def)
  qed (use ack in \<open>simp_all add: handle_response_def\<close>)
qed

lemma unpack_body_decoded_ok:
  assumes "unpack_body fh m buf = Some (Inr (k, d))" "buf + unat (remaining_length fh) \<le> length m"
  shows "decoded_ok m d"
proof (cases "control_type fh = MQTT_CONTROL_SUBACK")
  case True
  with assms(1) have "\<not> remaining_length fh < 3" "\<exists>pid n. d = Suback pid (buf + 2) n"
    by (auto simp: unpack_body_def mqtt_unpack_suback_response_def Let_def split: if_splits bind_splits)
  moreover from this(1) have "3 \<le> unat (remaining_length fh)" by (simp add: word_less_nat_alt)
  ultimately show ?thesis using assms(2) by (auto simp: decoded_ok_def)
next
  case False
  with assms(1) show ?thesis
    by (cases "control_type fh")
      (auto simp: unpack_body_def decoded_ok_def mqtt_unpack_connack_response_def mqtt_unpack_publish_response_def
        mqtt_unpack_pubxxx_response_def mqtt_unpack_unsuback_response_def Let_def split: if_splits bind_splits)
qed

lemma unpack_decoded_ok:
  assumes un: "mqtt_unpack_response r m (Some 0) bufsz = Some (r', Cnt k)" and k: "0 < k" and room: "bufsz \<le> length m"
  shows "decoded_ok m (decoded r')"
proof -
  from unpack_fixed_header_safe [of 0 bufsz m "fixed_header r"] room obtain fh rv
    where fh: "mqtt_unpack_fixed_header (fixed_header r) m (Some 0) bufsz = Some (fh, rv)"
    and rv: "\<And>n. rv = Cnt n \<Longrightarrow> n = 0 \<or> 2 \<le> n \<and> n + unat (remaining_length fh) \<le> bufsz" by auto
  from un fh k obtain n where n: "rv = Cnt n" "n \<noteq> 0"
    by (cases rv) (auto simp: mqtt_unpack_response_def Let_def split: if_splits)
  with un fh obtain res where res: "unpack_body fh m n = Some res"
    by (auto simp: mqtt_unpack_response_def Let_def split: bind_splits)
  with un fh n obtain j d where "res = Inr (j, d)" "r' = r\<lparr>fixed_header := fh, decoded := d\<rparr>"
    by (cases res) (auto simp: mqtt_unpack_response_def Let_def)
  with res unpack_body_decoded_ok [of fh m n j d] rv [OF n(1)] n room show ?thesis by auto
qed

subsection \<open>The receive loop is safe\<close>

text \<open>
  The one thing the code does not check of the bytes the broker sent: that the topic of a PUBLISH ends inside
  the packet.
\<close>

definition publish_in_bounds :: "mem \<Rightarrow> nat \<Rightarrow> bool" where
  "publish_in_bounds m bufsz \<longleftrightarrow>
     (\<forall>fh0 fh n tsize. mqtt_unpack_fixed_header fh0 m (Some 0) bufsz = Some (fh, Cnt n) \<and> 0 < n \<and>
        control_type fh = MQTT_CONTROL_PUBLISH \<and> mqtt_unpack_uint16 m n = Some tsize \<longrightarrow> publish_fits fh tsize)"

definition iteration_safe :: "'w env \<Rightarrow> 'w \<Rightarrow> mqtt_client \<Rightarrow> bool" where
  "iteration_safe env w c \<longleftrightarrow>
     (\<forall>w' m n. mqtt_pal_recvall env w (cl_recv_mem c) (cl_recv_curr c) (cl_recv_curr_sz c) = Some (w', m, Cnt n) \<longrightarrow>
        publish_in_bounds m (cl_recv_curr c + n))"

text \<open>The world has \<open>avail\<close> more bytes to deliver.\<close>

definition delivers :: "('w \<Rightarrow> nat) \<Rightarrow> 'w env \<Rightarrow> bool" where
  "delivers avail env \<longleftrightarrow> clock_ok avail env \<and>
     (\<forall>w n. case sys_recv env w n of
        (w', Ret data) \<Rightarrow> avail w' + length data \<le> avail w
      | (w', Errno e) \<Rightarrow> avail w' \<le> avail w)"

lemma delivers_recv:
  assumes "delivers avail env" "sys_recv env w n = (w', r)"
  shows "avail w' + (case r of Ret data \<Rightarrow> length data | Errno e \<Rightarrow> 0) \<le> avail w"
proof -
  from assms(1) have "case sys_recv env w n of (w', Ret data) \<Rightarrow> avail w' + length data \<le> avail w
    | (w', Errno e) \<Rightarrow> avail w' \<le> avail w" by (simp add: delivers_def)
  with assms(2) show ?thesis by (auto split: sysret.splits)
qed

lemma recvall_loop_avail:
  assumes d: "delivers avail env"
  shows "recvall_loop env w m buf bufsz = Some (w', m', buf', e) \<Longrightarrow> buf \<le> buf' \<and> avail w' + (buf' - buf) \<le> avail w"
proof (induction bufsz arbitrary: w m buf rule: less_induct)
  case (less bufsz)
  obtain w1 r where c: "sys_recv env w bufsz = (w1, r)" by (cases "sys_recv env w bufsz")
  note r = delivers_recv [OF d c]
  show ?case
  proof (cases "\<exists>data. r = Ret data \<and> data \<noteq> []")
    case False
    with less.prems c r show ?thesis
      by (subst (asm) recvall_loop.simps) (auto split: sysret.splits if_splits)
  next
    case True
    then obtain data where data: "r = Ret data" "data \<noteq> []" by blast
    let ?n = "bufsz - length data"
    from less.prems c data obtain m1 b1 where p: "put (m, buf) data = Some (m1, b1)" "length data \<le> bufsz"
      and rest: "if ?n > 0 then recvall_loop env w1 m1 b1 ?n = Some (w', m', buf', e) else (w', buf') = (w1, b1)"
      by (subst (asm) recvall_loop.simps) (auto split: if_splits bind_splits)
    have b1: "b1 = buf + length data" using put_SomeD [OF p(1)] by simp
    show ?thesis
    proof (cases "?n > 0")
      case True
      with rest have "recvall_loop env w1 m1 b1 ?n = Some (w', m', buf', e)" by simp
      moreover have "?n < bufsz" using data p(2) by (cases data) auto
      ultimately have "b1 \<le> buf' \<and> avail w' + (buf' - b1) \<le> avail w1" using less.IH by blast
      with b1 r data show ?thesis by auto
    next
      case False
      with rest b1 r data show ?thesis by auto
    qed
  qed
qed

text \<open>One iteration returns, and if it goes on it has consumed at least one byte.\<close>

definition iterated ::
    "('w \<Rightarrow> u8 list) \<Rightarrow> ('w \<Rightarrow> nat) \<Rightarrow> 'w \<Rightarrow> mqtt_client \<Rightarrow> 'w \<Rightarrow> mqtt_client \<Rightarrow> MQTTErrors option \<Rightarrow> bool" where
  "iterated wire avail w c w' c' ret \<longleftrightarrow>
     client_inv c' \<and> cl_mutex c' \<and> length (cl_recv_mem c') = length (cl_recv_mem c) \<and> wire w' = wire w \<and>
     cl_send_offset c' = cl_send_offset c \<and>
     (ret = None \<longrightarrow> avail w' + cl_recv_curr c' < avail w + cl_recv_curr c) \<and>
     (\<forall>e. ret = Some e \<and> e \<noteq> MQTT_OK \<longrightarrow> cl_error c' = e)"

lemma consume_ok:
  assumes "client_inv c" "k \<le> cl_recv_curr c"
  shows "consume c k = Some (c\<lparr>cl_recv_mem := patch (cl_recv_mem c) 0 (take (cl_recv_curr c - k) (drop k (cl_recv_mem c))),
      cl_recv_curr := cl_recv_curr c - k, cl_recv_curr_sz := cl_recv_curr_sz c + k\<rparr>)"
    and "length (patch (cl_recv_mem c) 0 (take (cl_recv_curr c - k) (drop k (cl_recv_mem c)))) = length (cl_recv_mem c)"
proof -
  have b: "cl_recv_curr c \<le> length (cl_recv_mem c)" using assms(1) by (simp add: client_inv_def)
  then have "memmove (cl_recv_mem c) 0 k (cl_recv_curr c - k) =
      Some (patch (cl_recv_mem c) 0 (take (cl_recv_curr c - k) (drop k (cl_recv_mem c))))"
    using assms(2) by (intro memmove_down) simp_all
  then show "consume c k = Some (c\<lparr>cl_recv_mem := patch (cl_recv_mem c) 0 (take (cl_recv_curr c - k) (drop k (cl_recv_mem c))),
      cl_recv_curr := cl_recv_curr c - k, cl_recv_curr_sz := cl_recv_curr_sz c + k\<rparr>)"
    using assms(2) by (simp add: consume_def)
  show "length (patch (cl_recv_mem c) 0 (take (cl_recv_curr c - k) (drop k (cl_recv_mem c)))) = length (cl_recv_mem c)"
    using b assms(2) by (intro length_patch) simp
qed

lemma recv_iteration_ok:
  assumes env: "env_ok wire env" and del: "delivers avail env" and inv: "client_inv c" and locked: "cl_mutex c"
    and safe: "iteration_safe env w c"
  shows "\<exists>w' c' r' ret. recv_iteration env w c r = Some (w', c', r', ret) \<and> iterated wire avail w c w' c' ret"
proof -
  let ?m = "cl_recv_mem c" and ?b = "cl_recv_curr c" and ?sz = "cl_recv_curr_sz c"
  have room: "?b + ?sz = length ?m" using inv by (simp add: client_inv_def)
  from recvall_safe [OF env, of ?b ?sz ?m w] room obtain w1 bs rv where
    rc: "mqtt_pal_recvall env w ?m ?b ?sz = Some (w1, patch ?m ?b bs, rv)" and bs: "length bs \<le> ?sz"
    and w1: "wire w1 = wire w"
    and rv: "case rv of Cnt n \<Rightarrow> n = length bs | Err e \<Rightarrow> e = MQTT_ERROR_SOCKET_ERROR \<and> bs = []" by auto
  show ?thesis
  proof (cases rv)
    case (Err e)
    with rv have "bs = []" by simp
    with rc Err have "recv_iteration env w c r = Some (w1, c\<lparr>cl_recv_mem := ?m, cl_error := e\<rparr>, r, Some e)"
      by (simp add: recv_iteration_def)
    with inv locked w1 show ?thesis by (simp add: iterated_def client_inv_def)
  next
    case (Cnt n)
    with rv have n: "n = length bs" by simp
    let ?c = "c\<lparr>cl_recv_mem := patch ?m ?b bs, cl_recv_curr := ?b + n, cl_recv_curr_sz := ?sz - n\<rparr>"
    have len: "length (patch ?m ?b bs) = length ?m" using bs room by simp
    have inv1: "client_inv ?c" using inv room bs n len by (simp add: client_inv_def)
    have av: "avail w1 + n \<le> avail w"
    proof -
      from rc obtain b' e where "recvall_loop env w ?m ?b ?sz = Some (w1, patch ?m ?b bs, b', e)"
        and b': "rv = (if b' = ?b then e else Cnt (b' - ?b))"
        by (auto simp: mqtt_pal_recvall_def split: bind_splits)
      from recvall_loop_avail [OF del this(1)] recvall_loop_safe [OF env, of ?b ?sz ?m w] this(1) room
      show ?thesis using Cnt b' by (auto split: if_splits)
    qed
    have pub: "publish_in_bounds (patch ?m ?b bs) (?b + n)"
      using safe rc Cnt by (auto simp: iteration_safe_def)
    have bound: "0 + (?b + n) \<le> length (patch ?m ?b bs)" using len room bs n by simp
    from unpack_response_safe [OF bound, of r] pub obtain r1 consumed where
      un: "mqtt_unpack_response r (patch ?m ?b bs) (Some 0) (?b + n) = Some (r1, consumed)"
      and le: "\<And>k. consumed = Cnt k \<Longrightarrow> k \<le> ?b + n"
      unfolding publish_in_bounds_def by (metis add_0)
    have run: "recv_iteration env w c r = (case consumed of
          Err e \<Rightarrow> Some (w1, ?c\<lparr>cl_error := e\<rparr>, r1, Some e)
        | Cnt k \<Rightarrow> if k = 0 then
              (if ?sz - n = 0 then Some (w1, ?c\<lparr>cl_error := MQTT_ERROR_RECV_BUFFER_TOO_SMALL\<rparr>, r1,
                 Some MQTT_ERROR_RECV_BUFFER_TOO_SMALL) else Some (w1, ?c, r1, Some MQTT_OK))
            else do { (w, c, ret) \<leftarrow> handle_response env w1 ?c (decoded r1); c \<leftarrow> consume c k;
                      Some (w, c, r1, if ret = MQTT_OK then None else Some ret) })"
      using rc Cnt un by (cases consumed) (auto simp: recv_iteration_def Let_def)
    show ?thesis
    proof (cases "\<exists>k. consumed = Cnt k \<and> k \<noteq> 0")
      case False
      with run inv1 locked w1 len av n show ?thesis
        by (cases consumed) (auto simp: iterated_def)
    next
      case True
      then obtain k where k: "consumed = Cnt k" "k \<noteq> 0" by blast
      have "decoded_ok (cl_recv_mem ?c) (decoded r1)"
        using unpack_decoded_ok [of r "patch ?m ?b bs" "?b + n" r1 k] un k bound by simp
      from handle_response_ok [OF env _ inv1 _ this, of avail w1] del locked obtain w2 c2 ret where
        h: "handle_response env w1 ?c (decoded r1) = Some (w2, c2, ret)" "handled wire avail w1 ?c w2 c2 ret"
        by (auto simp: delivers_def)
      have inv2: "client_inv c2" and kc: "k \<le> cl_recv_curr c2" and b2: "cl_recv_curr c2 = ?b + n"
        using h(2) le [OF k(1)] by (simp_all add: handled_def)
      note cons = consume_ok [OF inv2 kc]
      let ?c3 = "c2\<lparr>cl_recv_mem := patch (cl_recv_mem c2) 0 (take (cl_recv_curr c2 - k) (drop k (cl_recv_mem c2))),
        cl_recv_curr := cl_recv_curr c2 - k, cl_recv_curr_sz := cl_recv_curr_sz c2 + k\<rparr>"
      have "recv_iteration env w c r = Some (w2, ?c3, r1, if ret = MQTT_OK then None else Some ret)"
        unfolding run k(1) using k(2) h(1) cons(1) by simp
      moreover have "client_inv ?c3" using inv2 kc cons(2) by (simp add: client_inv_def)
      ultimately show ?thesis
        using h(2) w1 len av kc k(2) b2 cons(2) by (auto simp: iterated_def handled_def)
    qed
  qed
qed

subsection \<open>The loop\<close>

text \<open>The states at the start of the iterations.\<close>

inductive recv_reaches ::
    "'w env \<Rightarrow> 'w \<times> mqtt_client \<times> mqtt_response \<Rightarrow> 'w \<times> mqtt_client \<times> mqtt_response \<Rightarrow> bool"
  for env :: "'w env" where
  recv_here: "recv_reaches env s s"
| recv_more: "recv_iteration env w c r = Some (w1, c1, r1, None) \<Longrightarrow> recv_reaches env (w1, c1, r1) s \<Longrightarrow>
    recv_reaches env (w, c, r) s"

text \<open>Along a run in which the broker keeps its PUBLISH packets consistent, the loop is safe for any number of iterations.\<close>

definition broker_ok :: "'w env \<Rightarrow> 'w \<Rightarrow> mqtt_client \<Rightarrow> mqtt_response \<Rightarrow> bool" where
  "broker_ok env w c r \<longleftrightarrow> (\<forall>w' c' r'. recv_reaches env (w, c, r) (w', c', r') \<longrightarrow> iteration_safe env w' c')"

lemma broker_ok_here: "broker_ok env w c r \<Longrightarrow> iteration_safe env w c"
  using recv_here by (fastforce simp: broker_ok_def)

lemma broker_ok_next:
  "broker_ok env w c r \<Longrightarrow> recv_iteration env w c r = Some (w1, c1, r1, None) \<Longrightarrow> broker_ok env w1 c1 r1"
  using recv_more unfolding broker_ok_def by metis

lemma recv_loop_ok:
  assumes env: "env_ok wire env" and del: "delivers avail env"
  shows "client_inv c \<Longrightarrow> cl_mutex c \<Longrightarrow> broker_ok env w c r \<Longrightarrow>
    \<exists>w' c' ret. recv_loop env fuel w c r = Some (w', c', ret) \<and> client_inv c' \<and> cl_mutex c' \<and>
      wire w' = wire w \<and> cl_send_offset c' = cl_send_offset c \<and>
      (avail w + cl_recv_curr c < fuel \<longrightarrow> ret \<noteq> None) \<and>
      (\<forall>e. ret = Some e \<and> e \<noteq> MQTT_OK \<longrightarrow> cl_error c' = e)"
proof (induction fuel arbitrary: w c r)
  case 0
  then show ?case by simp
next
  case (Suc fuel)
  from recv_iteration_ok [OF env del Suc.prems(1,2) broker_ok_here [OF Suc.prems(3)], of r]
  obtain w1 c1 r1 ret where it: "recv_iteration env w c r = Some (w1, c1, r1, ret)"
    "iterated wire avail w c w1 c1 ret" by blast
  show ?case
  proof (cases ret)
    case None
    with it(2) have c1: "client_inv c1" "cl_mutex c1" and less: "avail w1 + cl_recv_curr c1 < avail w + cl_recv_curr c"
      by (simp_all add: iterated_def)
    from Suc.IH [OF c1 broker_ok_next [OF Suc.prems(3)]] it None less show ?thesis
      by (fastforce simp: iterated_def)
  next
    case (Some e)
    with it show ?thesis by (auto simp: iterated_def)
  qed
qed

text \<open>
  \<open>__mqtt_recv\<close> returns: as many iterations as bytes, those in the buffer and those still to come, are
  enough, and it leaves the invariant and the mutex as it found them.
\<close>

lemma mqtt_recv_ok:
  assumes env: "env_ok wire env" and del: "delivers avail env" and inv: "client_inv c" and free: "\<not> cl_mutex c"
    and broker: "broker_ok env w (c\<lparr>cl_mutex := True\<rparr>) r" and fuel: "avail w + cl_recv_curr c < fuel"
  shows "\<exists>w' c' e. mqtt_recv env fuel r w c = Some (w', c', Some e) \<and> client_inv c' \<and> \<not> cl_mutex c' \<and>
    wire w' = wire w \<and> cl_send_offset c' = cl_send_offset c \<and> (e \<noteq> MQTT_OK \<longrightarrow> cl_error c' = e)"
proof -
  have "client_inv (c\<lparr>cl_mutex := True\<rparr>)" "cl_mutex (c\<lparr>cl_mutex := True\<rparr>)" using inv by simp_all
  from recv_loop_ok [OF env del this broker, of fuel] fuel obtain w' c' e where
    "recv_loop env fuel w (c\<lparr>cl_mutex := True\<rparr>) r = Some (w', c', Some e)" "client_inv c'" "cl_mutex c'"
    "wire w' = wire w" "cl_send_offset c' = cl_send_offset c" "e \<noteq> MQTT_OK \<longrightarrow> cl_error c' = e" by auto
  with free show ?thesis by (simp add: mqtt_recv_def mutex_lock_def mutex_unlock_def)
qed

text \<open>
  Without that care of the broker it is not safe: a QoS 0 PUBLISH whose topic claims more bytes than the packet
  has is reported longer than what was received, and moving the rest of the buffer is undefined.
\<close>

lemma overrun_consumes_too_much:
  assumes "mqtt_unpack_fixed_header (fixed_header r) m (Some 0) bufsz = Some (fh, Cnt n)" "0 < n" "bufsz \<le> length m"
    and "control_type fh = MQTT_CONTROL_PUBLISH" "publish_qos (control_flags fh) = 0" "4 \<le> unat (remaining_length fh)"
    and "mqtt_unpack_uint16 m n = Some tsize" "\<not> publish_fits fh tsize" "bufsz < 2 ^ 32"
  shows "\<exists>r' k. mqtt_unpack_response r m (Some 0) bufsz = Some (r', Cnt k) \<and> bufsz < k"
proof -
  from publish_overrun [OF assms(5-8)] obtain p where
    "mqtt_unpack_publish_response fh m n = Some (Inr (unat (remaining_length fh) + 2 ^ 32, Publish p))" by blast
  then show ?thesis using assms(1,2,4,9) by (simp add: mqtt_unpack_response_def unpack_body_def Let_def)
qed

lemma overrun_crashes:
  assumes "mqtt_pal_recvall env w (cl_recv_mem c) (cl_recv_curr c) (cl_recv_curr_sz c) = Some (w1, m, Cnt n)"
    and un: "mqtt_unpack_response r m (Some 0) (cl_recv_curr c + n) = Some (r1, Cnt k)"
    and over: "cl_recv_curr c + n < k" and pub: "decoded r1 = Publish p" and qos: "qos_level p = 0"
  shows "recv_iteration env w c r = None"
  using assms(1) un over pub qos
  by (simp add: recv_iteration_def Let_def handle_response_def handle_publish_def consume_def
      publish_response_callback_def)

subsection \<open>What the reactions do\<close>

text \<open>An acknowledgement completes the message it names and no other; one of an unknown message is an error.\<close>

lemma handle_ack_releases:
  assumes "mqtt_mq_find (cl_mq c) ct pid = Some i"
  shows "\<exists>w' c'. handle_ack env w c ct pid = Some (w', c', MQTT_OK) \<and> n_msgs c' = n_msgs c \<and>
    (\<forall>j < n_msgs c. msg_at c' j = (if j = i then (fst (msg_at c i), (snd (msg_at c i))\<lparr>q_state := MQTT_QUEUED_COMPLETE\<rparr>)
       else msg_at c j))"
proof -
  let ?c = "update_msg i (\<lambda>q. q\<lparr>q_state := MQTT_QUEUED_COMPLETE\<rparr>) c"
  from mq_find_bound [OF assms] have get: "mqtt_mq_get (cl_mq c) i = Some (mq_msgs (cl_mq c) ! i)"
    by (simp add: mqtt_mq_get_def mqtt_mq_length_def)
  obtain w1 now where t: "sys_time env w = (w1, now)" by (cases "sys_time env w")
  have "handle_ack env w c ct pid =
      Some (w1, update_response_time (now - q_time_sent (mq_msgs (cl_mq c) ! i)) ?c, MQTT_OK)"
    using assms get t by (simp add: handle_ack_def release_msg_def)
  then show ?thesis by (simp add: update_response_time_def msg_at_update)
qed

lemma handle_ack_unknown:
  "mqtt_mq_find (cl_mq c) ct pid = None \<Longrightarrow>
     handle_ack env w c ct pid = Some (w, c\<lparr>cl_error := MQTT_ERROR_ACK_OF_UNKNOWN\<rparr>, MQTT_ERROR_ACK_OF_UNKNOWN)"
  by (simp add: handle_ack_def release_msg_def recv_fails_def)

text \<open>A queued packet is found by its type and identifier.\<close>

lemma queued_found:
  assumes q: "queued c c' MQTT_OK b (\<lambda>q. q\<lparr>q_control_type := ct, q_packet_id := pid\<rparr>)"
  shows "mqtt_mq_find (cl_mq c') ct (Some pid) \<noteq> None"
proof -
  from q obtain r where
    "pending c' = pending c @ [(b, (r\<lparr>q_control_type := ct, q_packet_id := pid\<rparr>)\<lparr>q_start := 0\<rparr>)]"
    unfolding queued_def by auto
  then have "(b, (r\<lparr>q_control_type := ct, q_packet_id := pid\<rparr>)\<lparr>q_start := 0\<rparr>) \<in> set (pending c')" by simp
  then obtain q where "q \<in> set (mq_msgs (cl_mq c'))"
    "q\<lparr>q_start := 0\<rparr> = (r\<lparr>q_control_type := ct, q_packet_id := pid\<rparr>)\<lparr>q_start := 0\<rparr>"
    by (auto simp: pending_def mq_abs_def)
  moreover from this(2) have "q_control_type q = ct" "q_packet_id q = pid"
    by (auto dest: arg_cong [of _ _ q_control_type] arg_cong [of _ _ q_packet_id])
  ultimately show ?thesis
    unfolding mqtt_mq_find_def by (auto simp: find_msg_None msg_matches_def)
qed

text \<open>
  Exactly once: after a QoS 2 PUBLISH has been accepted, a second one with the same identifier changes nothing,
  in particular it does not reach the application again.
\<close>

lemma qos2_once:
  assumes inv: "client_inv c" and locked: "cl_mutex c"
    and first: "handle_publish w c p = Some (w1, c1, MQTT_OK)"
    and qos: "qos_level p = 2" "qos_level p' = 2" and pid: "pub_packet_id p = Some pid" "pub_packet_id p' = Some pid"
  shows "handle_publish w1 c1 p' = Some (w1, c1, MQTT_OK)"
proof -
  have "mqtt_mq_find (cl_mq c1) MQTT_CONTROL_PUBREC (Some pid) \<noteq> None"
  proof (cases "mqtt_mq_find (cl_mq c) MQTT_CONTROL_PUBREC (Some pid)")
    case (Some i)
    with first qos pid show ?thesis by (auto simp: handle_publish_def)
  next
    case None
    from pubxxx_ok [OF inv locked, of MQTT_CONTROL_PUBREC pid] obtain c2 e where
      p: "mqtt_pubrec c pid = Some (c2, e)"
      "queued c c2 e (enc_pubxxx MQTT_CONTROL_PUBREC pid) (\<lambda>q. q\<lparr>q_control_type := MQTT_CONTROL_PUBREC, q_packet_id := pid\<rparr>)"
      by (auto simp: mqtt_pubrec_def)
    with first qos pid None have "e = MQTT_OK" "c1 = publish_response_callback c2 p"
      by (auto simp: handle_publish_def stage_reply_def recv_fails_def split: if_splits)
    with queued_found p(2) show ?thesis by (simp add: publish_response_callback_def)
  qed
  with qos pid show ?thesis by (auto simp: handle_publish_def)
qed

text \<open>
  The reply to a QoS 1 PUBLISH is a PUBACK with its identifier, to a new QoS 2 PUBLISH a PUBREC; the application
  sees the topic and the payload as they lie in the receive buffer.
\<close>

lemma publish_reply:
  assumes inv: "client_inv c" and locked: "cl_mutex c" and pid: "pub_packet_id p = Some pid"
    and qos: "qos_level p = 1 \<and> ct = MQTT_CONTROL_PUBACK \<or>
      qos_level p = 2 \<and> ct = MQTT_CONTROL_PUBREC \<and> mqtt_mq_find (cl_mq c) MQTT_CONTROL_PUBREC (Some pid) = None"
  shows "\<exists>c' e. handle_publish w c p = Some (w, c', e) \<and>
    (if e = MQTT_OK then
       (\<exists>q. pending c' = pending c @ [(enc_pubxxx ct pid, q)] \<and> q_control_type q = ct \<and> q_packet_id q = pid) \<and>
       cl_published c' = cl_published c @ [\<lparr>call_publish = p,
         call_topic = read_bytes (cl_recv_mem c) (topic_name p) (unat (topic_name_size p)),
         call_message = read_bytes (cl_recv_mem c) (application_message p) (application_message_size p)\<rparr>]
     else cl_error c' = e \<and> pending c' = pending c \<and> cl_published c' = cl_published c)"
proof -
  have ct: "ct \<in> {MQTT_CONTROL_PUBACK, MQTT_CONTROL_PUBREC, MQTT_CONTROL_PUBREL, MQTT_CONTROL_PUBCOMP}"
    using qos by auto
  from pubxxx_ok [OF inv locked ct, of pid] obtain c1 e where
    p: "mqtt_pubxxx ct c pid = Some (c1, e)" "queue_frame c c1"
      "queued c c1 e (enc_pubxxx ct pid) (\<lambda>q. q\<lparr>q_control_type := ct, q_packet_id := pid\<rparr>)" by blast
  have run: "handle_publish w c p = stage_reply w (mqtt_pubxxx ct c pid) (\<lambda>c. publish_response_callback c p)"
    using qos pid by (auto simp: handle_publish_def mqtt_puback_def mqtt_pubrec_def)
  note f = queue_frameD [OF p(2)]
  show ?thesis
  proof (cases "e = MQTT_OK")
    case True
    with p(3) obtain r where
      "pending c1 = pending c @ [(enc_pubxxx ct pid, (r\<lparr>q_control_type := ct, q_packet_id := pid\<rparr>)\<lparr>q_start := 0\<rparr>)]"
      by (auto simp: queued_def)
    with True p(1) f show ?thesis unfolding run
      by (auto simp: stage_reply_def publish_response_callback_def pending_def)
  next
    case False
    with p f show ?thesis unfolding run
      by (simp add: stage_reply_def recv_fails_def queued_def)
  qed
qed

text \<open>
  Where exactly-once delivery fails: a PUBREC that is already complete, left in the queue until the next clean,
  still matches. A new QoS 2 PUBLISH for which the broker uses the identifier again is dropped: no reply, no call.
\<close>

lemma reused_id_dropped:
  assumes "i < n_msgs c" "q_control_type (mq_msgs (cl_mq c) ! i) = MQTT_CONTROL_PUBREC"
    and "q_packet_id (mq_msgs (cl_mq c) ! i) = pid" "q_state (mq_msgs (cl_mq c) ! i) = MQTT_QUEUED_COMPLETE"
    and "qos_level p = 2" "pub_packet_id p = Some pid"
  shows "handle_publish w c p = Some (w, c, MQTT_OK)"
proof -
  have "mqtt_mq_find (cl_mq c) MQTT_CONTROL_PUBREC (Some pid) \<noteq> None"
    using assms(1-3) nth_mem [OF assms(1)]
    unfolding mqtt_mq_find_def by (auto simp: find_msg_None msg_matches_def)
  with assms(5,6) show ?thesis by (auto simp: handle_publish_def)
qed

subsection \<open>\<open>mqtt_sync\<close>\<close>

text \<open>
  One round without callbacks, of a client that is not in error and has nothing half-sent: it returns, keeps the
  invariant and frees the mutex. Receiving writes nothing; if it fails, that is the end of the round, else what follows
  on the stream are whole packets of the queue that receiving left behind, and the beginning of at most one more.
\<close>

lemma mqtt_sync_ok:
  assumes env: "env_ok wire env" and del: "delivers avail env" and inv: "client_inv c" and free: "\<not> cl_mutex c"
    and cb: "\<not> cl_inspector_callback c" "cl_error c = MQTT_OK" and off: "cl_send_offset c = 0"
    and broker: "broker_ok env w (c\<lparr>cl_mutex := True\<rparr>) r" and fuel: "avail w + cl_recv_curr c < fuel"
  shows "\<exists>w1 c1 e1 w' c' e. mqtt_recv env fuel r w c = Some (w1, c1, Some e1) \<and> wire w1 = wire w \<and>
    mqtt_sync env cb fuel r w c = Some (w', c', Some e) \<and> client_inv c' \<and> \<not> cl_mutex c' \<and>
    (e \<noteq> MQTT_OK \<longrightarrow> cl_error c' = e) \<and>
    (if e1 = MQTT_OK then mqtt_send env w1 c1 = Some (w', c', e) \<and> packets_written wire w1 w' c1 (cl_send_offset c')
     else w' = w1 \<and> c' = c1 \<and> e = e1)"
proof -
  have same: "c\<lparr>cl_mutex := True\<rparr>\<lparr>cl_mutex := False\<rparr> = c" using free by simp
  have rec: "sync_recover cb c = Some (c, Inr False)"
    using free cb(2) same by (simp add: sync_recover_def mutex_lock_def mutex_unlock_def Let_def)
  have insp: "sync_inspect cb c = Some (c, MQTT_OK)" using cb(1) by (simp add: sync_inspect_def)
  from mqtt_recv_ok [OF env del inv free broker fuel] obtain w1 c1 e1 where
    r: "mqtt_recv env fuel r w c = Some (w1, c1, Some e1)" "client_inv c1" "\<not> cl_mutex c1" "wire w1 = wire w"
      "cl_send_offset c1 = cl_send_offset c" "e1 \<noteq> MQTT_OK \<longrightarrow> cl_error c1 = e1" by blast
  show ?thesis
  proof (cases "e1 = MQTT_OK")
    case False
    with rec insp r have "mqtt_sync env cb fuel r w c = Some (w1, c1, Some e1)" by (simp add: mqtt_sync_def)
    then show ?thesis using r False by auto
  next
    case True
    have "offset_fits c1 0" using r(5) off by (simp add: offset_fits_def)
    from mqtt_send_ok [OF env r(2,3) this, of w1] obtain w2 c2 rv where
      s: "mqtt_send env w1 c1 = Some (w2, c2, rv)" "client_inv c2" "\<not> cl_mutex c2" "rv \<noteq> MQTT_OK \<longrightarrow> cl_error c2 = rv"
        "packets_sent wire w1 w2 c1 (cl_send_offset c2)" by blast
    with rec insp r True have y: "mqtt_sync env cb fuel r w c = Some (w2, c2, Some rv)" by (simp add: mqtt_sync_def)
    have p: "packets_written wire w1 w2 c1 (cl_send_offset c2)" using s(5) r(5) off packets_sent_idle by metis
    show ?thesis
      by (intro exI conjI) (rule r(1), rule r(4), rule y, rule s(2), rule s(3), rule s(4), use s(1) p True in simp)
  qed
qed

end
