(* ===== verification/Mqtt_Properties.thy ===== *)
theory Mqtt_Properties
  imports Mqtt_Recv
begin

text \<open>
  The properties of the MQTT client, from its codecs up to a whole round of \<open>mqtt_sync\<close>, each with a
  concrete instance. The instances run on a small client and on a loop-back world: a queue of bytes
  still to be received and the list of the bytes sent.
\<close>

unbundle bit_operations_syntax

subsection \<open>A concrete client and a concrete world\<close>

definition loop_env :: "(u8 list \<times> u8 list) env" where
  "loop_env =
     \<lparr>sys_send = (\<lambda>(i, out) bytes. ((i, out @ bytes), Ret (length bytes))),
      sys_recv = (\<lambda>(i, out) n. if i = [] then ((i, out), Errno EAGAIN) else ((drop n i, out), Ret (take n i))),
      sys_time = (\<lambda>w. (w, 0))\<rparr>"

definition loop_left :: "u8 list \<times> u8 list \<Rightarrow> nat" where
  "loop_left w = length (fst w)"

lemma loop_env_ok: "env_ok snd loop_env"
  by (auto simp: env_ok_def loop_env_def split: if_splits)

lemma loop_env_delivers: "delivers loop_left loop_env"
  by (auto simp: delivers_def clock_ok_def loop_env_def loop_left_def)

definition blank_msg :: mqtt_queued_message where
  "blank_msg = \<lparr>q_start = 0, q_size = 0, q_state = MQTT_QUEUED_UNSENT, q_time_sent = 0,
     q_control_type = MQTT_CONTROL_CONNECT, q_packet_id = 0\<rparr>"

definition blank_queue :: mqtt_message_queue where
  "blank_queue = \<lparr>mq_mem = [], mq_curr = 0, mq_curr_sz = 0, mq_msgs = [], mq_junk = (\<lambda>k. blank_msg)\<rparr>"

text \<open>A client with an empty queue of \<open>n\<close> bytes and 16 bytes to receive into.\<close>

definition idle_client :: "nat \<Rightarrow> bool \<Rightarrow> MQTTErrors \<Rightarrow> mqtt_client" where
  "idle_client n locked e =
     \<lparr>cl_socketfd = 3, cl_pid_lfsr = 0, cl_keep_alive = 400, cl_number_of_keep_alives = 0, cl_send_offset = 0,
      cl_time_of_last_send = 0, cl_error = e, cl_response_timeout = 30, cl_number_of_timeouts = 0,
      cl_typical_response_time = Unmeasured, cl_published = [], cl_inspector_callback = False,
      cl_reconnect_callback = False, cl_recv_mem = replicate 16 0, cl_recv_curr = 0, cl_recv_curr_sz = 16,
      cl_mutex = locked, cl_mq = mqtt_mq_init blank_queue (Some (replicate n 0))\<rparr>"

lemma idle_client_inv [simp]: "client_inv (idle_client n b e)"
  by (simp add: client_inv_def idle_client_def mq_init_inv)

lemma idle_client_simps [simp]:
  "cl_mutex (idle_client n b e) = b" "cl_error (idle_client n b e) = e" "cl_send_offset (idle_client n b e) = 0"
  "cl_recv_curr (idle_client n b e) = 0" "cl_recv_curr_sz (idle_client n b e) = 16"
  "cl_recv_mem (idle_client n b e) = replicate 16 0" "length (mq_mem (cl_mq (idle_client n b e))) = n"
  "mq_msgs (cl_mq (idle_client n b e)) = []" "\<not> cl_inspector_callback (idle_client n b e)"
  "idle_client n b e\<lparr>cl_mutex := b'\<rparr> = idle_client n b' e"
  by (simp_all add: idle_client_def mqtt_mq_init_def)

lemma idle_pending [simp]: "pending (idle_client n b e) = []"
  by (simp add: pending_def mq_abs_def)

definition ping_header :: mqtt_fixed_header where
  "ping_header = \<lparr>control_type = MQTT_CONTROL_PINGREQ, control_flags = 0, remaining_length = 0\<rparr>"

subsection \<open>Codecs\<close>

text \<open>
  C16: the fixed header survives a round trip. What \<open>mqtt_pack_fixed_header\<close> writes,
  \<open>mqtt_unpack_fixed_header\<close> reads back as the same header and the same number of bytes, for every legal
  header and every place in a buffer that has room for the packet.
\<close>

theorem fixed_header_roundtrip:
  assumes "p + bufsz \<le> length m" "mqtt_fixed_header_rule_violation fh = None"
    and "control_flags fh AND 0x0F = control_flags fh" "unat (remaining_length fh) < 2 ^ 28"
    and "length (enc_fixed_header fh) + unat (remaining_length fh) \<le> bufsz"
  shows "\<exists>m' k. mqtt_pack_fixed_header m (Some p) bufsz fh = Some (m', Cnt k) \<and>
    mqtt_unpack_fixed_header fh0 m' (Some p) bufsz = Some (fh, Cnt k) \<and> 2 \<le> k \<and> k \<le> 5"
proof -
  have "at_mem (patch m p (enc_fixed_header fh)) p (enc_fixed_header fh)"
    using assms by (intro at_mem_patch) simp
  from unpack_fixed_header_enc [OF this assms(2-5)] length_enc_fixed_header [OF assms(4)]
  show ?thesis
    using pack_fixed_header_eq [OF assms(1,2,4)] assms(5)
    by (simp add: enc_fixed_header_def Suc_le_eq)
qed

theorem fixed_header_roundtrip_witness:
  "\<exists>m' k. mqtt_pack_fixed_header (replicate 4 0) (Some 1) 3 ping_header = Some (m', Cnt k) \<and>
    mqtt_unpack_fixed_header ping_header m' (Some 1) 3 = Some (ping_header, Cnt k) \<and> 2 \<le> k \<and> k \<le> 5"
  by (rule fixed_header_roundtrip)
    (simp_all add: ping_header_def mqtt_fixed_header_rule_violation_def mask_required_flags_def
      required_flags_def control_type_is_valid_def enc_fixed_header_def enc_length.simps)

text \<open>
  C6: a PUBLISH on the wire. From the bytes \<open>mqtt_pack_publish_request\<close> writes, for a topic below 65536 bytes, a QoS
  other than 3 and a remaining length that can be encoded, the receiver's \<open>mqtt_unpack_response\<close> recovers the topic, the
  payload, the quality of service, the retain flag and, for QoS 1 and 2, the packet identifier, and consumes the packet
  to its last byte. The exception is a packet whose remaining length is below 4, as that of a QoS 0 PUBLISH with a topic
  of one character and an empty payload: it is legal, is packed, and is always rejected as malformed.
\<close>

theorem publish_roundtrip:
  assumes "p + bufsz \<le> length m" "length topic < 65536" "publish_qos flags \<noteq> 3"
    and "length (publish_body flags topic pid msg) < 2 ^ 28" "length (enc_publish flags topic pid msg) \<le> bufsz"
  shows "\<exists>m' n. mqtt_pack_publish_request m (Some p) bufsz (Some topic) pid msg (length msg) flags = Some (m', Cnt n) \<and>
    (if 2 + length topic + (if publish_qos flags > 0 then 2 else 0) + length msg < 4
     then \<exists>r'. mqtt_unpack_response r m' (Some p) bufsz = Some (r', Err MQTT_ERROR_MALFORMED_RESPONSE)
     else \<exists>fh q. mqtt_unpack_response r m' (Some p) bufsz = Some (\<lparr>fixed_header = fh, decoded = Publish q\<rparr>, Cnt n) \<and>
       qos_level q = publish_qos flags \<and> retain_flag q = flags AND 1 \<and>
       pub_packet_id q = (if publish_qos flags > 0 then Some pid else None) \<and>
       read_bytes m' (topic_name q) (unat (topic_name_size q)) = Some topic \<and>
       read_bytes m' (application_message q) (application_message_size q) = Some msg)"
proof -
  let ?m = "patch m p (enc_publish flags topic pid msg)" and ?len = "length (publish_body flags topic pid msg)"
  have fit: "p + length (enc_publish flags topic pid msg) \<le> length m" using assms(1,5) by simp
  have at: "at_mem ?m p (enc_publish flags topic pid msg)" by (rule at_mem_patch [OF fit])
  have len: "?len = 2 + length topic + (if publish_qos flags > 0 then 2 else 0) + length msg"
    by (simp add: length_publish_body mqtt_packed_cstrlen_def)
  have un: "if ?len < 4 then \<exists>r'. mqtt_unpack_response r ?m (Some p) bufsz = Some (r', Err MQTT_ERROR_MALFORMED_RESPONSE)
    else \<exists>fh q. mqtt_unpack_response r ?m (Some p) bufsz =
        Some (\<lparr>fixed_header = fh, decoded = Publish q\<rparr>, Cnt (length (enc_publish flags topic pid msg))) \<and>
      qos_level q = publish_qos flags \<and> retain_flag q = flags AND 1 \<and>
      pub_packet_id q = (if publish_qos flags > 0 then Some pid else None) \<and>
      read_bytes ?m (topic_name q) (unat (topic_name_size q)) = Some topic \<and>
      read_bytes ?m (application_message q) (application_message_size q) = Some msg"
  proof (cases "?len < 4")
    case True
    then show ?thesis using unpack_publish_short [OF at assms(5)] by simp
  next
    case False
    then have "4 \<le> ?len" by simp
    from unpack_publish_enc [OF at _ assms(5,2) this assms(4), of r] fit False show ?thesis by auto
  qed
  have "mqtt_pack_publish_request m (Some p) bufsz (Some topic) pid msg (length msg) flags =
      Some (?m, Cnt (length (enc_publish flags topic pid msg)))"
    using publish_packs [OF assms(1-4)] assms(5) by (simp add: packs_def)
  then show ?thesis using un unfolding len by (intro exI conjI)
qed

theorem publish_roundtrip_witness:
  "(\<exists>m' n fh q.
    mqtt_pack_publish_request (replicate 20 0) (Some 2) 16 (Some [97, 98]) 7 [1, 2, 3] (length [1, 2, 3 :: u8]) 2 = Some (m', Cnt n) \<and>
    mqtt_unpack_response \<lparr>fixed_header = ping_header, decoded = Undecoded\<rparr> m' (Some 2) 16 =
      Some (\<lparr>fixed_header = fh, decoded = Publish q\<rparr>, Cnt n) \<and>
    qos_level q = publish_qos 2 \<and> retain_flag q = 2 AND 1 \<and>
    pub_packet_id q = (if publish_qos 2 > 0 then Some 7 else None) \<and>
    read_bytes m' (topic_name q) (unat (topic_name_size q)) = Some [97, 98] \<and>
    read_bytes m' (application_message q) (application_message_size q) = Some [1, 2, 3]) \<and>
   (\<exists>m' n r'. mqtt_pack_publish_request (replicate 20 0) (Some 2) 16 (Some [97]) 7 [] (length ([] :: u8 list)) 0 = Some (m', Cnt n) \<and>
    mqtt_unpack_response \<lparr>fixed_header = ping_header, decoded = Undecoded\<rparr> m' (Some 2) 16 = Some (r', Err MQTT_ERROR_MALFORMED_RESPONSE))"
proof -
  note eval = publish_qos_def MQTT_PUBLISH_QOS_MASK_def length_publish_body mqtt_packed_cstrlen_def
    enc_publish_def enc_fixed_header_def enc_length.simps
  show ?thesis
    using publish_roundtrip [of 2 16 "replicate 20 0" "[97, 98]" 2 7 "[1, 2, 3]" "\<lparr>fixed_header = ping_header, decoded = Undecoded\<rparr>"]
      publish_roundtrip [of 2 16 "replicate 20 0" "[97]" 0 7 "[]" "\<lparr>fixed_header = ping_header, decoded = Undecoded\<rparr>"]
    by (simp add: eval)
qed

text \<open>
  Acknowledgements survive the wire: from what \<open>mqtt_pack_pubxxx_request\<close> writes, the receiver decodes a
  packet of the same kind with the same identifier.
\<close>

theorem pubxxx_roundtrip:
  assumes "p + bufsz \<le> length m" "length (enc_pubxxx ct pid) \<le> bufsz"
    and ct: "(ct, d) \<in> {(MQTT_CONTROL_PUBACK, Puback pid), (MQTT_CONTROL_PUBREC, Pubrec pid),
      (MQTT_CONTROL_PUBREL, Pubrel pid), (MQTT_CONTROL_PUBCOMP, Pubcomp pid)}"
  shows "\<exists>m' n fh. mqtt_pack_pubxxx_request m (Some p) bufsz ct pid = Some (m', Cnt n) \<and>
    mqtt_unpack_response r m' (Some p) bufsz = Some (\<lparr>fixed_header = fh, decoded = d\<rparr>, Cnt n) \<and>
    control_type fh = ct"
proof -
  have "at_mem (patch m p (enc_pubxxx ct pid)) p (enc_pubxxx ct pid)"
    using assms(1,2) by (intro at_mem_patch) simp
  from unpack_pubxxx_enc [OF this assms(2) ct, of r]
  show ?thesis
    using pubxxx_packs [OF assms(1), of ct pid] ct assms(2) by (auto simp: packs_def)
qed

theorem pubxxx_roundtrip_witness:
  "\<exists>m' n fh. mqtt_pack_pubxxx_request (replicate 9 0) (Some 3) 5 MQTT_CONTROL_PUBREL 513 = Some (m', Cnt n) \<and>
    mqtt_unpack_response \<lparr>fixed_header = ping_header, decoded = Undecoded\<rparr> m' (Some 3) 5 =
      Some (\<lparr>fixed_header = fh, decoded = Pubrel 513\<rparr>, Cnt n) \<and> control_type fh = MQTT_CONTROL_PUBREL"
  by (rule pubxxx_roundtrip) (simp_all add: enc_pubxxx_def enc_fixed_header_def enc_length.simps)

text \<open>
  \<open>mqtt_pack_connection_request\<close> writes the CONNECT packet of MQTT 3.1.1 for its arguments (protocol
  name and level, the flags that tell which optional fields follow, the keep-alive time, and those fields), or
  reports that the room is too small; it never writes outside the room.
\<close>

theorem connect_encoded:
  assumes "p + bufsz \<le> length m"
    and "connect_flags_and_length (case client_id of None \<Rightarrow> [] | Some c \<Rightarrow> c) w user_name password flags
           = Inr (flags', len)"
    and "fits client_id" "fits (will_topic w)" "fits (will_message w)" "fits user_name" "fits password"
    and "\<forall>msg. will_message w = Some msg \<longrightarrow> will_message_size w = length msg"
  shows "packs (mqtt_pack_connection_request m (Some p) bufsz client_id w user_name password flags keep_alive)
      m p bufsz (enc_connect (case client_id of None \<Rightarrow> [] | Some c \<Rightarrow> c) w user_name password flags' keep_alive) \<and>
    (flags' AND MQTT_CONNECT_WILL_FLAG \<noteq> 0 \<longleftrightarrow> will_topic w \<noteq> None) \<and>
    (flags' AND MQTT_CONNECT_USER_NAME \<noteq> 0 \<longleftrightarrow> user_name \<noteq> None) \<and>
    (flags' AND MQTT_CONNECT_PASSWORD \<noteq> 0 \<longleftrightarrow> password \<noteq> None)"
  by (intro conjI connect_packs [OF assms] connect_flags_bits [OF assms(2)])

theorem connect_encoded_witness:
  "packs (mqtt_pack_connection_request (replicate 40 0) (Some 0) 40 (Some [99])
       \<lparr>will_topic = None, will_message = None, will_message_size = 0\<rparr> (Some [117]) None 2 400)
     (replicate 40 0) 0 40
     (enc_connect (case Some [99] of None \<Rightarrow> [] | Some c \<Rightarrow> c)
       \<lparr>will_topic = None, will_message = None, will_message_size = 0\<rparr> (Some [117]) None 130 400)"
  by (rule conjunct1, rule connect_encoded [where len = 16])
    (simp_all add: connect_flags_and_length_def fits_def mqtt_packed_cstrlen_def MQTT_CONNECT_RESERVED_def
      MQTT_CONNECT_CLEAN_SESSION_def MQTT_CONNECT_WILL_FLAG_def MQTT_CONNECT_WILL_RETAIN_def
      MQTT_CONNECT_USER_NAME_def MQTT_CONNECT_PASSWORD_def Let_def)

text \<open>
  A SUBSCRIBE with fewer than eight topics is written in full or reported not to fit; one with eight or
  more is refused, although the documented limit (\<open>MQTT_SUBSCRIBE_REQUEST_MAX_NUM_TOPICS\<close>) is eight.
\<close>

theorem subscribe_encoded:
  assumes "p + bufsz \<le> length m" "\<forall>(topic, _) \<in> set subs. length topic < 65536"
  shows "if length subs < MQTT_SUBSCRIBE_REQUEST_MAX_NUM_TOPICS
    then packs (mqtt_pack_subscribe_request m (Some p) bufsz pid subs) m p bufsz (enc_subscribe (ucast pid) subs)
    else mqtt_pack_subscribe_request m (Some p) bufsz pid subs = Some (m, Err MQTT_ERROR_SUBSCRIBE_TOO_MANY_TOPICS)"
  using subscribe_packs [OF assms(1) _ assms(2)] subscribe_too_many [of subs m "Some p" bufsz pid]
  by (auto simp: MQTT_SUBSCRIBE_REQUEST_MAX_NUM_TOPICS_def)

theorem subscribe_encoded_witness:
  "mqtt_pack_subscribe_request (replicate 80 0) (Some 0) 80 5 (replicate 8 ([97], 1)) =
     Some (replicate 80 0, Err MQTT_ERROR_SUBSCRIBE_TOO_MANY_TOPICS)"
  using subscribe_encoded [of 0 80 "replicate 80 0" "replicate 8 ([97], 1)" 5]
  by (simp add: MQTT_SUBSCRIBE_REQUEST_MAX_NUM_TOPICS_def)

text \<open>
  C40: provided that a PUBLISH among the received bytes keeps its topic inside the packet, \<open>mqtt_unpack_response\<close> reads
  nothing outside the received bytes, and a packet it reports as complete ends inside them. Without the proviso it may
  report, and \<open>__mqtt_recv\<close> use, bytes that were never received: that is C19.
\<close>

theorem response_inside_received:
  assumes "start + bufsz \<le> length m"
    and "\<And>fh n tsize. mqtt_unpack_fixed_header (fixed_header r) m (Some start) bufsz = Some (fh, Cnt n) \<Longrightarrow>
      0 < n \<Longrightarrow> control_type fh = MQTT_CONTROL_PUBLISH \<Longrightarrow>
      mqtt_unpack_uint16 m (start + n) = Some tsize \<Longrightarrow> publish_fits fh tsize"
  shows "\<exists>r' rv. mqtt_unpack_response r m (Some start) bufsz = Some (r', rv) \<and> (\<forall>k. rv = Cnt k \<longrightarrow> k \<le> bufsz)"
  by (rule unpack_response_safe [OF assms])

theorem response_inside_received_witness:
  "\<exists>r' rv. mqtt_unpack_response \<lparr>fixed_header = ping_header, decoded = Undecoded\<rparr> [0x30, 5, 0, 1, 97, 104, 105]
       (Some 0) 7 = Some (r', rv) \<and> (\<forall>k. rv = Cnt k \<longrightarrow> k \<le> 7)"
  by (rule response_inside_received)
    (auto simp: mqtt_unpack_fixed_header_def load_def control_of_def control_types_def drop_bit_eq_div
      unpack_length_loop.simps mqtt_fixed_header_rule_violation_def required_flags_def mask_required_flags_def
      control_type_is_valid_def ping_header_def Let_def mqtt_unpack_uint16_def of_be16_def publish_fits_def
      publish_qos_def MQTT_PUBLISH_QOS_MASK_def split: if_splits)

text \<open>
  C17: A response that was unpacked is well typed: its header keeps the rules of its control type, the member of the union
  that was assigned is the one that type selects, which is the one \<open>__mqtt_recv\<close> goes on to read, and its fields are in
  their ranges. A PUBLISH has an identifier exactly if its QoS is not 0; the forbidden QoS 3 passes.
\<close>

theorem response_well_typed:
  assumes "mqtt_unpack_response r m buf bufsz = Some (r', Cnt n)" "0 < n"
  shows "mqtt_fixed_header_rule_violation (fixed_header r') = None \<and> decoded_typed (fixed_header r') (decoded r')"
proof -
  obtain fh rv where h: "mqtt_unpack_fixed_header (fixed_header r) m buf bufsz = Some (fh, rv)"
    using assms(1) by (cases "mqtt_unpack_fixed_header (fixed_header r) m buf bufsz") (auto simp: mqtt_unpack_response_def)
  then obtain k where k: "rv = Cnt k" "0 < k"
    using assms by (cases rv) (auto simp: mqtt_unpack_response_def Let_def split: if_splits)
  obtain start res where b: "unpack_body fh m (start + k) = Some res"
    and res: "Some (r', Cnt n) = (case res of Inl e \<Rightarrow> Some (r\<lparr>fixed_header := fh\<rparr>, Err e)
      | Inr (j, d) \<Rightarrow> Some (r\<lparr>fixed_header := fh, decoded := d\<rparr>, Cnt (k + j)))"
    using assms(1) h k by (auto simp: mqtt_unpack_response_def Let_def bind_eq_Some_conv)
  obtain j d where d: "res = Inr (j, d)" "r' = r\<lparr>fixed_header := fh, decoded := d\<rparr>"
    using res by (cases res) auto
  then show ?thesis using unpack_fixed_header_ok [of "fixed_header r" m buf bufsz fh k] h k b unpack_body_typed by simp
qed

theorem response_well_typed_witness:
  "mqtt_unpack_response \<lparr>fixed_header = ping_header, decoded = Undecoded\<rparr> [0x36, 6, 0, 1, 97, 0, 9, 104] (Some 0) 8 =
      Some (\<lparr>fixed_header = \<lparr>control_type = MQTT_CONTROL_PUBLISH, control_flags = 6, remaining_length = 6\<rparr>,
        decoded = Publish \<lparr>dup_flag = 0, qos_level = 3, retain_flag = 0, topic_name_size = 1, topic_name = 4,
          pub_packet_id = Some 9, application_message = 7, application_message_size = 1\<rparr>\<rparr>, Cnt 8) \<and>
    decoded_typed \<lparr>control_type = MQTT_CONTROL_PUBLISH, control_flags = 6, remaining_length = 6\<rparr>
      (Publish \<lparr>dup_flag = 0, qos_level = 3, retain_flag = 0, topic_name_size = 1, topic_name = 4,
        pub_packet_id = Some 9, application_message = 7, application_message_size = 1\<rparr>)"
  (is "?run = Some (?r, _) \<and> _")
proof -
  have "?run = Some (?r, Cnt 8)"
    by (simp add: mqtt_unpack_response_def mqtt_unpack_fixed_header_def load_def control_of_def control_types_def drop_bit_eq_div
      unpack_length_loop.simps mqtt_fixed_header_rule_violation_def required_flags_def mask_required_flags_def
      control_type_is_valid_def ping_header_def Let_def mqtt_unpack_uint16_def of_be16_def unpack_body_def
      mqtt_unpack_publish_response_def publish_qos_def MQTT_PUBLISH_QOS_MASK_def MQTT_PUBLISH_DUP_def MQTT_PUBLISH_RETAIN_def)
  moreover from response_well_typed [OF this] have "decoded_typed (fixed_header ?r) (decoded ?r)" by simp
  ultimately show ?thesis by simp
qed

subsection \<open>The message queue and the identifiers\<close>

text \<open>
  C25: \<open>mqtt_mq_clean\<close> implements its contract. From a well-formed queue it returns, keeps the queue well
  formed, and the messages that remain, bytes and descriptors, are the old ones without the completed ones at the
  front: moving the bytes down in the same buffer damages none of them.
\<close>

theorem clean_drops_completed_head:
  assumes "mq_inv mq"
  shows "\<exists>mq'. mqtt_mq_clean mq = Some mq' \<and> mq_inv mq' \<and> mq_abs mq' = dropWhile msg_done (mq_abs mq)"
  using mq_clean_refines [OF assms] by blast

definition two_messages :: mqtt_message_queue where
  "two_messages = mq_update 0 (\<lambda>q. q\<lparr>q_state := MQTT_QUEUED_COMPLETE\<rparr>)
     (mqtt_mq_register (mqtt_mq_register (mqtt_mq_init blank_queue (Some ([1, 2, 3, 4, 5] @ replicate 195 0))) 2) 3)"

lemma two_messages_inv: "mq_inv two_messages"
  unfolding two_messages_def
  by (subst mq_update_inv, simp, rule mq_register_inv, rule mq_register_inv, rule mq_init_inv)
    (simp_all add: mqtt_mq_register_def mqtt_mq_init_def set_curr_sz_def mqtt_mq_currsz_def queue_tail_def
      mem_end_def sizeof_queued_message_def Let_def)

theorem clean_drops_completed_head_witness:
  "\<exists>mq'. mqtt_mq_clean two_messages = Some mq' \<and> mq_inv mq' \<and> map fst (mq_abs mq') = [[3, 4, 5]]"
proof -
  have "mq_abs two_messages =
      [([1, 2], blank_msg\<lparr>q_size := 2, q_state := MQTT_QUEUED_COMPLETE\<rparr>), ([3, 4, 5], blank_msg\<lparr>q_size := 3\<rparr>)]"
    by (simp add: two_messages_def mq_update_def mqtt_mq_register_def mqtt_mq_init_def set_curr_sz_def mq_abs_def
        msg_bytes_def blank_queue_def blank_msg_def Let_def)
  with clean_drops_completed_head [OF two_messages_inv] show ?thesis
    by (auto simp: msg_done_def blank_msg_def)
qed

text \<open>
  Packing with a retry (the macro \<open>MQTT_CLIENT_TRY_PACK\<close>) loses no message that is not completed and keeps
  their order, whether or not the packet finds room; a reported size can be registered as a message that holds
  exactly the packet, behind all others.
\<close>

theorem retry_keeps_queue:
  assumes "mq_inv mq" "writes_packet pack b"
  shows "\<exists>mq' n. pack_with_retry pack_at mqtt_mq_clean mq pack = Some (mq', Cnt n) \<and> mq_inv mq' \<and>
    filter (\<lambda>x. \<not> msg_done x) (mq_abs mq') = filter (\<lambda>x. \<not> msg_done x) (mq_abs mq) \<and>
    (0 < n \<longrightarrow> mq_inv (mqtt_mq_register mq' n) \<and> mq_abs (mqtt_mq_register mq' n) = mq_abs mq' @ [mq_entry mq b])"
proof -
  obtain mq' n where r: "pack_with_retry pack_at mqtt_mq_clean mq pack = Some (mq', Cnt n)" "mq_inv mq'"
      "0 < n \<longrightarrow> mq_inv (mqtt_mq_register mq' n) \<and> mq_abs (mqtt_mq_register mq' n) = mq_abs mq' @ [mq_entry mq b]"
    using mqueue.retry_ok [OF assms] by blast
  from mqueue.retry_keeps_unfinished [OF assms r(1)] r show ?thesis by blast
qed

theorem retry_keeps_queue_witness:
  "\<exists>mq' n. pack_with_retry pack_at mqtt_mq_clean two_messages mqtt_pack_ping_request = Some (mq', Cnt n) \<and> mq_inv mq' \<and>
    filter (\<lambda>x. \<not> msg_done x) (mq_abs mq') = filter (\<lambda>x. \<not> msg_done x) (mq_abs two_messages) \<and>
    (0 < n \<longrightarrow> mq_inv (mqtt_mq_register mq' n) \<and>
      mq_abs (mqtt_mq_register mq' n) = mq_abs mq' @ [mq_entry two_messages (enc_empty MQTT_CONTROL_PINGREQ)])"
  by (rule retry_keeps_queue [OF two_messages_inv ping_writes])

text \<open>
  C38: \<open>__mqtt_next_pid\<close> ends and returns a non-zero identifier that no queued message carries, as long as the
  queue holds fewer messages than there are identifiers.
\<close>

theorem next_pid_unused:
  assumes "length (mq_msgs mq) < 65535"
  shows "\<exists>pid. mqtt_next_pid mq l = Some pid \<and> pid \<noteq> 0 \<and> (\<forall>q \<in> set (mq_msgs mq). q_packet_id q \<noteq> pid)"
  by (rule next_pid_fresh [OF assms])

theorem next_pid_unused_witness:
  "\<exists>pid. mqtt_next_pid two_messages 0 = Some pid \<and> pid \<noteq> 0 \<and> (\<forall>q \<in> set (mq_msgs two_messages). q_packet_id q \<noteq> pid)"
  by (rule next_pid_unused)
    (simp add: two_messages_def mq_update_def mqtt_mq_register_def mqtt_mq_init_def set_curr_sz_def Let_def)

text \<open>
  When every non-zero identifier is carried by a queued message, the search of \<open>__mqtt_next_pid\<close> does not
  end.
\<close>

theorem next_pid_exhausted:
  assumes "\<And>pid. pid \<noteq> 0 \<Longrightarrow> \<exists>q \<in> set (mq_msgs mq). q_packet_id q = pid"
  shows "mqtt_next_pid mq l = None"
proof -
  have "UNIV - {0} \<subseteq> set (map q_packet_id (mq_msgs mq))" using assms by force
  then show ?thesis unfolding mqtt_next_pid_def by (intro next_pid_loop_full) simp_all
qed

definition exhausted_queue :: mqtt_message_queue where
  "exhausted_queue = blank_queue\<lparr>mq_msgs := map (\<lambda>k. blank_msg\<lparr>q_packet_id := of_nat k\<rparr>) [0..<65536]\<rparr>"

theorem next_pid_exhausted_witness: "mqtt_next_pid exhausted_queue 5 = None"
proof (rule next_pid_exhausted)
  fix pid :: u16
  have "unat pid \<in> {0..<65536}" "word_of_nat (unat pid) = pid" by simp_all
  then have "\<exists>k \<in> {0..<65536}. word_of_nat k = pid" by blast
  then show "\<exists>q \<in> set (mq_msgs exhausted_queue). q_packet_id q = pid"
    by (simp add: exhausted_queue_def del: upt_rec_numeral)
qed

text \<open>
  C39: the register behind the packet identifiers has full period: from any non-zero state its next 65535 states
  are all the non-zero 16-bit words, each once.
\<close>

theorem pid_full_period:
  assumes "w \<noteq> 0"
  shows "(\<lambda>i. (lfsr_step ^^ Suc i) w) ` {..<65535} = UNIV - {0} \<and>
    inj_on (\<lambda>i. (lfsr_step ^^ Suc i) w) {..<65535}"
  by (intro conjI lfsr_full_period [OF assms] lfsr_distinct [OF assms])

theorem pid_full_period_witness: "(\<lambda>i. (lfsr_step ^^ Suc i) 163) ` {..<65535} = UNIV - {0}"
  by (rule conjunct1, rule pid_full_period) simp

subsection \<open>Queuing requests\<close>

text \<open>
  \<open>mqtt_publish\<close> returns with the mutex released and the invariant kept. On \<open>MQTT_OK\<close> the pending
  messages are the old ones and behind them the encoded PUBLISH with an identifier no queued message carried; on any
  other result nothing pending has changed and the result is the client's error.
\<close>

theorem publish_queues_packet:
  assumes "client_inv c" "\<not> cl_mutex c" "length (mq_mem (cl_mq c)) < 2621400"
    and "length topic < 65536" "publish_qos flags \<noteq> 3" "length topic + length msg + 4 < 2 ^ 28"
  shows "\<exists>c' e pid. mqtt_publish c (Some topic) msg (length msg) flags = Some (c', e) \<and>
    client_inv c' \<and> \<not> cl_mutex c' \<and> pid \<noteq> 0 \<and> (\<forall>q \<in> set (mq_msgs (cl_mq c)). q_packet_id q \<noteq> pid) \<and>
    (if e = MQTT_OK
     then \<exists>q. pending c' = pending c @ [(enc_publish flags topic pid msg, q)] \<and> q_packet_id q = pid \<and>
       q_control_type q = MQTT_CONTROL_PUBLISH \<and> q_state q = MQTT_QUEUED_UNSENT
     else cl_error c' = e \<and> pending c' = pending c)"
proof -
  have "length (publish_body flags topic pid msg) < 2 ^ 28" for pid
    using assms(6) by (simp add: length_publish_body mqtt_packed_cstrlen_def)
  from publish_ok [OF assms(1-5) this] obtain c' e pid where
    r: "mqtt_publish c (Some topic) msg (length msg) flags = Some (c', e)" "client_inv c'" "\<not> cl_mutex c'"
      "pid \<noteq> 0" "\<forall>q \<in> set (mq_msgs (cl_mq c)). q_packet_id q \<noteq> pid"
    and q: "queued c c' e (enc_publish flags topic pid msg)
      (\<lambda>q. q\<lparr>q_control_type := MQTT_CONTROL_PUBLISH, q_packet_id := pid\<rparr>)"
    by blast
  from q have "if e = MQTT_OK
     then \<exists>q. pending c' = pending c @ [(enc_publish flags topic pid msg, q)] \<and> q_packet_id q = pid \<and>
       q_control_type q = MQTT_CONTROL_PUBLISH \<and> q_state q = MQTT_QUEUED_UNSENT
     else cl_error c' = e \<and> pending c' = pending c"
    unfolding queued_def by (auto split: if_splits)
  with r show ?thesis by blast
qed

theorem publish_queues_packet_witness:
  "\<exists>c' e pid. mqtt_publish (idle_client 200 False MQTT_OK) (Some [97]) [1, 2] (length [1, 2 :: u8]) 2 = Some (c', e) \<and>
    client_inv c' \<and> \<not> cl_mutex c' \<and> pid \<noteq> 0 \<and>
    (\<forall>q \<in> set (mq_msgs (cl_mq (idle_client 200 False MQTT_OK))). q_packet_id q \<noteq> pid) \<and>
    (if e = MQTT_OK
     then \<exists>q. pending c' = pending (idle_client 200 False MQTT_OK) @ [(enc_publish 2 [97] pid [1, 2], q)] \<and> q_packet_id q = pid \<and>
       q_control_type q = MQTT_CONTROL_PUBLISH \<and> q_state q = MQTT_QUEUED_UNSENT
     else cl_error c' = e \<and> pending c' = pending (idle_client 200 False MQTT_OK))"
  by (rule publish_queues_packet) (simp_all add: publish_qos_def MQTT_PUBLISH_QOS_MASK_def)

text \<open>
  \<open>mqtt_subscribe\<close> and \<open>mqtt_unsubscribe\<close> return with the mutex released and the invariant kept, and queue
  their packet, with an unused identifier, behind what is pending, or report why not and queue nothing.
\<close>

theorem subscribe_queues_packet:
  assumes "client_inv c" "\<not> cl_mutex c" "length (mq_mem (cl_mq c)) < 2621400" "length topic < 65536"
  shows "(\<exists>c' e pid. mqtt_subscribe c topic qos = Some (c', e) \<and> client_inv c' \<and> \<not> cl_mutex c' \<and>
      pid \<noteq> 0 \<and> (\<forall>q \<in> set (mq_msgs (cl_mq c)). q_packet_id q \<noteq> pid) \<and>
      map fst (pending c') = map fst (pending c) @ (if e = MQTT_OK then [enc_subscribe pid [(topic, qos)]] else []) \<and>
      (e \<noteq> MQTT_OK \<longrightarrow> cl_error c' = e)) \<and>
    (\<exists>c' e pid. mqtt_unsubscribe c topic = Some (c', e) \<and> client_inv c' \<and> \<not> cl_mutex c' \<and>
      pid \<noteq> 0 \<and> (\<forall>q \<in> set (mq_msgs (cl_mq c)). q_packet_id q \<noteq> pid) \<and>
      map fst (pending c') = map fst (pending c) @ (if e = MQTT_OK then [enc_unsubscribe pid [topic]] else []) \<and>
      (e \<noteq> MQTT_OK \<longrightarrow> cl_error c' = e))"
proof (rule conjI)
  show "\<exists>c' e pid. mqtt_subscribe c topic qos = Some (c', e) \<and> client_inv c' \<and> \<not> cl_mutex c' \<and>
      pid \<noteq> 0 \<and> (\<forall>q \<in> set (mq_msgs (cl_mq c)). q_packet_id q \<noteq> pid) \<and>
      map fst (pending c') = map fst (pending c) @ (if e = MQTT_OK then [enc_subscribe pid [(topic, qos)]] else []) \<and>
      (e \<noteq> MQTT_OK \<longrightarrow> cl_error c' = e)"
    using subscribe_ok [OF assms, of qos] unfolding queued_def by (fastforce split: if_splits)
next
  show "\<exists>c' e pid. mqtt_unsubscribe c topic = Some (c', e) \<and> client_inv c' \<and> \<not> cl_mutex c' \<and>
      pid \<noteq> 0 \<and> (\<forall>q \<in> set (mq_msgs (cl_mq c)). q_packet_id q \<noteq> pid) \<and>
      map fst (pending c') = map fst (pending c) @ (if e = MQTT_OK then [enc_unsubscribe pid [topic]] else []) \<and>
      (e \<noteq> MQTT_OK \<longrightarrow> cl_error c' = e)"
    using unsubscribe_ok [OF assms] unfolding queued_def by (fastforce split: if_splits)
qed

theorem subscribe_queues_packet_witness:
  "\<exists>c' e pid. mqtt_subscribe (idle_client 200 False MQTT_OK) [97] 1 = Some (c', e) \<and> client_inv c' \<and> \<not> cl_mutex c' \<and>
      pid \<noteq> 0 \<and> (\<forall>q \<in> set (mq_msgs (cl_mq (idle_client 200 False MQTT_OK))). q_packet_id q \<noteq> pid) \<and>
      map fst (pending c') = map fst (pending (idle_client 200 False MQTT_OK)) @
        (if e = MQTT_OK then [enc_subscribe pid [([97], 1)]] else []) \<and>
      (e \<noteq> MQTT_OK \<longrightarrow> cl_error c' = e)"
  by (rule conjunct1, rule subscribe_queues_packet) simp_all

text \<open>
  \<open>mqtt_connect\<close> is called with the mutex held, as \<open>mqtt_init\<close> leaves it. It releases the mutex, stores the
  keep-alive time, ends the state in which the connection is required first, and queues the CONNECT packet or
  reports why not.
\<close>

theorem connect_queues_packet:
  assumes "client_inv c" "cl_mutex c" "cl_error c = MQTT_ERROR_CONNECT_NOT_CALLED"
    and "connect_flags_and_length (case client_id of None \<Rightarrow> [] | Some c \<Rightarrow> c) w user password flags
           = Inr (flags', len)"
    and "fits client_id" "fits (will_topic w)" "fits (will_message w)" "fits user" "fits password"
    and "\<forall>msg. will_message w = Some msg \<longrightarrow> will_message_size w = length msg"
  shows "\<exists>c' e. mqtt_connect c client_id w user password flags keep_alive = Some (c', e) \<and>
    client_inv c' \<and> \<not> cl_mutex c' \<and> cl_keep_alive c' = keep_alive \<and>
    (if e = MQTT_OK then cl_error c' = MQTT_OK \<and> map fst (pending c') = map fst (pending c) @
        [enc_connect (case client_id of None \<Rightarrow> [] | Some c \<Rightarrow> c) w user password flags' keep_alive]
     else cl_error c' = e \<and> pending c' = pending c)"
  using connect_ok [OF assms, of keep_alive] unfolding queued_def pending_simps by (fastforce split: if_splits)

theorem connect_queues_packet_witness:
  "\<exists>c' e. mqtt_connect (idle_client 200 True MQTT_ERROR_CONNECT_NOT_CALLED) (Some [99])
      \<lparr>will_topic = None, will_message = None, will_message_size = 0\<rparr> None None 2 400 = Some (c', e) \<and>
    client_inv c' \<and> \<not> cl_mutex c' \<and> cl_keep_alive c' = 400 \<and>
    (if e = MQTT_OK then cl_error c' = MQTT_OK \<and> map fst (pending c') =
        map fst (pending (idle_client 200 True MQTT_ERROR_CONNECT_NOT_CALLED)) @
        [enc_connect (case Some [99] of None \<Rightarrow> [] | Some c \<Rightarrow> c)
          \<lparr>will_topic = None, will_message = None, will_message_size = 0\<rparr> None None 2 400]
     else cl_error c' = e \<and> pending c' = pending (idle_client 200 True MQTT_ERROR_CONNECT_NOT_CALLED))"
  by (rule connect_queues_packet [where len = 13])
    (simp_all add: connect_flags_and_length_def fits_def mqtt_packed_cstrlen_def MQTT_CONNECT_RESERVED_def
      MQTT_CONNECT_CLEAN_SESSION_def MQTT_CONNECT_WILL_FLAG_def MQTT_CONNECT_WILL_RETAIN_def
      MQTT_CONNECT_USER_NAME_def MQTT_CONNECT_PASSWORD_def Let_def)

subsection \<open>The socket\<close>

text \<open>
  \<open>mqtt_pal_sendall\<close> is exact: the count it returns is the number of bytes that reached the stream, they are
  the first bytes of the message, and it returns an error only if no byte did.
\<close>

theorem sendall_exact:
  assumes "env_ok wire env" "buf + len \<le> length m"
  shows "\<exists>w' rv. mqtt_pal_sendall env w m buf len = Some (w', rv) \<and>
    (case rv of Cnt n \<Rightarrow> n \<le> len \<and> wire w' = wire w @ take n (drop buf m)
     | Err e \<Rightarrow> e = MQTT_ERROR_SOCKET_ERROR \<and> wire w' = wire w)"
  by (rule sendall_wire [OF assms])

theorem sendall_exact_witness:
  "\<exists>w' rv. mqtt_pal_sendall loop_env ([], [9]) [1, 2, 3, 4] 1 2 = Some (w', rv) \<and>
    (case rv of Cnt n \<Rightarrow> n \<le> 2 \<and> snd w' = snd ([] :: u8 list, [9 :: u8]) @ take n (drop 1 [1, 2, 3, 4])
     | Err e \<Rightarrow> e = MQTT_ERROR_SOCKET_ERROR \<and> snd w' = snd ([] :: u8 list, [9 :: u8]))"
  by (rule sendall_exact [OF loop_env_ok]) simp

text \<open>
  \<open>mqtt_pal_recvall\<close> writes only into the room it was given, sends nothing, and the count it returns is the
  number of bytes it wrote.
\<close>

theorem recvall_bounded:
  assumes "env_ok wire env" "start + bufsz \<le> length m"
  shows "\<exists>w' bs rv. mqtt_pal_recvall env w m start bufsz = Some (w', patch m start bs, rv) \<and>
    length bs \<le> bufsz \<and> wire w' = wire w \<and>
    (case rv of Cnt n \<Rightarrow> n = length bs | Err e \<Rightarrow> e = MQTT_ERROR_SOCKET_ERROR \<and> bs = [])"
  by (rule recvall_safe [OF assms])

theorem recvall_bounded_witness:
  "\<exists>w' bs rv. mqtt_pal_recvall loop_env ([5, 6, 7], []) [1, 2, 3, 4] 1 2 = Some (w', patch [1, 2, 3, 4] 1 bs, rv) \<and>
    length bs \<le> 2 \<and> snd w' = snd ([5, 6, 7] :: u8 list, [] :: u8 list) \<and>
    (case rv of Cnt n \<Rightarrow> n = length bs | Err e \<Rightarrow> e = MQTT_ERROR_SOCKET_ERROR \<and> bs = [])"
  by (rule recvall_bounded [OF loop_env_ok]) simp

subsection \<open>Sending\<close>

text \<open>Two QoS 2 PUBLISH packets, waiting to be sent.\<close>

definition qos2_queue :: mqtt_message_queue where
  "qos2_queue = mq_update 0 (\<lambda>q. q\<lparr>q_control_type := MQTT_CONTROL_PUBLISH, q_packet_id := 7\<rparr>)
     (mq_update 1 (\<lambda>q. q\<lparr>q_control_type := MQTT_CONTROL_PUBLISH, q_packet_id := 8\<rparr>)
       (mqtt_mq_register (mqtt_mq_register (mqtt_mq_init blank_queue
         (Some ([0x34, 5, 0, 1, 97, 0, 7, 0x34, 5, 0, 1, 98, 0, 8] @ replicate 186 0))) 7) 7))"

definition loaded_client :: mqtt_client where
  "loaded_client = (idle_client 200 False MQTT_OK)\<lparr>cl_mq := qos2_queue\<rparr>"

lemma loaded_client_inv: "client_inv loaded_client"
proof -
  have "mq_inv qos2_queue"
    unfolding qos2_queue_def
    by (subst mq_update_inv, simp, subst mq_update_inv, simp, rule mq_register_inv, rule mq_register_inv, rule mq_init_inv)
      (simp_all add: mqtt_mq_register_def mqtt_mq_init_def set_curr_sz_def mqtt_mq_currsz_def queue_tail_def
        mem_end_def sizeof_queued_message_def Let_def)
  then show ?thesis by (simp add: loaded_client_def)
qed

lemma loaded_client_simps:
  "cl_send_offset loaded_client = 0" "\<not> cl_mutex loaded_client" "n_msgs loaded_client = 2"
  by (simp_all add: loaded_client_def qos2_queue_def mq_update_def mqtt_mq_register_def mqtt_mq_init_def
      set_curr_sz_def Let_def)

lemma loaded_fits: "offset_fits loaded_client 0"
  by (simp add: offset_fits_def loaded_client_simps)

text \<open>
  C7: Called with nothing half-sent, \<open>__mqtt_send\<close> returns with the mutex released and the invariant kept. What it has
  written to the stream are packets of the queue: whole ones in queue order, then at most the beginning of one, whose
  length is the offset it keeps for the next call; a result other than \<open>MQTT_OK\<close> is also the client's error. (What a
  call does that finds a packet half-sent, and how it can go wrong, is the subject of C21 and C37.)
\<close>

theorem send_writes_packets:
  assumes "env_ok wire env" "client_inv c" "\<not> cl_mutex c" "cl_send_offset c = 0"
  shows "\<exists>w' c' rv. mqtt_send env w c = Some (w', c', rv) \<and> client_inv c' \<and> \<not> cl_mutex c' \<and>
    cl_recv_mem c' = cl_recv_mem c \<and> (rv \<noteq> MQTT_OK \<longrightarrow> cl_error c' = rv) \<and>
    (\<exists>sent part j. subseq sent (map (\<lambda>j. fst (msg_at c j)) [0..<length (mq_msgs (cl_mq c))]) \<and>
       (part = [] \<or> j < length (mq_msgs (cl_mq c)) \<and> strict_prefix part (fst (msg_at c j)) \<and>
          cl_send_offset c' = length part) \<and>
       wire w' = wire w @ concat sent @ part)"
proof -
  have "offset_fits c 0" using assms(4) by (simp add: offset_fits_def)
  from mqtt_send_ok [OF assms(1-3) this, of w] obtain w' c' rv where
    r: "mqtt_send env w c = Some (w', c', rv)" "client_inv c'" "\<not> cl_mutex c'" "cl_recv_mem c' = cl_recv_mem c"
      "rv \<noteq> MQTT_OK \<longrightarrow> cl_error c' = rv"
    and sent: "packets_sent wire w w' c (cl_send_offset c')"
    by (elim exE conjE) (rule that)
  show ?thesis
    by (rule exI [of _ w'], rule exI [of _ c'], rule exI [of _ rv], intro conjI)
      (rule r(1), rule r(2), rule r(3), rule r(4), rule r(5),
        rule sent [unfolded packets_sent_idle [OF assms(4)] packets_written_def])
qed

theorem send_writes_packets_witness:
  "\<exists>w' c' rv. mqtt_send loop_env ([], []) loaded_client = Some (w', c', rv) \<and> client_inv c' \<and> \<not> cl_mutex c' \<and>
    cl_recv_mem c' = cl_recv_mem loaded_client \<and> (rv \<noteq> MQTT_OK \<longrightarrow> cl_error c' = rv) \<and>
    (\<exists>sent part j. subseq sent (map (\<lambda>j. fst (msg_at loaded_client j)) [0..<length (mq_msgs (cl_mq loaded_client))]) \<and>
       (part = [] \<or> j < length (mq_msgs (cl_mq loaded_client)) \<and> strict_prefix part (fst (msg_at loaded_client j)) \<and>
          cl_send_offset c' = length part) \<and>
       snd w' = snd ([] :: u8 list, [] :: u8 list) @ concat sent @ part)"
  by (rule send_writes_packets [OF loop_env_ok loaded_client_inv loaded_client_simps(2,1)])

text \<open>
  C27: one QoS 2 delivery at a time. The pass of \<open>__mqtt_send\<close> over the queue returns, touches an unacknowledged
  QoS 2 PUBLISH only if no earlier message is one, and when it reaches the end of the queue the only messages still
  unsent are QoS 2 PUBLISH packets held back behind an earlier unacknowledged one.
\<close>

theorem send_pass_qos2:
  assumes "env_ok wire env" "client_inv c" "offset_fits c 0"
  shows "\<exists>w' c' e. send_loop env w c 0 False (length (mq_msgs (cl_mq c))) = Some (w', c', e) \<and>
    (\<forall>j < length (mq_msgs (cl_mq c)). open_qos2 c j \<and> msg_at c' j \<noteq> msg_at c j \<longrightarrow> (\<forall>k < j. \<not> open_qos2 c k)) \<and>
    (e = Go_on \<longrightarrow> (\<forall>j < length (mq_msgs (cl_mq c)). msg_state c' j = MQTT_QUEUED_UNSENT \<longrightarrow>
       open_qos2 c' j \<and> (\<exists>k < j. open_qos2 c' k)))"
  using send_loop_ok [OF assms(1,2,3), of "length (mq_msgs (cl_mq c))" False w] unfolding passed_def by auto

theorem send_pass_qos2_witness:
  "\<exists>w' c' e. send_loop loop_env ([], []) loaded_client 0 False (length (mq_msgs (cl_mq loaded_client))) = Some (w', c', e) \<and>
    (\<forall>j < length (mq_msgs (cl_mq loaded_client)). open_qos2 loaded_client j \<and> msg_at c' j \<noteq> msg_at loaded_client j \<longrightarrow>
       (\<forall>k < j. \<not> open_qos2 loaded_client k)) \<and>
    (e = Go_on \<longrightarrow> (\<forall>j < length (mq_msgs (cl_mq loaded_client)). msg_state c' j = MQTT_QUEUED_UNSENT \<longrightarrow>
       open_qos2 c' j \<and> (\<exists>k < j. open_qos2 c' k)))"
  by (rule send_pass_qos2 [OF loop_env_ok loaded_client_inv loaded_fits])

subsection \<open>Receiving\<close>

text \<open>
  C8: \<open>__mqtt_recv\<close> ends: as many iterations as there are bytes, in the buffer and still to come, are enough. As
  long as the broker keeps the topics of its PUBLISH packets inside them, it makes no access outside the receive
  buffer, keeps the invariant, releases the mutex and sends nothing; a result other than \<open>MQTT_OK\<close> is also the
  client's error.
\<close>

theorem recv_returns:
  assumes "env_ok wire env" "delivers avail env" "client_inv c" "\<not> cl_mutex c"
    and "broker_ok env w (c\<lparr>cl_mutex := True\<rparr>) r" "avail w + cl_recv_curr c < fuel"
  shows "\<exists>w' c' e. mqtt_recv env fuel r w c = Some (w', c', Some e) \<and> client_inv c' \<and> \<not> cl_mutex c' \<and>
    wire w' = wire w \<and> (e \<noteq> MQTT_OK \<longrightarrow> cl_error c' = e)"
  using mqtt_recv_ok [OF assms] by blast

text \<open>A QoS 0 PUBLISH, topic \<open>a\<close>, payload \<open>hi\<close>.\<close>

abbreviation hi_packet :: "u8 list" where
  "hi_packet \<equiv> [0x30, 5, 0, 1, 97, 104, 105]"

abbreviation no_response :: mqtt_response where
  "no_response \<equiv> \<lparr>fixed_header = ping_header, decoded = Undecoded\<rparr>"

lemmas eval_unpack = mqtt_unpack_fixed_header_def load_def control_of_def control_types_def drop_bit_eq_div
  unpack_length_loop.simps mqtt_fixed_header_rule_violation_def required_flags_def mask_required_flags_def
  control_type_is_valid_def mqtt_unpack_uint16_def of_be16_def publish_qos_def MQTT_PUBLISH_QOS_MASK_def
  MQTT_PUBLISH_DUP_def MQTT_PUBLISH_RETAIN_def

lemma recv_hi: "mqtt_pal_recvall loop_env (hi_packet, []) (replicate 16 0) 0 16 =
    Some (([], []), hi_packet @ replicate 9 0, Cnt 7)"
  by (simp add: mqtt_pal_recvall_def recvall_loop.simps loop_env_def put_def patch_def EAGAIN_def Let_def)

lemma recv_nothing: "mqtt_pal_recvall loop_env ([], out) m p n = Some (([], out), m, Cnt 0)"
  by (simp add: mqtt_pal_recvall_def recvall_loop.simps loop_env_def EAGAIN_def Let_def)

lemma drained_safe:
  assumes "cl_recv_curr c = 0"
  shows "iteration_safe loop_env ([], out) c"
  by (simp add: iteration_safe_def recv_nothing assms publish_in_bounds_def mqtt_unpack_fixed_header_def)

lemma drained_ends:
  assumes "cl_recv_curr c = 0"
  shows "recv_iteration loop_env ([], out) c r \<noteq> Some (w', c', r', None)"
  by (simp add: recv_iteration_def recv_nothing assms mqtt_unpack_response_def mqtt_unpack_fixed_header_def Let_def)

lemma recv_first:
  "\<exists>c1 r1. recv_iteration loop_env (hi_packet, []) (idle_client 200 True MQTT_OK) no_response = Some (([], []), c1, r1, None) \<and>
     cl_recv_curr c1 = 0"
proof -
  have u: "mqtt_unpack_response no_response (hi_packet @ replicate 9 0) (Some 0) 7 =
      Some (\<lparr>fixed_header = \<lparr>control_type = MQTT_CONTROL_PUBLISH, control_flags = 0, remaining_length = 5\<rparr>,
        decoded = Publish \<lparr>dup_flag = 0, qos_level = 0, retain_flag = 0, topic_name_size = 1, topic_name = 4,
          pub_packet_id = None, application_message = 5, application_message_size = 2\<rparr>\<rparr>, Cnt 7)"
    by (simp add: mqtt_unpack_response_def unpack_body_def mqtt_unpack_publish_response_def eval_unpack Let_def)
  show ?thesis
    by (simp add: recv_iteration_def recv_hi u [unfolded append_Cons append_Nil] handle_response_def handle_publish_def publish_response_callback_def
        consume_def memmove_def read_bytes_def put_def Let_def)
qed

lemma hi_broker: "broker_ok loop_env (hi_packet, []) (idle_client 200 True MQTT_OK) no_response"
proof -
  have safe: "iteration_safe loop_env (hi_packet, []) (idle_client 200 True MQTT_OK)"
    by (auto simp: iteration_safe_def recv_hi publish_in_bounds_def eval_unpack publish_fits_def Let_def)
  show ?thesis
    unfolding broker_ok_def
  proof (intro allI impI)
    fix w c r
    assume "recv_reaches loop_env ((hi_packet, []), idle_client 200 True MQTT_OK, no_response) (w, c, r)"
    then show "iteration_safe loop_env w c"
    proof cases
      case recv_here
      then show ?thesis using safe by simp
    next
      case (recv_more w1 c1 r1)
      then have d: "w1 = ([], [])" "cl_recv_curr c1 = 0" using recv_first by auto
      from recv_more(2) d show ?thesis
        by cases (auto simp: drained_safe drained_ends)
    qed
  qed
qed

theorem recv_returns_witness:
  "\<exists>w' c' e. mqtt_recv loop_env 8 no_response (hi_packet, []) (idle_client 200 False MQTT_OK) = Some (w', c', Some e) \<and>
    client_inv c' \<and> \<not> cl_mutex c' \<and> snd w' = snd (hi_packet, [] :: u8 list) \<and> (e \<noteq> MQTT_OK \<longrightarrow> cl_error c' = e)"
  by (rule recv_returns [OF loop_env_ok loop_env_delivers]) (simp_all add: hi_broker loop_left_def)

text \<open>
  C1: a round of \<open>mqtt_sync\<close> on a client that has no inspector callback, is not in error and has nothing half-sent, and
  while the broker keeps the topics of its PUBLISH packets inside them: it returns, keeps the invariant and releases the
  mutex. It first receives, which writes nothing to the stream; if that fails, the round ends with its result, and else
  the round goes on with \<open>__mqtt_send\<close>, and all it has written are whole packets of the queue that receiving left
  behind, in their order, and the beginning of at most one, whose length is the offset kept. A result other than
  \<open>MQTT_OK\<close> is also the client's error.
\<close>

theorem sync_round:
  assumes "env_ok wire env" "delivers avail env" "client_inv c" "\<not> cl_mutex c"
    and "\<not> cl_inspector_callback c" "cl_error c = MQTT_OK" "cl_send_offset c = 0"
    and "broker_ok env w (c\<lparr>cl_mutex := True\<rparr>) r" "avail w + cl_recv_curr c < fuel"
  shows "\<exists>w1 c1 e1 w' c' e. mqtt_recv env fuel r w c = Some (w1, c1, Some e1) \<and> wire w1 = wire w \<and>
    mqtt_sync env cb fuel r w c = Some (w', c', Some e) \<and> client_inv c' \<and> \<not> cl_mutex c' \<and>
    (e \<noteq> MQTT_OK \<longrightarrow> cl_error c' = e) \<and>
    (if e1 = MQTT_OK then mqtt_send env w1 c1 = Some (w', c', e) \<and> packets_written wire w1 w' c1 (cl_send_offset c')
     else w' = w1 \<and> c' = c1 \<and> e = e1)"
  by (rule mqtt_sync_ok [OF assms])

theorem sync_round_witness:
  "\<exists>w1 c1 e1 w' c' e. mqtt_recv loop_env 8 no_response (hi_packet, []) (idle_client 200 False MQTT_OK) =
      Some (w1, c1, Some e1) \<and> snd w1 = snd (hi_packet, [] :: u8 list) \<and>
    mqtt_sync loop_env \<lparr>cb_inspector = (\<lambda>c. (c, MQTT_OK)), cb_reconnect = id\<rparr> 8 no_response (hi_packet, [])
      (idle_client 200 False MQTT_OK) = Some (w', c', Some e) \<and> client_inv c' \<and> \<not> cl_mutex c' \<and>
    (e \<noteq> MQTT_OK \<longrightarrow> cl_error c' = e) \<and>
    (if e1 = MQTT_OK then mqtt_send loop_env w1 c1 = Some (w', c', e) \<and> packets_written snd w1 w' c1 (cl_send_offset c')
     else w' = w1 \<and> c' = c1 \<and> e = e1)"
  by (rule sync_round [OF loop_env_ok loop_env_delivers]) (simp_all add: hi_broker loop_left_def)

text \<open>
  C19: what the broker must not do. When a QoS 0 PUBLISH whose remaining length is at least 4 claims a topic longer
  than the packet, \<open>__mqtt_recv\<close> moves memory outside the receive buffer: undefined behaviour that any broker, or
  anyone on the path, can trigger.
\<close>

theorem topic_overrun_undefined:
  assumes "mqtt_pal_recvall env w (cl_recv_mem c) (cl_recv_curr c) (cl_recv_curr_sz c) = Some (w1, m, Cnt n)"
    and "cl_recv_curr c + n \<le> length m" "cl_recv_curr c + n < 2 ^ 32"
    and "mqtt_unpack_fixed_header (fixed_header r) m (Some 0) (cl_recv_curr c + n) = Some (fh, Cnt k)" "0 < k"
    and "control_type fh = MQTT_CONTROL_PUBLISH" "publish_qos (control_flags fh) = 0" "4 \<le> unat (remaining_length fh)"
    and "mqtt_unpack_uint16 m k = Some tsize" "unat (remaining_length fh) < unat tsize + 2"
  shows "recv_iteration env w c r = None"
proof -
  have nofit: "\<not> publish_fits fh tsize" using assms(7,10) by (simp add: publish_fits_def)
  obtain p where p: "mqtt_unpack_publish_response fh m k = Some (Inr (unat (remaining_length fh) + 2 ^ 32, Publish p))"
    and q: "qos_level p = 0"
    using publish_overrun [OF assms(7-9) nofit] assms(7-9)
    by (auto simp: mqtt_unpack_publish_response_def Let_def split: if_splits)
  let ?r1 = "\<lparr>fixed_header = fh, decoded = Publish p\<rparr>"
  have "mqtt_unpack_response r m (Some 0) (cl_recv_curr c + n) = Some (?r1, Cnt (k + (unat (remaining_length fh) + 2 ^ 32)))"
    using assms(4,5,6) p by (cases r) (simp add: mqtt_unpack_response_def unpack_body_def Let_def)
  from overrun_crashes [OF assms(1) this _ _ q] assms(3) show ?thesis by simp
qed

theorem topic_overrun_undefined_witness:
  "recv_iteration loop_env ([0x30, 5, 0, 9, 97, 98, 99], []) (idle_client 200 True MQTT_OK) no_response = None"
proof (rule topic_overrun_undefined [where k = 2 and tsize = 9 and
    fh = "\<lparr>control_type = MQTT_CONTROL_PUBLISH, control_flags = 0, remaining_length = 5\<rparr>"])
  show "mqtt_pal_recvall loop_env ([0x30, 5, 0, 9, 97, 98, 99], []) (cl_recv_mem (idle_client 200 True MQTT_OK))
      (cl_recv_curr (idle_client 200 True MQTT_OK)) (cl_recv_curr_sz (idle_client 200 True MQTT_OK)) =
    Some (([], []), [0x30, 5, 0, 9, 97, 98, 99] @ replicate 9 0, Cnt 7)"
    by (simp add: mqtt_pal_recvall_def recvall_loop.simps loop_env_def put_def patch_def EAGAIN_def Let_def)
qed (simp_all add: eval_unpack ping_header_def Let_def)

text \<open>
  C15: exactly-once delivery, QoS 2: once a PUBLISH has been accepted, a second one with the same identifier changes
  nothing; in particular the application is not called again.
\<close>

theorem qos2_delivered_once:
  assumes "client_inv c" "cl_mutex c" "handle_publish w c p = Some (w1, c1, MQTT_OK)"
    and "qos_level p = 2" "qos_level p' = 2" "pub_packet_id p = Some pid" "pub_packet_id p' = Some pid"
  shows "handle_publish w1 c1 p' = Some (w1, c1, MQTT_OK)"
  by (rule qos2_once [OF assms])

definition qos2_message :: mqtt_response_publish where
  "qos2_message = \<lparr>dup_flag = 0, qos_level = 2, retain_flag = 0, topic_name_size = 1, topic_name = 4,
     pub_packet_id = Some 7, application_message = 7, application_message_size = 0\<rparr>"

theorem qos2_delivered_once_witness:
  "\<exists>c1. handle_publish () (idle_client 200 True MQTT_OK) qos2_message = Some ((), c1, MQTT_OK) \<and>
     handle_publish () c1 (qos2_message\<lparr>dup_flag := 1\<rparr>) = Some ((), c1, MQTT_OK)"
proof -
  have h: "mqtt_fixed_header_rule_violation \<lparr>control_type = MQTT_CONTROL_PUBREC, control_flags = 0, remaining_length = 2\<rparr> = None"
    by (simp add: mqtt_fixed_header_rule_violation_def required_flags_def mask_required_flags_def control_type_is_valid_def)
  have "mqtt_pack_pubxxx_request (replicate 200 0) (Some 0) 160 MQTT_CONTROL_PUBREC 7 =
      Some (patch (replicate 200 0) 0 (enc_pubxxx MQTT_CONTROL_PUBREC 7), Cnt 4)"
    using pubxxx_packs [of 0 160 "replicate 200 0" MQTT_CONTROL_PUBREC 7]
    by (simp add: packs_def enc_pubxxx_def enc_fixed_header_def enc_length.simps)
  then obtain c1 where c1: "handle_publish () (idle_client 200 True MQTT_OK) qos2_message = Some ((), c1, MQTT_OK)"
    by (simp add: handle_publish_def qos2_message_def mqtt_mq_find_def mqtt_pubrec_def mqtt_pubxxx_def queue_packet_def
        MQTT_CLIENT_TRY_PACK_def pack_with_retry_def pack_at_def idle_client_def mqtt_mq_init_def set_curr_sz_def
        mqtt_mq_currsz_def queue_tail_def mem_end_def sizeof_queued_message_def stage_reply_def Let_def blank_queue_def)
  from qos2_delivered_once [OF _ _ this, of "qos2_message\<lparr>dup_flag := 1\<rparr>" 7]
  show ?thesis using c1 by (auto simp: qos2_message_def)
qed

text \<open>
  C30: the reply to a QoS 1 PUBLISH is a PUBACK, to a new QoS 2 PUBLISH a PUBREC, each with its identifier and queued
  behind what is pending, and the application sees the topic and the payload as they lie in the receive buffer. When
  the reply does not fit, the application is not called and the result is the client's error.
\<close>

theorem publish_is_acknowledged:
  assumes "client_inv c" "cl_mutex c" "pub_packet_id p = Some pid"
    and "qos_level p = 1 \<and> ct = MQTT_CONTROL_PUBACK \<or>
      qos_level p = 2 \<and> ct = MQTT_CONTROL_PUBREC \<and> mqtt_mq_find (cl_mq c) MQTT_CONTROL_PUBREC (Some pid) = None"
  shows "\<exists>c' e. handle_publish w c p = Some (w, c', e) \<and>
    (if e = MQTT_OK then
       (\<exists>q. pending c' = pending c @ [(enc_pubxxx ct pid, q)] \<and> q_control_type q = ct \<and> q_packet_id q = pid) \<and>
       cl_published c' = cl_published c @ [\<lparr>call_publish = p,
         call_topic = read_bytes (cl_recv_mem c) (topic_name p) (unat (topic_name_size p)),
         call_message = read_bytes (cl_recv_mem c) (application_message p) (application_message_size p)\<rparr>]
     else cl_error c' = e \<and> pending c' = pending c \<and> cl_published c' = cl_published c)"
  by (rule publish_reply [OF assms])

theorem publish_is_acknowledged_witness:
  "\<exists>c' e. handle_publish () (idle_client 200 True MQTT_OK) qos2_message = Some ((), c', e) \<and>
    (if e = MQTT_OK then
       (\<exists>q. pending c' = pending (idle_client 200 True MQTT_OK) @ [(enc_pubxxx MQTT_CONTROL_PUBREC 7, q)] \<and>
          q_control_type q = MQTT_CONTROL_PUBREC \<and> q_packet_id q = 7) \<and>
       cl_published c' = cl_published (idle_client 200 True MQTT_OK) @ [\<lparr>call_publish = qos2_message,
         call_topic = read_bytes (cl_recv_mem (idle_client 200 True MQTT_OK)) (topic_name qos2_message)
           (unat (topic_name_size qos2_message)),
         call_message = read_bytes (cl_recv_mem (idle_client 200 True MQTT_OK)) (application_message qos2_message)
           (application_message_size qos2_message)\<rparr>]
     else cl_error c' = e \<and> pending c' = pending (idle_client 200 True MQTT_OK) \<and>
       cl_published c' = cl_published (idle_client 200 True MQTT_OK))"
  by (rule publish_is_acknowledged) (simp_all add: qos2_message_def mqtt_mq_find_def)

text \<open>
  An acknowledgement completes exactly the first queued message it names and leaves every other message as it is,
  bytes and descriptor; one that names no queued message puts the client in error.
\<close>

theorem ack_completes_one:
  shows "case mqtt_mq_find (cl_mq c) ct pid of
      Some i \<Rightarrow> \<exists>w' c'. handle_ack env w c ct pid = Some (w', c', MQTT_OK) \<and>
        (\<forall>j < length (mq_msgs (cl_mq c)). msg_at c' j =
          (if j = i then (fst (msg_at c i), (snd (msg_at c i))\<lparr>q_state := MQTT_QUEUED_COMPLETE\<rparr>) else msg_at c j))
    | None \<Rightarrow> handle_ack env w c ct pid =
        Some (w, c\<lparr>cl_error := MQTT_ERROR_ACK_OF_UNKNOWN\<rparr>, MQTT_ERROR_ACK_OF_UNKNOWN)"
  using handle_ack_releases [of c ct pid] handle_ack_unknown [of c ct pid] by (fastforce split: option.split)

theorem ack_completes_one_witness:
  "\<exists>w' c'. handle_ack loop_env ([], []) loaded_client MQTT_CONTROL_PUBLISH (Some 8) = Some (w', c', MQTT_OK) \<and>
     q_state (snd (msg_at c' 1)) = MQTT_QUEUED_COMPLETE \<and> msg_at c' 0 = msg_at loaded_client 0"
proof -
  have found: "mqtt_mq_find (cl_mq loaded_client) MQTT_CONTROL_PUBLISH (Some 8) = Some 1"
    by (simp add: loaded_client_def qos2_queue_def mq_update_def mqtt_mq_register_def mqtt_mq_init_def
        set_curr_sz_def mqtt_mq_find_def msg_matches_def Let_def)
  show ?thesis
    using ack_completes_one [where c = loaded_client and ct = MQTT_CONTROL_PUBLISH and pid = "Some 8" and env = loop_env
        and w = "([], [])"]
    by (auto simp: found loaded_client_simps(3))
qed

text \<open>
  Where exactly-once delivery fails. A PUBREC that is already complete stays in the queue until the next clean and
  still counts as a delivery in progress: a new QoS 2 PUBLISH for which the broker uses the identifier again gets no
  reply and does not reach the application.
\<close>

theorem reused_identifier_lost:
  assumes "i < length (mq_msgs (cl_mq c))" "q_control_type (mq_msgs (cl_mq c) ! i) = MQTT_CONTROL_PUBREC"
    and "q_packet_id (mq_msgs (cl_mq c) ! i) = pid" "q_state (mq_msgs (cl_mq c) ! i) = MQTT_QUEUED_COMPLETE"
    and "qos_level p = 2" "pub_packet_id p = Some pid"
  shows "handle_publish w c p = Some (w, c, MQTT_OK)"
  by (rule reused_id_dropped [OF assms])

definition released_client :: mqtt_client where
  "released_client = (idle_client 200 True MQTT_OK)\<lparr>cl_mq :=
     (mqtt_mq_init blank_queue (Some (replicate 200 0)))\<lparr>mq_curr := 4, mq_msgs := [blank_msg\<lparr>q_size := 4,
       q_state := MQTT_QUEUED_COMPLETE, q_control_type := MQTT_CONTROL_PUBREC, q_packet_id := 7\<rparr>]\<rparr>\<rparr>"

theorem reused_identifier_lost_witness:
  "handle_publish () released_client qos2_message = Some ((), released_client, MQTT_OK)"
  by (rule reused_identifier_lost [where i = 0 and pid = 7])
    (simp_all add: released_client_def qos2_message_def)

text \<open>
  \<open>mqtt_error_str\<close> names every error code by its own spelling, and is undefined for \<open>MQTT_OK\<close>, whose
  distance from \<open>INT_MIN\<close> does not fit into an \<open>int\<close>.
\<close>

theorem error_str_names:
  "mqtt_error_str (err_code e) = (if e = MQTT_OK then None else Some (MQTT_ERRORS_STR ! err_index e)) \<and>
   distinct MQTT_ERRORS_STR"
  using mqtt_error_str_error [of e] mqtt_error_str_nonneg [of "err_code MQTT_OK"] MQTT_ERRORS_STR_distinct
  by (simp add: err_code_def)

subsection \<open>An interrupted resend\<close>

lemma resend_from_start:
  assumes env: "env_ok wire env" and inv: "client_inv c" and i: "i < n_msgs c"
    and st: "msg_state c i = MQTT_QUEUED_AWAITING_ACK" and q2: "\<not> (fl \<and> open_qos2 c i)"
    and late: "sys_time env w = (w0, now)" "q_time_sent (snd (msg_at c i)) + cl_response_timeout c < now"
    and run: "send_message env w c i fl = Some (w', c', fl', e)"
  shows "transmitted wire w w' (c\<lparr>cl_send_offset := 0\<rparr>) c' i e" "client_inv c'" "n_msgs c' = n_msgs c"
proof -
  let ?c = "c\<lparr>cl_number_of_timeouts := cl_number_of_timeouts c + 1, cl_send_offset := 0\<rparr>"
  let ?q = "mq_msgs (cl_mq c) ! i"
  have q: "q_state ?q = MQTT_QUEUED_AWAITING_ACK" "q_time_sent ?q + cl_response_timeout c < now"
    using st late(2) by (simp_all add: msg_state_def msg_at_def)
  have r: "check_resend env w c ?q = (w0, ?c, True)" by (simp add: check_resend_def q late)
  have "mqtt_mq_get (cl_mq c) i = Some ?q" using i by (simp add: mqtt_mq_get_def)
  then have t: "transmit env w0 ?c i ?q = Some (w', c', e)"
    using run hold_back_ok [OF inv i, of True fl] q2
    by (cases "transmit env w0 ?c i ?q") (auto simp: send_message_def r Let_def)
  have w: "wire w0 = wire w" by (rule env_time [OF env late(1)])
  have "\<exists>w' c' e. transmit env w0 ?c i (mq_msgs (cl_mq ?c) ! i) = Some (w', c', e) \<and> client_inv c' \<and>
      send_frame ?c c' \<and> transmitted wire w0 w' ?c c' i e"
    by (rule transmit_ok [OF env]) (use inv i in simp_all)
  with t have r: "client_inv c'" "send_frame ?c c'" "transmitted wire w0 w' ?c c' i e" by auto
  from transmitted_offset [OF r(3), of c] w show "transmitted wire w w' (c\<lparr>cl_send_offset := 0\<rparr>) c' i e" by simp
  from r show "client_inv c'" "n_msgs c' = n_msgs c" by (simp_all add: send_frame_def)
qed

text \<open>
  C37: an interrupted resend breaks the stream. When the resend of a timed-out message stops after \<open>k\<close> bytes because
  the socket is full, the next pass starts the message over instead of going on at the offset it kept: the broker
  receives the first \<open>k\<close> bytes of the packet and then the whole packet, and reads them as one stream.
\<close>

theorem interrupted_resend_duplicates:
  assumes "env_ok wire env" "client_inv c" "i < length (mq_msgs (cl_mq c))"
    and "msg_state c i = MQTT_QUEUED_AWAITING_ACK" "\<not> (fl \<and> open_qos2 c i)"
    and "q_time_sent (snd (msg_at c i)) + cl_response_timeout c < snd (sys_time env w)"
    and first: "send_message env w c i fl = Some (w1, c1, fl1, Break)"
    and "q_time_sent (snd (msg_at c i)) + cl_response_timeout c1 < snd (sys_time env w1)"
    and second: "send_message env w1 c1 i fl = Some (w2, c2, fl2, Go_on)"
  shows "wire w2 = wire w @ take (cl_send_offset c1) (fst (msg_at c i)) @ fst (msg_at c i)"
proof -
  obtain w0 now where t0: "sys_time env w = (w0, now)" by fastforce
  obtain w0' now' where t1: "sys_time env w1 = (w0', now')" by fastforce
  have late: "q_time_sent (snd (msg_at c i)) + cl_response_timeout c < now" using assms(6) t0 by simp
  note a = resend_from_start [OF assms(1-5) t0 late first]
  then have k: "wire w1 = wire w @ take (cl_send_offset c1) (fst (msg_at c i))" and m: "msg_at c1 i = msg_at c i"
    by (simp_all add: transmitted_def Let_def)
  note inv1 = a(2) and n1 = a(3)
  have "transmitted wire w1 w2 (c1\<lparr>cl_send_offset := 0\<rparr>) c2 i Go_on"
    by (rule resend_from_start(1) [OF assms(1) inv1 _ _ _ t1 _ second])
      (use assms(3-5,8) n1 m t1 in \<open>simp_all add: msg_state_def open_qos2_def\<close>)
  then show ?thesis using k m by (simp add: transmitted_def Let_def)
qed

text \<open>A socket that takes the given number of bytes at each call; at 0 it is full.\<close>

definition throttled_env :: "(nat list \<times> u8 list) env" where
  "throttled_env =
     \<lparr>sys_send = (\<lambda>(caps, out) bytes. case caps of [] \<Rightarrow> ((caps, out), Errno EAGAIN)
        | n # ns \<Rightarrow> if n = 0 then ((ns, out), Errno EAGAIN)
            else ((ns, out @ take n bytes), Ret (min n (length bytes)))),
      sys_recv = (\<lambda>w n. (w, Errno EAGAIN)),
      sys_time = (\<lambda>w. (w, 100))\<rparr>"

lemma throttled_env_ok: "env_ok snd throttled_env"
  by (auto simp: env_ok_def throttled_env_def min_def split: list.splits)

definition waiting_client :: mqtt_client where
  "waiting_client = update_msg 0 (\<lambda>q. q\<lparr>q_state := MQTT_QUEUED_AWAITING_ACK\<rparr>) loaded_client"

lemma waiting_client_inv: "client_inv waiting_client"
  by (simp add: waiting_client_def client_inv_update loaded_client_inv)

lemma waiting_client_eval:
  "mq_msgs (cl_mq waiting_client) =
     [blank_msg\<lparr>q_size := 7, q_state := MQTT_QUEUED_AWAITING_ACK, q_control_type := MQTT_CONTROL_PUBLISH, q_packet_id := 7\<rparr>,
      blank_msg\<lparr>q_start := 7, q_size := 7, q_control_type := MQTT_CONTROL_PUBLISH, q_packet_id := 8\<rparr>]"
  "mq_mem (cl_mq waiting_client) = [0x34, 5, 0, 1, 97, 0, 7, 0x34, 5, 0, 1, 98, 0, 8] @ replicate 186 0"
  "cl_response_timeout waiting_client = 30" "cl_send_offset waiting_client = 0"
  by (simp_all add: waiting_client_def update_msg_def loaded_client_def qos2_queue_def mq_update_def
      mqtt_mq_register_def mqtt_mq_init_def set_curr_sz_def Let_def blank_queue_def idle_client_def blank_msg_def)

theorem interrupted_resend_duplicates_witness:
  "\<exists>w1 c1 fl1 w2 c2 fl2.
     send_message throttled_env ([3, 0, 99], []) waiting_client 0 False = Some (w1, c1, fl1, Break) \<and>
     send_message throttled_env w1 c1 0 False = Some (w2, c2, fl2, Go_on) \<and>
     snd w2 = [0x34, 5, 0, 0x34, 5, 0, 1, 97, 0, 7]"
proof -
  note ev = send_message_def mqtt_mq_get_def waiting_client_eval check_resend_def blank_msg_def throttled_env_def
    hold_back_qos2_def load_def header_qos_def transmit_def mqtt_pal_sendall_def read_bytes_def sendall_loop.simps
    EAGAIN_def sent_state_def publish_qos_def MQTT_PUBLISH_QOS_MASK_def set_mq_mem_def update_msg_def mq_update_def
  let ?c1 = "waiting_client\<lparr>cl_number_of_timeouts := cl_number_of_timeouts waiting_client + 1, cl_send_offset := 3\<rparr>"
  have first: "send_message throttled_env ([3, 0, 99], []) waiting_client 0 False =
      Some (([99], [0x34, 5, 0]), ?c1, True, Break)"
    by (simp add: ev Let_def)
  obtain w2 c2 fl2 where second: "send_message throttled_env ([99], [0x34, 5, 0]) ?c1 0 False = Some (w2, c2, fl2, Go_on)"
    by (simp add: ev Let_def)
  have "snd w2 = snd ([3, 0, 99] :: nat list, [] :: u8 list) @ take (cl_send_offset ?c1) (fst (msg_at waiting_client 0)) @
      fst (msg_at waiting_client 0)"
    by (rule interrupted_resend_duplicates [OF throttled_env_ok waiting_client_inv _ _ _ _ first _ second])
      (simp_all add: waiting_client_eval msg_state_def msg_at_def blank_msg_def throttled_env_def)
  then have "snd w2 = [0x34, 5, 0, 0x34, 5, 0, 1, 97, 0, 7]"
    by (simp add: msg_at_def waiting_client_eval blank_msg_def msg_bytes_def)
  with first second show ?thesis by blast
qed

end
