(* ===== verification/Kernel_C.thy ===== *)
theory Kernel_C
  imports Prelude_C "HOL-Library.Multiset"
begin

text \<open>
  Shared vocabulary of the kernel code: error numbers, and a ledger of the resources a driver holds.
  A resource that is acquired is entered, one that is released is struck out; releasing what is not held
  (a double free, freeing what was never requested) is undefined and is \<open>None\<close>. That an error path
  leaks nothing is then an equation between ledgers.
\<close>

subsection \<open>Error numbers\<close>

definition ENOENT :: int where "ENOENT = 2"
definition EIO :: int where "EIO = 5"
definition ENOMEM :: int where "ENOMEM = 12"
definition EACCES :: int where "EACCES = 13"
definition EFAULT :: int where "EFAULT = 14"
definition EBUSY :: int where "EBUSY = 16"
definition ENODEV :: int where "ENODEV = 19"
definition EINVAL :: int where "EINVAL = 22"
definition ENOTTY :: int where "ENOTTY = 25"
definition ENOSYS :: int where "ENOSYS = 38"
definition ETIME :: int where "ETIME = 62"

lemmas errno_defs = ENOENT_def EIO_def ENOMEM_def EACCES_def EFAULT_def EBUSY_def ENODEV_def EINVAL_def
  ENOTTY_def ENOSYS_def ETIME_def

text \<open>\<open>(int) x\<close> for an unsigned 32-bit value.\<close>

definition int_of_u32 :: "u32 \<Rightarrow> int" where
  "int_of_u32 w = sint w"

subsection \<open>The ledger\<close>

definition acquire :: "'r \<Rightarrow> 'r multiset \<Rightarrow> 'r multiset" where
  "acquire r l = add_mset r l"

definition release :: "'r \<Rightarrow> 'r multiset \<Rightarrow> 'r multiset option" where
  "release r l = (if r \<in># l then Some (l - {#r#}) else None)"

named_theorems ledger_simps \<open>acquiring and releasing resources\<close>

lemma release_acquire [ledger_simps]: "release r (acquire r l) = Some l"
  by (simp add: release_def acquire_def)

lemma release_other [ledger_simps]:
  "r \<noteq> s \<Longrightarrow> release r (acquire s l) = map_option (acquire s) (release r l)"
  by (simp add: release_def acquire_def)

lemma release_None_iff: "release r l = None \<longleftrightarrow> r \<notin># l"
  by (simp add: release_def)

lemma release_Some_iff: "release r l = Some l' \<longleftrightarrow> l = acquire r l'"
  by (auto simp: release_def acquire_def)

lemma acquire_commute [ledger_simps]: "acquire r (acquire s l) = acquire s (acquire r l)"
  by (simp add: acquire_def add_mset_commute)

lemma acquire_neq [simp]: "acquire r l \<noteq> l"
  by (simp add: acquire_def)

text \<open>Releasing a list of resources, first to last.\<close>

fun release_all :: "'r list \<Rightarrow> 'r multiset \<Rightarrow> 'r multiset option" where
  "release_all [] l = Some l"
| "release_all (r # rs) l = do { l \<leftarrow> release r l; release_all rs l }"

lemma release_all_mset: "release_all rs (mset rs + l) = Some l"
  by (induction rs) (simp_all add: release_def)

end
