(* ===== verification/Axidma_Types.thy ===== *)
theory Axidma_Types
  imports Kernel_C
begin

text \<open>
  The interface of the AXI DMA driver, \<open>axidma_ioctl.h\<close>: channels, transactions and the encoding of its ioctl
  commands (\<open>_IO\<close>, \<open>_IOR\<close>, \<open>_IOW\<close> of the kernel's \<open>ioctl.h\<close>: direction, size, magic number and number in one
  32-bit word; the structure sizes are those of the LP64 layout).
  An \<open>enum\<close> variable can hold other values than its enumerators, in a \<open>kmalloc\<close>ed structure any; all of those
  are the constructors \<open>AXIDMA_DIR_INVALID\<close> and \<open>AXIDMA_TYPE_INVALID\<close>.
\<close>

unbundle bit_operations_syntax

subsection \<open>Channels\<close>

datatype axidma_dir = AXIDMA_WRITE | AXIDMA_READ | AXIDMA_DIR_INVALID

datatype axidma_type = AXIDMA_DMA | AXIDMA_VDMA | AXIDMA_TYPE_INVALID

record axidma_video_frame =
  fr_height :: int
  fr_width :: int
  fr_depth :: int

record axidma_chan =
  ch_dir :: axidma_dir
  ch_type :: axidma_type
  ch_id :: int
  ch_name :: string
  ch_chan :: "nat option"

record axidma_num_channels =
  nc_channels :: int
  nc_dma_tx :: int
  nc_dma_rx :: int
  nc_vdma_tx :: int
  nc_vdma_rx :: int

subsection \<open>Arguments of the ioctls\<close>

record axidma_register_buffer =
  rb_fd :: int
  rb_size :: u64
  rb_user_addr :: u64

record axidma_transaction =
  tr_wait :: bool
  tr_channel_id :: int
  tr_buf :: u64
  tr_buf_len :: u64

record axidma_inout_transaction =
  io_wait :: bool
  io_tx_channel_id :: int
  io_tx_buf :: u64
  io_tx_buf_len :: u64
  io_tx_frame :: axidma_video_frame
  io_rx_channel_id :: int
  io_rx_buf :: u64
  io_rx_buf_len :: u64
  io_rx_frame :: axidma_video_frame

record axidma_video_transaction =
  vt_channel_id :: int
  vt_num_frame_buffers :: int
  vt_frame_buffers :: "u64 list"
  vt_frame :: axidma_video_frame

subsection \<open>Command numbers\<close>

definition IOC_WRITE :: u32 where "IOC_WRITE = 1"
definition IOC_READ :: u32 where "IOC_READ = 2"

definition IOC :: "u32 \<Rightarrow> u32 \<Rightarrow> u32 \<Rightarrow> u32 \<Rightarrow> u32" where
  "IOC dir ty nr sz = push_bit 30 dir OR push_bit 16 sz OR push_bit 8 ty OR nr"

definition IOC_DIR :: "u32 \<Rightarrow> u32" where "IOC_DIR cmd = drop_bit 30 cmd AND 3"
definition IOC_TYPE :: "u32 \<Rightarrow> u32" where "IOC_TYPE cmd = drop_bit 8 cmd AND 255"
definition IOC_NR :: "u32 \<Rightarrow> u32" where "IOC_NR cmd = cmd AND 255"
definition IOC_SIZE :: "u32 \<Rightarrow> u32" where "IOC_SIZE cmd = drop_bit 16 cmd AND 16383"

definition AXIDMA_IOCTL_MAGIC :: u32 where "AXIDMA_IOCTL_MAGIC = 87"
definition AXIDMA_NUM_IOCTLS :: u32 where "AXIDMA_NUM_IOCTLS = 10"

definition AXIDMA_GET_NUM_DMA_CHANNELS :: u32 where
  "AXIDMA_GET_NUM_DMA_CHANNELS = IOC IOC_WRITE AXIDMA_IOCTL_MAGIC 0 20"
definition AXIDMA_GET_DMA_CHANNELS :: u32 where
  "AXIDMA_GET_DMA_CHANNELS = IOC IOC_READ AXIDMA_IOCTL_MAGIC 1 8"
definition AXIDMA_SET_DMA_SIGNAL :: u32 where
  "AXIDMA_SET_DMA_SIGNAL = IOC 0 AXIDMA_IOCTL_MAGIC 2 0"
definition AXIDMA_REGISTER_BUFFER :: u32 where
  "AXIDMA_REGISTER_BUFFER = IOC IOC_READ AXIDMA_IOCTL_MAGIC 3 24"
definition AXIDMA_DMA_READ :: u32 where
  "AXIDMA_DMA_READ = IOC IOC_READ AXIDMA_IOCTL_MAGIC 4 40"
definition AXIDMA_DMA_WRITE :: u32 where
  "AXIDMA_DMA_WRITE = IOC IOC_READ AXIDMA_IOCTL_MAGIC 5 40"
definition AXIDMA_DMA_READWRITE :: u32 where
  "AXIDMA_DMA_READWRITE = IOC IOC_READ AXIDMA_IOCTL_MAGIC 6 72"
definition AXIDMA_DMA_VIDEO_READ :: u32 where
  "AXIDMA_DMA_VIDEO_READ = IOC IOC_READ AXIDMA_IOCTL_MAGIC 7 32"
definition AXIDMA_DMA_VIDEO_WRITE :: u32 where
  "AXIDMA_DMA_VIDEO_WRITE = IOC IOC_READ AXIDMA_IOCTL_MAGIC 8 32"
definition AXIDMA_STOP_DMA_CHANNEL :: u32 where
  "AXIDMA_STOP_DMA_CHANNEL = IOC IOC_READ AXIDMA_IOCTL_MAGIC 9 32"
definition AXIDMA_UNREGISTER_BUFFER :: u32 where
  "AXIDMA_UNREGISTER_BUFFER = IOC 0 AXIDMA_IOCTL_MAGIC 10 0"

lemmas command_defs = AXIDMA_GET_NUM_DMA_CHANNELS_def AXIDMA_GET_DMA_CHANNELS_def AXIDMA_SET_DMA_SIGNAL_def
  AXIDMA_REGISTER_BUFFER_def AXIDMA_DMA_READ_def AXIDMA_DMA_WRITE_def AXIDMA_DMA_READWRITE_def
  AXIDMA_DMA_VIDEO_READ_def AXIDMA_DMA_VIDEO_WRITE_def AXIDMA_STOP_DMA_CHANNEL_def AXIDMA_UNREGISTER_BUFFER_def

lemmas ioc_eval = command_defs IOC_def IOC_WRITE_def IOC_READ_def IOC_DIR_def IOC_TYPE_def IOC_NR_def
  IOC_SIZE_def AXIDMA_IOCTL_MAGIC_def AXIDMA_NUM_IOCTLS_def

definition all_commands :: "u32 list" where
  "all_commands =
     [AXIDMA_GET_NUM_DMA_CHANNELS, AXIDMA_GET_DMA_CHANNELS, AXIDMA_SET_DMA_SIGNAL, AXIDMA_REGISTER_BUFFER,
      AXIDMA_DMA_READ, AXIDMA_DMA_WRITE, AXIDMA_DMA_READWRITE, AXIDMA_DMA_VIDEO_READ, AXIDMA_DMA_VIDEO_WRITE,
      AXIDMA_STOP_DMA_CHANNEL, AXIDMA_UNREGISTER_BUFFER]"

text \<open>The commands are different, carry the driver's magic number, and are numbered from 0 to 10.\<close>

lemma commands_distinct: "distinct all_commands"
  by (simp add: all_commands_def ioc_eval)

lemma commands_magic: "cmd \<in> set all_commands \<Longrightarrow> IOC_TYPE cmd = AXIDMA_IOCTL_MAGIC"
  by (auto simp: all_commands_def ioc_eval)

lemma commands_numbered: "map IOC_NR all_commands = map of_nat [0..<11]"
  by (simp add: all_commands_def ioc_eval upt_rec)

text \<open>The limit the driver tests admits every command but the last.\<close>

lemma commands_in_range:
  "cmd \<in> set all_commands \<Longrightarrow> IOC_NR cmd \<ge> AXIDMA_NUM_IOCTLS \<longleftrightarrow> cmd = AXIDMA_UNREGISTER_BUFFER"
  by (auto simp: all_commands_def ioc_eval word_le_nat_alt)

end
