(* ===== verification/Axidma_Of.thy ===== *)
theory Axidma_Of
  imports Axidma_Types
begin

text \<open>
  The device-tree part of the AXI DMA driver, \<open>axidma_of.c\<close>: how many channels the driver's node lists, and the
  type, direction, identifier and name of each.
  The device tree and the kernel's functions to read it are parameters: a node is the record of what those
  functions answer for it. Printing an error about a node reads the node's name, so doing it for a \<open>NULL\<close> node
  is undefined (\<open>None\<close>).
\<close>

subsection \<open>Nodes\<close>

text \<open>
  A channel node: its \<open>compatible\<close> strings if it has the property, and its \<open>xlnx,device-id\<close> if it has one (the
  inner \<open>None\<close>: present but not a number).
\<close>

record dt_channel_node =
  dc_compatible :: "string list option"
  dc_device_id :: "u32 option option"

type_synonym dt_dma_node = "dt_channel_node list"

text \<open>The node of the driver: a negative count or error code is what the kernel function returned.\<close>

record dt_driver_node =
  dn_has_dma_names :: bool
  dn_has_dmas :: bool
  dn_count_names :: int
  dn_count_dmas :: int
  dn_name :: "nat \<Rightarrow> string option"
  dn_phandle :: "nat \<Rightarrow> int + dt_dma_node \<times> int list"

subsection \<open>The driver's device\<close>

text \<open>
  The lists of buffers are kept first element first. \<open>ea_live\<close> says whether the memory of a list entry is still
  allocated: reading an entry that has been freed is undefined.
\<close>

record axidma_cb_data =
  cb_channel_id :: int
  cb_notify_signal :: int
  cb_process :: "nat option"
  cb_comp :: bool

record axidma_dma_allocation =
  da_size :: u64
  da_user_addr :: u64
  da_kern_addr :: u64
  da_dma_addr :: u64

record axidma_external_allocation =
  ea_fd :: int
  ea_dma_buf :: nat
  ea_attach :: nat
  ea_sg_table :: nat
  ea_sg_addr :: u64
  ea_size :: u64
  ea_user_addr :: u64
  ea_live :: bool

record axidma_device =
  ad_num_dma_tx_chans :: int
  ad_num_dma_rx_chans :: int
  ad_num_vdma_tx_chans :: int
  ad_num_vdma_rx_chans :: int
  ad_num_chans :: int
  ad_notify_signal :: int
  ad_cb_data :: "axidma_cb_data list"
  ad_channels :: "axidma_chan list"
  ad_dmabuf_list :: "axidma_dma_allocation list"
  ad_external_dmabufs :: "axidma_external_allocation list"

subsection \<open>One channel\<close>

definition is_compatible :: "dt_channel_node \<Rightarrow> string \<Rightarrow> bool" where
  "is_compatible np s = (case dc_compatible np of None \<Rightarrow> False | Some ss \<Rightarrow> s \<in> set ss)"

definition axidma_parse_compatible_property ::
    "dt_channel_node \<Rightarrow> axidma_chan \<Rightarrow> axidma_device \<Rightarrow> axidma_chan \<times> axidma_device \<times> int" where
  "axidma_parse_compatible_property np chan dev =
     (if is_compatible np ''xlnx,axi-dma-mm2s-channel'' then
        (chan\<lparr>ch_type := AXIDMA_DMA, ch_dir := AXIDMA_WRITE\<rparr>,
         dev\<lparr>ad_num_dma_tx_chans := ad_num_dma_tx_chans dev + 1\<rparr>, 0)
      else if is_compatible np ''xlnx,axi-dma-s2mm-channel'' then
        (chan\<lparr>ch_type := AXIDMA_DMA, ch_dir := AXIDMA_READ\<rparr>,
         dev\<lparr>ad_num_dma_rx_chans := ad_num_dma_rx_chans dev + 1\<rparr>, 0)
      else if is_compatible np ''xlnx,axi-vdma-mm2s-channel'' then
        (chan\<lparr>ch_type := AXIDMA_VDMA, ch_dir := AXIDMA_WRITE\<rparr>,
         dev\<lparr>ad_num_vdma_tx_chans := ad_num_vdma_tx_chans dev + 1\<rparr>, 0)
      else if is_compatible np ''xlnx,axi-vdma-s2mm-channel'' then
        (chan\<lparr>ch_type := AXIDMA_VDMA, ch_dir := AXIDMA_READ\<rparr>,
         dev\<lparr>ad_num_vdma_rx_chans := ad_num_vdma_rx_chans dev + 1\<rparr>, 0)
      else if dc_compatible np = None then (chan, dev, 0)
      else (chan, dev, -EINVAL))"

definition axidma_of_parse_dma_name :: "dt_driver_node \<Rightarrow> nat \<Rightarrow> axidma_chan \<Rightarrow> axidma_chan \<times> int" where
  "axidma_of_parse_dma_name node i chan =
     (case dn_name node i of None \<Rightarrow> (chan, -EINVAL) | Some s \<Rightarrow> (chan\<lparr>ch_name := s\<rparr>, 0))"

text \<open>\<open>of_get_next_child\<close>: the first child, and the one behind it.\<close>

definition child :: "dt_dma_node \<Rightarrow> int \<Rightarrow> dt_channel_node option" where
  "child dma_node channel =
     (if channel = 1 then (case dma_node of _ # c # _ \<Rightarrow> Some c | _ \<Rightarrow> None)
      else (case dma_node of c # _ \<Rightarrow> Some c | [] \<Rightarrow> None))"

definition axidma_of_parse_channel ::
    "dt_dma_node \<Rightarrow> int \<Rightarrow> axidma_chan \<Rightarrow> axidma_device \<Rightarrow> (axidma_chan \<times> axidma_device \<times> int) option" where
  "axidma_of_parse_channel dma_node channel chan dev =
     (if length dma_node < 1 then Some (chan, dev, -EINVAL)
      else if length dma_node > 2 then Some (chan, dev, -EINVAL)
      else do {
        np \<leftarrow> child dma_node channel;
        (case dc_device_id np of
           None \<Rightarrow> Some (chan, dev, -EINVAL)
         | Some None \<Rightarrow> Some (chan, dev, -EINVAL)
         | Some (Some channel_id) \<Rightarrow>
             Some (axidma_parse_compatible_property np (chan\<lparr>ch_id := int_of_u32 channel_id\<rparr>) dev))
      })"

subsection \<open>All channels\<close>

text \<open>The inner loop of \<open>axidma_check_unique_ids\<close>, then the outer one: is an identifier found twice?\<close>

definition same_id_behind :: "axidma_chan \<Rightarrow> axidma_chan list \<Rightarrow> bool" where
  "same_id_behind c cs = list_ex (\<lambda>c'. ch_id c = ch_id c') cs"

fun some_id_twice :: "axidma_chan list \<Rightarrow> bool" where
  "some_id_twice [] = False"
| "some_id_twice (c # cs) = (same_id_behind c cs \<or> some_id_twice cs)"

text \<open>The loops run to \<open>num_chans\<close>; a longer run than the array would leave it.\<close>

definition axidma_check_unique_ids :: "axidma_device \<Rightarrow> int option" where
  "axidma_check_unique_ids dev =
     (if nat (ad_num_chans dev) \<le> length (ad_channels dev)
      then Some (if some_id_twice (take (nat (ad_num_chans dev)) (ad_channels dev)) then -EINVAL else 0)
      else None)"

definition axidma_of_num_channels :: "dt_driver_node \<Rightarrow> int" where
  "axidma_of_num_channels node =
     (if \<not> dn_has_dma_names node then -EINVAL
      else if \<not> dn_has_dmas node then -EINVAL
      else if dn_count_names node < 0 then -EINVAL
      else if dn_count_names node = 0 then -EINVAL
      else if dn_count_dmas node < 0 then -EINVAL
      else if dn_count_dmas node = 0 then -EINVAL
      else if dn_count_names node \<noteq> dn_count_dmas node then -EINVAL
      else dn_count_names node)"

text \<open>One iteration of the loop of \<open>axidma_of_parse_dma_nodes\<close>, for channel \<open>i\<close>.\<close>

definition parse_dma_node :: "dt_driver_node \<Rightarrow> nat \<Rightarrow> axidma_device \<Rightarrow> (axidma_device \<times> int) option" where
  "parse_dma_node node i dev =
     (case dn_phandle node i of
        Inl rc \<Rightarrow> Some (dev, rc)
      | Inr (dma_node, args) \<Rightarrow>
          if length args < 1 then Some (dev, -EINVAL)
          else if hd args \<noteq> 0 \<and> hd args \<noteq> 1 then Some (dev, -EINVAL)
          else if i \<ge> length (ad_channels dev) then None
          else do {
            (chan, dev, rc) \<leftarrow> axidma_of_parse_channel dma_node (hd args) (ad_channels dev ! i) dev;
            let dev = dev\<lparr>ad_channels := (ad_channels dev)[i := chan]\<rparr>;
            (if rc < 0 then Some (dev, rc)
             else
               let (chan, rc) = axidma_of_parse_dma_name node i chan;
                   dev = dev\<lparr>ad_channels := (ad_channels dev)[i := chan]\<rparr>
               in Some (dev, rc))
          })"

text \<open>The iterations from \<open>i\<close> on, \<open>n\<close> of them; the kernel's errors are negative.\<close>

primrec parse_dma_nodes_loop :: "dt_driver_node \<Rightarrow> nat \<Rightarrow> nat \<Rightarrow> axidma_device \<Rightarrow> (axidma_device \<times> int) option" where
  "parse_dma_nodes_loop node i 0 dev = Some (dev, 0)"
| "parse_dma_nodes_loop node i (Suc n) dev =
     do { (dev, rc) \<leftarrow> parse_dma_node node i dev;
          (if rc < 0 then Some (dev, rc) else parse_dma_nodes_loop node (Suc i) n dev) }"

definition axidma_of_parse_dma_nodes :: "dt_driver_node \<Rightarrow> axidma_device \<Rightarrow> (axidma_device \<times> int) option" where
  "axidma_of_parse_dma_nodes node dev =
     (let dev = dev\<lparr>ad_num_dma_tx_chans := 0, ad_num_dma_rx_chans := 0,
                    ad_num_vdma_tx_chans := 0, ad_num_vdma_rx_chans := 0\<rparr>
      in do {
        (dev, rc) \<leftarrow> parse_dma_nodes_loop node 0 (nat (ad_num_chans dev)) dev;
        (if rc < 0 then Some (dev, rc)
         else do { rc \<leftarrow> axidma_check_unique_ids dev; Some (dev, rc) })
      })"

subsection \<open>What a successful parse has established\<close>

lemma some_id_twice_iff: "some_id_twice cs \<longleftrightarrow> \<not> distinct (map ch_id cs)"
  by (induction cs) (auto simp: same_id_behind_def list_ex_iff)

definition count_kind :: "axidma_type \<Rightarrow> axidma_dir \<Rightarrow> axidma_chan list \<Rightarrow> int" where
  "count_kind t d cs = int (length (filter (\<lambda>c. ch_type c = t \<and> ch_dir c = d) cs))"

definition valid_kind :: "axidma_chan \<Rightarrow> bool" where
  "valid_kind c \<longleftrightarrow> ch_type c \<in> {AXIDMA_DMA, AXIDMA_VDMA} \<and> ch_dir c \<in> {AXIDMA_WRITE, AXIDMA_READ}"

text \<open>The four counters of the device are those of the channels \<open>cs\<close>, and each of them has a type and a direction.\<close>

definition counted :: "axidma_chan list \<Rightarrow> axidma_device \<Rightarrow> bool" where
  "counted cs dev \<longleftrightarrow>
     ad_num_dma_tx_chans dev = count_kind AXIDMA_DMA AXIDMA_WRITE cs \<and>
     ad_num_dma_rx_chans dev = count_kind AXIDMA_DMA AXIDMA_READ cs \<and>
     ad_num_vdma_tx_chans dev = count_kind AXIDMA_VDMA AXIDMA_WRITE cs \<and>
     ad_num_vdma_rx_chans dev = count_kind AXIDMA_VDMA AXIDMA_READ cs \<and> list_all valid_kind cs"

lemma counted_channels [simp]: "counted cs (dev\<lparr>ad_channels := x\<rparr>) = counted cs dev"
  by (simp add: counted_def)

lemma counted_ids [simp]:
  "counted (cs @ [c\<lparr>ch_id := n\<rparr>]) dev = counted (cs @ [c]) dev" "counted (cs @ [c\<lparr>ch_name := s\<rparr>]) dev = counted (cs @ [c]) dev"
  by (simp_all add: counted_def count_kind_def valid_kind_def)

lemma count_kind_snoc: "count_kind t d (cs @ [c]) = count_kind t d cs + (if ch_type c = t \<and> ch_dir c = d then 1 else 0)"
  by (simp add: count_kind_def)

text \<open>What the parser never touches.\<close>

definition same_setup :: "axidma_device \<Rightarrow> axidma_device \<Rightarrow> bool" where
  "same_setup dev dev' \<longleftrightarrow> ad_num_chans dev' = ad_num_chans dev \<and> ad_cb_data dev' = ad_cb_data dev \<and>
     length (ad_channels dev') = length (ad_channels dev) \<and> ad_dmabuf_list dev' = ad_dmabuf_list dev \<and>
     ad_external_dmabufs dev' = ad_external_dmabufs dev"

lemma same_setup_refl [simp]: "same_setup dev dev"
  by (simp add: same_setup_def)

lemma same_setup_trans: "same_setup a b \<Longrightarrow> same_setup b c \<Longrightarrow> same_setup a c"
  by (simp add: same_setup_def)

lemma parse_compatible_frame:
  assumes "axidma_parse_compatible_property np chan dev = (chan', dev', rc)"
  shows "same_setup dev dev'" "ad_channels dev' = ad_channels dev" "rc \<le> 0" "ch_id chan' = ch_id chan"
  using assms unfolding axidma_parse_compatible_property_def same_setup_def errno_defs
  by (simp_all split: if_split_asm) auto

lemma parse_compatible_cases:
  assumes "axidma_parse_compatible_property np chan dev = (chan', dev', rc)" "rc = 0" "dc_compatible np \<noteq> None"
  obtains
    "chan' = chan\<lparr>ch_type := AXIDMA_DMA, ch_dir := AXIDMA_WRITE\<rparr>" "dev' = dev\<lparr>ad_num_dma_tx_chans := ad_num_dma_tx_chans dev + 1\<rparr>"
  | "chan' = chan\<lparr>ch_type := AXIDMA_DMA, ch_dir := AXIDMA_READ\<rparr>" "dev' = dev\<lparr>ad_num_dma_rx_chans := ad_num_dma_rx_chans dev + 1\<rparr>"
  | "chan' = chan\<lparr>ch_type := AXIDMA_VDMA, ch_dir := AXIDMA_WRITE\<rparr>" "dev' = dev\<lparr>ad_num_vdma_tx_chans := ad_num_vdma_tx_chans dev + 1\<rparr>"
  | "chan' = chan\<lparr>ch_type := AXIDMA_VDMA, ch_dir := AXIDMA_READ\<rparr>" "dev' = dev\<lparr>ad_num_vdma_rx_chans := ad_num_vdma_rx_chans dev + 1\<rparr>"
  using assms unfolding axidma_parse_compatible_property_def errno_defs
  by (simp split: if_split_asm)

lemma parse_compatible_counts:
  assumes "axidma_parse_compatible_property np chan dev = (chan', dev', rc)"
    and "dc_compatible np \<noteq> None" "rc = 0" "counted cs dev"
  shows "counted (cs @ [chan']) dev'"
  using assms(4) by (cases rule: parse_compatible_cases [OF assms(1,3,2)])
    (simp_all add: counted_def count_kind_snoc valid_kind_def)

text \<open>
  What the code relies on: the kernel's errors are negative, every channel node has a \<open>compatible\<close> property, and
  channel 1 is only named of a node that has a second child.
\<close>

definition tree_ok :: "dt_driver_node \<Rightarrow> bool" where
  "tree_ok node \<longleftrightarrow> (\<forall>i. case dn_phandle node i of
     Inl rc \<Rightarrow> rc < 0
   | Inr (dma_node, args) \<Rightarrow> (\<forall>c \<in> set dma_node. dc_compatible c \<noteq> None) \<and> (args \<noteq> [] \<and> hd args = 1 \<longrightarrow> length dma_node \<noteq> 1))"

lemma child_some:
  assumes "length dma_node = 1 \<or> length dma_node = 2" "channel = 1 \<longrightarrow> length dma_node \<noteq> 1"
  shows "\<exists>c \<in> set dma_node. child dma_node channel = Some c"
  using assms by (auto simp: child_def length_Suc_conv numeral_2_eq_2 split: list.split)

lemma parse_channel_ok:
  assumes comp: "\<forall>c \<in> set dma_node. dc_compatible c \<noteq> None" and two: "channel = 1 \<longrightarrow> length dma_node \<noteq> 1"
  shows "\<exists>chan' dev' rc. axidma_of_parse_channel dma_node channel chan dev = Some (chan', dev', rc) \<and>
    same_setup dev dev' \<and> ad_channels dev' = ad_channels dev \<and> rc \<le> 0 \<and>
    (rc = 0 \<and> counted cs dev \<longrightarrow> counted (cs @ [chan']) dev')"
proof (cases "length dma_node < 1 \<or> length dma_node > 2")
  case True
  then show ?thesis by (auto simp: axidma_of_parse_channel_def errno_defs)
next
  case False
  then obtain c where c: "c \<in> set dma_node" "child dma_node channel = Some c"
    using child_some [of dma_node channel] two by (auto simp: numeral_2_eq_2 less_Suc_eq not_less le_Suc_eq)
  show ?thesis
  proof (cases "\<exists>id. dc_device_id c = Some (Some id)")
    case False': False
    then show ?thesis using False c by (auto simp: axidma_of_parse_channel_def errno_defs split: option.split)
  next
    case True
    then obtain id where id: "dc_device_id c = Some (Some id)" by blast
    obtain chan' dev' rc where p: "axidma_parse_compatible_property c (chan\<lparr>ch_id := int_of_u32 id\<rparr>) dev = (chan', dev', rc)"
      by (cases "axidma_parse_compatible_property c (chan\<lparr>ch_id := int_of_u32 id\<rparr>) dev")
    note r = parse_compatible_frame [OF p] parse_compatible_counts [OF p]
    have "axidma_of_parse_channel dma_node channel chan dev = Some (chan', dev', rc)"
      using False c id p by (simp add: axidma_of_parse_channel_def)
    with r comp c(1) show ?thesis by blast
  qed
qed

lemma parse_dma_node_ok:
  assumes tree: "tree_ok node" and i: "i < length (ad_channels dev)" and cnt: "counted (take i (ad_channels dev)) dev"
  shows "\<exists>dev' rc. parse_dma_node node i dev = Some (dev', rc) \<and> same_setup dev dev' \<and> rc \<le> 0 \<and>
    (rc = 0 \<longrightarrow> counted (take (Suc i) (ad_channels dev')) dev')"
proof (cases "dn_phandle node i")
  case (Inl rc)
  then have "rc < 0" using tree by (auto simp: tree_ok_def split: sum.splits dest: spec [of _ i])
  then show ?thesis by (simp add: parse_dma_node_def Inl)
next
  case (Inr p)
  obtain dma_node args where p: "p = (dma_node, args)" by fastforce
  have t: "\<forall>c \<in> set dma_node. dc_compatible c \<noteq> None" "args \<noteq> [] \<and> hd args = 1 \<longrightarrow> length dma_node \<noteq> 1"
    using tree Inr p by (auto simp: tree_ok_def split: sum.splits dest!: spec [of _ i])
  show ?thesis
  proof (cases "length args < 1 \<or> (hd args \<noteq> 0 \<and> hd args \<noteq> 1)")
    case True
    then show ?thesis by (auto simp: parse_dma_node_def Inr p errno_defs)
  next
    case False
    obtain chan' dev' rc where c: "axidma_of_parse_channel dma_node (hd args) (ad_channels dev ! i) dev = Some (chan', dev', rc)"
        "same_setup dev dev'" "ad_channels dev' = ad_channels dev" "rc \<le> 0"
        "rc = 0 \<and> counted (take i (ad_channels dev)) dev \<longrightarrow> counted (take i (ad_channels dev) @ [chan']) dev'"
      using parse_channel_ok [OF t(1), of "hd args" "ad_channels dev ! i" dev "take i (ad_channels dev)"] False t(2) by auto
    have tk: "take (Suc i) ((ad_channels dev)[i := x]) = take i (ad_channels dev) @ [x]" for x
      using i by (simp add: take_Suc_conv_app_nth)
    show ?thesis
      using False i c cnt
      by (auto simp: parse_dma_node_def Inr p axidma_of_parse_dma_name_def same_setup_def tk errno_defs Let_def
          split: option.split)
  qed
qed

lemma parse_loop_ok:
  assumes tree: "tree_ok node"
  shows "i + n \<le> length (ad_channels dev) \<Longrightarrow> counted (take i (ad_channels dev)) dev \<Longrightarrow>
    \<exists>dev' rc. parse_dma_nodes_loop node i n dev = Some (dev', rc) \<and> same_setup dev dev' \<and> rc \<le> 0 \<and>
      (rc = 0 \<longrightarrow> counted (take (i + n) (ad_channels dev')) dev')"
proof (induction n arbitrary: i dev)
  case 0
  then show ?case by simp
next
  case (Suc n)
  obtain dev1 rc1 where s: "parse_dma_node node i dev = Some (dev1, rc1)" "same_setup dev dev1" "rc1 \<le> 0"
      "rc1 = 0 \<longrightarrow> counted (take (Suc i) (ad_channels dev1)) dev1"
    using parse_dma_node_ok [OF tree _ Suc.prems(2)] Suc.prems(1) by auto
  show ?case
  proof (cases "rc1 < 0")
    case True
    then show ?thesis using s by auto
  next
    case False
    then have z: "rc1 = 0" using s(3) by simp
    have "Suc i + n \<le> length (ad_channels dev1)" using s(2) Suc.prems(1) by (simp add: same_setup_def)
    from Suc.IH [OF this] s(4) z obtain dev' rc where
      r: "parse_dma_nodes_loop node (Suc i) n dev1 = Some (dev', rc)" "same_setup dev1 dev'" "rc \<le> 0"
        "rc = 0 \<longrightarrow> counted (take (Suc i + n) (ad_channels dev')) dev'"
      by blast
    with s z show ?thesis by (auto intro: same_setup_trans)
  qed
qed

text \<open>
  A parse that succeeds has given every channel a type and a direction, counted each kind correctly, and checked that
  no two channels share an identifier.
\<close>

lemma parse_dma_nodes_ok:
  assumes tree: "tree_ok node" and room: "nat (ad_num_chans dev) \<le> length (ad_channels dev)"
  shows "\<exists>dev' rc. axidma_of_parse_dma_nodes node dev = Some (dev', rc) \<and> same_setup dev dev' \<and> rc \<le> 0 \<and>
    (rc = 0 \<longrightarrow> counted (take (nat (ad_num_chans dev)) (ad_channels dev')) dev' \<and>
       distinct (map ch_id (take (nat (ad_num_chans dev)) (ad_channels dev'))))"
proof -
  let ?dev = "dev\<lparr>ad_num_dma_tx_chans := 0, ad_num_dma_rx_chans := 0, ad_num_vdma_tx_chans := 0, ad_num_vdma_rx_chans := 0\<rparr>"
  have "counted (take 0 (ad_channels ?dev)) ?dev" by (simp add: counted_def count_kind_def)
  from parse_loop_ok [OF tree _ this, of "nat (ad_num_chans dev)"] room obtain dev' rc where
    r: "parse_dma_nodes_loop node 0 (nat (ad_num_chans dev)) ?dev = Some (dev', rc)" "same_setup ?dev dev'" "rc \<le> 0"
      "rc = 0 \<longrightarrow> counted (take (nat (ad_num_chans dev)) (ad_channels dev')) dev'"
    by auto
  have s: "same_setup dev dev'" using r(2) by (simp add: same_setup_def)
  have u: "axidma_check_unique_ids dev' =
      Some (if distinct (map ch_id (take (nat (ad_num_chans dev)) (ad_channels dev'))) then 0 else -EINVAL)"
    using s room by (simp add: axidma_check_unique_ids_def some_id_twice_iff same_setup_def)
  show ?thesis
    using r s u by (auto simp: axidma_of_parse_dma_nodes_def errno_defs)
qed

text \<open>
  Outside that contract the parse goes wrong: naming channel 1 of a node with one child prints the name of a \<open>NULL\<close>
  node, and a channel without \<open>compatible\<close> is accepted with whatever type and direction its memory held.
\<close>

lemma missing_child_crashes:
  assumes "dn_phandle node i = Inr ([c], [1])" "i < length (ad_channels dev)"
  shows "parse_dma_node node i dev = None"
  using assms by (simp add: parse_dma_node_def axidma_of_parse_channel_def child_def)

lemma missing_compatible_accepted:
  assumes "dn_phandle node i = Inr ([c], [0])" "i < length (ad_channels dev)"
    and "dc_compatible c = None" "dc_device_id c = Some (Some n)" "dn_name node i = Some s"
  shows "parse_dma_node node i dev = Some (dev\<lparr>ad_channels := (ad_channels dev)[i :=
    (ad_channels dev ! i)\<lparr>ch_id := int_of_u32 n, ch_name := s\<rparr>]\<rparr>, 0)"
  using assms
  by (simp add: parse_dma_node_def axidma_of_parse_channel_def child_def axidma_parse_compatible_property_def
      is_compatible_def axidma_of_parse_dma_name_def Let_def)

end
