(* ===== verification/Libaxidma.thy ===== *)
theory Libaxidma
  imports Axidma_Of
begin

text \<open>
  The user-space library over the AXI DMA driver, \<open>libaxidma.c\<close>. The system calls are parameters over a system
  state \<open>'s\<close>: \<open>lib_env\<close>. An ioctl takes its command and the structure behind its pointer, and answers its result
  and what it wrote to the user. A failing assertion, an access outside an array, to freed memory or to memory
  that was never written is \<open>None\<close>. The library has one device, the global \<open>axidma_dev\<close>.
\<close>

subsection \<open>The system\<close>

datatype ioctl_arg = Arg_counts | Arg_channels nat | Arg_value u64 | Arg_buffer axidma_register_buffer
  | Arg_trans axidma_transaction | Arg_inout axidma_inout_transaction | Arg_video axidma_video_transaction
  | Arg_chan axidma_chan

datatype ioctl_out = Out_none | Out_counts axidma_num_channels | Out_channels "axidma_chan list"

record 's lib_env =
  le_open :: "'s \<Rightarrow> 's \<times> int"
  le_close :: "'s \<Rightarrow> int \<Rightarrow> 's \<times> int"
  le_ioctl :: "'s \<Rightarrow> int \<Rightarrow> u32 \<Rightarrow> ioctl_arg \<Rightarrow> ('s \<times> int \<times> ioctl_out) option"
  le_sigaction :: "'s \<Rightarrow> int \<Rightarrow> 's \<times> int"
  le_malloc :: "'s \<Rightarrow> int \<Rightarrow> 's \<times> bool"
  le_mmap :: "'s \<Rightarrow> int \<Rightarrow> u64 \<Rightarrow> 's \<times> u64 option"
  le_munmap :: "'s \<Rightarrow> u64 \<Rightarrow> u64 \<Rightarrow> 's \<times> int"

text \<open>The first real-time signal a program can use.\<close>

definition SIGRTMIN :: int where "SIGRTMIN = 34"

subsection \<open>Memory blocks\<close>

text \<open>A pointer to memory of the heap; a cell that was never written is \<open>None\<close>.\<close>

datatype 'a block = Null | Freed | Block "'a option list"

definition free_block :: "'a block \<Rightarrow> 'a block option" where
  "free_block b = (case b of Null \<Rightarrow> Some Null | Freed \<Rightarrow> None | Block _ \<Rightarrow> Some Freed)"

definition block_store :: "'a block \<Rightarrow> int \<Rightarrow> 'a \<Rightarrow> 'a block option" where
  "block_store b i x =
     (case b of Block xs \<Rightarrow> if 0 \<le> i \<and> nat i < length xs then Some (Block (xs[nat i := Some x])) else None | _ \<Rightarrow> None)"

definition block_load :: "'a block \<Rightarrow> int \<Rightarrow> 'a option" where
  "block_load b i =
     (case b of Block xs \<Rightarrow> if 0 \<le> i \<and> nat i < length xs then xs ! nat i else None | _ \<Rightarrow> None)"

subsection \<open>The device\<close>

record array_t =
  at_len :: int
  at_data :: "int block"

text \<open>A callback and its user data are numbers that name them.\<close>

record dma_channel =
  dc_dir :: axidma_dir
  dc_type :: axidma_type
  dc_channel_id :: int
  dc_callback :: "nat option"
  dc_user_data :: nat

record axidma_dev =
  ax_initialized :: bool
  ax_fd :: int
  ax_dma_tx :: array_t
  ax_dma_rx :: array_t
  ax_vdma_tx :: array_t
  ax_vdma_rx :: array_t
  ax_num_channels :: int
  ax_channels :: "dma_channel block"

text \<open>The global device of a program that has just started.\<close>

definition zeroed_dev :: axidma_dev where
  "zeroed_dev =
     \<lparr>ax_initialized = False, ax_fd = 0,
      ax_dma_tx = \<lparr>at_len = 0, at_data = Null\<rparr>, ax_dma_rx = \<lparr>at_len = 0, at_data = Null\<rparr>,
      ax_vdma_tx = \<lparr>at_len = 0, at_data = Null\<rparr>, ax_vdma_rx = \<lparr>at_len = 0, at_data = Null\<rparr>,
      ax_num_channels = 0, ax_channels = Null\<rparr>"

subsection \<open>Sorting the channels\<close>

definition fresh :: "int \<Rightarrow> 'a block" where
  "fresh n = Block (replicate (nat n) None)"

text \<open>\<open>array->data[array->len] = id; array->len += 1\<close>.\<close>

definition push_id :: "int \<Rightarrow> array_t \<Rightarrow> array_t option" where
  "push_id i a = do { d \<leftarrow> block_store (at_data a) (at_len a) i; Some \<lparr>at_len = at_len a + 1, at_data = d\<rparr> }"

text \<open>The array for a channel's kind gets its identifier; the assertion fails for a channel of no kind.\<close>

definition place_id :: "axidma_chan \<Rightarrow> axidma_dev \<Rightarrow> axidma_dev option" where
  "place_id chan dev =
     (if ch_dir chan = AXIDMA_WRITE \<and> ch_type chan = AXIDMA_DMA then
        do { a \<leftarrow> push_id (ch_id chan) (ax_dma_tx dev); Some (dev\<lparr>ax_dma_tx := a\<rparr>) }
      else if ch_dir chan = AXIDMA_READ \<and> ch_type chan = AXIDMA_DMA then
        do { a \<leftarrow> push_id (ch_id chan) (ax_dma_rx dev); Some (dev\<lparr>ax_dma_rx := a\<rparr>) }
      else if ch_dir chan = AXIDMA_WRITE \<and> ch_type chan = AXIDMA_VDMA then
        do { a \<leftarrow> push_id (ch_id chan) (ax_vdma_tx dev); Some (dev\<lparr>ax_vdma_tx := a\<rparr>) }
      else if ch_dir chan = AXIDMA_READ \<and> ch_type chan = AXIDMA_VDMA then
        do { a \<leftarrow> push_id (ch_id chan) (ax_vdma_rx dev); Some (dev\<lparr>ax_vdma_rx := a\<rparr>) }
      else None)"

definition new_channel :: "axidma_chan \<Rightarrow> dma_channel" where
  "new_channel chan =
     \<lparr>dc_dir = ch_dir chan, dc_type = ch_type chan, dc_channel_id = ch_id chan, dc_callback = None, dc_user_data = 0\<rparr>"

fun place_channels :: "axidma_chan list \<Rightarrow> int \<Rightarrow> axidma_dev \<Rightarrow> axidma_dev option" where
  "place_channels [] i dev = Some dev"
| "place_channels (chan # chans) i dev =
     do { dev \<leftarrow> place_id chan dev;
          cs \<leftarrow> block_store (ax_channels dev) i (new_channel chan);
          place_channels chans (i + 1) (dev\<lparr>ax_channels := cs\<rparr>) }"

text \<open>
  The five allocations, each undone when a later one fails; the pointers of the device then dangle. The sizes are those
  of LP64.
\<close>

definition categorize_channels ::
    "'s lib_env \<Rightarrow> 's \<Rightarrow> axidma_dev \<Rightarrow> axidma_chan list \<Rightarrow> axidma_num_channels \<Rightarrow> ('s \<times> axidma_dev \<times> int) option" where
  "categorize_channels env s dev channels num =
     (let (s, ok) = le_malloc env s (nc_channels num * 32) in
      if \<not> ok then Some (s, dev\<lparr>ax_channels := Null\<rparr>, - ENOMEM) else
      let dev = dev\<lparr>ax_channels := fresh (nc_channels num)\<rparr>;
          (s, ok) = le_malloc env s (nc_dma_tx num * 4) in
      if \<not> ok then Some (s, dev\<lparr>ax_dma_tx := (ax_dma_tx dev)\<lparr>at_data := Null\<rparr>, ax_channels := Freed\<rparr>, - ENOMEM) else
      let dev = dev\<lparr>ax_dma_tx := (ax_dma_tx dev)\<lparr>at_data := fresh (nc_dma_tx num)\<rparr>\<rparr>;
          (s, ok) = le_malloc env s (nc_dma_rx num * 4) in
      if \<not> ok then Some (s, dev\<lparr>ax_dma_rx := (ax_dma_rx dev)\<lparr>at_data := Null\<rparr>, ax_channels := Freed,
        ax_dma_tx := (ax_dma_tx dev)\<lparr>at_data := Freed\<rparr>\<rparr>, - ENOMEM) else
      let dev = dev\<lparr>ax_dma_rx := (ax_dma_rx dev)\<lparr>at_data := fresh (nc_dma_rx num)\<rparr>\<rparr>;
          (s, ok) = le_malloc env s (nc_vdma_tx num * 4) in
      if \<not> ok then Some (s, dev\<lparr>ax_vdma_tx := (ax_vdma_tx dev)\<lparr>at_data := Null\<rparr>, ax_channels := Freed,
        ax_dma_tx := (ax_dma_tx dev)\<lparr>at_data := Freed\<rparr>, ax_dma_rx := (ax_dma_rx dev)\<lparr>at_data := Freed\<rparr>\<rparr>, - ENOMEM) else
      let dev = dev\<lparr>ax_vdma_tx := (ax_vdma_tx dev)\<lparr>at_data := fresh (nc_vdma_tx num)\<rparr>\<rparr>;
          (s, ok) = le_malloc env s (nc_vdma_rx num * 4) in
      if \<not> ok then Some (s, dev\<lparr>ax_vdma_rx := (ax_vdma_rx dev)\<lparr>at_data := Null\<rparr>, ax_channels := Freed,
        ax_dma_tx := (ax_dma_tx dev)\<lparr>at_data := Freed\<rparr>, ax_dma_rx := (ax_dma_rx dev)\<lparr>at_data := Freed\<rparr>,
        ax_vdma_tx := (ax_vdma_tx dev)\<lparr>at_data := Freed\<rparr>\<rparr>, - ENOMEM) else
      let dev = dev\<lparr>ax_vdma_rx := (ax_vdma_rx dev)\<lparr>at_data := fresh (nc_vdma_rx num)\<rparr>,
                     ax_num_channels := nc_channels num\<rparr> in
      if int (length channels) < nc_channels num then None
      else do { dev \<leftarrow> place_channels (take (nat (nc_channels num)) channels) 0 dev; Some (s, dev, 0) })"

definition probe_channels :: "'s lib_env \<Rightarrow> 's \<Rightarrow> axidma_dev \<Rightarrow> ('s \<times> axidma_dev \<times> int) option" where
  "probe_channels env s dev =
     do { (s, rc, out) \<leftarrow> le_ioctl env s (ax_fd dev) AXIDMA_GET_NUM_DMA_CHANNELS Arg_counts;
          (if rc < 0 then Some (s, dev, rc)
           else case out of
             Out_counts num \<Rightarrow>
               if nc_channels num = 0 then Some (s, dev, - ENODEV)
               else
                 let (s, ok) = le_malloc env s (nc_channels num * 32) in
                 if \<not> ok then Some (s, dev, - ENOMEM)
                 else do {
                   (s, rc, out) \<leftarrow> le_ioctl env s (ax_fd dev) AXIDMA_GET_DMA_CHANNELS (Arg_channels (nat (nc_channels num)));
                   (if rc < 0 then Some (s, dev, rc)
                    else case out of
                      Out_channels channels \<Rightarrow> categorize_channels env s dev channels num
                    | _ \<Rightarrow> None)
                 }
           | _ \<Rightarrow> None) }"

subsection \<open>Callbacks\<close>

text \<open>What the signal handler calls: the callback with the channel's number and the user data.\<close>

definition axidma_callback :: "axidma_dev \<Rightarrow> int \<Rightarrow> (nat \<times> int \<times> nat) option option" where
  "axidma_callback dev si_int =
     (if \<not> (0 \<le> si_int \<and> si_int < ax_num_channels dev) then None
      else do {
        chan \<leftarrow> block_load (ax_channels dev) si_int;
        Some (map_option (\<lambda>cb. (cb, si_int, dc_user_data chan)) (dc_callback chan))
      })"

definition setup_dma_callback :: "'s lib_env \<Rightarrow> 's \<Rightarrow> axidma_dev \<Rightarrow> ('s \<times> int) option" where
  "setup_dma_callback env s dev =
     (let (s, rc) = le_sigaction env s SIGRTMIN in
      if rc < 0 then Some (s, rc)
      else do {
        (s, rc, _) \<leftarrow> le_ioctl env s (ax_fd dev) AXIDMA_SET_DMA_SIGNAL (Arg_value (word_of_int SIGRTMIN));
        Some (s, if rc < 0 then rc else 0)
      })"

text \<open>The index of the entry with an identifier; the outer \<open>None\<close> is a read outside the table.\<close>

fun find_from :: "dma_channel block \<Rightarrow> int \<Rightarrow> int \<Rightarrow> nat \<Rightarrow> int option option" where
  "find_from cs channel_id i 0 = Some None"
| "find_from cs channel_id i (Suc n) =
     do { c \<leftarrow> block_load cs i;
          (if dc_channel_id c = channel_id then Some (Some i) else find_from cs channel_id (i + 1) n) }"

definition find_channel :: "axidma_dev \<Rightarrow> int \<Rightarrow> int option option" where
  "find_channel dev channel_id = find_from (ax_channels dev) channel_id 0 (nat (ax_num_channels dev))"

text \<open>\<open>assert(find_channel(dev, channel) != NULL)\<close>, and the entry.\<close>

definition known_channel :: "axidma_dev \<Rightarrow> int \<Rightarrow> dma_channel option" where
  "known_channel dev channel =
     do { r \<leftarrow> find_channel dev channel; i \<leftarrow> r; block_load (ax_channels dev) i }"

definition dir_to_ioctl :: "axidma_dir \<Rightarrow> u32 option" where
  "dir_to_ioctl dir =
     (case dir of AXIDMA_READ \<Rightarrow> Some AXIDMA_DMA_READ | AXIDMA_WRITE \<Rightarrow> Some AXIDMA_DMA_WRITE | _ \<Rightarrow> None)"

subsection \<open>Initialisation\<close>

text \<open>The flag tells whether the result is the device or \<open>NULL\<close>.\<close>

definition axidma_init :: "'s lib_env \<Rightarrow> 's \<Rightarrow> axidma_dev \<Rightarrow> ('s \<times> axidma_dev \<times> bool) option" where
  "axidma_init env s dev =
     (if ax_initialized dev then None
      else
        let (s, fd) = le_open env s;
            dev = dev\<lparr>ax_fd := fd\<rparr> in
        if fd < 0 then Some (s, dev, False)
        else do {
          (s, dev, rc) \<leftarrow> probe_channels env s dev;
          (if rc < 0 then Some (fst (le_close env s (ax_fd dev)), dev, False)
           else do {
             (s, rc) \<leftarrow> setup_dma_callback env s dev;
             (if rc < 0 then Some (fst (le_close env s (ax_fd dev)), dev, False)
              else Some (s, dev\<lparr>ax_initialized := True\<rparr>, True))
           })
        })"

text \<open>The lengths of the arrays stay as they are.\<close>

definition axidma_destroy :: "'s lib_env \<Rightarrow> 's \<Rightarrow> axidma_dev \<Rightarrow> ('s \<times> axidma_dev) option" where
  "axidma_destroy env s dev =
     do { vrx \<leftarrow> free_block (at_data (ax_vdma_rx dev));
          vtx \<leftarrow> free_block (at_data (ax_vdma_tx dev));
          rx \<leftarrow> free_block (at_data (ax_dma_rx dev));
          tx \<leftarrow> free_block (at_data (ax_dma_tx dev));
          cs \<leftarrow> free_block (ax_channels dev);
          let (s, rc) = le_close env s (ax_fd dev);
          (if rc < 0 then None
           else Some (s, dev\<lparr>ax_vdma_rx := (ax_vdma_rx dev)\<lparr>at_data := vrx\<rparr>, ax_vdma_tx := (ax_vdma_tx dev)\<lparr>at_data := vtx\<rparr>,
             ax_dma_rx := (ax_dma_rx dev)\<lparr>at_data := rx\<rparr>, ax_dma_tx := (ax_dma_tx dev)\<lparr>at_data := tx\<rparr>,
             ax_channels := cs, ax_initialized := False\<rparr>)) }"

definition axidma_get_dma_tx :: "axidma_dev \<Rightarrow> array_t" where "axidma_get_dma_tx dev = ax_dma_tx dev"
definition axidma_get_dma_rx :: "axidma_dev \<Rightarrow> array_t" where "axidma_get_dma_rx dev = ax_dma_rx dev"
definition axidma_get_vdma_tx :: "axidma_dev \<Rightarrow> array_t" where "axidma_get_vdma_tx dev = ax_vdma_tx dev"
definition axidma_get_vdma_rx :: "axidma_dev \<Rightarrow> array_t" where "axidma_get_vdma_rx dev = ax_vdma_rx dev"

subsection \<open>Buffers\<close>

definition axidma_malloc :: "'s lib_env \<Rightarrow> 's \<Rightarrow> axidma_dev \<Rightarrow> u64 \<Rightarrow> 's \<times> u64 option" where
  "axidma_malloc env s dev sz = le_mmap env s (ax_fd dev) sz"

definition axidma_free :: "'s lib_env \<Rightarrow> 's \<Rightarrow> u64 \<Rightarrow> u64 \<Rightarrow> 's option" where
  "axidma_free env s addr sz = (let (s, rc) = le_munmap env s addr sz in if rc < 0 then None else Some s)"

text \<open>The channel is looked up by its identifier and then used as an index.\<close>

definition axidma_set_callback :: "axidma_dev \<Rightarrow> int \<Rightarrow> nat option \<Rightarrow> nat \<Rightarrow> axidma_dev option" where
  "axidma_set_callback dev channel callback user_data =
     do { _ \<leftarrow> known_channel dev channel;
          c \<leftarrow> block_load (ax_channels dev) channel;
          cs \<leftarrow> block_store (ax_channels dev) channel (c\<lparr>dc_callback := callback, dc_user_data := user_data\<rparr>);
          Some (dev\<lparr>ax_channels := cs\<rparr>) }"

definition axidma_register_buffer_call ::
    "'s lib_env \<Rightarrow> 's \<Rightarrow> axidma_dev \<Rightarrow> int \<Rightarrow> u64 \<Rightarrow> u64 \<Rightarrow> ('s \<times> int) option" where
  "axidma_register_buffer_call env s dev dmabuf_fd user_addr sz =
     do { (s, rc, _) \<leftarrow> le_ioctl env s (ax_fd dev) AXIDMA_REGISTER_BUFFER
            (Arg_buffer \<lparr>rb_fd = dmabuf_fd, rb_size = sz, rb_user_addr = user_addr\<rparr>);
          Some (s, rc) }"

definition axidma_unregister_buffer :: "'s lib_env \<Rightarrow> 's \<Rightarrow> axidma_dev \<Rightarrow> u64 \<Rightarrow> 's option" where
  "axidma_unregister_buffer env s dev user_addr =
     do { (s, rc, _) \<leftarrow> le_ioctl env s (ax_fd dev) AXIDMA_UNREGISTER_BUFFER (Arg_value user_addr);
          (if rc < 0 then None else Some s) }"

subsection \<open>Transfers\<close>

definition axidma_oneway_transfer ::
    "'s lib_env \<Rightarrow> 's \<Rightarrow> axidma_dev \<Rightarrow> int \<Rightarrow> u64 \<Rightarrow> u64 \<Rightarrow> bool \<Rightarrow> ('s \<times> int) option" where
  "axidma_oneway_transfer env s dev channel buf len wait =
     do { dma_chan \<leftarrow> known_channel dev channel;
          cmd \<leftarrow> dir_to_ioctl (dc_dir dma_chan);
          (s, rc, _) \<leftarrow> le_ioctl env s (ax_fd dev) cmd
            (Arg_trans \<lparr>tr_wait = wait, tr_channel_id = channel, tr_buf = buf, tr_buf_len = len\<rparr>);
          Some (s, if rc < 0 then rc else 0) }"

text \<open>A frame that is \<open>NULL\<close> is filled with bytes of ones.\<close>

definition frame_or_default :: "axidma_video_frame option \<Rightarrow> axidma_video_frame" where
  "frame_or_default f = (case f of None \<Rightarrow> \<lparr>fr_height = -1, fr_width = -1, fr_depth = -1\<rparr> | Some f \<Rightarrow> f)"

definition axidma_twoway_transfer ::
    "'s lib_env \<Rightarrow> 's \<Rightarrow> axidma_dev \<Rightarrow> int \<Rightarrow> u64 \<Rightarrow> u64 \<Rightarrow> axidma_video_frame option \<Rightarrow> int \<Rightarrow> u64 \<Rightarrow> u64
       \<Rightarrow> axidma_video_frame option \<Rightarrow> bool \<Rightarrow> ('s \<times> int) option" where
  "axidma_twoway_transfer env s dev tx_channel tx_buf tx_len tx_frame rx_channel rx_buf rx_len rx_frame wait =
     do { tx \<leftarrow> known_channel dev tx_channel;
          rx \<leftarrow> (if dc_dir tx = AXIDMA_WRITE then known_channel dev rx_channel else None);
          (if dc_dir rx \<noteq> AXIDMA_READ then None
           else do {
             (s, rc, _) \<leftarrow> le_ioctl env s (ax_fd dev) AXIDMA_DMA_READWRITE (Arg_inout
               \<lparr>io_wait = wait, io_tx_channel_id = tx_channel, io_tx_buf = tx_buf, io_tx_buf_len = tx_len,
                io_tx_frame = frame_or_default tx_frame, io_rx_channel_id = rx_channel, io_rx_buf = rx_buf,
                io_rx_buf_len = rx_len, io_rx_frame = frame_or_default rx_frame\<rparr>);
             Some (s, rc)
           }) }"

definition int_of_size :: "u64 \<Rightarrow> int" where
  "int_of_size n = int_of_u32 (ucast n)"

definition axidma_video_transfer_call ::
    "'s lib_env \<Rightarrow> 's \<Rightarrow> axidma_dev \<Rightarrow> int \<Rightarrow> u64 \<Rightarrow> u64 \<Rightarrow> u64 \<Rightarrow> u64 list \<Rightarrow> int \<Rightarrow> ('s \<times> int) option" where
  "axidma_video_transfer_call env s dev display_channel width height depth frame_buffers num_buffers =
     do { dma_chan \<leftarrow> known_channel dev display_channel;
          (if dc_type dma_chan \<noteq> AXIDMA_VDMA then None
           else do {
             (s, rc, _) \<leftarrow> le_ioctl env s (ax_fd dev)
               (if dc_dir dma_chan = AXIDMA_READ then AXIDMA_DMA_VIDEO_READ else AXIDMA_DMA_VIDEO_WRITE)
               (Arg_video \<lparr>vt_channel_id = display_channel, vt_num_frame_buffers = num_buffers,
                  vt_frame_buffers = frame_buffers,
                  vt_frame = \<lparr>fr_height = int_of_size height, fr_width = int_of_size width, fr_depth = int_of_size depth\<rparr>\<rparr>);
             Some (s, rc)
           }) }"

text \<open>The fields of the structure that are not assigned keep what they held: \<open>junk\<close>.\<close>

definition axidma_stop_transfer ::
    "'s lib_env \<Rightarrow> 's \<Rightarrow> axidma_dev \<Rightarrow> axidma_chan \<Rightarrow> int \<Rightarrow> 's option" where
  "axidma_stop_transfer env s dev junk channel =
     do { dma_chan \<leftarrow> known_channel dev channel;
          (s, rc, _) \<leftarrow> le_ioctl env s (ax_fd dev) AXIDMA_STOP_DMA_CHANNEL
            (Arg_chan (junk\<lparr>ch_id := channel, ch_dir := dc_dir dma_chan, ch_type := dc_type dma_chan\<rparr>));
          (if rc < 0 then None else Some s) }"

subsection \<open>The table of channels\<close>

definition has_table :: "dma_channel list \<Rightarrow> axidma_dev \<Rightarrow> bool" where
  "has_table cs dev \<longleftrightarrow> ax_channels dev = Block (map Some cs) \<and> ax_num_channels dev = int (length cs) \<and>
     distinct (map dc_channel_id cs)"

lemma load_table:
  "has_table cs dev \<Longrightarrow> block_load (ax_channels dev) i = (if 0 \<le> i \<and> nat i < length cs then Some (cs ! nat i) else None)"
  by (simp add: has_table_def block_load_def)

lemma find_from_hit:
  assumes "has_table cs dev" "k \<le> j" "j < k + n" "k + n \<le> length cs"
    and "\<forall>m. k \<le> m \<and> m < j \<longrightarrow> dc_channel_id (cs ! m) \<noteq> i" "dc_channel_id (cs ! j) = i"
  shows "find_from (ax_channels dev) i (int k) n = Some (Some (int j))"
  using assms
proof (induction n arbitrary: k)
  case (Suc n)
  show ?case
  proof (cases "k = j")
    case True
    then show ?thesis using Suc.prems by (simp add: load_table)
  next
    case False
    then have "find_from (ax_channels dev) i (int (Suc k)) n = Some (Some (int j))"
      using Suc.prems by (intro Suc.IH) auto
    moreover have "dc_channel_id (cs ! k) \<noteq> i" using False Suc.prems by auto
    ultimately show ?thesis using Suc.prems by (simp add: load_table add.commute)
  qed
qed simp

lemma find_from_miss:
  assumes "has_table cs dev" "k + n \<le> length cs" "\<forall>c \<in> set cs. dc_channel_id c \<noteq> i"
  shows "find_from (ax_channels dev) i (int k) n = Some None"
  using assms
proof (induction n arbitrary: k)
  case (Suc n)
  then have "find_from (ax_channels dev) i (int (Suc k)) n = Some None" by (intro Suc.IH) auto
  then show ?case using Suc.prems by (simp add: load_table add.commute)
qed simp

lemma known_channel_table:
  assumes t: "has_table cs dev" and c: "c \<in> set cs"
  shows "known_channel dev (dc_channel_id c) = Some c"
proof -
  obtain j where j: "j < length cs" "cs ! j = c" using c by (auto simp: in_set_conv_nth)
  have "\<forall>m. 0 \<le> m \<and> m < j \<longrightarrow> dc_channel_id (cs ! m) \<noteq> dc_channel_id c"
    using t j by (auto simp: has_table_def distinct_conv_nth)
  from find_from_hit [OF t _ _ _ this, of "length cs"] j have "find_channel dev (dc_channel_id c) = Some (Some (int j))"
    using t by (simp add: find_channel_def has_table_def)
  then show ?thesis using t j by (simp add: known_channel_def load_table)
qed

lemma unknown_channel:
  assumes "has_table cs dev" "\<forall>c \<in> set cs. dc_channel_id c \<noteq> i"
  shows "known_channel dev i = None"
  using find_from_miss [of cs dev 0 "length cs" i] assms
  by (simp add: known_channel_def find_channel_def has_table_def)

text \<open>
  A callback is set and looked up by the same index, so the handler calls it, with the channel's number and the user
  data, and every other channel's callback stays: for identifiers below the number of channels. For others setting a
  callback writes outside the table.
\<close>

lemma set_callback_called:
  assumes t: "has_table cs dev" and c: "c \<in> set cs" and i: "0 \<le> dc_channel_id c" "dc_channel_id c < ax_num_channels dev"
  shows "\<exists>dev'. axidma_set_callback dev (dc_channel_id c) (Some cb) d = Some dev' \<and>
    axidma_callback dev' (dc_channel_id c) = Some (Some (cb, dc_channel_id c, d)) \<and>
    (\<forall>j. j \<noteq> dc_channel_id c \<longrightarrow> axidma_callback dev' j = axidma_callback dev j)"
proof -
  let ?i = "dc_channel_id c"
  have n: "nat ?i < length cs" using t i by (simp add: has_table_def nat_less_iff)
  let ?dev = "dev\<lparr>ax_channels := Block ((map Some cs)[nat ?i := Some ((cs ! nat ?i)\<lparr>dc_callback := Some cb, dc_user_data := d\<rparr>)])\<rparr>"
  have "axidma_set_callback dev ?i (Some cb) d = Some ?dev"
    using known_channel_table [OF t c] t i n by (simp add: axidma_set_callback_def has_table_def block_load_def block_store_def)
  moreover have "axidma_callback ?dev ?i = Some (Some (cb, ?i, d))"
    using t i n by (simp add: axidma_callback_def block_load_def has_table_def)
  moreover have "axidma_callback ?dev j = axidma_callback dev j" if "j \<noteq> ?i" for j
    using t i that by (auto simp: axidma_callback_def block_load_def has_table_def nth_list_update)
  ultimately show ?thesis by blast
qed

lemma set_callback_outside:
  assumes t: "has_table cs dev" and i: "ax_num_channels dev \<le> i"
  shows "axidma_set_callback dev i cb d = None"
  using t i by (cases "known_channel dev i") (auto simp: axidma_set_callback_def has_table_def block_load_def nat_less_iff)

subsection \<open>Sorting, once more\<close>

text \<open>An array that holds the identifiers \<open>xs\<close> and has room for \<open>n\<close>.\<close>

definition filled :: "array_t \<Rightarrow> int list \<Rightarrow> nat \<Rightarrow> bool" where
  "filled a xs n \<longleftrightarrow> at_len a = int (length xs) \<and> at_data a = Block (map Some xs @ replicate (n - length xs) None) \<and> length xs \<le> n"

lemma push_filled:
  assumes "filled a xs n" "length xs < n"
  shows "\<exists>a'. push_id i a = Some a' \<and> filled a' (xs @ [i]) n"
proof -
  obtain k where k: "n - length xs = Suc k" using assms(2) by (cases "n - length xs") auto
  then have "k = n - Suc (length xs)" by simp
  then show ?thesis
    using assms k by (simp add: push_id_def filled_def block_store_def list_update_append)
qed

text \<open>The identifiers of one kind, in the order of the table.\<close>

definition kind_ids :: "axidma_type \<Rightarrow> axidma_dir \<Rightarrow> axidma_chan list \<Rightarrow> int list" where
  "kind_ids t d cs = map ch_id (filter (\<lambda>c. ch_type c = t \<and> ch_dir c = d) cs)"

lemma kind_ids_append: "kind_ids t d (cs @ ds) = kind_ids t d cs @ kind_ids t d ds"
  by (simp add: kind_ids_def)

lemma count_kind_ids: "count_kind t d cs = int (length (kind_ids t d cs))"
  by (simp add: count_kind_def kind_ids_def)

text \<open>The four arrays after the channels \<open>done\<close> have been placed, with room for those of \<open>chans\<close>.\<close>

definition arrays_hold :: "axidma_chan list \<Rightarrow> axidma_chan list \<Rightarrow> axidma_dev \<Rightarrow> bool" where
  "arrays_hold placed chans dev \<longleftrightarrow>
     filled (ax_dma_tx dev) (kind_ids AXIDMA_DMA AXIDMA_WRITE placed) (length (kind_ids AXIDMA_DMA AXIDMA_WRITE chans)) \<and>
     filled (ax_dma_rx dev) (kind_ids AXIDMA_DMA AXIDMA_READ placed) (length (kind_ids AXIDMA_DMA AXIDMA_READ chans)) \<and>
     filled (ax_vdma_tx dev) (kind_ids AXIDMA_VDMA AXIDMA_WRITE placed) (length (kind_ids AXIDMA_VDMA AXIDMA_WRITE chans)) \<and>
     filled (ax_vdma_rx dev) (kind_ids AXIDMA_VDMA AXIDMA_READ placed) (length (kind_ids AXIDMA_VDMA AXIDMA_READ chans))"

lemma kind_room:
  "length (kind_ids (ch_type c) (ch_dir c) placed) < length (kind_ids (ch_type c) (ch_dir c) (placed @ c # rest))"
  by (simp add: kind_ids_def)

lemma place_id_ok:
  assumes "arrays_hold placed (placed @ c # rest) dev" "valid_kind c"
  shows "\<exists>dev'. place_id c dev = Some dev' \<and> arrays_hold (placed @ [c]) (placed @ c # rest) dev' \<and>
    ax_channels dev' = ax_channels dev \<and> ax_num_channels dev' = ax_num_channels dev \<and> ax_fd dev' = ax_fd dev \<and>
    ax_initialized dev' = ax_initialized dev"
proof -
  note room = kind_room [of c placed rest]
  have other: "kind_ids t d (placed @ [c]) = kind_ids t d placed" if "ch_type c \<noteq> t \<or> ch_dir c \<noteq> d" for t d
    using that by (auto simp: kind_ids_def)
  have own: "kind_ids t d (placed @ [c]) = kind_ids t d placed @ [ch_id c]" if "ch_type c = t" "ch_dir c = d" for t d
    using that by (simp add: kind_ids_def)
  consider (a) "ch_type c = AXIDMA_DMA" "ch_dir c = AXIDMA_WRITE" | (b) "ch_type c = AXIDMA_DMA" "ch_dir c = AXIDMA_READ"
    | (c) "ch_type c = AXIDMA_VDMA" "ch_dir c = AXIDMA_WRITE" | (d) "ch_type c = AXIDMA_VDMA" "ch_dir c = AXIDMA_READ"
    using assms(2) by (auto simp: valid_kind_def)
  then show ?thesis
  proof cases
    case a
    then show ?thesis
      using push_filled [of "ax_dma_tx dev" _ _ "ch_id c"] room assms(1) other own
      by (fastforce simp: arrays_hold_def place_id_def)
  next
    case b
    then show ?thesis
      using push_filled [of "ax_dma_rx dev" _ _ "ch_id c"] room assms(1) other own
      by (fastforce simp: arrays_hold_def place_id_def)
  next
    case c
    then show ?thesis
      using push_filled [of "ax_vdma_tx dev" _ _ "ch_id c"] room assms(1) other own
      by (fastforce simp: arrays_hold_def place_id_def)
  next
    case d
    then show ?thesis
      using push_filled [of "ax_vdma_rx dev" _ _ "ch_id c"] room assms(1) other own
      by (fastforce simp: arrays_hold_def place_id_def)
  qed
qed

lemma place_channels_ok:
  assumes "arrays_hold placed (placed @ rest) dev" "list_all valid_kind rest"
    and "ax_channels dev = Block (map (Some \<circ> new_channel) placed @ replicate (length rest) None)"
  shows "\<exists>dev'. place_channels rest (int (length placed)) dev = Some dev' \<and> arrays_hold (placed @ rest) (placed @ rest) dev' \<and>
    ax_channels dev' = Block (map (Some \<circ> new_channel) (placed @ rest)) \<and> ax_num_channels dev' = ax_num_channels dev \<and>
    ax_fd dev' = ax_fd dev \<and> ax_initialized dev' = ax_initialized dev"
  using assms
proof (induction rest arbitrary: placed dev)
  case Nil
  then show ?case by simp
next
  case (Cons c rest)
  obtain dev1 where p: "place_id c dev = Some dev1" "arrays_hold (placed @ [c]) (placed @ c # rest) dev1"
      "ax_channels dev1 = ax_channels dev" "ax_num_channels dev1 = ax_num_channels dev" "ax_fd dev1 = ax_fd dev"
      "ax_initialized dev1 = ax_initialized dev"
    using place_id_ok [OF Cons.prems(1)] Cons.prems(2) by auto
  let ?cs = "Block (map (Some \<circ> new_channel) (placed @ [c]) @ replicate (length rest) None)"
  have st: "block_store (ax_channels dev1) (int (length placed)) (new_channel c) = Some ?cs"
    using Cons.prems(3) p(3) by (simp add: block_store_def list_update_append)
  let ?dev = "dev1\<lparr>ax_channels := ?cs\<rparr>"
  have "arrays_hold (placed @ [c]) ((placed @ [c]) @ rest) ?dev" using p(2) by (simp add: arrays_hold_def)
  from Cons.IH [OF this] Cons.prems(2) obtain dev' where
    r: "place_channels rest (int (length (placed @ [c]))) ?dev = Some dev'"
      "arrays_hold ((placed @ [c]) @ rest) ((placed @ [c]) @ rest) dev'"
      "ax_channels dev' = Block (map (Some \<circ> new_channel) ((placed @ [c]) @ rest))"
      "ax_num_channels dev' = ax_num_channels ?dev" "ax_fd dev' = ax_fd ?dev" "ax_initialized dev' = ax_initialized ?dev"
    by auto
  then show ?case using p st by (simp add: add.commute)
qed

subsection \<open>Initialisation over a driver\<close>

definition counts_of :: "axidma_chan list \<Rightarrow> axidma_num_channels" where
  "counts_of cs = \<lparr>nc_channels = int (length cs), nc_dma_tx = count_kind AXIDMA_DMA AXIDMA_WRITE cs,
     nc_dma_rx = count_kind AXIDMA_DMA AXIDMA_READ cs, nc_vdma_tx = count_kind AXIDMA_VDMA AXIDMA_WRITE cs,
     nc_vdma_rx = count_kind AXIDMA_VDMA AXIDMA_READ cs\<rparr>"

text \<open>The library's device describes the channels \<open>chans\<close>: what \<open>axidma_init\<close> promises.\<close>

definition describes :: "axidma_chan list \<Rightarrow> axidma_dev \<Rightarrow> bool" where
  "describes chans dev \<longleftrightarrow> arrays_hold chans chans dev \<and> has_table (map new_channel chans) dev"

text \<open>Arrays of length 0: those of a device that has never been initialised.\<close>

definition arrays_empty :: "axidma_dev \<Rightarrow> bool" where
  "arrays_empty dev \<longleftrightarrow> at_len (ax_dma_tx dev) = 0 \<and> at_len (ax_dma_rx dev) = 0 \<and> at_len (ax_vdma_tx dev) = 0 \<and>
     at_len (ax_vdma_rx dev) = 0"

lemma new_channel_ids: "map dc_channel_id (map new_channel cs) = map ch_id cs"
  by (simp add: new_channel_def)

lemma filled_fresh: "at_len a = 0 \<Longrightarrow> filled (a\<lparr>at_data := fresh (int n)\<rparr>) [] n"
  by (simp add: filled_def fresh_def)

lemma categorize_ok:
  assumes mem: "\<And>s n. snd (le_malloc env s n)" and empty: "arrays_empty dev"
    and keep: "\<And>s n. P s \<Longrightarrow> P (fst (le_malloc env s n))" "P s"
    and chans: "list_all valid_kind chans" "distinct (map ch_id chans)"
  shows "\<exists>s' dev'. categorize_channels env s dev chans (counts_of chans) = Some (s', dev', 0) \<and> P s' \<and> describes chans dev' \<and>
    ax_fd dev' = ax_fd dev \<and> ax_initialized dev' = ax_initialized dev"
proof -
  let ?dev = "dev\<lparr>ax_channels := fresh (int (length chans)),
    ax_dma_tx := (ax_dma_tx dev)\<lparr>at_data := fresh (count_kind AXIDMA_DMA AXIDMA_WRITE chans)\<rparr>,
    ax_dma_rx := (ax_dma_rx dev)\<lparr>at_data := fresh (count_kind AXIDMA_DMA AXIDMA_READ chans)\<rparr>,
    ax_vdma_tx := (ax_vdma_tx dev)\<lparr>at_data := fresh (count_kind AXIDMA_VDMA AXIDMA_WRITE chans)\<rparr>,
    ax_vdma_rx := (ax_vdma_rx dev)\<lparr>at_data := fresh (count_kind AXIDMA_VDMA AXIDMA_READ chans)\<rparr>,
    ax_num_channels := int (length chans)\<rparr>"
  have "arrays_hold [] ([] @ chans) ?dev"
    using empty filled_fresh by (simp add: arrays_hold_def arrays_empty_def kind_ids_def count_kind_def)
  from place_channels_ok [OF this chans(1)] obtain dev' where
    p: "place_channels chans 0 ?dev = Some dev'" "arrays_hold chans chans dev'"
      "ax_channels dev' = Block (map (Some \<circ> new_channel) chans)" "ax_num_channels dev' = int (length chans)"
      "ax_fd dev' = ax_fd dev" "ax_initialized dev' = ax_initialized dev"
    by (auto simp: fresh_def)
  have "describes chans dev'"
    using p chans(2) by (simp add: describes_def has_table_def new_channel_def comp_def)
  moreover have alloc: "\<exists>t'. le_malloc env t n = (t', True) \<and> P t'" if "P t" for t n
    using keep(1) [OF that, of n] mem [of t n] by (cases "le_malloc env t n") auto
  obtain s1 where m1: "le_malloc env s (int (length chans) * 32) = (s1, True)" "P s1"
    using alloc [OF keep(2)] by blast
  obtain s2 where m2: "le_malloc env s1 (count_kind AXIDMA_DMA AXIDMA_WRITE chans * 4) = (s2, True)" "P s2"
    using alloc [OF m1(2)] by blast
  obtain s3 where m3: "le_malloc env s2 (count_kind AXIDMA_DMA AXIDMA_READ chans * 4) = (s3, True)" "P s3"
    using alloc [OF m2(2)] by blast
  obtain s4 where m4: "le_malloc env s3 (count_kind AXIDMA_VDMA AXIDMA_WRITE chans * 4) = (s4, True)" "P s4"
    using alloc [OF m3(2)] by blast
  obtain s5 where m5: "le_malloc env s4 (count_kind AXIDMA_VDMA AXIDMA_READ chans * 4) = (s5, True)" "P s5"
    using alloc [OF m4(2)] by blast
  ultimately show ?thesis
    using p m1 m2 m3 m4 m5 by (simp add: categorize_channels_def counts_of_def)
qed

text \<open>The arrays have the lengths of the channels \<open>chans\<close>, whatever their memory.\<close>

definition lengths_left :: "axidma_chan list \<Rightarrow> axidma_dev \<Rightarrow> bool" where
  "lengths_left chans dev \<longleftrightarrow> at_len (ax_dma_tx dev) = count_kind AXIDMA_DMA AXIDMA_WRITE chans \<and>
     at_len (ax_dma_rx dev) = count_kind AXIDMA_DMA AXIDMA_READ chans \<and>
     at_len (ax_vdma_tx dev) = count_kind AXIDMA_VDMA AXIDMA_WRITE chans \<and>
     at_len (ax_vdma_rx dev) = count_kind AXIDMA_VDMA AXIDMA_READ chans"

lemma destroy_leaves_lengths:
  assumes "describes chans dev" "0 \<le> snd (le_close env s (ax_fd dev))"
  shows "\<exists>dev'. axidma_destroy env s dev = Some (fst (le_close env s (ax_fd dev)), dev') \<and>
    lengths_left chans dev' \<and> \<not> ax_initialized dev' \<and> ax_channels dev' = Freed"
  using assms
  by (cases "le_close env s (ax_fd dev)")
    (simp add: axidma_destroy_def free_block_def describes_def arrays_hold_def filled_def has_table_def lengths_left_def
      count_kind_ids)

lemma push_full: "at_len a = int n \<Longrightarrow> push_id i (a\<lparr>at_data := Block (replicate n None)\<rparr>) = None"
  by (simp add: push_id_def block_store_def)

lemma categorize_overflows:
  assumes mem: "\<And>s n. snd (le_malloc env s n)" and lens: "lengths_left chans dev"
    and chans: "list_all valid_kind chans" "chans \<noteq> []"
  shows "categorize_channels env s dev chans (counts_of chans) = None"
proof -
  let ?dev = "dev\<lparr>ax_channels := fresh (int (length chans)),
    ax_dma_tx := (ax_dma_tx dev)\<lparr>at_data := fresh (count_kind AXIDMA_DMA AXIDMA_WRITE chans)\<rparr>,
    ax_dma_rx := (ax_dma_rx dev)\<lparr>at_data := fresh (count_kind AXIDMA_DMA AXIDMA_READ chans)\<rparr>,
    ax_vdma_tx := (ax_vdma_tx dev)\<lparr>at_data := fresh (count_kind AXIDMA_VDMA AXIDMA_WRITE chans)\<rparr>,
    ax_vdma_rx := (ax_vdma_rx dev)\<lparr>at_data := fresh (count_kind AXIDMA_VDMA AXIDMA_READ chans)\<rparr>,
    ax_num_channels := int (length chans)\<rparr>"
  obtain c rest where cs: "chans = c # rest" using chans(2) by (cases chans) auto
  have "place_id c ?dev = None"
    using lens chans(1) by (auto simp: cs place_id_def lengths_left_def valid_kind_def fresh_def count_kind_ids push_full)
  then have pl: "place_channels chans 0 ?dev = None" by (simp add: cs)
  have alloc: "\<exists>t'. le_malloc env t n = (t', True)" for t n
    using mem [of t n] by (cases "le_malloc env t n") auto
  obtain s1 where m1: "le_malloc env s (int (length chans) * 32) = (s1, True)" using alloc by blast
  obtain s2 where m2: "le_malloc env s1 (count_kind AXIDMA_DMA AXIDMA_WRITE chans * 4) = (s2, True)" using alloc by blast
  obtain s3 where m3: "le_malloc env s2 (count_kind AXIDMA_DMA AXIDMA_READ chans * 4) = (s3, True)" using alloc by blast
  obtain s4 where m4: "le_malloc env s3 (count_kind AXIDMA_VDMA AXIDMA_WRITE chans * 4) = (s4, True)" using alloc by blast
  obtain s5 where m5: "le_malloc env s4 (count_kind AXIDMA_VDMA AXIDMA_READ chans * 4) = (s5, True)" using alloc by blast
  show ?thesis
    using pl m1 m2 m3 m4 m5 by (simp add: categorize_channels_def counts_of_def)
qed

text \<open>
  The interface the library relies on: a driver that reports one list of channels, all of a kind and with different
  identifiers, in its counts as in its table, and accepts the signal, in all the states of an invariant that the other
  system calls do not leave.
\<close>

locale channel_driver =
  fixes env :: "'s lib_env" and chans_of :: "'s \<Rightarrow> axidma_chan list" and inv :: "'s \<Rightarrow> bool"
  assumes kinds: "inv s \<Longrightarrow> list_all valid_kind (chans_of s)"
    and some_channel: "inv s \<Longrightarrow> chans_of s \<noteq> []"
    and ids_differ: "inv s \<Longrightarrow> distinct (map ch_id (chans_of s))"
    and counts: "inv s \<Longrightarrow> le_ioctl env s fd AXIDMA_GET_NUM_DMA_CHANNELS Arg_counts =
      Some (s, 0, Out_counts (counts_of (chans_of s)))"
    and table: "inv s \<Longrightarrow> le_ioctl env s fd AXIDMA_GET_DMA_CHANNELS (Arg_channels (length (chans_of s))) =
      Some (s, 0, Out_channels (chans_of s))"
    and signal: "inv s \<Longrightarrow> \<exists>s'. le_ioctl env s fd AXIDMA_SET_DMA_SIGNAL (Arg_value (word_of_int SIGRTMIN)) =
      Some (s', 0, Out_none) \<and> inv s' \<and> chans_of s' = chans_of s"
    and system: "inv s \<Longrightarrow> inv (fst (le_open env s)) \<and> chans_of (fst (le_open env s)) = chans_of s"
      "inv s \<Longrightarrow> inv (fst (le_malloc env s n)) \<and> chans_of (fst (le_malloc env s n)) = chans_of s"
      "inv s \<Longrightarrow> inv (fst (le_sigaction env s sg)) \<and> chans_of (fst (le_sigaction env s sg)) = chans_of s"
begin

lemma init_describes:
  assumes s: "inv s" and dev: "\<not> ax_initialized dev" "arrays_empty dev"
    and answers: "0 \<le> snd (le_open env s)" "\<And>s n. snd (le_malloc env s n)" "\<And>s. 0 \<le> snd (le_sigaction env s SIGRTMIN)"
  shows "\<exists>s' dev'. axidma_init env s dev = Some (s', dev', True) \<and> inv s' \<and> chans_of s' = chans_of s \<and>
    describes (chans_of s) dev' \<and> ax_initialized dev' \<and> ax_fd dev' = snd (le_open env s)"
proof -
  define P where "P s' \<longleftrightarrow> inv s' \<and> chans_of s' = chans_of s" for s'
  obtain s1 fd where o: "le_open env s = (s1, fd)" "0 \<le> fd" using answers(1) by (cases "le_open env s") auto
  have P1: "P s1" using system(1) [OF s] o(1) by (simp add: P_def)
  have keep: "P t \<Longrightarrow> P (fst (le_malloc env t n))" for t n using system(2) by (simp add: P_def)
  obtain s2 where m: "le_malloc env s1 (int (length (chans_of s)) * 32) = (s2, True)"
    using answers(2) [of s1 "int (length (chans_of s)) * 32"] by (cases "le_malloc env s1 (int (length (chans_of s)) * 32)") auto
  have P2: "P s2" using keep [OF P1, of "int (length (chans_of s)) * 32"] m by simp
  let ?dev = "dev\<lparr>ax_fd := fd\<rparr>"
  have empty: "arrays_empty ?dev" using dev(2) by (simp add: arrays_empty_def)
  obtain s3 dev3 where c: "categorize_channels env s2 ?dev (chans_of s) (counts_of (chans_of s)) = Some (s3, dev3, 0)" "P s3"
      "describes (chans_of s) dev3" "ax_fd dev3 = fd" "ax_initialized dev3 = ax_initialized dev"
    using categorize_ok [where P = P, OF answers(2) empty keep P2 kinds [OF s] ids_differ [OF s]] by auto
  have "probe_channels env s1 ?dev = Some (s3, dev3, 0)"
    using P1 P2 m c(1) some_channel [OF s] counts [of s1] table [of s2]
    by (simp add: probe_channels_def P_def counts_of_def)
  moreover obtain s4 rc where g: "le_sigaction env s3 SIGRTMIN = (s4, rc)" "0 \<le> rc"
    using answers(3) [of s3] by (cases "le_sigaction env s3 SIGRTMIN") auto
  moreover have "P s4" using system(3) [of s3 SIGRTMIN] c(2) g(1) by (simp add: P_def)
  moreover from this obtain s5 where
    "le_ioctl env s4 fd AXIDMA_SET_DMA_SIGNAL (Arg_value (word_of_int SIGRTMIN)) = Some (s5, 0, Out_none)" "P s5"
    using signal [of s4 fd] by (auto simp: P_def)
  ultimately have "axidma_init env s dev = Some (s5, dev3\<lparr>ax_initialized := True\<rparr>, True)" "P s5"
    using o c(4) dev(1) by (simp_all add: axidma_init_def setup_dma_callback_def)
  then show ?thesis
    using c(3,4) o by (simp add: P_def describes_def arrays_hold_def has_table_def)
qed

text \<open>
  Destroying the device leaves the lengths of its arrays. Initialising it again then writes the first identifier behind
  the end of its array.
\<close>

lemma init_twice_overflows:
  assumes s: "inv s" and dev: "\<not> ax_initialized dev" "lengths_left (chans_of s) dev"
    and answers: "0 \<le> snd (le_open env s)" "\<And>s n. snd (le_malloc env s n)"
  shows "axidma_init env s dev = None"
proof -
  obtain s1 fd where o: "le_open env s = (s1, fd)" "0 \<le> fd" using answers(1) by (cases "le_open env s") auto
  have s1: "inv s1" "chans_of s1 = chans_of s" using system(1) [OF s] o(1) by simp_all
  obtain s2 where m: "le_malloc env s1 (int (length (chans_of s)) * 32) = (s2, True)"
    using answers(2) [of s1 "int (length (chans_of s)) * 32"] by (cases "le_malloc env s1 (int (length (chans_of s)) * 32)") auto
  have s2: "inv s2" "chans_of s2 = chans_of s" using system(2) [OF s1(1), of "int (length (chans_of s)) * 32"] m s1(2) by simp_all
  have "lengths_left (chans_of s) (dev\<lparr>ax_fd := fd\<rparr>)" using dev(2) by (simp add: lengths_left_def)
  note c = categorize_overflows [OF answers(2) this kinds [OF s] some_channel [OF s], of s2]
  have "probe_channels env s1 (dev\<lparr>ax_fd := fd\<rparr>) = None"
    using s1 s2 m c some_channel [OF s] counts [of s1] table [of s2] by (simp add: probe_channels_def counts_of_def)
  then show ?thesis using o dev(1) by (simp add: axidma_init_def)
qed

end

end
