(* ===== verification/Axidma_Buffers.thy ===== *)
theory Axidma_Buffers
  imports Axidma_Of
begin

text \<open>
  The DMA buffers of the AXI DMA driver, \<open>axidma_chrdev.c\<close>: those it allocates on \<open>mmap\<close>, those imported from
  other drivers, and the translation of a user address to the DMA address behind it.
  Pointers and sizes are 64-bit words; pointer sums wrap around, as in the kernel's build. What the kernel answers
  to an allocation is an argument. Resources are entered into a ledger when they are acquired.
\<close>

subsection \<open>Resources\<close>

datatype axres =
    Kmalloc string
  | Coherent u64 u64
  | Dma_buf nat
  | Dma_attachment nat
  | Dma_mapping nat
  | Chrdev_region
  | Dev_class
  | Dev_node
  | Char_dev
  | Dma_channel nat

type_synonym axledger = "axres multiset"

subsection \<open>Address translation\<close>

definition valid_dma_request :: "u64 \<Rightarrow> u64 \<Rightarrow> u64 \<Rightarrow> u64 \<Rightarrow> bool" where
  "valid_dma_request dma_start dma_size user_addr user_size \<longleftrightarrow>
     dma_start \<le> user_addr \<and> user_addr + user_size \<le> dma_start + dma_size"

fun find_own :: "u64 \<Rightarrow> u64 \<Rightarrow> axidma_dma_allocation list \<Rightarrow> u64 option" where
  "find_own user_addr n [] = None"
| "find_own user_addr n (a # as) =
     (if valid_dma_request (da_user_addr a) (da_size a) user_addr n
      then Some (da_dma_addr a + (user_addr - da_user_addr a)) else find_own user_addr n as)"

text \<open>The outer \<open>None\<close> is a freed entry, the inner one that no entry matches.\<close>

fun find_external :: "u64 \<Rightarrow> u64 \<Rightarrow> axidma_external_allocation list \<Rightarrow> u64 option option" where
  "find_external user_addr n [] = Some None"
| "find_external user_addr n (a # as) =
     (if \<not> ea_live a then None
      else if valid_dma_request (ea_user_addr a) (ea_size a) user_addr n
      then Some (Some (ea_sg_addr a + (user_addr - ea_user_addr a))) else find_external user_addr n as)"

definition axidma_uservirt_to_dma :: "axidma_device \<Rightarrow> u64 \<Rightarrow> u64 \<Rightarrow> u64 option" where
  "axidma_uservirt_to_dma dev user_addr n =
     (case find_own user_addr n (ad_dmabuf_list dev) of
        Some addr \<Rightarrow> Some addr
      | None \<Rightarrow> do {
          r \<leftarrow> find_external user_addr n (ad_external_dmabufs dev);
          Some (case r of Some addr \<Rightarrow> addr | None \<Rightarrow> 0)
        })"

subsection \<open>Buffers of the driver\<close>

record mmap_answers =
  ma_kmalloc :: bool
  ma_coherent :: "(u64 \<times> u64) option"
  ma_remap :: int

definition axidma_mmap ::
    "mmap_answers \<Rightarrow> u64 \<Rightarrow> u64 \<Rightarrow> axidma_device \<Rightarrow> axledger
       \<Rightarrow> (axidma_device \<times> axledger \<times> axidma_dma_allocation option \<times> int) option" where
  "axidma_mmap ans vm_start vm_end dev l =
     (if \<not> ma_kmalloc ans then Some (dev, l, None, -ENOMEM)
      else
        let l = acquire (Kmalloc ''dma_alloc'') l;
            n = vm_end - vm_start in
        case ma_coherent ans of
          None \<Rightarrow> do { l \<leftarrow> release (Kmalloc ''dma_alloc'') l; Some (dev, l, None, -ENOMEM) }
        | Some (kern_addr, dma_addr) \<Rightarrow>
            let l = acquire (Coherent dma_addr n) l;
                a = \<lparr>da_size = n, da_user_addr = vm_start, da_kern_addr = kern_addr, da_dma_addr = dma_addr\<rparr> in
            if ma_remap ans < 0 then do {
              l \<leftarrow> release (Coherent dma_addr n) l;
              l \<leftarrow> release (Kmalloc ''dma_alloc'') l;
              Some (dev, l, None, ma_remap ans)
            } else Some (dev\<lparr>ad_dmabuf_list := a # ad_dmabuf_list dev\<rparr>, l, Some a, 0))"

text \<open>The close operation of the mapping whose private data is \<open>a\<close>.\<close>

definition axidma_vma_close ::
    "axidma_dma_allocation \<Rightarrow> axidma_device \<Rightarrow> axledger \<Rightarrow> (axidma_device \<times> axledger) option" where
  "axidma_vma_close a dev l =
     (if a \<in> set (ad_dmabuf_list dev) then do {
        l \<leftarrow> release (Coherent (da_dma_addr a) (da_size a)) l;
        l \<leftarrow> release (Kmalloc ''dma_alloc'') l;
        Some (dev\<lparr>ad_dmabuf_list := remove1 a (ad_dmabuf_list dev)\<rparr>, l)
      } else None)"

subsection \<open>Buffers of other drivers\<close>

record external_answers =
  xa_kmalloc :: bool
  xa_get :: "int + nat"
  xa_attach :: "int + nat"
  xa_map :: "int + nat \<times> int \<times> u64"

definition axidma_get_external ::
    "external_answers \<Rightarrow> axidma_register_buffer \<Rightarrow> axidma_device \<Rightarrow> axledger
       \<Rightarrow> (axidma_device \<times> axledger \<times> int) option" where
  "axidma_get_external ans ext_buf dev l =
     (if \<not> xa_kmalloc ans then Some (dev, l, -ENOMEM)
      else
        let l = acquire (Kmalloc ''ext_alloc'') l in
        case xa_get ans of
          Inl rc \<Rightarrow> do { l \<leftarrow> release (Kmalloc ''ext_alloc'') l; Some (dev, l, rc) }
        | Inr buf \<Rightarrow>
            let l = acquire (Dma_buf buf) l in
            (case xa_attach ans of
               Inl rc \<Rightarrow> do { l \<leftarrow> release (Dma_buf buf) l; l \<leftarrow> release (Kmalloc ''ext_alloc'') l; Some (dev, l, rc) }
             | Inr att \<Rightarrow>
                 let l = acquire (Dma_attachment att) l in
                 (case xa_map ans of
                    Inl rc \<Rightarrow> do { l \<leftarrow> release (Dma_attachment att) l; l \<leftarrow> release (Dma_buf buf) l;
                                   l \<leftarrow> release (Kmalloc ''ext_alloc'') l; Some (dev, l, rc) }
                  | Inr (table, nents, addr) \<Rightarrow>
                      let l = acquire (Dma_mapping table) l in
                      if nents \<noteq> 1 then do {
                        l \<leftarrow> release (Dma_mapping table) l; l \<leftarrow> release (Dma_attachment att) l;
                        l \<leftarrow> release (Dma_buf buf) l; l \<leftarrow> release (Kmalloc ''ext_alloc'') l;
                        Some (dev, l, -EINVAL)
                      } else
                        let a = \<lparr>ea_fd = rb_fd ext_buf, ea_dma_buf = buf, ea_attach = att, ea_sg_table = table,
                                 ea_sg_addr = addr, ea_size = rb_size ext_buf, ea_user_addr = rb_user_addr ext_buf,
                                 ea_live = True\<rparr>
                        in Some (dev\<lparr>ad_external_dmabufs := a # ad_external_dmabufs dev\<rparr>, l, 0))))"

text \<open>The test of \<open>axidma_put_external\<close>, and the index of the first entry that passes it.\<close>

definition covers :: "axidma_external_allocation \<Rightarrow> u64 \<Rightarrow> bool" where
  "covers a user_addr \<longleftrightarrow> ea_user_addr a \<le> user_addr \<and> user_addr \<le> ea_user_addr a + ea_size a"

fun find_covering :: "u64 \<Rightarrow> axidma_external_allocation list \<Rightarrow> nat option option" where
  "find_covering user_addr [] = Some None"
| "find_covering user_addr (a # as) =
     (if \<not> ea_live a then None
      else if covers a user_addr then Some (Some 0)
      else map_option (map_option Suc) (find_covering user_addr as))"

text \<open>The entry is freed; it stays in the list.\<close>

definition axidma_put_external ::
    "u64 \<Rightarrow> axidma_device \<Rightarrow> axledger \<Rightarrow> (axidma_device \<times> axledger \<times> int) option" where
  "axidma_put_external user_addr dev l =
     do { r \<leftarrow> find_covering user_addr (ad_external_dmabufs dev);
          (case r of
             None \<Rightarrow> Some (dev, l, -ENOENT)
           | Some i \<Rightarrow> do {
               let a = ad_external_dmabufs dev ! i;
               l \<leftarrow> release (Dma_mapping (ea_sg_table a)) l;
               l \<leftarrow> release (Dma_attachment (ea_attach a)) l;
               l \<leftarrow> release (Dma_buf (ea_dma_buf a)) l;
               l \<leftarrow> release (Kmalloc ''ext_alloc'') l;
               Some (dev\<lparr>ad_external_dmabufs := (ad_external_dmabufs dev)[i := a\<lparr>ea_live := False\<rparr>]\<rparr>, l, 0)
             }) }"

subsection \<open>Translation stays inside a buffer\<close>

text \<open>\<open>[addr, addr + n)\<close> lies in \<open>[base, base + size)\<close>, as natural numbers.\<close>

definition inside :: "u64 \<Rightarrow> u64 \<Rightarrow> u64 \<Rightarrow> u64 \<Rightarrow> bool" where
  "inside addr n base sz \<longleftrightarrow> unat base \<le> unat addr \<and> unat addr + unat n \<le> unat base + unat sz"

lemma unat_plus_small: "unat (a :: u64) + unat b < 2 ^ 64 \<Longrightarrow> unat (a + b) = unat a + unat b"
  by (simp add: unat_word_ariths)

lemma unat_uminus:
  assumes "0 < unat (a :: u64)"
  shows "unat (- a) = 2 ^ 64 - unat a"
proof -
  have "uint (- a) = 2 ^ 64 - uint a"
    using assms uint_lt2p [of a] by (simp add: uint_word_ariths zmod_zminus1_eq_if unat_gt_0 uint_0_iff)
  then have "int (unat (- a)) + int (unat a) = 2 ^ 64" unfolding of_nat_unat by linarith
  then have "int (unat (- a) + unat a) = int (2 ^ 64)" by simp
  then have "unat (- a) + unat a = 2 ^ 64" unfolding of_nat_eq_iff .
  then show ?thesis by linarith
qed

lemma valid_request_inside:
  assumes "unat user_addr + unat n < 2 ^ 64" "unat start + unat sz < 2 ^ 64"
  shows "valid_dma_request start sz user_addr n \<longleftrightarrow> inside user_addr n start sz"
  using assms by (simp add: valid_dma_request_def inside_def word_le_nat_alt unat_plus_small)

lemma inside_translated:
  assumes "inside user_addr n start sz" "unat start + unat sz < 2 ^ 64" "unat base + unat sz < 2 ^ 64"
  shows "inside (base + (user_addr - start)) n base sz"
proof -
  have "start \<le> user_addr" using assms(1) by (simp add: inside_def word_le_nat_alt)
  then have d: "unat (user_addr - start) = unat user_addr - unat start" by (simp add: unat_sub)
  have "unat base + unat (user_addr - start) < 2 ^ 64" using assms unfolding inside_def d by arith
  from unat_plus_small [OF this] d assms(1) show ?thesis by (auto simp: inside_def)
qed

text \<open>The buffers do not wrap around the address space, neither the user's nor the bus's.\<close>

definition own_ok :: "axidma_dma_allocation \<Rightarrow> bool" where
  "own_ok a \<longleftrightarrow> unat (da_user_addr a) + unat (da_size a) < 2 ^ 64 \<and> unat (da_dma_addr a) + unat (da_size a) < 2 ^ 64"

definition external_ok :: "axidma_external_allocation \<Rightarrow> bool" where
  "external_ok a \<longleftrightarrow> ea_live a \<and> unat (ea_user_addr a) + unat (ea_size a) < 2 ^ 64 \<and> unat (ea_sg_addr a) + unat (ea_size a) < 2 ^ 64"

definition buffers_ok :: "axidma_device \<Rightarrow> bool" where
  "buffers_ok dev \<longleftrightarrow> (\<forall>a \<in> set (ad_dmabuf_list dev). own_ok a) \<and> (\<forall>a \<in> set (ad_external_dmabufs dev). external_ok a)"

text \<open>The DMA address \<open>addr\<close> and the \<open>n\<close> bytes behind it lie in a buffer that user address range is mapped to.\<close>

definition backed :: "axidma_device \<Rightarrow> u64 \<Rightarrow> u64 \<Rightarrow> u64 \<Rightarrow> bool" where
  "backed dev user_addr n addr \<longleftrightarrow>
     (\<exists>a \<in> set (ad_dmabuf_list dev). inside user_addr n (da_user_addr a) (da_size a) \<and>
        inside addr n (da_dma_addr a) (da_size a) \<and> addr - da_dma_addr a = user_addr - da_user_addr a) \<or>
     (\<exists>a \<in> set (ad_external_dmabufs dev). inside user_addr n (ea_user_addr a) (ea_size a) \<and>
        inside addr n (ea_sg_addr a) (ea_size a) \<and> addr - ea_sg_addr a = user_addr - ea_user_addr a)"

lemma find_own_inside:
  assumes "unat user_addr + unat n < 2 ^ 64"
  shows "\<forall>a \<in> set as. own_ok a \<Longrightarrow> find_own user_addr n as = Some addr \<Longrightarrow>
    \<exists>a \<in> set as. inside user_addr n (da_user_addr a) (da_size a) \<and> inside addr n (da_dma_addr a) (da_size a) \<and>
      addr - da_dma_addr a = user_addr - da_user_addr a"
proof (induction as)
  case (Cons a as)
  then show ?case
    using valid_request_inside [OF assms, of "da_user_addr a" "da_size a"]
      inside_translated [of user_addr n "da_user_addr a" "da_size a" "da_dma_addr a"]
    by (auto simp: own_ok_def split: if_splits)
qed simp

lemma find_external_inside:
  assumes "unat user_addr + unat n < 2 ^ 64"
  shows "\<forall>a \<in> set as. external_ok a \<Longrightarrow> \<exists>r. find_external user_addr n as = Some r \<and> (\<forall>addr. r = Some addr \<longrightarrow>
    (\<exists>a \<in> set as. inside user_addr n (ea_user_addr a) (ea_size a) \<and> inside addr n (ea_sg_addr a) (ea_size a) \<and>
      addr - ea_sg_addr a = user_addr - ea_user_addr a))"
proof (induction as)
  case (Cons a as)
  then show ?case
    using valid_request_inside [OF assms, of "ea_user_addr a" "ea_size a"]
      inside_translated [of user_addr n "ea_user_addr a" "ea_size a" "ea_sg_addr a"]
    by (auto simp: external_ok_def)
qed simp

text \<open>
  A request that does not wrap around the address space is translated to a range inside the buffer that backs it, or
  to 0.
\<close>

lemma uservirt_inside:
  assumes "buffers_ok dev" "unat user_addr + unat n < 2 ^ 64"
  shows "\<exists>addr. axidma_uservirt_to_dma dev user_addr n = Some addr \<and> (addr \<noteq> 0 \<longrightarrow> backed dev user_addr n addr)"
proof (cases "find_own user_addr n (ad_dmabuf_list dev)")
  case (Some addr)
  then show ?thesis
    using find_own_inside [OF assms(2), of "ad_dmabuf_list dev" addr] assms(1)
    by (simp add: axidma_uservirt_to_dma_def buffers_ok_def backed_def)
next
  case None
  then show ?thesis
    using find_external_inside [OF assms(2), of "ad_external_dmabufs dev"] assms(1)
    by (auto simp: axidma_uservirt_to_dma_def buffers_ok_def backed_def split: option.splits)
qed

text \<open>
  Without that bound the test is fooled: a size that wraps the sum around passes it, for any buffer of at least one
  byte and any address in it, with a length far beyond the buffer.
\<close>

lemma wrapped_size_accepted:
  assumes "ad_dmabuf_list dev = a # as" "own_ok a" "0 < unat (da_size a)" "0 < unat (da_user_addr a)"
  shows "axidma_uservirt_to_dma dev (da_user_addr a) (- da_user_addr a) = Some (da_dma_addr a)"
    and "\<not> inside (da_user_addr a) (- da_user_addr a) (da_user_addr a) (da_size a)"
proof -
  show "axidma_uservirt_to_dma dev (da_user_addr a) (- da_user_addr a) = Some (da_dma_addr a)"
    using assms(1) by (simp add: axidma_uservirt_to_dma_def valid_dma_request_def)
  have "unat (- da_user_addr a) = 2 ^ 64 - unat (da_user_addr a)"
    using assms(4) by (intro unat_uminus) simp
  then show "\<not> inside (da_user_addr a) (- da_user_addr a) (da_user_addr a) (da_size a)"
    using assms(2) by (auto simp: inside_def own_ok_def)
qed

subsection \<open>Mapping and importing leak nothing\<close>

lemma mmap_fails_clean:
  assumes "axidma_mmap ans vm_start vm_end dev l = Some (dev', l', a, rc)" "rc \<noteq> 0"
  shows "dev' = dev \<and> l' = l \<and> a = None \<and> rc < 0"
  using assms
  by (auto simp: axidma_mmap_def ledger_simps errno_defs Let_def split: if_splits option.splits)

lemma mmap_total: "\<exists>dev' l' a rc. axidma_mmap ans vm_start vm_end dev l = Some (dev', l', a, rc)"
  by (auto simp: axidma_mmap_def ledger_simps Let_def split: option.splits)

lemma mmap_ok:
  assumes "axidma_mmap ans vm_start vm_end dev l = Some (dev', l', a, rc)" "rc = 0"
  shows "\<exists>kern dma. ma_coherent ans = Some (kern, dma) \<and>
    a = Some \<lparr>da_size = vm_end - vm_start, da_user_addr = vm_start, da_kern_addr = kern, da_dma_addr = dma\<rparr> \<and>
    dev' = dev\<lparr>ad_dmabuf_list := the a # ad_dmabuf_list dev\<rparr> \<and>
    l' = acquire (Coherent dma (vm_end - vm_start)) (acquire (Kmalloc ''dma_alloc'') l)"
  using assms
  by (auto simp: axidma_mmap_def ledger_simps errno_defs Let_def split: if_splits option.splits)

text \<open>Closing a fresh mapping undoes it: the device and the ledger are what they were.\<close>

lemma mmap_close:
  assumes "axidma_mmap ans vm_start vm_end dev l = Some (dev', l', Some a, 0)"
  shows "axidma_vma_close a dev' l' = Some (dev, l)"
  using mmap_ok [OF assms refl] by (auto simp: axidma_vma_close_def ledger_simps)

text \<open>The errors the kernel reports for an import are negative.\<close>

definition external_errors_ok :: "external_answers \<Rightarrow> bool" where
  "external_errors_ok ans \<longleftrightarrow> (\<forall>rc. xa_get ans = Inl rc \<or> xa_attach ans = Inl rc \<or> xa_map ans = Inl rc \<longrightarrow> rc < 0)"

lemma get_external_clean:
  assumes "external_errors_ok ans"
  shows "\<exists>dev' l' rc. axidma_get_external ans ext_buf dev l = Some (dev', l', rc) \<and> rc \<le> 0 \<and>
    (rc \<noteq> 0 \<longrightarrow> dev' = dev \<and> l' = l) \<and>
    (rc = 0 \<longrightarrow> (\<exists>a. dev' = dev\<lparr>ad_external_dmabufs := a # ad_external_dmabufs dev\<rparr> \<and> ea_live a \<and>
       (\<exists>t n. xa_map ans = Inr (t, n, ea_sg_addr a)) \<and>
       ea_user_addr a = rb_user_addr ext_buf \<and> ea_size a = rb_size ext_buf \<and>
       l' = acquire (Dma_mapping (ea_sg_table a)) (acquire (Dma_attachment (ea_attach a))
         (acquire (Dma_buf (ea_dma_buf a)) (acquire (Kmalloc ''ext_alloc'') l)))))"
proof -
  have neg: "xa_get ans = Inl rc \<Longrightarrow> rc < 0" "xa_attach ans = Inl rc \<Longrightarrow> rc < 0" "xa_map ans = Inl rc \<Longrightarrow> rc < 0" for rc
    using assms by (auto simp: external_errors_ok_def)
  show ?thesis
    by (auto simp: axidma_get_external_def ledger_simps errno_defs Let_def less_imp_le
        dest: neg split: sum.split prod.split)
qed

subsection \<open>Unregistering leaves a freed entry behind\<close>

lemma find_covering_ok:
  "\<forall>a \<in> set as. ea_live a \<Longrightarrow> \<exists>r. find_covering u as = Some r \<and>
     (\<forall>i. r = Some i \<longrightarrow> i < length as \<and> covers (as ! i) u)"
  by (induction as) (auto split: option.splits)

text \<open>
  After a successful unregistering the list still holds the entry, freed. The next search that gets there reads it:
  another unregistering of the same address, and every translation of an address that no buffer of the driver covers,
  is undefined.
\<close>

lemma find_covering_freed:
  assumes "i < length as" "\<not> ea_live (as ! i)" "\<forall>j < i. \<not> covers (as ! j) u"
  shows "find_covering u as = None"
  using assms
proof (induction as arbitrary: i)
  case (Cons a as)
  show ?case
  proof (cases i)
    case 0
    then show ?thesis using Cons.prems by simp
  next
    case (Suc k)
    then have "find_covering u as = None" using Cons.prems by (intro Cons.IH [of k]) auto
    then show ?thesis using Cons.prems Suc by auto
  qed
qed simp

lemma find_external_freed:
  assumes "i < length as" "\<not> ea_live (as ! i)"
    and "\<forall>j < i. \<not> valid_dma_request (ea_user_addr (as ! j)) (ea_size (as ! j)) u n"
  shows "find_external u n as = None"
  using assms
proof (induction as arbitrary: i)
  case (Cons a as)
  show ?case
  proof (cases i)
    case 0
    then show ?thesis using Cons.prems by simp
  next
    case (Suc k)
    then have "find_external u n as = None" using Cons.prems by (intro Cons.IH [of k]) auto
    then show ?thesis using Cons.prems Suc by auto
  qed
qed simp

lemma find_covering_first:
  "find_covering u as = Some (Some i) \<Longrightarrow> i < length as \<and> covers (as ! i) u \<and> (\<forall>j < i. \<not> covers (as ! j) u)"
proof (induction as arbitrary: i)
  case (Cons a as)
  then show ?case by (cases i) (auto split: if_splits option.splits simp: less_Suc_eq_0_disj)
qed simp

lemma put_external_dangles:
  assumes "axidma_put_external u dev l = Some (dev', l', 0)"
  shows "length (ad_external_dmabufs dev') = length (ad_external_dmabufs dev)"
    and "axidma_put_external u dev' l' = None"
proof -
  obtain i where i: "find_covering u (ad_external_dmabufs dev) = Some (Some i)"
    and d: "dev' = dev\<lparr>ad_external_dmabufs := (ad_external_dmabufs dev)[i := (ad_external_dmabufs dev ! i)\<lparr>ea_live := False\<rparr>]\<rparr>"
    using assms by (auto simp: axidma_put_external_def errno_defs Let_def split: option.splits bind_splits)
  note f = find_covering_first [OF i]
  show "length (ad_external_dmabufs dev') = length (ad_external_dmabufs dev)" using d by simp
  have "find_covering u (ad_external_dmabufs dev') = None"
    using f d by (intro find_covering_freed [of i]) auto
  then show "axidma_put_external u dev' l' = None" by (simp add: axidma_put_external_def)
qed

end
