(* ===== verification/Axidma_Dma.thy ===== *)
theory Axidma_Dma
  imports Axidma_Buffers
begin

text \<open>
  The transfers of the AXI DMA driver, \<open>axidma_dma.c\<close>: preparing a descriptor, starting it and waiting for it,
  one-way, two-way and video transfers.
  The kernel's DMA engine is a parameter: \<open>dma_engine\<close> holds its functions over a world \<open>'w\<close>. A channel handle
  and a descriptor are numbers. \<open>BUG_ON\<close>, a \<open>NULL\<close> or out-of-range access and the use of a field that was never
  assigned are \<open>None\<close>.
\<close>

subsection \<open>The engine\<close>

record interleaved_template =
  il_start :: u64
  il_dir :: axidma_dir
  il_numf :: int
  il_size :: u64

text \<open>The configuration of a VDMA channel; \<open>memset\<close> clears what the code does not assign.\<close>

record xilinx_vdma_config =
  vc_frm_dly :: int
  vc_gen_lock :: int
  vc_master :: int
  vc_frm_cnt_en :: int
  vc_park :: int
  vc_park_frm :: int
  vc_coalesc :: int
  vc_delay :: int
  vc_reset :: int
  vc_ext_fsync :: int

definition axidma_setup_vdma_config :: xilinx_vdma_config where
  "axidma_setup_vdma_config =
     \<lparr>vc_frm_dly = 0, vc_gen_lock = 0, vc_master = 0, vc_frm_cnt_en = 1, vc_park = 0, vc_park_frm = 0, vc_coalesc = 1,
      vc_delay = 0, vc_reset = 0, vc_ext_fsync = 0\<rparr>"

record 'w dma_engine =
  de_prep_slave_sg :: "'w \<Rightarrow> nat \<Rightarrow> (u64 \<times> u32) list \<Rightarrow> axidma_dir \<Rightarrow> 'w \<times> nat option"
  de_vdma_set_config :: "'w \<Rightarrow> nat \<Rightarrow> xilinx_vdma_config \<Rightarrow> 'w \<times> int"
  de_prep_interleaved :: "'w \<Rightarrow> nat \<Rightarrow> interleaved_template \<Rightarrow> 'w \<times> nat option"
  de_submit :: "'w \<Rightarrow> nat \<Rightarrow> int \<Rightarrow> 'w \<times> int"
  de_issue_pending :: "'w \<Rightarrow> nat \<Rightarrow> 'w"
  de_wait :: "'w \<Rightarrow> int \<Rightarrow> 'w \<times> nat"
  de_is_complete :: "'w \<Rightarrow> nat \<Rightarrow> int \<Rightarrow> bool"
  de_terminate_all :: "'w \<Rightarrow> nat \<Rightarrow> 'w \<times> int"
  de_kmalloc :: "'w \<Rightarrow> int \<Rightarrow> 'w \<times> bool"
  de_send_signal :: "'w \<Rightarrow> int \<Rightarrow> int \<Rightarrow> nat option \<Rightarrow> 'w"
  de_complete :: "'w \<Rightarrow> int \<Rightarrow> 'w"

text \<open>The cookie, the frame and the completion are assigned late or not at all: \<open>None\<close> until then.\<close>

record axidma_transfer =
  tf_sg_list :: "(u64 \<times> u32) list"
  tf_wait :: bool
  tf_cookie :: "int option"
  tf_dir :: axidma_dir
  tf_type :: axidma_type
  tf_channel_id :: int
  tf_notify_signal :: int
  tf_process :: "nat option"
  tf_cb_data :: int
  tf_frame :: "axidma_video_frame option"

subsection \<open>Enumeration conversions\<close>

definition axidma_dir_to_string :: "axidma_dir \<Rightarrow> string option" where
  "axidma_dir_to_string d =
     (if d \<noteq> AXIDMA_WRITE \<and> d \<noteq> AXIDMA_READ then None
      else Some (if d = AXIDMA_WRITE then ''transmit'' else ''receive''))"

definition axidma_type_to_string :: "axidma_type \<Rightarrow> string option" where
  "axidma_type_to_string t =
     (if t \<noteq> AXIDMA_DMA \<and> t \<noteq> AXIDMA_VDMA then None
      else Some (if t = AXIDMA_DMA then ''DMA'' else ''VDMA''))"

text \<open>The engine's directions are named like the driver's.\<close>

definition axidma_to_dma_dir :: "axidma_dir \<Rightarrow> axidma_dir option" where
  "axidma_to_dma_dir d = (if d \<noteq> AXIDMA_WRITE \<and> d \<noteq> AXIDMA_READ then None else Some d)"

subsection \<open>Helpers\<close>

definition axidma_init_sg_entry :: "axidma_device \<Rightarrow> u64 \<Rightarrow> u64 \<Rightarrow> (int + u64 \<times> u32) option" where
  "axidma_init_sg_entry dev buf buf_len =
     do { addr \<leftarrow> axidma_uservirt_to_dma dev buf buf_len;
          Some (if addr = 0 then Inl (-EFAULT) else Inr (addr, ucast buf_len)) }"

fun find_chan :: "int \<Rightarrow> axidma_chan list \<Rightarrow> axidma_chan option" where
  "find_chan i [] = None"
| "find_chan i (c # cs) = (if ch_id c = i then Some c else find_chan i cs)"

definition axidma_get_chan :: "axidma_device \<Rightarrow> int \<Rightarrow> axidma_chan option" where
  "axidma_get_chan dev channel_id = find_chan channel_id (take (nat (ad_num_chans dev)) (ad_channels dev))"

text \<open>The real-time signals as the kernel counts them.\<close>

definition VALID_NOTIFY_SIGNAL :: "int \<Rightarrow> bool" where
  "VALID_NOTIFY_SIGNAL s \<longleftrightarrow> 32 \<le> s \<and> s \<le> 64"

definition axidma_dma_callback :: "'w dma_engine \<Rightarrow> 'w \<Rightarrow> axidma_cb_data \<Rightarrow> 'w" where
  "axidma_dma_callback eng w cb =
     (if cb_comp cb then de_complete eng w (cb_channel_id cb)
      else if VALID_NOTIFY_SIGNAL (cb_notify_signal cb)
      then de_send_signal eng w (cb_notify_signal cb) (cb_channel_id cb) (cb_process cb)
      else w)"

definition axidma_set_signal :: "axidma_device \<Rightarrow> int \<Rightarrow> axidma_device \<times> int" where
  "axidma_set_signal dev signal =
     (if \<not> VALID_NOTIFY_SIGNAL signal then (dev, -EINVAL) else (dev\<lparr>ad_notify_signal := signal\<rparr>, 0))"

definition axidma_get_num_channels :: "axidma_device \<Rightarrow> axidma_num_channels" where
  "axidma_get_num_channels dev =
     \<lparr>nc_channels = ad_num_chans dev, nc_dma_tx = ad_num_dma_tx_chans dev, nc_dma_rx = ad_num_dma_rx_chans dev,
      nc_vdma_tx = ad_num_vdma_tx_chans dev, nc_vdma_rx = ad_num_vdma_rx_chans dev\<rparr>"

definition axidma_get_channel_info :: "axidma_device \<Rightarrow> axidma_chan list" where
  [simp]: "axidma_get_channel_info dev = ad_channels dev"

subsection \<open>Preparing and starting\<close>

text \<open>Multiplication of two \<open>int\<close>s in the kernel's build, which defines signed overflow as wrap-around.\<close>

definition int_mult :: "int \<Rightarrow> int \<Rightarrow> int" where
  "int_mult a b = sint (word_of_int (a * b) :: u32)"

text \<open>
  The descriptor for the transfer: \<open>Inl\<close> an error code, \<open>Inr\<close> what the engine returned. A VDMA transfer is described
  by the first entry of the list and the frame.
\<close>

definition prep_descriptor ::
    "'w dma_engine \<Rightarrow> 'w \<Rightarrow> nat \<Rightarrow> axidma_dir \<Rightarrow> axidma_transfer \<Rightarrow> ('w \<times> (int + nat option)) option" where
  "prep_descriptor eng w chan dma_dir tfr =
     (if tf_type tfr = AXIDMA_DMA then
        (let (w, d) = de_prep_slave_sg eng w chan (tf_sg_list tfr) dma_dir in Some (w, Inr d))
      else
        (let (w, rc) = de_vdma_set_config eng w chan axidma_setup_vdma_config in
         if rc < 0 then Some (w, Inl rc)
         else if tf_sg_list tfr = [] then None
         else do {
           frame \<leftarrow> tf_frame tfr;
           let (w, d) = de_prep_interleaved eng w chan
             \<lparr>il_start = fst (hd (tf_sg_list tfr)), il_dir = dma_dir, il_numf = fr_height frame,
              il_size = word_of_int (int_mult (fr_width frame) (fr_depth frame))\<rparr>;
           Some (w, Inr d)
         }))"

definition callback_data :: "axidma_transfer \<Rightarrow> axidma_cb_data" where
  "callback_data tfr =
     (if tf_wait tfr
      then \<lparr>cb_channel_id = tf_channel_id tfr, cb_notify_signal = -1, cb_process = None, cb_comp = True\<rparr>
      else \<lparr>cb_channel_id = tf_channel_id tfr, cb_notify_signal = tf_notify_signal tfr,
            cb_process = tf_process tfr, cb_comp = False\<rparr>)"

definition store_cb_data :: "int \<Rightarrow> axidma_cb_data \<Rightarrow> axidma_device \<Rightarrow> axidma_device option" where
  "store_cb_data i cb dev =
     (if 0 \<le> i \<and> nat i < length (ad_cb_data dev)
      then Some (dev\<lparr>ad_cb_data := (ad_cb_data dev)[nat i := cb]\<rparr>) else None)"

definition axidma_prep_transfer ::
    "'w dma_engine \<Rightarrow> 'w \<Rightarrow> axidma_device \<Rightarrow> axidma_chan \<Rightarrow> axidma_transfer
       \<Rightarrow> ('w \<times> axidma_device \<times> axidma_transfer \<times> int) option" where
  "axidma_prep_transfer eng w dev axidma_chan tfr =
     do { chan \<leftarrow> ch_chan axidma_chan;
          dma_dir \<leftarrow> axidma_to_dma_dir (tf_dir tfr);
          _ \<leftarrow> axidma_dir_to_string (tf_dir tfr);
          _ \<leftarrow> axidma_type_to_string (tf_type tfr);
          (w, r) \<leftarrow> prep_descriptor eng w chan dma_dir tfr;
          (case r of
             Inl rc \<Rightarrow> Some (fst (de_terminate_all eng w chan), dev, tfr, rc)
           | Inr None \<Rightarrow> Some (fst (de_terminate_all eng w chan), dev, tfr, -EBUSY)
           | Inr (Some txnd) \<Rightarrow> do {
               dev \<leftarrow> store_cb_data (tf_cb_data tfr) (callback_data tfr) dev;
               let (w, cookie) = de_submit eng w txnd (tf_cb_data tfr);
               (if cookie < 0 then Some (fst (de_terminate_all eng w chan), dev, tfr, -EBUSY)
                else Some (w, dev, tfr\<lparr>tf_cookie := Some cookie\<rparr>, 0))
             }) }"

definition axidma_start_transfer ::
    "'w dma_engine \<Rightarrow> 'w \<Rightarrow> axidma_chan \<Rightarrow> axidma_transfer \<Rightarrow> ('w \<times> int) option" where
  "axidma_start_transfer eng w axidma_chan tfr =
     do { cookie \<leftarrow> tf_cookie tfr;
          _ \<leftarrow> axidma_dir_to_string (tf_dir tfr);
          _ \<leftarrow> axidma_type_to_string (tf_type tfr);
          chan \<leftarrow> ch_chan axidma_chan;
          let w = de_issue_pending eng w chan;
          (if tf_wait tfr then
             let (w, time_remain) = de_wait eng w cookie in
             if time_remain = 0 then Some (fst (de_terminate_all eng w chan), -ETIME)
             else if \<not> de_is_complete eng w chan cookie then Some (fst (de_terminate_all eng w chan), -EBUSY)
             else Some (w, 0)
           else Some (w, 0)) }"

subsection \<open>Transfers\<close>

text \<open>
  A one-way transfer; the read and the write are the same but for the direction asked of the channel. The frame of the
  transfer structure is not assigned.
\<close>

definition oneway_transfer ::
    "axidma_dir \<Rightarrow> 'w dma_engine \<Rightarrow> nat \<Rightarrow> 'w \<Rightarrow> axidma_device \<Rightarrow> axidma_transaction
       \<Rightarrow> ('w \<times> axidma_device \<times> int) option" where
  "oneway_transfer dir eng current w dev tr =
     (case axidma_get_chan dev (tr_channel_id tr) of
        None \<Rightarrow> Some (w, dev, -ENODEV)
      | Some chan \<Rightarrow>
          if ch_dir chan \<noteq> dir then Some (w, dev, -ENODEV)
          else do {
            r \<leftarrow> axidma_init_sg_entry dev (tr_buf tr) (tr_buf_len tr);
            (case r of
               Inl rc \<Rightarrow> Some (w, dev, rc)
             | Inr sg \<Rightarrow> do {
                 let tfr = \<lparr>tf_sg_list = [sg], tf_wait = tr_wait tr, tf_cookie = None, tf_dir = ch_dir chan,
                   tf_type = ch_type chan, tf_channel_id = tr_channel_id tr,
                   tf_notify_signal = ad_notify_signal dev, tf_process = Some current,
                   tf_cb_data = tr_channel_id tr, tf_frame = None\<rparr>;
                 (w, dev, tfr, rc) \<leftarrow> axidma_prep_transfer eng w dev chan tfr;
                 (if rc < 0 then Some (w, dev, rc)
                  else do {
                    (w, rc) \<leftarrow> axidma_start_transfer eng w chan tfr;
                    Some (w, dev, if rc < 0 then rc else 0)
                  })
               })
          })"

definition axidma_read_transfer ::
    "'w dma_engine \<Rightarrow> nat \<Rightarrow> 'w \<Rightarrow> axidma_device \<Rightarrow> axidma_transaction \<Rightarrow> ('w \<times> axidma_device \<times> int) option" where
  "axidma_read_transfer = oneway_transfer AXIDMA_READ"

definition axidma_write_transfer ::
    "'w dma_engine \<Rightarrow> nat \<Rightarrow> 'w \<Rightarrow> axidma_device \<Rightarrow> axidma_transaction \<Rightarrow> ('w \<times> axidma_device \<times> int) option" where
  "axidma_write_transfer = oneway_transfer AXIDMA_WRITE"

text \<open>Both frames are copied if the transmit channel is VDMA.\<close>

definition axidma_rw_transfer ::
    "'w dma_engine \<Rightarrow> nat \<Rightarrow> 'w \<Rightarrow> axidma_device \<Rightarrow> axidma_inout_transaction \<Rightarrow> ('w \<times> axidma_device \<times> int) option" where
  "axidma_rw_transfer eng current w dev tr =
     (case axidma_get_chan dev (io_tx_channel_id tr) of
        None \<Rightarrow> Some (w, dev, -ENODEV)
      | Some tx_chan \<Rightarrow>
      if ch_dir tx_chan \<noteq> AXIDMA_WRITE then Some (w, dev, -ENODEV) else
     (case axidma_get_chan dev (io_rx_channel_id tr) of
        None \<Rightarrow> Some (w, dev, -ENODEV)
      | Some rx_chan \<Rightarrow>
      if ch_dir rx_chan \<noteq> AXIDMA_READ then Some (w, dev, -ENODEV) else
      do {
        tx \<leftarrow> axidma_init_sg_entry dev (io_tx_buf tr) (io_tx_buf_len tr);
        (case tx of Inl rc \<Rightarrow> Some (w, dev, rc) | Inr tx_sg \<Rightarrow> do {
        rx \<leftarrow> axidma_init_sg_entry dev (io_rx_buf tr) (io_rx_buf_len tr);
        (case rx of Inl rc \<Rightarrow> Some (w, dev, rc) | Inr rx_sg \<Rightarrow> do {
        let tx_tfr = \<lparr>tf_sg_list = [tx_sg], tf_wait = False, tf_cookie = None, tf_dir = ch_dir tx_chan,
          tf_type = ch_type tx_chan, tf_channel_id = io_tx_channel_id tr, tf_notify_signal = ad_notify_signal dev,
          tf_process = Some current, tf_cb_data = io_tx_channel_id tr,
          tf_frame = (if ch_type tx_chan = AXIDMA_VDMA then Some (io_tx_frame tr) else None)\<rparr>;
        let rx_tfr = \<lparr>tf_sg_list = [rx_sg], tf_wait = io_wait tr, tf_cookie = None, tf_dir = ch_dir rx_chan,
          tf_type = ch_type rx_chan, tf_channel_id = io_rx_channel_id tr, tf_notify_signal = ad_notify_signal dev,
          tf_process = Some current, tf_cb_data = io_rx_channel_id tr,
          tf_frame = (if ch_type tx_chan = AXIDMA_VDMA then Some (io_rx_frame tr) else None)\<rparr>;
        (w, dev, tx_tfr, rc) \<leftarrow> axidma_prep_transfer eng w dev tx_chan tx_tfr;
        (if rc < 0 then Some (w, dev, rc) else do {
        (w, dev, rx_tfr, rc) \<leftarrow> axidma_prep_transfer eng w dev rx_chan rx_tfr;
        (if rc < 0 then Some (w, dev, rc) else do {
        (w, rc) \<leftarrow> axidma_start_transfer eng w tx_chan tx_tfr;
        (if rc < 0 then Some (w, dev, rc) else do {
        (w, rc) \<leftarrow> axidma_start_transfer eng w rx_chan rx_tfr;
        Some (w, dev, if rc < 0 then rc else 0) }) }) }) }) }) }))"

text \<open>The scatter-gather entries of the frame buffers, up to the first that is in no buffer.\<close>

fun video_sg :: "axidma_device \<Rightarrow> u64 \<Rightarrow> u64 list \<Rightarrow> (int + (u64 \<times> u32) list) option" where
  "video_sg dev image_size [] = Some (Inr [])"
| "video_sg dev image_size (b # bs) =
     do { r \<leftarrow> axidma_init_sg_entry dev b image_size;
          (case r of
             Inl rc \<Rightarrow> Some (Inl rc)
           | Inr sg \<Rightarrow> do { rest \<leftarrow> video_sg dev image_size bs;
                           Some (case rest of Inl rc \<Rightarrow> Inl rc | Inr sgs \<Rightarrow> Inr (sg # sgs)) }) }"

text \<open>
  The function returns 0 whatever happened. The test of the channel is a conjunction whose first conjunct is that it is
  \<open>NULL\<close> and whose second reads through it.
\<close>

definition axidma_video_transfer ::
    "'w dma_engine \<Rightarrow> nat \<Rightarrow> 'w \<Rightarrow> axidma_device \<Rightarrow> axidma_video_transaction \<Rightarrow> axidma_dir
       \<Rightarrow> ('w \<times> axidma_device \<times> int) option" where
  "axidma_video_transfer eng current w dev tr dir =
     (let (w, ok) = de_kmalloc eng w (vt_num_frame_buffers tr * 32) in
      if \<not> ok then Some (w, dev, 0)
      else if int (length (vt_frame_buffers tr)) < vt_num_frame_buffers tr then None
      else
        let frame = vt_frame tr;
            image_size = word_of_int (int_mult (int_mult (fr_width frame) (fr_height frame)) (fr_depth frame)) in
        do {
          r \<leftarrow> video_sg dev image_size (take (nat (vt_num_frame_buffers tr)) (vt_frame_buffers tr));
          (case r of
             Inl rc \<Rightarrow> Some (w, dev, 0)
           | Inr sgs \<Rightarrow> do {
               chan \<leftarrow> axidma_get_chan dev (vt_channel_id tr);
               let tfr = \<lparr>tf_sg_list = sgs, tf_wait = False, tf_cookie = None, tf_dir = dir, tf_type = AXIDMA_VDMA,
                 tf_channel_id = vt_channel_id tr, tf_notify_signal = ad_notify_signal dev,
                 tf_process = Some current, tf_cb_data = vt_channel_id tr, tf_frame = Some frame\<rparr>;
               (w, dev, tfr, rc) \<leftarrow> axidma_prep_transfer eng w dev chan tfr;
               (if rc < 0 then Some (w, dev, 0)
                else do { (w, rc) \<leftarrow> axidma_start_transfer eng w chan tfr; Some (w, dev, 0) })
             })
        })"

definition axidma_stop_channel ::
    "'w dma_engine \<Rightarrow> 'w \<Rightarrow> axidma_device \<Rightarrow> axidma_chan \<Rightarrow> ('w \<times> int) option" where
  "axidma_stop_channel eng w dev chan_info =
     do { chan \<leftarrow> axidma_get_chan dev (ch_id chan_info);
          handle \<leftarrow> ch_chan chan;
          Some (de_terminate_all eng w handle) }"

subsection \<open>The invariant of the device\<close>

definition device_ok :: "axidma_device \<Rightarrow> bool" where
  "device_ok dev \<longleftrightarrow> ad_num_chans dev = int (length (ad_channels dev)) \<and>
     length (ad_cb_data dev) = length (ad_channels dev) \<and> counted (ad_channels dev) dev \<and>
     distinct (map ch_id (ad_channels dev)) \<and> (\<forall>c \<in> set (ad_channels dev). ch_chan c \<noteq> None) \<and> buffers_ok dev"

text \<open>What the code needs of the identifiers beyond their being different: it uses them to index an array.\<close>

definition ids_in_range :: "axidma_device \<Rightarrow> bool" where
  "ids_in_range dev \<longleftrightarrow> (\<forall>c \<in> set (ad_channels dev). 0 \<le> ch_id c \<and> ch_id c < ad_num_chans dev)"

lemma find_chan_Some: "find_chan i cs = Some c \<Longrightarrow> c \<in> set cs \<and> ch_id c = i"
  by (induction cs) (auto split: if_splits)

lemma find_chan_None: "find_chan i cs = None \<longleftrightarrow> i \<notin> ch_id ` set cs"
  by (induction cs) auto

lemma get_chan_Some: "device_ok dev \<Longrightarrow> axidma_get_chan dev i = Some c \<Longrightarrow> c \<in> set (ad_channels dev) \<and> ch_id c = i"
  using find_chan_Some by (fastforce simp: axidma_get_chan_def device_ok_def)

text \<open>With different identifiers a channel is found by its own.\<close>

lemma get_chan_own:
  assumes "device_ok dev" "c \<in> set (ad_channels dev)"
  shows "axidma_get_chan dev (ch_id c) = Some c"
proof -
  have "distinct (map ch_id cs) \<Longrightarrow> c \<in> set cs \<Longrightarrow> find_chan (ch_id c) cs = Some c" for cs
    by (induction cs) force+
  then show ?thesis using assms by (simp add: axidma_get_chan_def device_ok_def)
qed

lemma valid_kind_strings:
  assumes "device_ok dev" "c \<in> set (ad_channels dev)"
  shows "axidma_dir_to_string (ch_dir c) \<noteq> None" "axidma_type_to_string (ch_type c) \<noteq> None"
    "axidma_to_dma_dir (ch_dir c) = Some (ch_dir c)"
  using assms
  by (auto simp: device_ok_def counted_def list_all_iff valid_kind_def axidma_dir_to_string_def
      axidma_type_to_string_def axidma_to_dma_dir_def)

text \<open>Only the callback data differ.\<close>

definition cb_frame :: "axidma_device \<Rightarrow> axidma_device \<Rightarrow> bool" where
  "cb_frame dev dev' \<longleftrightarrow>
     (\<exists>cbs. dev' = dev\<lparr>ad_cb_data := cbs\<rparr> \<and> length cbs = length (ad_cb_data dev))"

lemma cb_frame_refl [simp]: "cb_frame dev dev"
  unfolding cb_frame_def by (rule exI [of _ "ad_cb_data dev"]) simp

lemma cb_frame_trans: "cb_frame a b \<Longrightarrow> cb_frame b c \<Longrightarrow> cb_frame a c"
  by (auto simp: cb_frame_def)

lemma store_cb_ok:
  assumes "device_ok dev" "ids_in_range dev" "c \<in> set (ad_channels dev)"
  shows "\<exists>dev'. store_cb_data (ch_id c) cb dev = Some dev' \<and> cb_frame dev dev'"
  using assms by (auto simp: store_cb_data_def device_ok_def ids_in_range_def nat_less_iff cb_frame_def)

lemma cb_frameD:
  assumes "cb_frame dev dev'"
  shows "device_ok dev \<Longrightarrow> device_ok dev'" "ids_in_range dev' = ids_in_range dev" "ad_channels dev' = ad_channels dev"
    "axidma_uservirt_to_dma dev' = axidma_uservirt_to_dma dev" "ad_num_chans dev' = ad_num_chans dev"
    "axidma_get_chan dev' = axidma_get_chan dev"
  using assms
  by (auto simp: cb_frame_def device_ok_def counted_def buffers_ok_def ids_in_range_def axidma_uservirt_to_dma_def
      axidma_get_chan_def fun_eq_iff split: option.split)

subsection \<open>Requests stay inside the buffers\<close>

text \<open>A list entry the engine may be given: the bytes lie in one buffer.\<close>

definition in_buffer :: "axidma_device \<Rightarrow> u64 \<times> u32 \<Rightarrow> bool" where
  "in_buffer dev sg \<longleftrightarrow>
     (\<exists>a \<in> set (ad_dmabuf_list dev). inside (fst sg) (ucast (snd sg)) (da_dma_addr a) (da_size a)) \<or>
     (\<exists>a \<in> set (ad_external_dmabufs dev). inside (fst sg) (ucast (snd sg)) (ea_sg_addr a) (ea_size a))"

lemma in_buffer_cb: "cb_frame dev dev' \<Longrightarrow> in_buffer dev' = in_buffer dev"
  by (auto simp: in_buffer_def fun_eq_iff cb_frame_def)

lemma unat_ucast_le: "unat (ucast (ucast (n :: u64) :: u32) :: u64) \<le> unat n"
  by (simp add: unsigned_ucast_eq unsigned_take_bit_eq take_bit_nat_less_eq_self)

lemma inside_shorter: "inside addr n base sz \<Longrightarrow> unat n' \<le> unat n \<Longrightarrow> inside addr n' base sz"
  by (simp add: inside_def)

lemma init_sg_ok:
  assumes "buffers_ok dev" "unat buf + unat n < 2 ^ 64"
  shows "\<exists>r. axidma_init_sg_entry dev buf n = Some r \<and> (\<forall>rc. r = Inl rc \<longrightarrow> rc < 0) \<and>
    (\<forall>sg. r = Inr sg \<longrightarrow> in_buffer dev sg \<and> snd sg = ucast n)"
proof -
  obtain addr where a: "axidma_uservirt_to_dma dev buf n = Some addr" "addr \<noteq> 0 \<longrightarrow> backed dev buf n addr"
    using uservirt_inside [OF assms] by blast
  have "backed dev buf n addr \<Longrightarrow> in_buffer dev (addr, ucast n)"
    unfolding backed_def in_buffer_def fst_conv snd_conv using inside_shorter [OF _ unat_ucast_le] by blast
  with a show ?thesis by (auto simp: axidma_init_sg_entry_def errno_defs)
qed

text \<open>
  A property of the world that the engine's functions keep, as long as they are only given entries inside the buffers.
  With \<open>I w\<close> saying that everything the engine was ever asked to touch lies in a buffer, a theorem that an operation
  keeps \<open>I\<close> says that it never asks for anything else.
\<close>

definition engine_keeps :: "('w \<Rightarrow> bool) \<Rightarrow> (u64 \<times> u32 \<Rightarrow> bool) \<Rightarrow> 'w dma_engine \<Rightarrow> bool" where
  "engine_keeps I ok eng \<longleftrightarrow>
     (\<forall>w c sgs d. I w \<and> (\<forall>sg \<in> set sgs. ok sg) \<longrightarrow> I (fst (de_prep_slave_sg eng w c sgs d))) \<and>
     (\<forall>w d i. I w \<longrightarrow> I (fst (de_submit eng w d i))) \<and> (\<forall>w c. I w \<longrightarrow> I (de_issue_pending eng w c)) \<and>
     (\<forall>w k. I w \<longrightarrow> I (fst (de_wait eng w k))) \<and> (\<forall>w c. I w \<longrightarrow> I (fst (de_terminate_all eng w c)))"

lemma engine_keepsD:
  assumes "engine_keeps I ok eng" "I w"
  shows "(\<And>sg. sg \<in> set sgs \<Longrightarrow> ok sg) \<Longrightarrow> I (fst (de_prep_slave_sg eng w c sgs d))" "I (fst (de_submit eng w x i))"
    "I (de_issue_pending eng w c)" "I (fst (de_wait eng w k))" "I (fst (de_terminate_all eng w c))"
  using assms by (auto simp: engine_keeps_def)

lemma prep_transfer_ok:
  assumes dev: "device_ok dev" "ids_in_range dev" and c: "c \<in> set (ad_channels dev)"
    and eng: "engine_keeps I ok eng" and w: "I w"
    and tfr: "tf_dir tfr = ch_dir c" "tf_type tfr = ch_type c" "ch_type c = AXIDMA_DMA" "tf_cb_data tfr = ch_id c"
      "\<forall>sg \<in> set (tf_sg_list tfr). ok sg"
  shows "\<exists>w' dev' tfr' rc. axidma_prep_transfer eng w dev c tfr = Some (w', dev', tfr', rc) \<and>
    cb_frame dev dev' \<and> rc \<le> 0 \<and> I w' \<and> (rc = 0 \<longrightarrow> (\<exists>k. tfr' = tfr\<lparr>tf_cookie := Some k\<rparr>))"
proof -
  obtain chan where chan: "ch_chan c = Some chan" using dev(1) c by (auto simp: device_ok_def)
  note v = valid_kind_strings [OF dev(1) c]
  obtain dstr tstr where s: "axidma_dir_to_string (ch_dir c) = Some dstr" "axidma_type_to_string (ch_type c) = Some tstr"
    using v(1,2) by blast
  obtain w1 d where p: "de_prep_slave_sg eng w chan (tf_sg_list tfr) (ch_dir c) = (w1, d)" by fastforce
  then have w1: "I w1" using engine_keepsD(1) [OF eng w, of "tf_sg_list tfr" chan "ch_dir c"] tfr(5) by simp
  show ?thesis
  proof (cases d)
    case None
    then have "axidma_prep_transfer eng w dev c tfr = Some (fst (de_terminate_all eng w1 chan), dev, tfr, -EBUSY)"
      using chan v(3) s p tfr by (simp add: axidma_prep_transfer_def prep_descriptor_def)
    then show ?thesis using engine_keepsD(5) [OF eng w1, of chan] by (auto simp: errno_defs)
  next
    case (Some x)
    obtain dev' where cbs: "store_cb_data (ch_id c) (callback_data tfr) dev = Some dev'" "cb_frame dev dev'"
      using store_cb_ok [OF dev c] by blast
    obtain w2 k where sub: "de_submit eng w1 x (ch_id c) = (w2, k)" by fastforce
    then have w2: "I w2" using engine_keepsD(2) [OF eng w1, of x "ch_id c"] by simp
    have "axidma_prep_transfer eng w dev c tfr =
        (if k < 0 then Some (fst (de_terminate_all eng w2 chan), dev', tfr, -EBUSY)
         else Some (w2, dev', tfr\<lparr>tf_cookie := Some k\<rparr>, 0))"
      using chan v(3) s p tfr Some cbs sub by (simp add: axidma_prep_transfer_def prep_descriptor_def)
    then show ?thesis using w2 engine_keepsD(5) [OF eng w2, of chan] cbs(2) by (auto simp: errno_defs)
  qed
qed

lemma start_transfer_ok:
  assumes dev: "device_ok dev" and c: "c \<in> set (ad_channels dev)" and eng: "engine_keeps I ok eng" and w: "I w"
    and tfr: "tf_dir tfr = ch_dir c" "tf_type tfr = ch_type c" "tf_cookie tfr = Some k"
  shows "\<exists>w' rc. axidma_start_transfer eng w c tfr = Some (w', rc) \<and> I w' \<and> rc \<le> 0"
proof -
  obtain chan where chan: "ch_chan c = Some chan" using dev c by (auto simp: device_ok_def)
  obtain dstr tstr where s: "axidma_dir_to_string (ch_dir c) = Some dstr" "axidma_type_to_string (ch_type c) = Some tstr"
    using valid_kind_strings [OF dev c] by blast
  let ?w = "de_issue_pending eng w chan"
  have w1: "I ?w" by (rule engine_keepsD(3) [OF eng w])
  obtain w2 n where wt: "de_wait eng ?w k = (w2, n)" by fastforce
  then have w2: "I w2" using engine_keepsD(4) [OF eng w1, of k] by simp
  show ?thesis
    using chan s tfr w1 w2 wt engine_keepsD(5) [OF eng w2, of chan]
    by (auto simp: axidma_start_transfer_def errno_defs Let_def)
qed

text \<open>
  A one-way transfer over a DMA channel returns, changes nothing of the device but the callback data, keeps its
  invariant, and asks the engine only for bytes inside the buffers.
\<close>

lemma oneway_transfer_ok:
  assumes dev: "device_ok dev" "ids_in_range dev" and eng: "engine_keeps I (in_buffer dev) eng" and w: "I w"
    and dma: "\<forall>c \<in> set (ad_channels dev). ch_type c = AXIDMA_DMA"
    and buf: "unat (tr_buf t) + unat (tr_buf_len t) < 2 ^ 64"
  shows "\<exists>w' dev' rc. oneway_transfer dir eng p w dev t = Some (w', dev', rc) \<and> cb_frame dev dev' \<and> rc \<le> 0 \<and> I w'"
proof -
  have bufs: "buffers_ok dev" using dev(1) by (simp add: device_ok_def)
  obtain r where r: "axidma_init_sg_entry dev (tr_buf t) (tr_buf_len t) = Some r" "\<forall>rc. r = Inl rc \<longrightarrow> rc < 0"
      "\<forall>sg. r = Inr sg \<longrightarrow> in_buffer dev sg \<and> snd sg = ucast (tr_buf_len t)"
    using init_sg_ok [OF bufs buf] by blast
  consider (none) "axidma_get_chan dev (tr_channel_id t) = None"
    | (dir) c where "axidma_get_chan dev (tr_channel_id t) = Some c" "ch_dir c \<noteq> dir"
    | (sg) c rc where "axidma_get_chan dev (tr_channel_id t) = Some c" "ch_dir c = dir" "r = Inl rc"
    | (go) c sg where "axidma_get_chan dev (tr_channel_id t) = Some c" "ch_dir c = dir" "r = Inr sg"
    by (cases "axidma_get_chan dev (tr_channel_id t)"; cases r) auto
  then show ?thesis
  proof cases
    case none
    then show ?thesis using w by (auto simp: oneway_transfer_def errno_defs)
  next
    case dir
    then show ?thesis using w by (auto simp: oneway_transfer_def errno_defs)
  next
    case sg
    then show ?thesis using w r by (auto simp: oneway_transfer_def)
  next
    case go
    note c = get_chan_Some [OF dev(1) go(1)]
    let ?tfr = "\<lparr>tf_sg_list = [sg], tf_wait = tr_wait t, tf_cookie = None, tf_dir = ch_dir c, tf_type = ch_type c,
      tf_channel_id = tr_channel_id t, tf_notify_signal = ad_notify_signal dev, tf_process = Some p,
      tf_cb_data = tr_channel_id t, tf_frame = None\<rparr>"
    obtain w1 dev' tfr' rc where pr: "axidma_prep_transfer eng w dev c ?tfr = Some (w1, dev', tfr', rc)"
        "cb_frame dev dev'" "rc \<le> 0" "I w1" "rc = 0 \<longrightarrow> (\<exists>k. tfr' = ?tfr\<lparr>tf_cookie := Some k\<rparr>)"
      using prep_transfer_ok [OF dev conjunct1 [OF c] eng w, of ?tfr] c dma r go(3) by auto
    show ?thesis
    proof (cases "rc < 0")
      case True
      then show ?thesis using go r pr by (simp add: oneway_transfer_def)
    next
      case False
      then obtain k where k: "tfr' = ?tfr\<lparr>tf_cookie := Some k\<rparr>" "rc = 0" using pr by auto
      obtain w2 rc2 where st: "axidma_start_transfer eng w1 c tfr' = Some (w2, rc2)" "I w2" "rc2 \<le> 0"
        using start_transfer_ok [OF dev(1) conjunct1 [OF c] eng pr(4), of tfr' k] k by auto
      show ?thesis
        using go r pr k st by (simp add: oneway_transfer_def)
    qed
  qed
qed

text \<open>A two-way transfer over DMA channels likewise.\<close>

lemma rw_transfer_ok:
  assumes dev: "device_ok dev" "ids_in_range dev" and eng: "engine_keeps I (in_buffer dev) eng" and w: "I w"
    and dma: "\<forall>c \<in> set (ad_channels dev). ch_type c = AXIDMA_DMA"
    and buf: "unat (io_tx_buf t) + unat (io_tx_buf_len t) < 2 ^ 64" "unat (io_rx_buf t) + unat (io_rx_buf_len t) < 2 ^ 64"
  shows "\<exists>w' dev' rc. axidma_rw_transfer eng p w dev t = Some (w', dev', rc) \<and> cb_frame dev dev' \<and> rc \<le> 0 \<and> I w'"
proof -
  have bufs: "buffers_ok dev" using dev(1) by (simp add: device_ok_def)
  obtain tx where tx: "axidma_init_sg_entry dev (io_tx_buf t) (io_tx_buf_len t) = Some tx" "\<forall>rc. tx = Inl rc \<longrightarrow> rc < 0"
      "\<forall>sg. tx = Inr sg \<longrightarrow> in_buffer dev sg"
    using init_sg_ok [OF bufs buf(1)] by blast
  obtain rx where rx: "axidma_init_sg_entry dev (io_rx_buf t) (io_rx_buf_len t) = Some rx" "\<forall>rc. rx = Inl rc \<longrightarrow> rc < 0"
      "\<forall>sg. rx = Inr sg \<longrightarrow> in_buffer dev sg"
    using init_sg_ok [OF bufs buf(2)] by blast
  show ?thesis
  proof (cases "\<exists>txc rxc txsg rxsg. axidma_get_chan dev (io_tx_channel_id t) = Some txc \<and> ch_dir txc = AXIDMA_WRITE \<and>
      axidma_get_chan dev (io_rx_channel_id t) = Some rxc \<and> ch_dir rxc = AXIDMA_READ \<and> tx = Inr txsg \<and> rx = Inr rxsg")
    case False
    then show ?thesis
      using w tx rx
      by (auto simp: axidma_rw_transfer_def errno_defs split: option.split sum.split)
  next
    case True
    then obtain txc rxc txsg rxsg where g: "axidma_get_chan dev (io_tx_channel_id t) = Some txc" "ch_dir txc = AXIDMA_WRITE"
      "axidma_get_chan dev (io_rx_channel_id t) = Some rxc" "ch_dir rxc = AXIDMA_READ" "tx = Inr txsg" "rx = Inr rxsg"
      by blast
    note ct = get_chan_Some [OF dev(1) g(1)] and cr = get_chan_Some [OF dev(1) g(3)]
    let ?tt = "\<lparr>tf_sg_list = [txsg], tf_wait = False, tf_cookie = None, tf_dir = ch_dir txc, tf_type = ch_type txc,
      tf_channel_id = io_tx_channel_id t, tf_notify_signal = ad_notify_signal dev, tf_process = Some p,
      tf_cb_data = io_tx_channel_id t, tf_frame = (if ch_type txc = AXIDMA_VDMA then Some (io_tx_frame t) else None)\<rparr>"
    let ?rt = "\<lparr>tf_sg_list = [rxsg], tf_wait = io_wait t, tf_cookie = None, tf_dir = ch_dir rxc, tf_type = ch_type rxc,
      tf_channel_id = io_rx_channel_id t, tf_notify_signal = ad_notify_signal dev, tf_process = Some p,
      tf_cb_data = io_rx_channel_id t, tf_frame = (if ch_type txc = AXIDMA_VDMA then Some (io_rx_frame t) else None)\<rparr>"
    obtain w1 dev1 tt rc1 where p1: "axidma_prep_transfer eng w dev txc ?tt = Some (w1, dev1, tt, rc1)"
        "cb_frame dev dev1" "rc1 \<le> 0" "I w1" "rc1 = 0 \<longrightarrow> (\<exists>k. tt = ?tt\<lparr>tf_cookie := Some k\<rparr>)"
      using prep_transfer_ok [OF dev conjunct1 [OF ct] eng w, of ?tt] ct dma tx(3) g(5) by auto
    have dev1: "device_ok dev1" "ids_in_range dev1" "rxc \<in> set (ad_channels dev1)" "txc \<in> set (ad_channels dev1)"
      using cb_frameD [OF p1(2)] dev ct cr by simp_all
    have eng1: "engine_keeps I (in_buffer dev1) eng" using eng in_buffer_cb [OF p1(2)] by simp
    obtain w2 dev2 rt rc2 where p2: "axidma_prep_transfer eng w1 dev1 rxc ?rt = Some (w2, dev2, rt, rc2)"
        "cb_frame dev1 dev2" "rc2 \<le> 0" "I w2" "rc2 = 0 \<longrightarrow> (\<exists>k. rt = ?rt\<lparr>tf_cookie := Some k\<rparr>)"
      using prep_transfer_ok [OF dev1(1-3) eng1 p1(4), of ?rt] cr dma rx(3) g(6) in_buffer_cb [OF p1(2)] by auto
    show ?thesis
    proof (cases "rc1 < 0")
      case True
      then show ?thesis using g tx(1) rx(1) p1 by (simp add: axidma_rw_transfer_def)
    next
      case r1: False
      then obtain k1 where k1: "tt = ?tt\<lparr>tf_cookie := Some k1\<rparr>" using p1 by auto
      note fr = cb_frame_trans [OF p1(2) p2(2)]
      show ?thesis
      proof (cases "rc2 < 0")
        case True
        then show ?thesis using g tx(1) rx(1) p1 p2 r1 fr by (simp add: axidma_rw_transfer_def)
      next
        case r2: False
        then obtain k2 where k2: "rt = ?rt\<lparr>tf_cookie := Some k2\<rparr>" using p2 by auto
        obtain w3 rc3 where s3: "axidma_start_transfer eng w2 txc tt = Some (w3, rc3)" "I w3" "rc3 \<le> 0"
          using start_transfer_ok [OF dev(1) conjunct1 [OF ct] eng p2(4), of tt k1] k1 by auto
        obtain w4 rc4 where s4: "axidma_start_transfer eng w3 rxc rt = Some (w4, rc4)" "I w4" "rc4 \<le> 0"
          using start_transfer_ok [OF dev(1) conjunct1 [OF cr] eng s3(2), of rt k2] k2 by auto
        show ?thesis
          using g tx(1) rx(1) p1(1) p2(1) s3 s4 r1 r2 fr by (simp add: axidma_rw_transfer_def)
      qed
    qed
  qed
qed

subsection \<open>Where the driver fails\<close>

text \<open>
  The callback data of a transfer are indexed by the channel's identifier. The device tree may number channels as it
  likes; one whose number is not below the number of channels makes the first transfer that gets a descriptor write
  outside the array.
\<close>

lemma id_out_of_range_crashes:
  assumes c: "axidma_get_chan dev (tr_channel_id t) = Some c" "ch_dir c = dir" "ch_type c = AXIDMA_DMA" "ch_chan c = Some h"
    and id: "int (length (ad_cb_data dev)) \<le> tr_channel_id t"
    and sg: "axidma_init_sg_entry dev (tr_buf t) (tr_buf_len t) = Some (Inr sg)"
    and d: "de_prep_slave_sg eng w h [sg] dir = (w1, Some d)"
  shows "oneway_transfer dir eng p w dev t = None"
  using assms
  by (cases "dir = AXIDMA_DIR_INVALID")
    (auto simp: oneway_transfer_def axidma_prep_transfer_def prep_descriptor_def store_cb_data_def
      axidma_to_dma_dir_def axidma_dir_to_string_def axidma_type_to_string_def nat_less_iff Let_def)

text \<open>A one-way transfer over a VDMA channel uses a frame that was never assigned.\<close>

lemma vdma_oneway_undefined:
  assumes c: "axidma_get_chan dev (tr_channel_id t) = Some c" "ch_dir c = dir" "ch_type c = AXIDMA_VDMA" "ch_chan c = Some h"
    and sg: "axidma_init_sg_entry dev (tr_buf t) (tr_buf_len t) = Some (Inr sg)"
    and d: "de_vdma_set_config eng w h axidma_setup_vdma_config = (w1, rc)" "0 \<le> rc"
  shows "oneway_transfer dir eng p w dev t = None"
  using assms
  by (cases "dir = AXIDMA_DIR_INVALID")
    (auto simp: oneway_transfer_def axidma_prep_transfer_def prep_descriptor_def
      axidma_to_dma_dir_def axidma_dir_to_string_def axidma_type_to_string_def Let_def)

text \<open>
  A video transfer never reports a failure, and on a channel that does not exist it reads through \<open>NULL\<close>, as stopping a
  channel does.
\<close>

lemma video_transfer_silent:
  assumes "axidma_video_transfer eng p w dev t dir = Some (w', dev', rc)"
  shows "rc = 0"
  using assms
  by (auto simp: axidma_video_transfer_def Let_def split: prod.splits if_splits sum.splits bind_splits)

lemma video_unknown_channel:
  assumes "axidma_get_chan dev (vt_channel_id t) = None" "snd (de_kmalloc eng w (vt_num_frame_buffers t * 32))"
    and "video_sg dev (word_of_int (int_mult (int_mult (fr_width (vt_frame t)) (fr_height (vt_frame t))) (fr_depth (vt_frame t))))
      (take (nat (vt_num_frame_buffers t)) (vt_frame_buffers t)) = Some (Inr sgs)"
  shows "axidma_video_transfer eng p w dev t dir = None"
  using assms
  by (cases "de_kmalloc eng w (vt_num_frame_buffers t * 32)") (simp add: axidma_video_transfer_def Let_def)

lemma stop_unknown_channel:
  "axidma_get_chan dev (ch_id c) = None \<Longrightarrow> axidma_stop_channel eng w dev c = None"
  by (simp add: axidma_stop_channel_def)

end
