(* ===== verification/Axidma_Driver.thy ===== *)
theory Axidma_Driver
  imports Axidma_Dma
begin

text \<open>
  Loading and unloading the AXI DMA driver: \<open>axidma_dma_init\<close> and \<open>axidma_dma_exit\<close> of \<open>axidma_dma.c\<close>,
  \<open>axidma_chrdev_init\<close> and \<open>axidma_chrdev_exit\<close> of \<open>axidma_chrdev.c\<close>, and \<open>axidma_probe\<close> and
  \<open>axidma_remove\<close> of \<open>axi_dma.c\<close>. What the kernel answers is an argument; what is acquired is entered into the
  ledger.
\<close>

subsection \<open>The channels\<close>

text \<open>
  What the kernel answers during initialisation: the result of setting the mask, the memory for the channels and the
  callback data with whatever it holds, and the handle of the channel requested in the i-th iteration by its name.
\<close>

record dma_init_answers =
  di_mask :: int
  di_channels :: "axidma_chan list option"
  di_cb_data :: "axidma_cb_data list option"
  di_request :: "nat \<Rightarrow> string \<Rightarrow> nat option"

text \<open>The loop of \<open>axidma_request_channels\<close> from \<open>i\<close> on; the number is that of the channels reserved.\<close>

primrec request_loop ::
    "(nat \<Rightarrow> string \<Rightarrow> nat option) \<Rightarrow> nat \<Rightarrow> nat \<Rightarrow> axidma_chan list \<Rightarrow> axledger
       \<Rightarrow> axidma_chan list \<times> axledger \<times> nat \<times> bool" where
  "request_loop req i 0 chans l = (chans, l, i, True)"
| "request_loop req i (Suc n) chans l =
     (let h = req i (ch_name (chans ! i));
          chans = chans[i := (chans ! i)\<lparr>ch_chan := h\<rparr>]
      in case h of
           None \<Rightarrow> (chans, l, i, False)
         | Some h \<Rightarrow> request_loop req (Suc i) n chans (acquire (Dma_channel h) l))"

fun release_channels :: "axidma_chan list \<Rightarrow> axledger \<Rightarrow> axledger option" where
  "release_channels [] l = Some l"
| "release_channels (c # cs) l =
     do { h \<leftarrow> ch_chan c; l \<leftarrow> release (Dma_channel h) l; release_channels cs l }"

definition axidma_request_channels ::
    "dma_init_answers \<Rightarrow> axidma_device \<Rightarrow> axledger \<Rightarrow> (axidma_device \<times> axledger \<times> int) option" where
  "axidma_request_channels ans dev l =
     (if length (ad_channels dev) < nat (ad_num_chans dev) then None
      else
        let (chans, l, reserved, ok) = request_loop (di_request ans) 0 (nat (ad_num_chans dev)) (ad_channels dev) l;
            dev = dev\<lparr>ad_channels := chans\<rparr> in
        if ok then Some (dev, l, 0)
        else do { l \<leftarrow> release_channels (take reserved chans) l; Some (dev, l, -ENODEV) })"

text \<open>A failing parse returns at once, without freeing the two arrays.\<close>

definition axidma_dma_init ::
    "dma_init_answers \<Rightarrow> dt_driver_node \<Rightarrow> axidma_device \<Rightarrow> axledger \<Rightarrow> (axidma_device \<times> axledger \<times> int) option" where
  "axidma_dma_init ans node dev l =
     (if di_mask ans < 0 then Some (dev, l, di_mask ans)
      else
        let dev = dev\<lparr>ad_num_chans := axidma_of_num_channels node\<rparr> in
        if ad_num_chans dev < 0 then Some (dev, l, ad_num_chans dev)
        else (case di_channels ans of
          None \<Rightarrow> Some (dev, l, -ENOMEM)
        | Some channels \<Rightarrow>
            let dev = dev\<lparr>ad_channels := channels\<rparr>;
                l = acquire (Kmalloc ''channels'') l in
            (case di_cb_data ans of
               None \<Rightarrow> do { l \<leftarrow> release (Kmalloc ''channels'') l; Some (dev, l, -ENOMEM) }
             | Some cbs \<Rightarrow>
                 let dev = dev\<lparr>ad_cb_data := cbs\<rparr>;
                     l = acquire (Kmalloc ''cb_data'') l in
                 do {
                   (dev, rc) \<leftarrow> axidma_of_parse_dma_nodes node dev;
                   (if rc < 0 then Some (dev, l, rc)
                    else do {
                      (dev, l, rc) \<leftarrow> axidma_request_channels ans dev l;
                      (if rc < 0 then do {
                         l \<leftarrow> release (Kmalloc ''cb_data'') l;
                         l \<leftarrow> release (Kmalloc ''channels'') l;
                         Some (dev, l, rc)
                       } else Some (dev, l, 0))
                    })
                 })))"

text \<open>The loop of \<open>axidma_dma_exit\<close>: stop each channel, then release it.\<close>

fun stop_and_release :: "'w dma_engine \<Rightarrow> axidma_chan list \<Rightarrow> 'w \<Rightarrow> axledger \<Rightarrow> ('w \<times> axledger) option" where
  "stop_and_release eng [] w l = Some (w, l)"
| "stop_and_release eng (c # cs) w l =
     do { h \<leftarrow> ch_chan c;
          let w = fst (de_terminate_all eng w h);
          l \<leftarrow> release (Dma_channel h) l;
          stop_and_release eng cs w l }"

definition axidma_dma_exit :: "'w dma_engine \<Rightarrow> 'w \<Rightarrow> axidma_device \<Rightarrow> axledger \<Rightarrow> ('w \<times> axledger) option" where
  "axidma_dma_exit eng w dev l =
     (if length (ad_channels dev) < nat (ad_num_chans dev) then None
      else do {
        (w, l) \<leftarrow> stop_and_release eng (take (nat (ad_num_chans dev)) (ad_channels dev)) w l;
        l \<leftarrow> release (Kmalloc ''channels'') l;
        l \<leftarrow> release (Kmalloc ''cb_data'') l;
        Some (w, l) })"

subsection \<open>The character device\<close>

text \<open>The results of the four registrations; negative ones are errors.\<close>

record chrdev_answers =
  ci_region :: int
  ci_class :: int
  ci_device :: int
  ci_cdev :: int

definition axidma_chrdev_init ::
    "chrdev_answers \<Rightarrow> axidma_device \<Rightarrow> axledger \<Rightarrow> (axidma_device \<times> axledger \<times> int) option" where
  "axidma_chrdev_init ans dev l =
     (if ci_region ans < 0 then Some (dev, l, ci_region ans)
      else let l = acquire Chrdev_region l in
      if ci_class ans < 0 then do { l \<leftarrow> release Chrdev_region l; Some (dev, l, ci_class ans) }
      else let l = acquire Dev_class l in
      if ci_device ans < 0 then do {
        l \<leftarrow> release Dev_class l; l \<leftarrow> release Chrdev_region l; Some (dev, l, ci_device ans) }
      else let l = acquire Dev_node l in
      if ci_cdev ans < 0 then do {
        l \<leftarrow> release Dev_node l; l \<leftarrow> release Dev_class l; l \<leftarrow> release Chrdev_region l; Some (dev, l, ci_cdev ans) }
      else Some (dev\<lparr>ad_dmabuf_list := [], ad_external_dmabufs := []\<rparr>, acquire Char_dev l, 0))"

definition axidma_chrdev_exit :: "axledger \<Rightarrow> axledger option" where
  "axidma_chrdev_exit l = release_all [Char_dev, Dev_node, Dev_class, Chrdev_region] l"

subsection \<open>Probe and remove\<close>

text \<open>The allocation of the device structure answers the contents of fresh memory, or nothing.\<close>

definition axidma_probe ::
    "axidma_device option \<Rightarrow> dma_init_answers \<Rightarrow> chrdev_answers \<Rightarrow> dt_driver_node \<Rightarrow> 'w dma_engine \<Rightarrow> 'w \<Rightarrow> axledger
       \<Rightarrow> ('w \<times> axidma_device option \<times> axledger \<times> int) option" where
  "axidma_probe mem dma chr node eng w l =
     (case mem of
        None \<Rightarrow> Some (w, None, l, -ENOMEM)
      | Some dev \<Rightarrow>
          let l = acquire (Kmalloc ''axidma_dev'') l in
          do {
            (dev, l, rc) \<leftarrow> axidma_dma_init dma node dev l;
            (if rc < 0 then do { l \<leftarrow> release (Kmalloc ''axidma_dev'') l; Some (w, None, l, -ENOSYS) }
             else do {
               (dev, l, rc) \<leftarrow> axidma_chrdev_init chr dev l;
               (if rc < 0 then do {
                  (w, l) \<leftarrow> axidma_dma_exit eng w dev l;
                  l \<leftarrow> release (Kmalloc ''axidma_dev'') l;
                  Some (w, None, l, -ENOSYS)
                } else Some (w, Some dev, l, 0))
             })
          })"

definition axidma_remove ::
    "'w dma_engine \<Rightarrow> 'w \<Rightarrow> axidma_device \<Rightarrow> axledger \<Rightarrow> ('w \<times> axledger \<times> int) option" where
  "axidma_remove eng w dev l =
     do { l \<leftarrow> axidma_chrdev_exit l;
          (w, l) \<leftarrow> axidma_dma_exit eng w dev l;
          l \<leftarrow> release (Kmalloc ''axidma_dev'') l;
          Some (w, l, 0) }"

text \<open>
  Loading the module registers the driver; unloading it unregisters the driver, which removes the device if it is bound.
\<close>

definition axidma_module_init :: "int \<Rightarrow> int" where
  "axidma_module_init register = register"

definition axidma_module_exit ::
    "'w dma_engine \<Rightarrow> 'w \<Rightarrow> axidma_device option \<Rightarrow> axledger \<Rightarrow> ('w \<times> axledger) option" where
  "axidma_module_exit eng w bound l =
     (case bound of None \<Rightarrow> Some (w, l)
      | Some dev \<Rightarrow> do { (w, l, rc) \<leftarrow> axidma_remove eng w dev l; Some (w, l) })"

subsection \<open>Reserving and releasing balance\<close>

text \<open>The ledger entries of channels that have a handle.\<close>

definition handles :: "axidma_chan list \<Rightarrow> axres multiset" where
  "handles cs = mset (map (Dma_channel \<circ> the \<circ> ch_chan) cs)"

definition reserved :: "axidma_chan list \<Rightarrow> bool" where
  "reserved cs \<longleftrightarrow> (\<forall>c \<in> set cs. ch_chan c \<noteq> None)"

lemma handles_simps [simp]:
  "handles [] = {#}" "handles (c # cs) = add_mset (Dma_channel (the (ch_chan c))) (handles cs)"
  "handles (cs @ ds) = handles cs + handles ds"
  by (simp_all add: handles_def)

lemma reserved_simps [simp]:
  "reserved []" "reserved (c # cs) \<longleftrightarrow> ch_chan c \<noteq> None \<and> reserved cs" "reserved (cs @ ds) \<longleftrightarrow> reserved cs \<and> reserved ds"
  by (auto simp: reserved_def)

lemma release_channels_ok: "reserved cs \<Longrightarrow> release_channels cs (handles cs + l) = Some l"
  by (induction cs) (auto simp: release_def)

lemma stop_and_release_ok: "reserved cs \<Longrightarrow> \<exists>w'. stop_and_release eng cs w (handles cs + l) = Some (w', l)"
  by (induction cs arbitrary: w) (auto simp: release_def)

text \<open>
  The loop reserves a prefix of the channels, changes nothing of them but the handles, and stops early only at a channel
  it cannot get.
\<close>

definition same_but_handle :: "axidma_chan \<Rightarrow> axidma_chan \<Rightarrow> bool" where
  "same_but_handle c d \<longleftrightarrow> (\<exists>h. d = c\<lparr>ch_chan := h\<rparr>)"

lemma same_but_handle_refl [simp]: "same_but_handle c c"
  unfolding same_but_handle_def by (rule exI [of _ "ch_chan c"]) simp

lemma same_but_handle_set: "same_but_handle c (c\<lparr>ch_chan := h\<rparr>)"
  by (auto simp: same_but_handle_def)

lemma same_but_handle_trans: "same_but_handle c d \<Longrightarrow> same_but_handle d e \<Longrightarrow> same_but_handle c e"
  by (auto simp: same_but_handle_def)

lemma all_same_refl [simp]: "list_all2 same_but_handle cs cs"
  by (simp add: list_all2_conv_all_nth)

lemma all_same_trans: "list_all2 same_but_handle cs ds \<Longrightarrow> list_all2 same_but_handle ds es \<Longrightarrow> list_all2 same_but_handle cs es"
  by (rule list_all2_trans [OF same_but_handle_trans])

lemma all_same_update:
  "list_all2 same_but_handle cs (cs[i := (cs ! i)\<lparr>ch_chan := h\<rparr>])"
  by (cases "i < length cs") (auto simp: list_all2_conv_all_nth nth_list_update same_but_handle_set)

lemma request_loop_ok:
  assumes "i + n \<le> length chans" "reserved (take i chans)"
    and "request_loop req i n chans (handles (take i chans) + l) = (chans', l', k, ok)"
  shows "list_all2 same_but_handle chans chans' \<and> k \<le> i + n \<and> (ok \<longrightarrow> k = i + n) \<and>
    reserved (take k chans') \<and> l' = handles (take k chans') + l"
  using assms
proof (induction n arbitrary: i chans)
  case 0
  then show ?case by auto
next
  case (Suc n)
  let ?h = "req i (ch_name (chans ! i))"
  let ?chans = "chans[i := (chans ! i)\<lparr>ch_chan := ?h\<rparr>]"
  have i: "i < length chans" using Suc.prems(1) by simp
  show ?case
  proof (cases ?h)
    case None
    with Suc.prems(3) have "chans[i := (chans ! i)\<lparr>ch_chan := None\<rparr>] = chans' \<and> handles (take i chans) + l = l' \<and> i = k \<and> \<not> ok"
      by (auto simp: Let_def)
    then show ?thesis using all_same_update [of chans i None] Suc.prems(2) by auto
  next
    case (Some h)
    have tk: "take (Suc i) ?chans = take i chans @ [(chans ! i)\<lparr>ch_chan := Some h\<rparr>]"
      using i Some by (simp add: take_Suc_conv_app_nth)
    have led: "acquire (Dma_channel h) (handles (take i chans) + l) = handles (take (Suc i) ?chans) + l"
      unfolding tk by (simp add: acquire_def)
    have run: "request_loop req (Suc i) n ?chans (handles (take (Suc i) ?chans) + l) = (chans', l', k, ok)"
      using Suc.prems(3) Some unfolding led [symmetric] by (simp add: Let_def)
    have len: "Suc i + n \<le> length ?chans" using Suc.prems(1) by simp
    have res: "reserved (take (Suc i) ?chans)" unfolding tk using Suc.prems(2) by simp
    show ?thesis
      using Suc.IH [OF len res run] all_same_trans [OF all_same_update [of chans i ?h]] by auto
  qed
qed

text \<open>What the handles are not part of: identifiers, kinds and counters are those of the device tree.\<close>

lemma all_same_maps:
  assumes "list_all2 same_but_handle cs ds"
  shows "map ch_id ds = map ch_id cs" "map ch_type ds = map ch_type cs" "map ch_dir ds = map ch_dir cs"
    "length ds = length cs"
  using assms by (induction rule: list_all2_induct) (auto simp: same_but_handle_def)

lemma all_same_counted:
  assumes "list_all2 same_but_handle cs ds"
  shows "counted ds dev = counted cs dev"
proof -
  have "count_kind t d ds = count_kind t d cs" for t d
    using assms by (induction rule: list_all2_induct) (auto simp: same_but_handle_def count_kind_def)
  moreover have "list_all valid_kind ds = list_all valid_kind cs"
    using assms by (induction rule: list_all2_induct) (auto simp: same_but_handle_def valid_kind_def)
  ultimately show ?thesis by (simp add: counted_def)
qed

text \<open>A device whose channels are set up: \<open>device_ok\<close> without the buffers.\<close>

definition channels_ok :: "axidma_device \<Rightarrow> bool" where
  "channels_ok dev \<longleftrightarrow> ad_num_chans dev = int (length (ad_channels dev)) \<and>
     length (ad_cb_data dev) = length (ad_channels dev) \<and> counted (ad_channels dev) dev \<and>
     distinct (map ch_id (ad_channels dev)) \<and> reserved (ad_channels dev)"

lemma device_ok_channels: "device_ok dev \<longleftrightarrow> channels_ok dev \<and> buffers_ok dev"
  by (auto simp: device_ok_def channels_ok_def reserved_def)

text \<open>The ledger of a driver that has its channels: what \<open>axidma_dma_exit\<close> gives back.\<close>

definition dma_held :: "axidma_device \<Rightarrow> axledger \<Rightarrow> axledger" where
  "dma_held dev l = handles (ad_channels dev) + acquire (Kmalloc ''cb_data'') (acquire (Kmalloc ''channels'') l)"

lemma dma_exit_ok:
  assumes "channels_ok dev"
  shows "\<exists>w'. axidma_dma_exit eng w dev (dma_held dev l) = Some (w', l)"
proof -
  obtain w' where "stop_and_release eng (ad_channels dev) w (dma_held dev l) =
      Some (w', acquire (Kmalloc ''cb_data'') (acquire (Kmalloc ''channels'') l))"
    using stop_and_release_ok [of "ad_channels dev" eng w "acquire (Kmalloc ''cb_data'') (acquire (Kmalloc ''channels'') l)"] assms
    unfolding dma_held_def channels_ok_def by blast
  then show ?thesis using assms by (simp add: axidma_dma_exit_def channels_ok_def ledger_simps)
qed

text \<open>
  What the code relies on: the device tree is as \<open>tree_ok\<close> says, and the two arrays are as large as they were
  asked to be.
\<close>

definition init_answers_ok :: "dma_init_answers \<Rightarrow> dt_driver_node \<Rightarrow> bool" where
  "init_answers_ok ans node \<longleftrightarrow> tree_ok node \<and>
     (\<forall>cs. di_channels ans = Some cs \<longrightarrow> length cs = nat (axidma_of_num_channels node)) \<and>
     (\<forall>cbs. di_cb_data ans = Some cbs \<longrightarrow> length cbs = nat (axidma_of_num_channels node))"

text \<open>Requesting the channels of a device whose device tree was parsed.\<close>

lemma request_channels_ok:
  assumes "ad_num_chans dev = int (length (ad_channels dev))" "length (ad_cb_data dev) = length (ad_channels dev)"
    and "counted (ad_channels dev) dev" "distinct (map ch_id (ad_channels dev))"
  shows "\<exists>dev' l' rc. axidma_request_channels ans dev l = Some (dev', l', rc) \<and> rc \<le> 0 \<and>
    (rc = 0 \<longrightarrow> channels_ok dev' \<and> l' = handles (ad_channels dev') + l) \<and> (rc \<noteq> 0 \<longrightarrow> l' = l)"
proof -
  obtain chans l1 k ok where r: "request_loop (di_request ans) 0 (length (ad_channels dev)) (ad_channels dev) l = (chans, l1, k, ok)"
    by (cases "request_loop (di_request ans) 0 (length (ad_channels dev)) (ad_channels dev) l")
  have s: "list_all2 same_but_handle (ad_channels dev) chans" "ok \<longrightarrow> k = length (ad_channels dev)"
      "reserved (take k chans)" "l1 = handles (take k chans) + l"
    using request_loop_ok [of 0 "length (ad_channels dev)" "ad_channels dev" "di_request ans" l chans l1 k ok] r by auto
  note m = all_same_maps [OF s(1)]
  have "ok \<Longrightarrow> channels_ok (dev\<lparr>ad_channels := chans\<rparr>)"
    using assms m s all_same_counted [OF s(1), of dev] by (simp add: channels_ok_def)
  then show ?thesis
    using assms r s m release_channels_ok [OF s(3), of l] by (auto simp: axidma_request_channels_def errno_defs Let_def)
qed

text \<open>
  Initialisation either sets the channels up, or leaves the ledger as it was, or, when the parse fails, leaks both
  arrays.
\<close>

definition dma_leaked :: "axledger \<Rightarrow> axledger" where
  "dma_leaked l = acquire (Kmalloc ''cb_data'') (acquire (Kmalloc ''channels'') l)"

lemma dma_init_ok:
  assumes "init_answers_ok ans node"
  shows "\<exists>dev' l' rc. axidma_dma_init ans node dev l = Some (dev', l', rc) \<and> rc \<le> 0 \<and>
    (rc = 0 \<longrightarrow> channels_ok dev' \<and> l' = dma_held dev' l) \<and> (rc \<noteq> 0 \<longrightarrow> l' = l \<or> l' = dma_leaked l)"
proof (cases "di_mask ans < 0 \<or> axidma_of_num_channels node < 0 \<or> di_channels ans = None \<or> di_cb_data ans = None")
  case True
  then show ?thesis by (auto simp: axidma_dma_init_def ledger_simps errno_defs Let_def split: option.split)
next
  case False
  then obtain cs cbs where a: "di_channels ans = Some cs" "di_cb_data ans = Some cbs" by auto
  let ?dev = "dev\<lparr>ad_num_chans := axidma_of_num_channels node, ad_channels := cs, ad_cb_data := cbs\<rparr>"
  have len: "length cs = nat (axidma_of_num_channels node)" "length cbs = nat (axidma_of_num_channels node)" "tree_ok node"
    using assms a by (auto simp: init_answers_ok_def)
  obtain dev1 rc1 where p: "axidma_of_parse_dma_nodes node ?dev = Some (dev1, rc1)" "same_setup ?dev dev1" "rc1 \<le> 0"
      "rc1 = 0 \<longrightarrow> counted (take (length cs) (ad_channels dev1)) dev1 \<and> distinct (map ch_id (take (length cs) (ad_channels dev1)))"
    using parse_dma_nodes_ok [OF len(3), of ?dev] len by auto
  show ?thesis
  proof (cases "rc1 < 0")
    case True
    then show ?thesis using False a p by (auto simp: axidma_dma_init_def dma_leaked_def Let_def)
  next
    case ok: False
    have d: "length (ad_channels dev1) = length cs" using p(2) by (simp add: same_setup_def)
    have "ad_num_chans dev1 = int (length (ad_channels dev1))" "length (ad_cb_data dev1) = length (ad_channels dev1)"
        "counted (ad_channels dev1) dev1" "distinct (map ch_id (ad_channels dev1))"
      using p ok len d False by (auto simp: same_setup_def)
    from request_channels_ok [OF this, of ans "dma_leaked l"] obtain dev' l' rc where
      r: "axidma_request_channels ans dev1 (dma_leaked l) = Some (dev', l', rc)" "rc \<le> 0"
        "rc = 0 \<longrightarrow> channels_ok dev' \<and> l' = handles (ad_channels dev') + dma_leaked l" "rc \<noteq> 0 \<longrightarrow> l' = dma_leaked l"
      by blast
    have "axidma_dma_init ans node dev l =
        (if rc < 0 then Some (dev', l, rc) else Some (dev', l', 0))"
      using False ok a p r by (simp add: axidma_dma_init_def dma_leaked_def ledger_simps Let_def)
    then show ?thesis using r by (auto simp: dma_held_def dma_leaked_def)
  qed
qed

lemma dma_init_leaks:
  assumes "0 \<le> di_mask ans" "0 \<le> axidma_of_num_channels node" "di_channels ans = Some cs" "di_cb_data ans = Some cbs"
    and "axidma_of_parse_dma_nodes node
      (dev\<lparr>ad_num_chans := axidma_of_num_channels node, ad_channels := cs, ad_cb_data := cbs\<rparr>) = Some (dev', rc)" "rc < 0"
  shows "axidma_dma_init ans node dev l = Some (dev', dma_leaked l, rc)"
  using assms by (simp add: axidma_dma_init_def dma_leaked_def Let_def)

subsection \<open>Probe and remove balance\<close>

definition chrdev_held :: "axledger \<Rightarrow> axledger" where
  "chrdev_held l = acquire Char_dev (acquire Dev_node (acquire Dev_class (acquire Chrdev_region l)))"

lemma chrdev_init_ok:
  "\<exists>dev' l' rc. axidma_chrdev_init ans dev l = Some (dev', l', rc) \<and> rc \<le> 0 \<and> (rc \<noteq> 0 \<longrightarrow> l' = l \<and> dev' = dev) \<and>
    (rc = 0 \<longrightarrow> dev' = dev\<lparr>ad_dmabuf_list := [], ad_external_dmabufs := []\<rparr> \<and> l' = chrdev_held l)"
  by (auto simp: axidma_chrdev_init_def chrdev_held_def ledger_simps Let_def)

lemma chrdev_exit_ok: "axidma_chrdev_exit (chrdev_held l) = Some l"
  by (simp add: axidma_chrdev_exit_def chrdev_held_def ledger_simps)

lemma channels_ok_buffers [simp]:
  "channels_ok (dev\<lparr>ad_dmabuf_list := x, ad_external_dmabufs := y\<rparr>) = channels_ok dev"
  "dma_held (dev\<lparr>ad_dmabuf_list := x, ad_external_dmabufs := y\<rparr>) l = dma_held dev l"
  by (simp_all add: channels_ok_def counted_def dma_held_def)

lemma acquire_dma_held: "acquire r (dma_held dev l) = dma_held dev (acquire r l)"
  by (simp add: dma_held_def acquire_def add_mset_commute)

lemma probe_ok:
  assumes "init_answers_ok dma node"
  shows "\<exists>w' r l' rc. axidma_probe mem dma chr node eng w l = Some (w', r, l', rc) \<and>
    (case r of
       Some dev \<Rightarrow> rc = 0 \<and> device_ok dev \<and> (\<forall>w. \<exists>w'. axidma_remove eng w dev l' = Some (w', l, 0))
     | None \<Rightarrow> rc < 0 \<and> (l' = l \<or> l' = dma_leaked l))"
proof (cases mem)
  case None
  then show ?thesis by (simp add: axidma_probe_def errno_defs)
next
  case (Some dev0)
  let ?l = "acquire (Kmalloc ''axidma_dev'') l"
  obtain dev l1 rc where i: "axidma_dma_init dma node dev0 ?l = Some (dev, l1, rc)" "rc \<le> 0"
      "rc = 0 \<longrightarrow> channels_ok dev \<and> l1 = dma_held dev ?l" "rc \<noteq> 0 \<longrightarrow> l1 = ?l \<or> l1 = dma_leaked ?l"
    using dma_init_ok [OF assms] by blast
  show ?thesis
  proof (cases "rc = 0")
    case False
    then show ?thesis using Some i by (auto simp: axidma_probe_def dma_leaked_def ledger_simps errno_defs)
  next
    case True
    then have ok: "channels_ok dev" "l1 = dma_held dev ?l" using i by simp_all
    obtain dev' l2 rc2 where c: "axidma_chrdev_init chr dev l1 = Some (dev', l2, rc2)" "rc2 \<le> 0"
        "rc2 \<noteq> 0 \<longrightarrow> l2 = l1 \<and> dev' = dev"
        "rc2 = 0 \<longrightarrow> dev' = dev\<lparr>ad_dmabuf_list := [], ad_external_dmabufs := []\<rparr> \<and> l2 = chrdev_held l1"
      using chrdev_init_ok [of chr dev l1] by blast
    show ?thesis
    proof (cases "rc2 = 0")
      case False
      obtain w' where "axidma_dma_exit eng w dev (dma_held dev ?l) = Some (w', ?l)"
        using dma_exit_ok [OF ok(1), of eng w ?l] by auto
      moreover have "rc2 < 0" "l2 = dma_held dev ?l" "dev' = dev" using c False ok(2) by simp_all
      ultimately show ?thesis using Some True i(1) c(1) by (simp add: axidma_probe_def release_acquire errno_defs)
    next
      case z: True
      have l2: "l2 = chrdev_held (dma_held dev' ?l)" and dev': "channels_ok dev'" "buffers_ok dev'"
        using c z ok by (simp_all add: buffers_ok_def)
      have "\<exists>w'. axidma_remove eng v dev' l2 = Some (w', l, 0)" for v
      proof -
        obtain w' where "axidma_dma_exit eng v dev' (dma_held dev' ?l) = Some (w', ?l)"
          using dma_exit_ok [OF dev'(1), of eng v ?l] by auto
        then show ?thesis unfolding l2 by (simp add: axidma_remove_def chrdev_exit_ok release_acquire)
      qed
      then show ?thesis
        using Some True i(1) c(1) z dev' by (simp add: axidma_probe_def device_ok_channels)
    qed
  qed
qed

end
