(* ===== verification/Axidma_Chrdev.thy ===== *)
theory Axidma_Chrdev
  imports Axidma_Driver
begin

text \<open>
  The file operations of the AXI DMA driver, \<open>axidma_chrdev.c\<close>: opening, releasing and the ioctl dispatcher.
  User memory is a parameter: \<open>user_memory\<close> answers what \<open>access_ok\<close> says and what copying from and to a user
  pointer gives. What the dispatcher writes to user memory is a value of \<open>user_copy\<close> in its result.
\<close>

subsection \<open>Opening and releasing\<close>

text \<open>The file's private data is the device or \<open>NULL\<close>; the module keeps one pointer to the device.\<close>

definition axidma_open :: "bool \<Rightarrow> bool \<Rightarrow> 'd option \<Rightarrow> 'd option \<Rightarrow> 'd option \<times> int" where
  "axidma_open capable_sys_admin o_excl axidma_dev private_data =
     (if \<not> capable_sys_admin then (private_data, -EACCES)
      else if \<not> o_excl then (private_data, -EINVAL)
      else (axidma_dev, 0))"

definition axidma_release :: "'d option \<Rightarrow> 'd option \<times> int" where
  "axidma_release private_data = (None, 0)"

subsection \<open>User memory\<close>

text \<open>
  \<open>None\<close> is a copy that failed. The copy for \<open>AXIDMA_STOP_DMA_CHANNEL\<close> gives the structure as it is after the copy,
  complete or not, because the dispatcher uses it in both cases. \<open>um_frames\<close> follows the pointer to the frame
  buffers that is stored in the user's structure; the outer \<open>None\<close> is that reading this pointer faults.
\<close>

record user_memory =
  um_access_ok :: "u64 \<Rightarrow> u32 \<Rightarrow> bool"
  um_channels :: "u64 \<Rightarrow> u64 option"
  um_buffer :: "u64 \<Rightarrow> axidma_register_buffer option"
  um_trans :: "u64 \<Rightarrow> axidma_transaction option"
  um_inout :: "u64 \<Rightarrow> axidma_inout_transaction option"
  um_video :: "u64 \<Rightarrow> axidma_video_transaction option"
  um_frames :: "u64 \<Rightarrow> int \<Rightarrow> u64 list option option"
  um_chan :: "u64 \<Rightarrow> axidma_chan \<times> bool"
  um_writable :: "u64 \<Rightarrow> int \<Rightarrow> bool"

datatype user_copy = No_copy | Copy_counts u64 axidma_num_channels | Copy_channels u64 "axidma_chan list"

text \<open>Both modes ask \<open>access_ok\<close> the same question.\<close>

definition axidma_access_ok :: "user_memory \<Rightarrow> u64 \<Rightarrow> u32 \<Rightarrow> bool \<Rightarrow> bool" where
  "axidma_access_ok um arg n readonly =
     (if \<not> readonly \<and> \<not> um_access_ok um arg n then False
      else if \<not> um_access_ok um arg n then False
      else True)"

subsection \<open>The dispatcher\<close>

type_synonym 'w ioctl_result = "('w \<times> axidma_device \<times> axledger \<times> user_copy \<times> int) option"

text \<open>The result of an operation that only changes the engine's world and the device.\<close>

definition engine_result :: "axledger \<Rightarrow> ('w \<times> axidma_device \<times> int) option \<Rightarrow> 'w ioctl_result" where
  "engine_result l r = do { (w, dev, rc) \<leftarrow> r; Some (w, dev, l, No_copy, rc) }"

definition ioctl_get_channels :: "user_memory \<Rightarrow> u64 \<Rightarrow> 'w \<Rightarrow> axidma_device \<Rightarrow> axledger \<Rightarrow> 'w ioctl_result" where
  "ioctl_get_channels um arg w dev l =
     (case um_channels um arg of
        None \<Rightarrow> Some (w, dev, l, No_copy, -EFAULT)
      | Some p \<Rightarrow>
          let n = nc_channels (axidma_get_num_channels dev); channels = axidma_get_channel_info dev in
          if int (length channels) < n then None
          else if \<not> um_writable um p (n * 32) then Some (w, dev, l, No_copy, -EFAULT)
          else Some (w, dev, l, Copy_channels p (take (nat n) channels), 0))"

text \<open>The two video commands; \<open>kmalloc_ok\<close> is what the allocation of the array answers.\<close>

definition ioctl_video ::
    "'w dma_engine \<Rightarrow> user_memory \<Rightarrow> bool \<Rightarrow> axidma_dir \<Rightarrow> nat \<Rightarrow> u64 \<Rightarrow> 'w \<Rightarrow> axidma_device \<Rightarrow> axledger
       \<Rightarrow> 'w ioctl_result" where
  "ioctl_video eng um kmalloc_ok dir current arg w dev l =
     (case um_video um arg of
        None \<Rightarrow> Some (w, dev, l, No_copy, -EFAULT)
      | Some video_trans \<Rightarrow>
          if \<not> kmalloc_ok then Some (w, dev, l, No_copy, -ENOMEM)
          else
            let l = acquire (Kmalloc ''frame_buffers'') l in
            do {
              frames \<leftarrow> um_frames um arg (vt_num_frame_buffers video_trans);
              (case frames of
                 None \<Rightarrow> do { l \<leftarrow> release (Kmalloc ''frame_buffers'') l; Some (w, dev, l, No_copy, -EFAULT) }
               | Some buffers \<Rightarrow> do {
                   (w, dev, rc) \<leftarrow> axidma_video_transfer eng current w dev
                     (video_trans\<lparr>vt_frame_buffers := buffers\<rparr>) dir;
                   l \<leftarrow> release (Kmalloc ''frame_buffers'') l;
                   Some (w, dev, l, No_copy, rc)
                 })
            })"

text \<open>\<open>arg\<close> as the \<open>int\<close> parameter of \<open>axidma_set_signal\<close>.\<close>

definition int_of_arg :: "u64 \<Rightarrow> int" where
  "int_of_arg arg = int_of_u32 (ucast arg)"

definition ioctl_command ::
    "'w dma_engine \<Rightarrow> user_memory \<Rightarrow> bool \<Rightarrow> external_answers \<Rightarrow> nat \<Rightarrow> u32 \<Rightarrow> u64 \<Rightarrow> 'w \<Rightarrow> axidma_device \<Rightarrow> axledger
       \<Rightarrow> 'w ioctl_result" where
  "ioctl_command eng um kmalloc_ok ext current cmd arg w dev l =
     (if cmd = AXIDMA_GET_NUM_DMA_CHANNELS then
        (if \<not> um_writable um arg 20 then Some (w, dev, l, No_copy, -EFAULT)
         else Some (w, dev, l, Copy_counts arg (axidma_get_num_channels dev), 0))
      else if cmd = AXIDMA_GET_DMA_CHANNELS then ioctl_get_channels um arg w dev l
      else if cmd = AXIDMA_SET_DMA_SIGNAL then
        (let (dev, rc) = axidma_set_signal dev (int_of_arg arg) in Some (w, dev, l, No_copy, rc))
      else if cmd = AXIDMA_REGISTER_BUFFER then
        (case um_buffer um arg of
           None \<Rightarrow> Some (w, dev, l, No_copy, -EFAULT)
         | Some ext_buf \<Rightarrow> do {
             (dev, l, rc) \<leftarrow> axidma_get_external ext ext_buf dev l;
             Some (w, dev, l, No_copy, rc) })
      else if cmd = AXIDMA_DMA_READ then
        (case um_trans um arg of
           None \<Rightarrow> Some (w, dev, l, No_copy, -EFAULT)
         | Some tr \<Rightarrow> engine_result l (axidma_read_transfer eng current w dev tr))
      else if cmd = AXIDMA_DMA_WRITE then
        (case um_trans um arg of
           None \<Rightarrow> Some (w, dev, l, No_copy, -EFAULT)
         | Some tr \<Rightarrow> engine_result l (axidma_write_transfer eng current w dev tr))
      else if cmd = AXIDMA_DMA_READWRITE then
        (case um_inout um arg of
           None \<Rightarrow> Some (w, dev, l, No_copy, -EFAULT)
         | Some tr \<Rightarrow> engine_result l (axidma_rw_transfer eng current w dev tr))
      else if cmd = AXIDMA_DMA_VIDEO_READ then ioctl_video eng um kmalloc_ok AXIDMA_READ current arg w dev l
      else if cmd = AXIDMA_DMA_VIDEO_WRITE then ioctl_video eng um kmalloc_ok AXIDMA_WRITE current arg w dev l
      else if cmd = AXIDMA_STOP_DMA_CHANNEL then
        do { (w, rc) \<leftarrow> axidma_stop_channel eng w dev (fst (um_chan um arg)); Some (w, dev, l, No_copy, rc) }
      else if cmd = AXIDMA_UNREGISTER_BUFFER then
        do { (dev, l, rc) \<leftarrow> axidma_put_external arg dev l; Some (w, dev, l, No_copy, rc) }
      else Some (w, dev, l, No_copy, -ENOTTY))"

text \<open>The private data of the file is \<open>NULL\<close> after a release; the commands read through it.\<close>

definition axidma_ioctl ::
    "'w dma_engine \<Rightarrow> user_memory \<Rightarrow> bool \<Rightarrow> external_answers \<Rightarrow> nat \<Rightarrow> u32 \<Rightarrow> u64 \<Rightarrow> 'w \<Rightarrow> axidma_device \<Rightarrow> axledger
       \<Rightarrow> 'w ioctl_result" where
  "axidma_ioctl eng um kmalloc_ok ext current cmd arg w dev l =
     (if IOC_TYPE cmd \<noteq> AXIDMA_IOCTL_MAGIC then Some (w, dev, l, No_copy, -ENOTTY)
      else if AXIDMA_NUM_IOCTLS \<le> IOC_NR cmd then Some (w, dev, l, No_copy, -ENOTTY)
      else if IOC_DIR cmd AND IOC_READ \<noteq> 0 \<and> \<not> axidma_access_ok um arg (IOC_SIZE cmd) False
      then Some (w, dev, l, No_copy, -EFAULT)
      else if IOC_DIR cmd AND IOC_READ = 0 \<and> IOC_DIR cmd AND IOC_WRITE \<noteq> 0 \<and>
        \<not> axidma_access_ok um arg (IOC_SIZE cmd) True
      then Some (w, dev, l, No_copy, -EFAULT)
      else ioctl_command eng um kmalloc_ok ext current cmd arg w dev l)"

subsection \<open>What the dispatcher refuses\<close>

lemma access_ok_eq [simp]: "axidma_access_ok um arg n readonly = um_access_ok um arg n"
  by (simp add: axidma_access_ok_def)

text \<open>
  The limit the dispatcher tests is the number of the command that unregisters a buffer: the branch that would do it
  is never reached.
\<close>

lemma unregister_refused:
  "axidma_ioctl eng um k ext current AXIDMA_UNREGISTER_BUFFER arg w dev l = Some (w, dev, l, No_copy, -ENOTTY)"
  using commands_in_range [of AXIDMA_UNREGISTER_BUFFER]
  by (simp add: axidma_ioctl_def all_commands_def)

lemma ioctl_command_unknown:
  "cmd \<notin> set all_commands \<Longrightarrow> ioctl_command eng um k ext current cmd arg w dev l = Some (w, dev, l, No_copy, -ENOTTY)"
  by (simp add: ioctl_command_def all_commands_def)

lemma ioctl_dispatch:
  "axidma_ioctl eng um k ext current cmd arg w dev l \<in>
    {Some (w, dev, l, No_copy, -ENOTTY), Some (w, dev, l, No_copy, -EFAULT),
     ioctl_command eng um k ext current cmd arg w dev l}"
  by (simp add: axidma_ioctl_def)

lemma ioctl_unknown:
  assumes "cmd \<notin> set all_commands"
  shows "\<exists>rc. rc < 0 \<and> axidma_ioctl eng um k ext current cmd arg w dev l = Some (w, dev, l, No_copy, rc)"
  using ioctl_dispatch [of eng um k ext current cmd arg w dev l] ioctl_command_unknown [OF assms, of eng um k ext current arg w dev l]
  by (auto simp: errno_defs)

text \<open>
  What the dispatcher does comes from the command itself, or it is a refusal that changes nothing.
\<close>

lemma ioctl_cases:
  obtains (refused) rc where "rc < 0" "axidma_ioctl eng um k ext current cmd arg w dev l = Some (w, dev, l, No_copy, rc)"
  | (command) "cmd \<noteq> AXIDMA_UNREGISTER_BUFFER" "cmd \<in> set all_commands"
      "axidma_ioctl eng um k ext current cmd arg w dev l = ioctl_command eng um k ext current cmd arg w dev l"
proof (cases "cmd \<in> set all_commands \<and> cmd \<noteq> AXIDMA_UNREGISTER_BUFFER")
  case False
  then show ?thesis
    using refused unregister_refused [of eng um k ext current arg w dev l]
      ioctl_unknown [of cmd eng um k ext current arg w dev l] by (auto simp: errno_defs)
next
  case True
  then show ?thesis
    using refused command ioctl_dispatch [of eng um k ext current cmd arg w dev l] by (auto simp: errno_defs)
qed

subsection \<open>What the dispatcher keeps\<close>

text \<open>Bytes of the bus, and the buffers that lie in a set of them.\<close>

definition span :: "u64 \<Rightarrow> u64 \<Rightarrow> nat set" where
  "span base n = {unat base ..< unat base + unat n}"

definition in_area :: "nat set \<Rightarrow> u64 \<times> u32 \<Rightarrow> bool" where
  "in_area area sg \<longleftrightarrow> span (fst sg) (ucast (snd sg)) \<subseteq> area"

definition buffers_in :: "nat set \<Rightarrow> axidma_device \<Rightarrow> bool" where
  "buffers_in area dev \<longleftrightarrow> (\<forall>a \<in> set (ad_dmabuf_list dev). span (da_dma_addr a) (da_size a) \<subseteq> area) \<and>
     (\<forall>a \<in> set (ad_external_dmabufs dev). span (ea_sg_addr a) (ea_size a) \<subseteq> area)"

lemma inside_span: "inside addr n base sz \<Longrightarrow> span addr n \<subseteq> span base sz"
  unfolding inside_def span_def ivl_subset by linarith

lemma in_buffer_area: "buffers_in area dev \<Longrightarrow> in_buffer dev sg \<Longrightarrow> in_area area sg"
  unfolding buffers_in_def in_buffer_def in_area_def using inside_span by blast

lemma engine_keeps_weaker:
  assumes "engine_keeps I ok eng" "\<And>sg. ok' sg \<Longrightarrow> ok sg"
  shows "engine_keeps I ok' eng"
proof -
  have "\<forall>w c sgs d. I w \<and> (\<forall>sg \<in> set sgs. ok' sg) \<longrightarrow> I (fst (de_prep_slave_sg eng w c sgs d))"
    using assms by (simp add: engine_keeps_def)
  then show ?thesis using assms(1) by (simp add: engine_keeps_def)
qed

text \<open>
  What is asked of a request. Sums of an address and a length do not wrap around; an imported buffer lies in the
  area; a channel to stop exists; the two video commands, which fail without saying so, are not used.
\<close>

definition no_wrap :: "u64 \<Rightarrow> u64 \<Rightarrow> bool" where
  "no_wrap a n \<longleftrightarrow> unat a + unat n < 2 ^ 64"

definition request_ok :: "nat set \<Rightarrow> user_memory \<Rightarrow> external_answers \<Rightarrow> axidma_device \<Rightarrow> u32 \<Rightarrow> u64 \<Rightarrow> bool" where
  "request_ok area um ext dev cmd arg \<longleftrightarrow>
     (\<forall>t. um_trans um arg = Some t \<longrightarrow> no_wrap (tr_buf t) (tr_buf_len t)) \<and>
     (\<forall>t. um_inout um arg = Some t \<longrightarrow> no_wrap (io_tx_buf t) (io_tx_buf_len t) \<and> no_wrap (io_rx_buf t) (io_rx_buf_len t)) \<and>
     (\<forall>b t n a. um_buffer um arg = Some b \<and> xa_map ext = Inr (t, n, a) \<longrightarrow>
        no_wrap (rb_user_addr b) (rb_size b) \<and> no_wrap a (rb_size b) \<and> span a (rb_size b) \<subseteq> area) \<and>
     external_errors_ok ext \<and>
     (cmd = AXIDMA_STOP_DMA_CHANNEL \<longrightarrow> axidma_get_chan dev (ch_id (fst (um_chan um arg))) \<noteq> None) \<and>
     cmd \<noteq> AXIDMA_DMA_VIDEO_READ \<and> cmd \<noteq> AXIDMA_DMA_VIDEO_WRITE"

text \<open>
  The ledger of a driver with buffers: two entries for a buffer of its own, four for an imported one.
\<close>

definition own_entries :: "axidma_dma_allocation \<Rightarrow> axledger" where
  "own_entries a = {#Coherent (da_dma_addr a) (da_size a), Kmalloc ''dma_alloc''#}"

definition external_entries :: "axidma_external_allocation \<Rightarrow> axledger" where
  "external_entries a =
     {#Dma_mapping (ea_sg_table a), Dma_attachment (ea_attach a), Dma_buf (ea_dma_buf a), Kmalloc ''ext_alloc''#}"

definition buffers_held :: "axidma_device \<Rightarrow> axledger \<Rightarrow> axledger" where
  "buffers_held dev l = (\<Sum>a \<leftarrow> ad_dmabuf_list dev. own_entries a) +
     (\<Sum>a \<leftarrow> ad_external_dmabufs dev. external_entries a) + l"

text \<open>
  The invariant of a loaded driver with the DMA channels \<open>chans\<close>: the device, the identifiers, the area, and the ledger
  over a base.
\<close>

definition driver_inv :: "nat set \<Rightarrow> axledger \<Rightarrow> axidma_chan list \<Rightarrow> ('w \<Rightarrow> bool) \<Rightarrow> 'w \<times> axidma_device \<times> axledger \<Rightarrow> bool" where
  "driver_inv area base chans I s \<longleftrightarrow> (case s of (w, dev, l) \<Rightarrow>
     device_ok dev \<and> ids_in_range dev \<and> ad_channels dev = chans \<and> (\<forall>c \<in> set chans. ch_type c = AXIDMA_DMA) \<and>
     buffers_in area dev \<and> l = buffers_held dev base \<and> I w)"

lemma driver_inv_simp:
  "driver_inv area base chans I (w, dev, l) \<longleftrightarrow>
     device_ok dev \<and> ids_in_range dev \<and> ad_channels dev = chans \<and> (\<forall>c \<in> set chans. ch_type c = AXIDMA_DMA) \<and>
     buffers_in area dev \<and> l = buffers_held dev base \<and> I w"
  by (simp add: driver_inv_def)

lemma buffers_held_cb: "cb_frame dev dev' \<Longrightarrow> buffers_held dev' l = buffers_held dev l"
  by (auto simp: cb_frame_def buffers_held_def)

lemma channels_frame [simp]:
  "channels_ok (dev\<lparr>ad_external_dmabufs := x\<rparr>) = channels_ok dev" "channels_ok (dev\<lparr>ad_dmabuf_list := y\<rparr>) = channels_ok dev"
  "channels_ok (dev\<lparr>ad_notify_signal := n\<rparr>) = channels_ok dev"
  "ids_in_range (dev\<lparr>ad_external_dmabufs := x\<rparr>) = ids_in_range dev" "ids_in_range (dev\<lparr>ad_dmabuf_list := y\<rparr>) = ids_in_range dev"
  "ids_in_range (dev\<lparr>ad_notify_signal := n\<rparr>) = ids_in_range dev"
  by (simp_all add: channels_ok_def counted_def ids_in_range_def)

lemma buffers_frame [simp]:
  "buffers_ok (dev\<lparr>ad_notify_signal := n\<rparr>) = buffers_ok dev" "buffers_in area (dev\<lparr>ad_notify_signal := n\<rparr>) = buffers_in area dev"
  "buffers_held (dev\<lparr>ad_notify_signal := n\<rparr>) l = buffers_held dev l"
  by (simp_all add: buffers_ok_def buffers_in_def buffers_held_def)

lemma driver_inv_cb:
  assumes "driver_inv area base chans I (w, dev, l)" "cb_frame dev dev'" "I w'"
  shows "driver_inv area base chans I (w', dev', l)"
proof -
  have "buffers_in area dev'" using assms by (auto simp: driver_inv_simp cb_frame_def buffers_in_def)
  then show ?thesis
    using assms(1,3) cb_frameD [OF assms(2)] buffers_held_cb [OF assms(2)] by (simp add: driver_inv_simp)
qed

lemma driver_engine_keeps:
  assumes "driver_inv area base chans I (w, dev, l)" "engine_keeps I (in_area area) eng"
  shows "engine_keeps I (in_buffer dev) eng"
  using assms in_buffer_area by (auto intro: engine_keeps_weaker simp: driver_inv_simp)

text \<open>An operation that answers this way keeps the invariant and the ledger, and reports no positive number.\<close>

definition answers :: "nat set \<Rightarrow> axledger \<Rightarrow> axidma_chan list \<Rightarrow> ('w \<Rightarrow> bool) \<Rightarrow> 'w ioctl_result \<Rightarrow> bool" where
  "answers area base chans I r \<longleftrightarrow> (\<exists>w dev l out rc. r = Some (w, dev, l, out, rc) \<and> driver_inv area base chans I (w, dev, l))"

lemma answersI: "driver_inv area base chans I (w, dev, l) \<Longrightarrow> answers area base chans I (Some (w, dev, l, out, rc))"
  by (auto simp: answers_def)

lemma oneway_answers:
  assumes inv: "driver_inv area base chans I (w, dev, l)" and eng: "engine_keeps I (in_area area) eng"
    and tr: "no_wrap (tr_buf t) (tr_buf_len t)"
  shows "answers area base chans I (engine_result l (oneway_transfer dir eng current w dev t))"
proof -
  have d: "device_ok dev" "ids_in_range dev" "\<forall>c \<in> set (ad_channels dev). ch_type c = AXIDMA_DMA" "I w"
    using inv by (auto simp: driver_inv_simp)
  obtain w' dev' rc where "oneway_transfer dir eng current w dev t = Some (w', dev', rc)" "cb_frame dev dev'" "I w'"
    using oneway_transfer_ok [OF d(1,2) driver_engine_keeps [OF inv eng] d(4,3) tr [unfolded no_wrap_def]] by blast
  then show ?thesis using driver_inv_cb [OF inv] by (auto simp: engine_result_def intro: answersI)
qed

lemma rw_answers:
  assumes inv: "driver_inv area base chans I (w, dev, l)" and eng: "engine_keeps I (in_area area) eng"
    and tr: "no_wrap (io_tx_buf t) (io_tx_buf_len t)" "no_wrap (io_rx_buf t) (io_rx_buf_len t)"
  shows "answers area base chans I (engine_result l (axidma_rw_transfer eng current w dev t))"
proof -
  have d: "device_ok dev" "ids_in_range dev" "\<forall>c \<in> set (ad_channels dev). ch_type c = AXIDMA_DMA" "I w"
    using inv by (auto simp: driver_inv_simp)
  obtain w' dev' rc where "axidma_rw_transfer eng current w dev t = Some (w', dev', rc)" "cb_frame dev dev'" "I w'"
    using rw_transfer_ok [OF d(1,2) driver_engine_keeps [OF inv eng] d(4,3) tr [unfolded no_wrap_def]] by blast
  then show ?thesis using driver_inv_cb [OF inv] by (auto simp: engine_result_def intro: answersI)
qed

lemma stop_answers:
  assumes inv: "driver_inv area base chans I (w, dev, l)" and eng: "engine_keeps I (in_area area) eng"
    and found: "axidma_get_chan dev (ch_id c) \<noteq> None"
  shows "answers area base chans I (do { (w, rc) \<leftarrow> axidma_stop_channel eng w dev c; Some (w, dev, l, No_copy, rc) })"
proof -
  have d: "device_ok dev" "I w" using inv by (simp_all add: driver_inv_simp)
  obtain ch where ch: "axidma_get_chan dev (ch_id c) = Some ch" using found by blast
  then obtain h where h: "ch_chan ch = Some h" using get_chan_Some [OF d(1) ch] d(1) by (auto simp: device_ok_def)
  obtain w' rc where t: "de_terminate_all eng w h = (w', rc)" by fastforce
  then have "I w'" using engine_keepsD(5) [OF eng d(2), of h] by simp
  then have "driver_inv area base chans I (w', dev, l)" using inv by (simp add: driver_inv_simp)
  then show ?thesis using ch h t by (auto simp: axidma_stop_channel_def intro: answersI)
qed

lemma acquire_held:
  "buffers_held (dev\<lparr>ad_external_dmabufs := a # ad_external_dmabufs dev\<rparr>) l =
     acquire (Dma_mapping (ea_sg_table a)) (acquire (Dma_attachment (ea_attach a))
       (acquire (Dma_buf (ea_dma_buf a)) (acquire (Kmalloc ''ext_alloc'') (buffers_held dev l))))"
  "buffers_held (dev\<lparr>ad_dmabuf_list := b # ad_dmabuf_list dev\<rparr>) l =
     acquire (Coherent (da_dma_addr b) (da_size b)) (acquire (Kmalloc ''dma_alloc'') (buffers_held dev l))"
  by (simp_all add: buffers_held_def own_entries_def external_entries_def acquire_def)

lemma register_answers:
  assumes inv: "driver_inv area base chans I (w, dev, l)" and ext: "external_errors_ok ext"
    and b: "\<And>t n a. xa_map ext = Inr (t, n, a) \<Longrightarrow>
      no_wrap (rb_user_addr b) (rb_size b) \<and> no_wrap a (rb_size b) \<and> span a (rb_size b) \<subseteq> area"
  shows "answers area base chans I (do { (dev, l, rc) \<leftarrow> axidma_get_external ext b dev l; Some (w, dev, l, No_copy, rc) })"
proof -
  obtain dev' l' rc where g: "axidma_get_external ext b dev l = Some (dev', l', rc)"
      "rc \<noteq> 0 \<longrightarrow> dev' = dev \<and> l' = l"
      "rc = 0 \<longrightarrow> (\<exists>a. dev' = dev\<lparr>ad_external_dmabufs := a # ad_external_dmabufs dev\<rparr> \<and> ea_live a \<and>
         (\<exists>t n. xa_map ext = Inr (t, n, ea_sg_addr a)) \<and> ea_user_addr a = rb_user_addr b \<and> ea_size a = rb_size b \<and>
         l' = acquire (Dma_mapping (ea_sg_table a)) (acquire (Dma_attachment (ea_attach a))
           (acquire (Dma_buf (ea_dma_buf a)) (acquire (Kmalloc ''ext_alloc'') l))))"
    using get_external_clean [OF ext, of b dev l] by blast
  have "driver_inv area base chans I (w, dev', l')"
  proof (cases "rc = 0")
    case False
    then show ?thesis using g inv by simp
  next
    case True
    then obtain a t n where a: "xa_map ext = Inr (t, n, ea_sg_addr a)"
        "dev' = dev\<lparr>ad_external_dmabufs := a # ad_external_dmabufs dev\<rparr>" "ea_live a"
        "ea_user_addr a = rb_user_addr b" "ea_size a = rb_size b"
        "l' = acquire (Dma_mapping (ea_sg_table a)) (acquire (Dma_attachment (ea_attach a))
           (acquire (Dma_buf (ea_dma_buf a)) (acquire (Kmalloc ''ext_alloc'') l)))"
      using g(3) by blast
    have "l' = buffers_held dev' base" unfolding a(2,6) acquire_held using inv by (simp add: driver_inv_simp)
    then show ?thesis
      using inv a(2-5) b [OF a(1)]
      by (simp add: driver_inv_simp device_ok_channels buffers_ok_def external_ok_def buffers_in_def no_wrap_def)
  qed
  then show ?thesis using g(1) by (auto intro: answersI)
qed

text \<open>The dispatcher keeps the invariant of the driver.\<close>

lemma ioctl_ok:
  assumes inv: "driver_inv area base chans I (w, dev, l)" and eng: "engine_keeps I (in_area area) eng"
    and req: "request_ok area um ext dev cmd arg"
  shows "answers area base chans I (axidma_ioctl eng um k ext current cmd arg w dev l)"
proof (cases rule: ioctl_cases [of eng um k ext current cmd arg w dev l])
  case (refused rc)
  then show ?thesis using inv by (simp add: answersI)
next
  case command
  have same: "answers area base chans I (Some (w, dev, l, out, rc))" for out rc using inv by (rule answersI)
  have chans: "answers area base chans I (ioctl_get_channels um arg w dev l)"
    using inv same by (auto simp: ioctl_get_channels_def axidma_get_num_channels_def driver_inv_simp device_ok_def Let_def
        split: option.split)
  have sig: "answers area base chans I (let (dev, rc) = axidma_set_signal dev n in Some (w, dev, l, No_copy, rc))" for n
    using inv by (auto simp: axidma_set_signal_def driver_inv_simp device_ok_channels intro!: answersI)
  have buf: "answers area base chans I (do { (dev, l, rc) \<leftarrow> axidma_get_external ext b dev l; Some (w, dev, l, No_copy, rc) })"
    if "um_buffer um arg = Some b" for b
    using that req by (intro register_answers [OF inv]) (auto simp: request_ok_def)
  have one: "answers area base chans I (engine_result l (oneway_transfer dir eng current w dev t))"
    if "um_trans um arg = Some t" for t dir
    using that req by (intro oneway_answers [OF inv eng]) (simp add: request_ok_def)
  have two: "answers area base chans I (engine_result l (axidma_rw_transfer eng current w dev t))"
    if "um_inout um arg = Some t" for t
    using that req by (intro rw_answers [OF inv eng]) (simp_all add: request_ok_def)
  have stop: "answers area base chans I (do { (w, rc) \<leftarrow> axidma_stop_channel eng w dev (fst (um_chan um arg)); Some (w, dev, l, No_copy, rc) })"
    if "cmd = AXIDMA_STOP_DMA_CHANNEL"
    using that req by (intro stop_answers [OF inv eng]) (simp add: request_ok_def)
  have "cmd \<noteq> AXIDMA_DMA_VIDEO_READ" "cmd \<noteq> AXIDMA_DMA_VIDEO_WRITE" using req by (simp_all add: request_ok_def)
  with command(1) show ?thesis
    unfolding command(3) ioctl_command_def axidma_read_transfer_def axidma_write_transfer_def
    using same chans sig buf one two stop by (simp split: option.split)
qed

subsection \<open>What the dispatcher reports\<close>

text \<open>The counts and the channels it copies to the user are those of the device.\<close>

lemma counts_reported:
  assumes "device_ok dev" "um_access_ok um arg 20" "um_writable um arg 20"
  shows "axidma_ioctl eng um k ext current AXIDMA_GET_NUM_DMA_CHANNELS arg w dev l =
    Some (w, dev, l, Copy_counts arg
      \<lparr>nc_channels = int (length (ad_channels dev)), nc_dma_tx = count_kind AXIDMA_DMA AXIDMA_WRITE (ad_channels dev),
       nc_dma_rx = count_kind AXIDMA_DMA AXIDMA_READ (ad_channels dev),
       nc_vdma_tx = count_kind AXIDMA_VDMA AXIDMA_WRITE (ad_channels dev),
       nc_vdma_rx = count_kind AXIDMA_VDMA AXIDMA_READ (ad_channels dev)\<rparr>, 0)"
  using assms
  by (simp add: axidma_ioctl_def ioctl_command_def axidma_get_num_channels_def device_ok_def counted_def ioc_eval
      word_le_nat_alt)

lemma channels_reported:
  assumes "device_ok dev" "um_access_ok um arg 8" "um_channels um arg = Some p"
    and "um_writable um p (int (length (ad_channels dev)) * 32)"
  shows "axidma_ioctl eng um k ext current AXIDMA_GET_DMA_CHANNELS arg w dev l =
    Some (w, dev, l, Copy_channels p (ad_channels dev), 0)"
  using assms
  by (simp add: axidma_ioctl_def ioctl_command_def ioctl_get_channels_def axidma_get_num_channels_def device_ok_def
      ioc_eval word_le_nat_alt)

text \<open>A failed copy does not keep the dispatcher from stopping the channel its uninitialised structure names.\<close>

lemma stop_ignores_fault:
  assumes "um_access_ok um arg 32" "um_chan um arg = (c, False)"
    and "axidma_get_chan dev (ch_id c) = Some ch" "ch_chan ch = Some h" "de_terminate_all eng w h = (w', rc)"
  shows "axidma_ioctl eng um k ext current AXIDMA_STOP_DMA_CHANNEL arg w dev l = Some (w', dev, l, No_copy, rc)"
  using assms
  by (simp add: axidma_ioctl_def ioctl_command_def axidma_stop_channel_def ioc_eval word_le_nat_alt)

text \<open>A video command reports success although nothing was transferred.\<close>

lemma video_reports_success:
  assumes "um_access_ok um arg 32" "um_video um arg = Some v" "um_frames um arg (vt_num_frame_buffers v) = Some (Some bs)"
    and "axidma_video_transfer eng current w dev (v\<lparr>vt_frame_buffers := bs\<rparr>) AXIDMA_READ = Some (w', dev', rc)"
  shows "axidma_ioctl eng um True ext current AXIDMA_DMA_VIDEO_READ arg w dev l = Some (w', dev', l, No_copy, 0)"
  using assms video_transfer_silent [OF assms(4)]
  by (simp add: axidma_ioctl_def ioctl_command_def ioctl_video_def ioc_eval word_le_nat_alt release_acquire)

end
