(* ===== verification/Axidma_Session.thy ===== *)
theory Axidma_Session
  imports Axidma_Chrdev
begin

text \<open>
  A session with the AXI DMA driver: any sequence of ioctls, mappings, unmappings and completions, from a loaded
  driver on. The states that can be reached keep the driver's invariant, no step of a session is undefined, and once
  every buffer is given back the driver can be removed without a leak.
\<close>

subsection \<open>Steps\<close>

type_synonym 'w driver_state = "'w \<times> axidma_device \<times> axledger"

text \<open>What the kernel's allocator answers a mapping: memory that lies in the area and does not wrap around.\<close>

definition mmap_request_ok :: "nat set \<Rightarrow> mmap_answers \<Rightarrow> u64 \<Rightarrow> u64 \<Rightarrow> bool" where
  "mmap_request_ok area ans vm_start vm_end \<longleftrightarrow> vm_start \<le> vm_end \<and>
     (\<forall>k d. ma_coherent ans = Some (k, d) \<longrightarrow> no_wrap d (vm_end - vm_start) \<and> span d (vm_end - vm_start) \<subseteq> area)"

inductive driver_step :: "nat set \<Rightarrow> 'w dma_engine \<Rightarrow> 'w driver_state \<Rightarrow> 'w driver_state \<Rightarrow> bool"
  for area eng where
  step_ioctl: "request_ok area um ext dev cmd arg \<Longrightarrow>
     axidma_ioctl eng um k ext current cmd arg w dev l = Some (w', dev', l', out, rc) \<Longrightarrow>
     driver_step area eng (w, dev, l) (w', dev', l')"
| step_mmap: "mmap_request_ok area ans vm_start vm_end \<Longrightarrow>
     axidma_mmap ans vm_start vm_end dev l = Some (dev', l', a, rc) \<Longrightarrow>
     driver_step area eng (w, dev, l) (w, dev', l')"
| step_close: "a \<in> set (ad_dmabuf_list dev) \<Longrightarrow> axidma_vma_close a dev l = Some (dev', l') \<Longrightarrow>
     driver_step area eng (w, dev, l) (w, dev', l')"
| step_callback: "cb \<in> set (ad_cb_data dev) \<Longrightarrow>
     driver_step area eng (w, dev, l) (axidma_dma_callback eng w cb, dev, l)"

inductive driver_reach :: "nat set \<Rightarrow> 'w dma_engine \<Rightarrow> 'w driver_state \<Rightarrow> 'w driver_state \<Rightarrow> bool"
  for area eng s where
  reach_start: "driver_reach area eng s s"
| reach_step: "driver_reach area eng s t \<Longrightarrow> driver_step area eng t u \<Longrightarrow> driver_reach area eng s u"

subsection \<open>Each step keeps the invariant\<close>

text \<open>The functions the completion callback uses keep the property of the world, too.\<close>

definition callbacks_keep :: "('w \<Rightarrow> bool) \<Rightarrow> 'w dma_engine \<Rightarrow> bool" where
  "callbacks_keep I eng \<longleftrightarrow> (\<forall>w c. I w \<longrightarrow> I (de_complete eng w c)) \<and> (\<forall>w s c p. I w \<longrightarrow> I (de_send_signal eng w s c p))"

lemma callback_keeps: "callbacks_keep I eng \<Longrightarrow> I w \<Longrightarrow> I (axidma_dma_callback eng w cb)"
  by (simp add: axidma_dma_callback_def callbacks_keep_def)

lemma mmap_keeps:
  assumes inv: "driver_inv area base chans I (w, dev, l)" and req: "mmap_request_ok area ans vm_start vm_end"
    and run: "axidma_mmap ans vm_start vm_end dev l = Some (dev', l', a, rc)"
  shows "driver_inv area base chans I (w, dev', l')"
proof (cases "rc = 0")
  case False
  then show ?thesis using mmap_fails_clean [OF run] inv by simp
next
  case True
  let ?n = "vm_end - vm_start"
  obtain kern dma where m: "ma_coherent ans = Some (kern, dma)"
      "a = Some \<lparr>da_size = ?n, da_user_addr = vm_start, da_kern_addr = kern, da_dma_addr = dma\<rparr>"
      "dev' = dev\<lparr>ad_dmabuf_list := the a # ad_dmabuf_list dev\<rparr>"
      "l' = acquire (Coherent dma ?n) (acquire (Kmalloc ''dma_alloc'') l)"
    using mmap_ok [OF run True] by blast
  have r: "no_wrap dma ?n" "span dma ?n \<subseteq> area" "vm_start \<le> vm_end" using req m(1) by (auto simp: mmap_request_ok_def)
  have u: "unat vm_start + unat ?n < 2 ^ 64"
  proof -
    have "unat vm_end < 2 ^ LENGTH(64)" by (rule unsigned_less)
    then show ?thesis using r(3) by (simp add: unat_sub word_le_nat_alt)
  qed
  have "l' = buffers_held dev' base" unfolding m(2-4) option.sel acquire_held using inv by (simp add: driver_inv_simp)
  then show ?thesis
    using inv m(2,3) r u
    by (simp add: driver_inv_simp device_ok_channels buffers_ok_def own_ok_def buffers_in_def no_wrap_def)
qed

lemma close_ledger:
  assumes "a \<in> set (ad_dmabuf_list dev)" "l = buffers_held dev base"
  shows "axidma_vma_close a dev l =
    Some (dev\<lparr>ad_dmabuf_list := remove1 a (ad_dmabuf_list dev)\<rparr>,
      buffers_held (dev\<lparr>ad_dmabuf_list := remove1 a (ad_dmabuf_list dev)\<rparr>) base)"
proof -
  have "(\<Sum>x \<leftarrow> as. own_entries x) = own_entries a + (\<Sum>x \<leftarrow> remove1 a as. own_entries x)" if "a \<in> set as" for as
    by (rule sum_list_map_remove1 [OF that])
  then have "l = acquire (Coherent (da_dma_addr a) (da_size a)) (acquire (Kmalloc ''dma_alloc'')
      (buffers_held (dev\<lparr>ad_dmabuf_list := remove1 a (ad_dmabuf_list dev)\<rparr>) base))"
    using assms by (simp add: buffers_held_def own_entries_def acquire_def)
  then show ?thesis using assms(1) by (simp add: axidma_vma_close_def release_acquire)
qed

lemma close_keeps:
  assumes inv: "driver_inv area base chans I (w, dev, l)" and a: "a \<in> set (ad_dmabuf_list dev)"
    and run: "axidma_vma_close a dev l = Some (dev', l')"
  shows "driver_inv area base chans I (w, dev', l')"
proof -
  have "dev' = dev\<lparr>ad_dmabuf_list := remove1 a (ad_dmabuf_list dev)\<rparr>" "l' = buffers_held dev' base"
    using close_ledger [OF a, of l base] run inv by (auto simp: driver_inv_simp)
  moreover have "set (remove1 a (ad_dmabuf_list dev)) \<subseteq> set (ad_dmabuf_list dev)" by (rule set_remove1_subset)
  ultimately show ?thesis
    using inv by (auto simp: driver_inv_simp device_ok_channels buffers_ok_def buffers_in_def)
qed

lemma step_keeps:
  assumes inv: "driver_inv area base chans I s" and eng: "engine_keeps I (in_area area) eng" "callbacks_keep I eng"
    and step: "driver_step area eng s t"
  shows "driver_inv area base chans I t"
  using step
proof cases
  case (step_ioctl um ext dev cmd arg k current w l w' dev' l' out rc)
  then show ?thesis
    using ioctl_ok [of area base chans I w dev l eng um ext cmd arg k current] inv eng(1) by (auto simp: answers_def)
next
  case (step_mmap ans vm_start vm_end dev l dev' l' a rc w)
  then show ?thesis using mmap_keeps [of area base chans I w dev l ans vm_start vm_end dev' l' a rc] inv by simp
next
  case (step_close a dev l dev' l' w)
  then show ?thesis using close_keeps [of area base chans I w dev l a dev' l'] inv by simp
next
  case (step_callback cb dev w l)
  then show ?thesis using inv callback_keeps [OF eng(2)] by (simp add: driver_inv_simp)
qed

lemma reach_keeps:
  assumes "driver_reach area eng s t" "driver_inv area base chans I s" "engine_keeps I (in_area area) eng" "callbacks_keep I eng"
  shows "driver_inv area base chans I t"
  using assms by (induction rule: driver_reach.induct) (auto intro: step_keeps)

subsection \<open>No step is undefined\<close>

lemma ioctl_defined:
  assumes "driver_inv area base chans I (w, dev, l)" "engine_keeps I (in_area area) eng" "request_ok area um ext dev cmd arg"
  shows "axidma_ioctl eng um k ext current cmd arg w dev l \<noteq> None"
  using ioctl_ok [OF assms, of k current] by (auto simp: answers_def)

lemma close_defined:
  assumes "driver_inv area base chans I (w, dev, l)" "a \<in> set (ad_dmabuf_list dev)"
  shows "axidma_vma_close a dev l \<noteq> None"
  using close_ledger [OF assms(2), of l base] assms(1) by (simp add: driver_inv_simp)

subsection \<open>The end of a session\<close>

text \<open>The start of a session: a driver as \<open>axidma_probe\<close> leaves it, over the DMA channels it found.\<close>

lemma probe_lists:
  assumes "axidma_probe mem dma chr node eng w l = Some (w', Some dev, l', rc)"
  shows "ad_dmabuf_list dev = [] \<and> ad_external_dmabufs dev = []"
proof -
  have "rc2 \<ge> 0 \<Longrightarrow> ad_dmabuf_list d2 = [] \<and> ad_external_dmabufs d2 = []"
    if "axidma_chrdev_init chr d1 l1 = Some (d2, l2, rc2)" for d1 l1 d2 l2 rc2
    using that chrdev_init_ok [of chr d1 l1] by auto
  then show ?thesis
    using assms unfolding axidma_probe_def Let_def
    by (fastforce split: option.split_asm bind_splits if_split_asm)
qed

lemma probe_inv:
  assumes ok: "init_answers_ok dma node" and run: "axidma_probe mem dma chr node eng w l = Some (w', Some dev, l', rc)"
    and ids: "ids_in_range dev" "\<forall>c \<in> set (ad_channels dev). ch_type c = AXIDMA_DMA" and I: "I w'"
  shows "driver_inv area l' (ad_channels dev) I (w', dev, l')"
proof -
  have "device_ok dev" using probe_ok [OF ok, of mem chr eng w l] run by auto
  moreover have "ad_dmabuf_list dev = [] \<and> ad_external_dmabufs dev = []"
    using probe_lists [OF run] .
  ultimately show ?thesis using ids I by (simp add: driver_inv_simp buffers_in_def buffers_held_def)
qed

subsection \<open>Any session at all\<close>

text \<open>
  What the driver does to its books does not depend on what it is asked for. Here every request is admitted, with lengths
  that wrap around, video commands, channels of either kind, and any answers of the kernel, as long as no step is
  undefined.
\<close>

inductive any_step :: "'w dma_engine \<Rightarrow> 'w driver_state \<Rightarrow> 'w driver_state \<Rightarrow> bool"
  for eng where
  any_ioctl: "axidma_ioctl eng um k ext current cmd arg w dev l = Some (w', dev', l', out, rc) \<Longrightarrow>
     any_step eng (w, dev, l) (w', dev', l')"
| any_mmap: "axidma_mmap ans vm_start vm_end dev l = Some (dev', l', a, rc) \<Longrightarrow> any_step eng (w, dev, l) (w, dev', l')"
| any_close: "axidma_vma_close a dev l = Some (dev', l') \<Longrightarrow> any_step eng (w, dev, l) (w, dev', l')"
| any_callback: "any_step eng (w, dev, l) (axidma_dma_callback eng w cb, dev, l)"

inductive any_reach :: "'w dma_engine \<Rightarrow> 'w driver_state \<Rightarrow> 'w driver_state \<Rightarrow> bool"
  for eng s where
  any_start: "any_reach eng s s"
| any_more: "any_reach eng s t \<Longrightarrow> any_step eng t u \<Longrightarrow> any_reach eng s u"

inductive_cases any_stepE: "any_step eng (w, dev, l) (w', dev', l')"

lemma driver_step_any: "driver_step area eng s t \<Longrightarrow> any_step eng s t"
  by (induction rule: driver_step.induct) (auto intro: any_step.intros)

lemma driver_reach_any: "driver_reach area eng s t \<Longrightarrow> any_reach eng s t"
  by (induction rule: driver_reach.induct) (auto intro: any_reach.intros driver_step_any)

text \<open>The books are right: the channels are those at the start, and the ledger holds exactly the buffers beyond its base.\<close>

definition books :: "axidma_device \<Rightarrow> axledger \<Rightarrow> axidma_device \<Rightarrow> axledger \<Rightarrow> bool" where
  "books dev0 base dev l \<longleftrightarrow> l = buffers_held dev base \<and> ad_channels dev = ad_channels dev0 \<and> ad_num_chans dev = ad_num_chans dev0"

lemma books_cb: "cb_frame dev dev' \<Longrightarrow> books dev0 base dev l \<Longrightarrow> books dev0 base dev' l"
  using buffers_held_cb [of dev dev'] cb_frameD(3,5) [of dev dev'] by (simp add: books_def)

lemma store_cb: "store_cb_data i cb dev = Some dev' \<Longrightarrow> cb_frame dev dev'"
  by (auto simp: store_cb_data_def cb_frame_def split: if_split_asm)

lemma prep_cb: "axidma_prep_transfer eng w dev c t = Some (w', dev', t', rc) \<Longrightarrow> cb_frame dev dev'"
  by (auto simp: axidma_prep_transfer_def Let_def dest!: store_cb
      split: bind_splits sum.split_asm option.split_asm prod.split_asm if_split_asm)

lemma oneway_cb: "oneway_transfer dir eng p w dev t = Some (w', dev', rc) \<Longrightarrow> cb_frame dev dev'"
  by (auto simp: oneway_transfer_def Let_def dest!: prep_cb
      split: bind_splits sum.split_asm option.split_asm prod.split_asm if_split_asm)

lemma rw_cb: "axidma_rw_transfer eng p w dev t = Some (w', dev', rc) \<Longrightarrow> cb_frame dev dev'"
  by (auto simp: axidma_rw_transfer_def Let_def dest!: prep_cb intro: cb_frame_trans
      split: bind_splits sum.split_asm option.split_asm prod.split_asm if_split_asm)

lemma video_cb: "axidma_video_transfer eng p w dev t dir = Some (w', dev', rc) \<Longrightarrow> cb_frame dev dev'"
  by (auto simp: axidma_video_transfer_def Let_def dest!: prep_cb
      split: bind_splits sum.split_asm option.split_asm prod.split_asm if_split_asm)

lemma ioctl_video_books:
  "ioctl_video eng um k dir p arg w dev l = Some (w', dev', l', out, rc) \<Longrightarrow> cb_frame dev dev' \<and> l' = l"
  by (auto simp: ioctl_video_def Let_def release_acquire dest!: video_cb
      split: bind_splits option.split_asm if_split_asm)

lemma get_external_books:
  assumes "axidma_get_external ext b dev l = Some (dev', l', rc)" "books dev0 base dev l"
  shows "books dev0 base dev' l'"
proof (cases "dev' = dev \<and> l' = l")
  case False
  then obtain a where a: "dev' = dev\<lparr>ad_external_dmabufs := a # ad_external_dmabufs dev\<rparr>"
    "l' = acquire (Dma_mapping (ea_sg_table a)) (acquire (Dma_attachment (ea_attach a))
       (acquire (Dma_buf (ea_dma_buf a)) (acquire (Kmalloc ''ext_alloc'') l)))"
    using assms(1)
    by (auto simp: axidma_get_external_def ledger_simps Let_def split: if_split_asm sum.split_asm prod.split_asm)
  then show ?thesis using assms(2) acquire_held(1) [where dev = dev and a = a and l = base] by (simp add: books_def)
qed (use assms(2) in simp)

lemma ioctl_books:
  assumes "axidma_ioctl eng um k ext p cmd arg w dev l = Some (w', dev', l', out, rc)" "books dev0 base dev l"
  shows "books dev0 base dev' l'"
proof (cases rule: ioctl_cases [of eng um k ext p cmd arg w dev l])
  case (refused rc')
  then show ?thesis using assms by simp
next
  case command
  have run: "ioctl_command eng um k ext p cmd arg w dev l = Some (w', dev', l', out, rc)" using assms(1) command(3) by simp
  have same: "books dev0 base (dev\<lparr>ad_notify_signal := n\<rparr>) l" for n using assms(2) by (simp add: books_def)
  consider "cb_frame dev dev'" "l' = l" | n where "dev' = dev\<lparr>ad_notify_signal := n\<rparr>" "l' = l"
    | b where "axidma_get_external ext b dev l = Some (dev', l', rc)"
    using run command(1)
    by (auto simp: ioctl_command_def ioctl_get_channels_def engine_result_def axidma_read_transfer_def axidma_write_transfer_def
        axidma_set_signal_def Let_def dest!: oneway_cb rw_cb ioctl_video_books
        split: bind_splits if_split_asm option.split_asm)
  then show ?thesis
    using assms(2) same by cases (auto intro: books_cb get_external_books)
qed

lemma any_step_books:
  assumes step: "any_step eng (w, dev, l) (w', dev', l')" and ok: "books dev0 base dev l"
  shows "books dev0 base dev' l'"
  using step
proof (rule any_stepE)
  fix um k ext p cmd arg out rc
  assume "axidma_ioctl eng um k ext p cmd arg w dev l = Some (w', dev', l', out, rc)"
  then show ?thesis using ok by (rule ioctl_books)
next
  fix ans vm_start vm_end a rc
  assume m: "axidma_mmap ans vm_start vm_end dev l = Some (dev', l', a, rc)"
  show ?thesis
    using m ok acquire_held(2) [where dev = dev and l = base]
    by (auto simp: axidma_mmap_def ledger_simps Let_def books_def split: if_split_asm option.split_asm)
next
  fix a
  assume c: "axidma_vma_close a dev l = Some (dev', l')"
  then have "a \<in> set (ad_dmabuf_list dev)" by (auto simp: axidma_vma_close_def split: if_split_asm)
  then show ?thesis using close_ledger [of a dev l base] c ok by (auto simp: books_def)
qed (use ok in simp)

lemma any_reach_books:
  "any_reach eng s t \<Longrightarrow> books dev0 base (fst (snd s)) (snd (snd s)) \<Longrightarrow> books dev0 base (fst (snd t)) (snd (snd t))"
proof (induction rule: any_reach.induct)
  case (any_more t u)
  then show ?case by (cases t; cases u) (auto intro: any_step_books)
qed

text \<open>
  Once all buffers are given back, removing the driver restores the ledger from before it was loaded. Imported buffers
  cannot be given back, so a session that imported one leaks it.
\<close>

lemma held_empty: "buffers_held dev l = l \<longleftrightarrow> ad_dmabuf_list dev = [] \<and> ad_external_dmabufs dev = []"
proof
  assume "buffers_held dev l = l"
  then have "size (\<Sum>a \<leftarrow> ad_dmabuf_list dev. own_entries a) + size (\<Sum>a \<leftarrow> ad_external_dmabufs dev. external_entries a) = 0"
    by (simp add: buffers_held_def)
  then show "ad_dmabuf_list dev = [] \<and> ad_external_dmabufs dev = []"
    by (cases "ad_dmabuf_list dev"; cases "ad_external_dmabufs dev") (auto simp: own_entries_def external_entries_def)
qed (simp add: buffers_held_def)

lemma remove_channels:
  assumes "ad_channels dev' = ad_channels dev" "ad_num_chans dev' = ad_num_chans dev"
  shows "axidma_remove eng w dev' l = axidma_remove eng w dev l"
  unfolding axidma_remove_def axidma_dma_exit_def assms ..

lemma session_end:
  assumes ok: "init_answers_ok dma node" and run: "axidma_probe mem dma chr node eng w l = Some (w1, Some dev, l1, rc)"
    and reach: "any_reach eng (w1, dev, l1) (w2, dev2, l2)"
    and empty: "ad_dmabuf_list dev2 = []" "ad_external_dmabufs dev2 = []"
  shows "\<exists>w3. axidma_remove eng w2 dev2 l2 = Some (w3, l, 0)"
proof -
  have "books dev l1 dev l1" using probe_lists [OF run] by (simp add: books_def buffers_held_def)
  then have "books dev l1 dev2 l2" using any_reach_books [OF reach] by simp
  then have "l2 = l1" "ad_channels dev2 = ad_channels dev" "ad_num_chans dev2 = ad_num_chans dev"
    using empty by (simp_all add: books_def buffers_held_def)
  moreover have "\<exists>w3. axidma_remove eng w2 dev l1 = Some (w3, l, 0)"
    using probe_ok [OF ok, of mem chr eng w l] run by auto
  ultimately show ?thesis using remove_channels [of dev2 dev eng w2 l1] by simp
qed

end
