(* ===== verification/Axidma_Stack.thy ===== *)
theory Axidma_Stack
  imports Libaxidma Axidma_Session
begin

text \<open>
  The library on top of the driver: an ioctl of \<open>libaxidma.c\<close> is handled by the dispatcher of
  \<open>axidma_chrdev.c\<close>. The driver provides the interface the library relies on, so what was proved of the library over
  any such driver holds over this one.
\<close>

subsection \<open>The system calls\<close>

text \<open>What the rest of the system answers, over a state \<open>'o\<close> of its own.\<close>

record 'o host =
  ho_open :: "'o \<Rightarrow> 'o \<times> bool \<times> int"
  ho_close :: "'o \<Rightarrow> int \<Rightarrow> 'o \<times> int"
  ho_sigaction :: "'o \<Rightarrow> int \<Rightarrow> 'o \<times> int"
  ho_malloc :: "'o \<Rightarrow> int \<Rightarrow> 'o \<times> bool"
  ho_mmap :: "'o \<Rightarrow> int \<Rightarrow> u64 \<Rightarrow> 'o \<times> u64 option"
  ho_munmap :: "'o \<Rightarrow> u64 \<Rightarrow> u64 \<Rightarrow> 'o \<times> int"

type_synonym ('o, 'w) stack = "'o \<times> 'w driver_state"

text \<open>The user memory in which a pointer leads to the structure that was passed, and nothing faults.\<close>

definition arg_word :: "ioctl_arg \<Rightarrow> u64" where
  "arg_word a = (case a of Arg_value v \<Rightarrow> v | _ \<Rightarrow> 4096)"

definition user_args :: "axidma_chan \<Rightarrow> ioctl_arg \<Rightarrow> user_memory" where
  "user_args junk a =
     \<lparr>um_access_ok = (\<lambda>_ _. True),
      um_channels = (\<lambda>_. case a of Arg_channels n \<Rightarrow> Some 8192 | _ \<Rightarrow> None),
      um_buffer = (\<lambda>_. case a of Arg_buffer b \<Rightarrow> Some b | _ \<Rightarrow> None),
      um_trans = (\<lambda>_. case a of Arg_trans t \<Rightarrow> Some t | _ \<Rightarrow> None),
      um_inout = (\<lambda>_. case a of Arg_inout t \<Rightarrow> Some t | _ \<Rightarrow> None),
      um_video = (\<lambda>_. case a of Arg_video v \<Rightarrow> Some v | _ \<Rightarrow> None),
      um_frames = (\<lambda>_ n. case a of
         Arg_video v \<Rightarrow> Some (if int (length (vt_frame_buffers v)) < n then None else Some (take (nat n) (vt_frame_buffers v)))
       | _ \<Rightarrow> None),
      um_chan = (\<lambda>_. case a of Arg_chan c \<Rightarrow> (c, True) | _ \<Rightarrow> (junk, False)),
      um_writable = (\<lambda>_ n. case a of Arg_channels m \<Rightarrow> n \<le> int m * 32 | Arg_counts \<Rightarrow> n \<le> 20 | _ \<Rightarrow> False)\<rparr>"

definition written :: "user_copy \<Rightarrow> ioctl_out" where
  "written c = (case c of No_copy \<Rightarrow> Out_none | Copy_counts _ n \<Rightarrow> Out_counts n | Copy_channels _ cs \<Rightarrow> Out_channels cs)"

text \<open>A negative result is turned into -1 on the way to the user.\<close>

definition stack_ioctl ::
    "axidma_chan \<Rightarrow> 'w dma_engine \<Rightarrow> bool \<Rightarrow> external_answers \<Rightarrow> nat \<Rightarrow> ('o, 'w) stack \<Rightarrow> int \<Rightarrow> u32 \<Rightarrow> ioctl_arg
       \<Rightarrow> (('o, 'w) stack \<times> int \<times> ioctl_out) option" where
  "stack_ioctl junk eng k ext p s fd cmd a =
     (case s of (h, w, dev, l) \<Rightarrow>
        do { (w, dev, l, out, rc) \<leftarrow> axidma_ioctl eng (user_args junk a) k ext p cmd (arg_word a) w dev l;
             Some ((h, w, dev, l), if rc < 0 then -1 else rc, written out) })"

text \<open>The host says whether the process may open the device, and the number of the new descriptor.\<close>

definition stack_open :: "'o host \<Rightarrow> ('o, 'w) stack \<Rightarrow> ('o, 'w) stack \<times> int" where
  "stack_open ho s = (case s of (h, d) \<Rightarrow>
     let (h, capable, fd) = ho_open ho h;
         (private_data, rc) = axidma_open capable True (Some ()) None
     in ((h, d), if rc < 0 then -1 else fd))"

definition on_host :: "('o \<Rightarrow> 'o \<times> 'r) \<Rightarrow> ('o, 'w) stack \<Rightarrow> ('o, 'w) stack \<times> 'r" where
  "on_host f s = (case s of (h, d) \<Rightarrow> let (h, r) = f h in ((h, d), r))"

definition stack_env ::
    "'o host \<Rightarrow> axidma_chan \<Rightarrow> 'w dma_engine \<Rightarrow> bool \<Rightarrow> external_answers \<Rightarrow> nat \<Rightarrow> ('o, 'w) stack lib_env" where
  "stack_env ho junk eng k ext p =
     \<lparr>le_open = stack_open ho, le_close = (\<lambda>s fd. on_host (\<lambda>h. ho_close ho h fd) s),
      le_ioctl = stack_ioctl junk eng k ext p, le_sigaction = (\<lambda>s n. on_host (\<lambda>h. ho_sigaction ho h n) s),
      le_malloc = (\<lambda>s n. on_host (\<lambda>h. ho_malloc ho h n) s), le_mmap = (\<lambda>s fd n. on_host (\<lambda>h. ho_mmap ho h fd n) s),
      le_munmap = (\<lambda>s a n. on_host (\<lambda>h. ho_munmap ho h a n) s)\<rparr>"

lemma stack_env_simps [simp]:
  "le_open (stack_env ho junk eng k ext p) = stack_open ho"
  "le_ioctl (stack_env ho junk eng k ext p) = stack_ioctl junk eng k ext p"
  "le_close (stack_env ho junk eng k ext p) s fd = on_host (\<lambda>h. ho_close ho h fd) s"
  "le_malloc (stack_env ho junk eng k ext p) s n = on_host (\<lambda>h. ho_malloc ho h n) s"
  "le_sigaction (stack_env ho junk eng k ext p) s sg = on_host (\<lambda>h. ho_sigaction ho h sg) s"
  by (simp_all add: stack_env_def)

definition driver_device :: "('o, 'w) stack \<Rightarrow> axidma_device" where
  "driver_device s = fst (snd (snd s))"

definition stack_chans :: "('o, 'w) stack \<Rightarrow> axidma_chan list" where
  "stack_chans s = ad_channels (driver_device s)"

definition stack_inv :: "('o, 'w) stack \<Rightarrow> bool" where
  "stack_inv s \<longleftrightarrow> device_ok (driver_device s) \<and> ad_channels (driver_device s) \<noteq> []"

lemma on_host_device [simp]: "driver_device (fst (on_host f s)) = driver_device s"
  by (simp add: on_host_def driver_device_def split: prod.split)

lemma stack_open_device [simp]: "driver_device (fst (stack_open ho s)) = driver_device s"
  by (simp add: stack_open_def driver_device_def split: prod.split)

lemma user_args_simps [simp]:
  "um_access_ok (user_args junk a) x n" "um_channels (user_args junk (Arg_channels m)) x = Some 8192"
  "um_writable (user_args junk (Arg_channels m)) x i \<longleftrightarrow> i \<le> int m * 32"
  "um_writable (user_args junk Arg_counts) x i \<longleftrightarrow> i \<le> 20"
  "um_trans (user_args junk (Arg_trans t)) x = Some t" "um_inout (user_args junk (Arg_inout u)) x = Some u"
  by (simp_all add: user_args_def)

subsection \<open>The driver provides the interface\<close>

lemma set_signal_ioctl:
  assumes "VALID_NOTIFY_SIGNAL (int_of_arg arg)"
  shows "axidma_ioctl eng um k ext current AXIDMA_SET_DMA_SIGNAL arg w dev l =
    Some (w, dev\<lparr>ad_notify_signal := int_of_arg arg\<rparr>, l, No_copy, 0)"
  using assms
  by (simp add: axidma_ioctl_def ioctl_command_def axidma_set_signal_def ioc_eval word_le_nat_alt)

lemma device_ok_signal: "device_ok (dev\<lparr>ad_notify_signal := n\<rparr>) = device_ok dev"
  by (simp add: device_ok_channels)

lemma sigrtmin_arg: "int_of_arg (word_of_int SIGRTMIN) = 34"
  by (simp add: int_of_arg_def int_of_u32_def SIGRTMIN_def)

lemma device_ok_kinds: "device_ok dev \<Longrightarrow> list_all valid_kind (ad_channels dev)"
  by (simp add: device_ok_def counted_def)

lemma stack_counts:
  assumes "stack_inv s"
  shows "stack_ioctl junk eng k ext p s fd AXIDMA_GET_NUM_DMA_CHANNELS Arg_counts =
    Some (s, 0, Out_counts (counts_of (stack_chans s)))"
  using assms
  by (cases s) (simp add: stack_ioctl_def stack_inv_def driver_device_def stack_chans_def counts_reported counts_of_def
      written_def)

lemma stack_table:
  assumes "stack_inv s"
  shows "stack_ioctl junk eng k ext p s fd AXIDMA_GET_DMA_CHANNELS (Arg_channels (length (stack_chans s))) =
    Some (s, 0, Out_channels (stack_chans s))"
  using assms
  by (cases s) (simp add: stack_ioctl_def stack_inv_def driver_device_def stack_chans_def channels_reported written_def)

lemma stack_signal:
  assumes "stack_inv s"
  shows "\<exists>s'. stack_ioctl junk eng k ext p s fd AXIDMA_SET_DMA_SIGNAL (Arg_value (word_of_int SIGRTMIN)) =
    Some (s', 0, Out_none) \<and> stack_inv s' \<and> stack_chans s' = stack_chans s"
proof -
  obtain h w dev l where s: "s = (h, w, dev, l)" by (cases s)
  show ?thesis
    using assms
    by (simp add: s stack_ioctl_def stack_inv_def driver_device_def stack_chans_def arg_word_def set_signal_ioctl
        sigrtmin_arg VALID_NOTIFY_SIGNAL_def written_def device_ok_signal)
qed

lemma stack_laws:
  "stack_inv s \<Longrightarrow> list_all valid_kind (stack_chans s)" "stack_inv s \<Longrightarrow> stack_chans s \<noteq> []"
  "stack_inv s \<Longrightarrow> distinct (map ch_id (stack_chans s))"
  by (simp_all add: stack_inv_def stack_chans_def device_ok_def counted_def)

lemma stack_system:
  "stack_inv (fst (on_host f s)) = stack_inv s" "stack_chans (fst (on_host f s)) = stack_chans s"
  "stack_inv (fst (stack_open ho s)) = stack_inv s" "stack_chans (fst (stack_open ho s)) = stack_chans s"
  by (simp_all add: stack_inv_def stack_chans_def)

interpretation stack: channel_driver "stack_env ho junk eng k ext p" stack_chans stack_inv for ho junk eng k ext p
  by unfold_locales
    (unfold stack_env_simps, (erule stack_laws stack_counts stack_table stack_signal | simp add: stack_system)+)

text \<open>So is the invariant of a session with a driver: only the signal changes, which the invariant does not mention.\<close>

definition session_inv ::
    "nat set \<Rightarrow> axledger \<Rightarrow> axidma_chan list \<Rightarrow> ('w \<Rightarrow> bool) \<Rightarrow> ('o, 'w) stack \<Rightarrow> bool" where
  "session_inv area base chans I s \<longleftrightarrow> driver_inv area base chans I (snd s) \<and> chans \<noteq> []"

lemma on_host_driver [simp]: "snd (fst (on_host f s)) = snd s"
  by (cases s) (auto simp: on_host_def split: prod.splits)

lemma stack_open_driver [simp]: "snd (fst (stack_open ho s)) = snd s"
  by (cases s) (auto simp: stack_open_def Let_def split: prod.splits)

lemma session_stack:
  assumes "session_inv area base chans I s"
  shows "stack_inv s" "stack_chans s = chans"
  using assms by (cases s; force simp: session_inv_def driver_inv_simp stack_inv_def stack_chans_def driver_device_def)+

lemma session_signal:
  assumes "session_inv area base chans I s"
  shows "\<exists>s'. stack_ioctl junk eng k ext p s fd AXIDMA_SET_DMA_SIGNAL (Arg_value (word_of_int SIGRTMIN)) =
    Some (s', 0, Out_none) \<and> session_inv area base chans I s' \<and> stack_chans s' = stack_chans s"
proof -
  obtain h w dev l where s: "s = (h, w, dev, l)" by (cases s)
  show ?thesis
    using assms
    by (simp add: s stack_ioctl_def session_inv_def driver_inv_simp driver_device_def stack_chans_def arg_word_def
        set_signal_ioctl sigrtmin_arg VALID_NOTIFY_SIGNAL_def written_def device_ok_signal)
qed

lemma session_system:
  "session_inv area base chans I (fst (on_host f s)) = session_inv area base chans I s"
  "session_inv area base chans I (fst (stack_open ho s)) = session_inv area base chans I s"
  by (simp_all add: session_inv_def)

interpretation session: channel_driver "stack_env ho junk eng k ext p" stack_chans "session_inv area base chans I"
  for ho junk eng k ext p area base chans I
  by unfold_locales
    (unfold stack_env_simps,
     (drule session_stack(1), erule stack_laws stack_counts stack_table | erule session_signal | simp add: session_system stack_system)+)

subsection \<open>A transfer of the library is the driver's\<close>

lemma described_channel:
  assumes "describes chans dev" "c \<in> set chans"
  shows "known_channel dev (ch_id c) = Some (new_channel c)"
  using known_channel_table [of "map new_channel chans" dev "new_channel c"] assms
  by (simp add: describes_def new_channel_def)

text \<open>The two commands of the one-way transfers, and the one of the two-way transfer, reach the transfer functions.\<close>

lemma oneway_ioctl:
  assumes "dir_to_ioctl dir = Some cmd"
  shows "stack_ioctl junk eng k ext p (h, w, dev, l) fd cmd (Arg_trans t) =
    do { (w, dev, rc) \<leftarrow> oneway_transfer dir eng p w dev t; Some ((h, w, dev, l), if rc < 0 then -1 else rc, Out_none) }"
proof -
  have "axidma_ioctl eng (user_args junk (Arg_trans t)) k ext p cmd arg w dev l =
      engine_result l (oneway_transfer dir eng p w dev t)" for arg
    using assms
    by (cases dir) (auto simp: dir_to_ioctl_def axidma_ioctl_def ioctl_command_def axidma_read_transfer_def
        axidma_write_transfer_def ioc_eval word_le_nat_alt)
  then show ?thesis
    by (cases "oneway_transfer dir eng p w dev t") (auto simp: stack_ioctl_def engine_result_def written_def)
qed

lemma twoway_ioctl:
  "stack_ioctl junk eng k ext p (h, w, dev, l) fd AXIDMA_DMA_READWRITE (Arg_inout t) =
    do { (w, dev, rc) \<leftarrow> axidma_rw_transfer eng p w dev t; Some ((h, w, dev, l), if rc < 0 then -1 else rc, Out_none) }"
proof -
  have "axidma_ioctl eng (user_args junk (Arg_inout t)) k ext p AXIDMA_DMA_READWRITE arg w dev l =
      engine_result l (axidma_rw_transfer eng p w dev t)" for arg
    by (simp add: axidma_ioctl_def ioctl_command_def ioc_eval word_le_nat_alt)
  then show ?thesis
    by (cases "axidma_rw_transfer eng p w dev t") (auto simp: stack_ioctl_def engine_result_def written_def)
qed

text \<open>
  A library call on a channel of the table runs the driver's transfer in that channel's direction, with the same
  buffer, and reports its failure as -1.
\<close>

lemma stack_oneway:
  assumes "device_ok dev" "describes (ad_channels dev) ld" "c \<in> set (ad_channels dev)"
  shows "axidma_oneway_transfer (stack_env ho junk eng k ext p) (h, w, dev, l) ld (ch_id c) buf len wait =
    do { (w, dev, rc) \<leftarrow> oneway_transfer (ch_dir c) eng p w dev
           \<lparr>tr_wait = wait, tr_channel_id = ch_id c, tr_buf = buf, tr_buf_len = len\<rparr>;
         Some ((h, w, dev, l), if rc < 0 then -1 else 0) }"
proof -
  have "ch_dir c = AXIDMA_READ \<or> ch_dir c = AXIDMA_WRITE"
    using device_ok_kinds [OF assms(1)] assms(3) by (auto simp: list_all_iff valid_kind_def)
  then obtain cmd where cmd: "dir_to_ioctl (ch_dir c) = Some cmd" by (auto simp: dir_to_ioctl_def)
  then have "dir_to_ioctl (dc_dir (new_channel c)) = Some cmd" by (simp add: new_channel_def)
  then show ?thesis
    using described_channel [OF assms(2,3)]
    by (cases "oneway_transfer (ch_dir c) eng p w dev \<lparr>tr_wait = wait, tr_channel_id = ch_id c, tr_buf = buf, tr_buf_len = len\<rparr>")
      (auto simp: axidma_oneway_transfer_def oneway_ioctl [OF cmd])
qed

lemma stack_twoway:
  assumes "device_ok dev" "describes (ad_channels dev) ld" "tx \<in> set (ad_channels dev)" "rx \<in> set (ad_channels dev)"
    and "ch_dir tx = AXIDMA_WRITE" "ch_dir rx = AXIDMA_READ"
  shows "axidma_twoway_transfer (stack_env ho junk eng k ext p) (h, w, dev, l) ld (ch_id tx) tx_buf tx_len txf (ch_id rx)
      rx_buf rx_len rxf wait =
    do { (w, dev, rc) \<leftarrow> axidma_rw_transfer eng p w dev
           \<lparr>io_wait = wait, io_tx_channel_id = ch_id tx, io_tx_buf = tx_buf, io_tx_buf_len = tx_len,
            io_tx_frame = frame_or_default txf, io_rx_channel_id = ch_id rx, io_rx_buf = rx_buf, io_rx_buf_len = rx_len,
            io_rx_frame = frame_or_default rxf\<rparr>;
         Some ((h, w, dev, l), if rc < 0 then -1 else rc) }"
  using described_channel [OF assms(2,3)] described_channel [OF assms(2,4)] assms(5,6)
  by (cases "axidma_rw_transfer eng p w dev
      \<lparr>io_wait = wait, io_tx_channel_id = ch_id tx, io_tx_buf = tx_buf, io_tx_buf_len = tx_len,
       io_tx_frame = frame_or_default txf, io_rx_channel_id = ch_id rx, io_rx_buf = rx_buf, io_rx_buf_len = rx_len,
       io_rx_frame = frame_or_default rxf\<rparr>")
    (auto simp: axidma_twoway_transfer_def twoway_ioctl new_channel_def)

text \<open>Unregistering a buffer always ends in a failed assertion.\<close>

lemma stack_unregister: "axidma_unregister_buffer (stack_env ho junk eng k ext p) s ld addr = None"
  by (cases s) (simp add: axidma_unregister_buffer_def stack_ioctl_def unregister_refused errno_defs)

end
