(* ===== verification/Axidma_Properties.thy ===== *)
theory Axidma_Properties
  imports Axidma_Stack
begin

text \<open>
  The properties of the AXI DMA driver and of its library, each with a concrete instance. The instances run on a
  device tree with one node for two channels and on a DMA engine that records the bytes it is asked to transfer.
\<close>

subsection \<open>A concrete driver\<close>

definition recorder :: "(u64 \<times> u32) list dma_engine" where
  "recorder =
     \<lparr>de_prep_slave_sg = (\<lambda>w c sgs d. (w @ sgs, Some 0)), de_vdma_set_config = (\<lambda>w c conf. (w, 0)),
      de_prep_interleaved = (\<lambda>w c t. (w, None)), de_submit = (\<lambda>w d i. (w, 1)), de_issue_pending = (\<lambda>w c. w),
      de_wait = (\<lambda>w k. (w, 1)), de_is_complete = (\<lambda>w c k. True), de_terminate_all = (\<lambda>w c. (w, 0)),
      de_kmalloc = (\<lambda>w n. (w, True)), de_send_signal = (\<lambda>w s c p. w), de_complete = (\<lambda>w c. w)\<rparr>"

definition recorded_in :: "nat set \<Rightarrow> (u64 \<times> u32) list \<Rightarrow> bool" where
  "recorded_in area w \<longleftrightarrow> (\<forall>sg \<in> set w. in_area area sg)"

lemma recorder_keeps: "engine_keeps (recorded_in area) (in_area area) recorder" "callbacks_keep (recorded_in area) recorder"
  by (auto simp: engine_keeps_def callbacks_keep_def recorder_def recorded_in_def)

definition demo_tree :: dt_dma_node where
  "demo_tree =
     [\<lparr>dc_compatible = Some [''xlnx,axi-dma-mm2s-channel''], dc_device_id = Some (Some 0)\<rparr>,
      \<lparr>dc_compatible = Some [''xlnx,axi-dma-s2mm-channel''], dc_device_id = Some (Some 1)\<rparr>]"

definition demo_node :: dt_driver_node where
  "demo_node =
     \<lparr>dn_has_dma_names = True, dn_has_dmas = True, dn_count_names = 2, dn_count_dmas = 2,
      dn_name = (\<lambda>i. Some (if i = 0 then ''tx'' else ''rx'')),
      dn_phandle = (\<lambda>i. Inr (demo_tree, [int (min i 1)]))\<rparr>"

definition junk_chan :: axidma_chan where
  "junk_chan = \<lparr>ch_dir = AXIDMA_DIR_INVALID, ch_type = AXIDMA_TYPE_INVALID, ch_id = 77, ch_name = [], ch_chan = None\<rparr>"

definition junk_cb :: axidma_cb_data where
  "junk_cb = \<lparr>cb_channel_id = 77, cb_notify_signal = 77, cb_process = None, cb_comp = False\<rparr>"

definition junk_dev :: axidma_device where
  "junk_dev =
     \<lparr>ad_num_dma_tx_chans = 7, ad_num_dma_rx_chans = 7, ad_num_vdma_tx_chans = 7, ad_num_vdma_rx_chans = 7,
      ad_num_chans = 7, ad_notify_signal = 7, ad_cb_data = [], ad_channels = [], ad_dmabuf_list = [],
      ad_external_dmabufs = []\<rparr>"

definition demo_dma :: dma_init_answers where
  "demo_dma = \<lparr>di_mask = 0, di_channels = Some [junk_chan, junk_chan], di_cb_data = Some [junk_cb, junk_cb],
     di_request = (\<lambda>i s. Some i)\<rparr>"

definition demo_chrdev :: chrdev_answers where
  "demo_chrdev = \<lparr>ci_region = 0, ci_class = 0, ci_device = 0, ci_cdev = 0\<rparr>"

text \<open>The driver that the probe of this tree gives.\<close>

definition demo_chans :: "axidma_chan list" where
  "demo_chans =
     [\<lparr>ch_dir = AXIDMA_WRITE, ch_type = AXIDMA_DMA, ch_id = 0, ch_name = ''tx'', ch_chan = Some 0\<rparr>,
      \<lparr>ch_dir = AXIDMA_READ, ch_type = AXIDMA_DMA, ch_id = 1, ch_name = ''rx'', ch_chan = Some 1\<rparr>]"

definition demo_dev :: axidma_device where
  "demo_dev =
     \<lparr>ad_num_dma_tx_chans = 1, ad_num_dma_rx_chans = 1, ad_num_vdma_tx_chans = 0, ad_num_vdma_rx_chans = 0,
      ad_num_chans = 2, ad_notify_signal = 7, ad_cb_data = [junk_cb, junk_cb], ad_channels = demo_chans,
      ad_dmabuf_list = [], ad_external_dmabufs = []\<rparr>"

definition demo_ledger :: axledger where
  "demo_ledger = chrdev_held (dma_held demo_dev {#Kmalloc ''axidma_dev''#})"

lemmas demo_defs = demo_node_def demo_tree_def demo_dma_def demo_chrdev_def demo_chans_def demo_dev_def
  junk_chan_def junk_cb_def junk_dev_def

lemma demo_answers_ok: "init_answers_ok demo_dma demo_node"
  by (auto simp: init_answers_ok_def tree_ok_def demo_defs axidma_of_num_channels_def)

lemma demo_parse:
  "axidma_of_parse_dma_nodes demo_node
     (junk_dev\<lparr>ad_num_chans := 2, ad_channels := [junk_chan, junk_chan], ad_cb_data := [junk_cb, junk_cb]\<rparr>) =
   Some (demo_dev\<lparr>ad_channels := map (\<lambda>c. c\<lparr>ch_chan := None\<rparr>) demo_chans\<rparr>, 0)"
  by (simp add: axidma_of_parse_dma_nodes_def numeral_2_eq_2 parse_dma_node_def axidma_of_parse_channel_def child_def
      axidma_parse_compatible_property_def is_compatible_def axidma_of_parse_dma_name_def axidma_check_unique_ids_def
      same_id_behind_def demo_defs int_of_u32_def)

lemma demo_probe:
  "axidma_probe (Some junk_dev) demo_dma demo_chrdev demo_node recorder [] {#} = Some ([], Some demo_dev, demo_ledger, 0)"
proof -
  have count: "axidma_of_num_channels demo_node = 2"
    by (simp add: axidma_of_num_channels_def demo_node_def)
  have init: "di_mask demo_dma = 0" "di_channels demo_dma = Some [junk_chan, junk_chan]" "di_cb_data demo_dma = Some [junk_cb, junk_cb]"
    by (simp_all add: demo_dma_def)
  have held: "dma_held demo_dev l = add_mset (Dma_channel 1) (add_mset (Dma_channel 0)
      (add_mset (Kmalloc ''cb_data'') (add_mset (Kmalloc ''channels'') l)))" for l
    by (simp add: dma_held_def demo_dev_def demo_chans_def acquire_def add_mset_commute)
  have request: "axidma_request_channels demo_dma (demo_dev\<lparr>ad_channels := map (\<lambda>c. c\<lparr>ch_chan := None\<rparr>) demo_chans\<rparr>) l =
      Some (demo_dev, acquire (Dma_channel 1) (acquire (Dma_channel 0) l), 0)" for l
    by (simp add: axidma_request_channels_def numeral_2_eq_2 demo_defs)
  have "axidma_dma_init demo_dma demo_node junk_dev {#Kmalloc ''axidma_dev''#} =
      Some (demo_dev, dma_held demo_dev {#Kmalloc ''axidma_dev''#}, 0)"
    by (simp add: axidma_dma_init_def count request demo_parse init held acquire_def)
  then show ?thesis
    by (simp add: axidma_probe_def axidma_chrdev_init_def demo_chrdev_def demo_ledger_def chrdev_held_def acquire_def)
      (simp add: demo_dev_def)
qed

lemma demo_ok: "ids_in_range demo_dev" "\<forall>c \<in> set (ad_channels demo_dev). ch_type c = AXIDMA_DMA" "recorded_in area []"
  by (auto simp: ids_in_range_def demo_defs recorded_in_def)

lemma demo_inv: "driver_inv area demo_ledger (ad_channels demo_dev) (recorded_in area) ([], demo_dev, demo_ledger)"
  using probe_inv [OF demo_answers_ok demo_probe] demo_ok by blast

text \<open>A session: a page is mapped, 256 bytes of it are written to the transmit channel, and it is unmapped.\<close>

definition demo_area :: "nat set" where
  "demo_area = {0x10000000 ..< 0x10001000}"

definition demo_map :: mmap_answers where
  "demo_map = \<lparr>ma_kmalloc = True, ma_coherent = Some (0xC0000000, 0x10000000), ma_remap = 0\<rparr>"

definition demo_page :: axidma_dma_allocation where
  "demo_page = \<lparr>da_size = 0x1000, da_user_addr = 0x70000000, da_kern_addr = 0xC0000000, da_dma_addr = 0x10000000\<rparr>"

definition demo_trans :: axidma_transaction where
  "demo_trans = \<lparr>tr_wait = True, tr_channel_id = 0, tr_buf = 0x70000100, tr_buf_len = 256\<rparr>"

definition no_import :: external_answers where
  "no_import = \<lparr>xa_kmalloc = False, xa_get = Inl (-9), xa_attach = Inl (-12), xa_map = Inl (-12)\<rparr>"

definition demo_mapped :: axidma_device where
  "demo_mapped = demo_dev\<lparr>ad_dmabuf_list := [demo_page]\<rparr>"

definition demo_cb :: axidma_cb_data where
  "demo_cb = \<lparr>cb_channel_id = 0, cb_notify_signal = -1, cb_process = None, cb_comp = True\<rparr>"

definition demo_used :: axidma_device where
  "demo_used = demo_mapped\<lparr>ad_cb_data := [demo_cb, junk_cb]\<rparr>"

definition demo_mapped_ledger :: axledger where
  "demo_mapped_ledger = acquire (Coherent 0x10000000 0x1000) (acquire (Kmalloc ''dma_alloc'') demo_ledger)"

lemma demo_mmap:
  "axidma_mmap demo_map 0x70000000 0x70001000 demo_dev demo_ledger = Some (demo_mapped, demo_mapped_ledger, Some demo_page, 0)"
  by (simp add: axidma_mmap_def Let_def demo_map_def demo_mapped_def demo_mapped_ledger_def demo_page_def)
    (simp add: demo_dev_def)

lemma demo_sg: "axidma_init_sg_entry demo_mapped 0x70000100 256 = Some (Inr (0x10000100, 256))"
  by (simp add: axidma_init_sg_entry_def axidma_uservirt_to_dma_def valid_dma_request_def word_le_nat_alt demo_mapped_def
      demo_page_def)

lemma demo_mapped_fields:
  "ad_num_chans demo_mapped = 2" "ad_channels demo_mapped = demo_chans" "ad_cb_data demo_mapped = [junk_cb, junk_cb]"
  by (simp_all add: demo_mapped_def demo_dev_def)

lemma demo_write:
  "axidma_write_transfer recorder 7 [] demo_mapped demo_trans = Some ([(0x10000100, 256)], demo_used, 0)"
  by (simp add: axidma_write_transfer_def oneway_transfer_def axidma_get_chan_def demo_sg demo_mapped_fields demo_chans_def
      axidma_prep_transfer_def prep_descriptor_def axidma_start_transfer_def store_cb_data_def callback_data_def
      axidma_to_dma_dir_def axidma_dir_to_string_def axidma_type_to_string_def recorder_def demo_trans_def demo_used_def
      demo_cb_def)

lemma demo_write_ioctl:
  "axidma_ioctl recorder (user_args junk_chan (Arg_trans demo_trans)) True no_import 7 AXIDMA_DMA_WRITE 4096 [] demo_mapped
     demo_mapped_ledger = Some ([(0x10000100, 256)], demo_used, demo_mapped_ledger, No_copy, 0)"
  by (simp add: axidma_ioctl_def ioctl_command_def engine_result_def demo_write ioc_eval word_le_nat_alt)

lemma demo_close: "axidma_vma_close demo_page demo_used demo_mapped_ledger = Some (demo_used\<lparr>ad_dmabuf_list := []\<rparr>, demo_ledger)"
  by (simp add: axidma_vma_close_def demo_used_def demo_mapped_def demo_mapped_ledger_def ledger_simps demo_page_def)

lemma demo_requests:
  "mmap_request_ok demo_area demo_map 0x70000000 0x70001000"
  "request_ok demo_area (user_args junk_chan (Arg_trans demo_trans)) no_import demo_mapped AXIDMA_DMA_WRITE 4096"
  by (auto simp: mmap_request_ok_def demo_map_def no_wrap_def span_def demo_area_def word_le_nat_alt request_ok_def
      user_args_def demo_trans_def no_import_def external_errors_ok_def ioc_eval)

lemma demo_session:
  "driver_reach demo_area recorder ([], demo_dev, demo_ledger) ([(0x10000100, 256)], demo_used, demo_mapped_ledger)"
  "driver_reach demo_area recorder ([], demo_dev, demo_ledger) ([(0x10000100, 256)], demo_used\<lparr>ad_dmabuf_list := []\<rparr>, demo_ledger)"
proof -
  have "driver_reach demo_area recorder ([], demo_dev, demo_ledger) ([], demo_mapped, demo_mapped_ledger)"
    by (rule reach_step [OF reach_start step_mmap [OF demo_requests(1) demo_mmap]])
  then show used: "driver_reach demo_area recorder ([], demo_dev, demo_ledger) ([(0x10000100, 256)], demo_used, demo_mapped_ledger)"
    by (rule reach_step) (rule step_ioctl [OF demo_requests(2) demo_write_ioctl])
  show "driver_reach demo_area recorder ([], demo_dev, demo_ledger) ([(0x10000100, 256)], demo_used\<lparr>ad_dmabuf_list := []\<rparr>, demo_ledger)"
    by (rule reach_step [OF used step_close [OF _ demo_close]]) (simp add: demo_used_def demo_mapped_def)
qed

subsection \<open>The driver\<close>

text \<open>
  C2: A session of well-formed requests with a driver all of whose channels are DMA channels, with identifiers below their
  number, keeps its invariant: the channels stay those of the device tree, the ledger holds exactly the driver's
  resources and those of its buffers, and what the engine was asked to transfer lies in the buffers' area (the property
  \<open>I\<close> of the world). No further well-formed ioctl is undefined, and every mapping can be closed. A request is well-formed
  if the sum of an address and a length in it does not wrap around, it is no video command and stops no unknown channel,
  and the memory that a mapping gets, or that an import claims by its size, lies in the area. The other requests are
  accepted as well, and do harm: \<open>wrapped_length_accepted\<close>, \<open>vdma_oneway_undefined\<close>, \<open>video_unknown_channel\<close>,
  \<open>stop_unknown_channel\<close>, \<open>id_out_of_range_crashes\<close>.
\<close>

theorem session_safe:
  assumes "driver_reach area eng s (w, dev, l)" "driver_inv area base chans I s"
    and "engine_keeps I (in_area area) eng" "callbacks_keep I eng"
  shows "driver_inv area base chans I (w, dev, l) \<and>
    (\<forall>um ext k p cmd arg. request_ok area um ext dev cmd arg \<longrightarrow> axidma_ioctl eng um k ext p cmd arg w dev l \<noteq> None) \<and>
    (\<forall>a \<in> set (ad_dmabuf_list dev). axidma_vma_close a dev l \<noteq> None)"
  using ioctl_defined [OF reach_keeps [OF assms] assms(3)] close_defined [OF reach_keeps [OF assms]] reach_keeps [OF assms]
  by (intro conjI allI impI ballI)

theorem session_safe_witness:
  "driver_reach demo_area recorder ([], demo_dev, demo_ledger) ([(0x10000100, 256)], demo_used, demo_mapped_ledger) \<and>
   driver_inv demo_area demo_ledger (ad_channels demo_dev) (recorded_in demo_area)
     ([(0x10000100, 256)], demo_used, demo_mapped_ledger)"
  using session_safe [OF demo_session(1) demo_inv recorder_keeps] demo_session(1) by blast

text \<open>
  C13: Loading the driver and unloading it again leaks nothing: from a probe that succeeds on a device tree that keeps the
  driver's contract (\<open>tree_ok\<close>), over any session that ends with no buffer left, removing the driver is defined and
  restores the ledger from before the probe. The session may ask for anything, with lengths that wrap around, video
  commands, channels of any kind and any answers of the kernel, as long as no step of it is undefined.
\<close>

theorem unload_restores:
  assumes "init_answers_ok dma node" "axidma_probe mem dma chr node eng w l = Some (w1, Some dev, l1, rc)"
    and "any_reach eng (w1, dev, l1) (w2, dev2, l2)" "ad_dmabuf_list dev2 = []" "ad_external_dmabufs dev2 = []"
  shows "\<exists>w3. axidma_remove eng w2 dev2 l2 = Some (w3, l, 0)"
  using assms by (rule session_end)

theorem unload_restores_witness:
  "\<exists>w3. axidma_remove recorder [(0x10000100, 256)] (demo_used\<lparr>ad_dmabuf_list := []\<rparr>) demo_ledger = Some (w3, {#}, 0)"
  by (rule unload_restores [OF demo_answers_ok demo_probe driver_reach_any [OF demo_session(2)]])
    (simp_all add: demo_used_def demo_mapped_def demo_dev_def)

text \<open>
  C31: The probe is defined over every device tree that keeps the driver's contract: each channel node has a \<open>compatible\<close>
  property, and channel 1 is only named of a node that has not just one child (\<open>missing_compatible_accepted\<close> and
  \<open>missing_child_crashes\<close> show what happens otherwise); the kernel's errors are negative. It succeeds with a device that is
  well-formed (every channel has a kind, a handle and an identifier of its own, the four counters count them), which
  can be removed without a leak; or it fails and holds nothing, except for the two arrays when parsing the tree failed.
\<close>

theorem probe_loads:
  assumes "init_answers_ok dma node"
  shows "\<exists>w' r l' rc. axidma_probe mem dma chr node eng w l = Some (w', r, l', rc) \<and>
    (case r of
       Some dev \<Rightarrow> rc = 0 \<and> device_ok dev \<and> (\<forall>w. \<exists>w'. axidma_remove eng w dev l' = Some (w', l, 0))
     | None \<Rightarrow> rc < 0 \<and> (l' = l \<or> l' = dma_leaked l))"
  using assms by (rule probe_ok)

theorem probe_loads_witness:
  "axidma_probe (Some junk_dev) demo_dma demo_chrdev demo_node recorder [] {#} = Some ([], Some demo_dev, demo_ledger, 0) \<and>
   device_ok demo_dev"
  using probe_loads [OF demo_answers_ok, of "Some junk_dev" demo_chrdev recorder "[]" "{#}"] demo_probe by auto

text \<open>
  The two arrays are really lost: when parsing the device tree fails, \<open>axidma_dma_init\<close> returns the error with both
  still allocated, and the probe frees the structure that points to them.
\<close>

theorem parse_failure_leaks:
  assumes "0 \<le> di_mask dma" "0 \<le> axidma_of_num_channels node" "di_channels dma = Some cs" "di_cb_data dma = Some cbs"
    and "axidma_of_parse_dma_nodes node
      (dev\<lparr>ad_num_chans := axidma_of_num_channels node, ad_channels := cs, ad_cb_data := cbs\<rparr>) = Some (dev', rc)" "rc < 0"
  shows "axidma_probe (Some dev) dma chr node eng w l = Some (w, None, dma_leaked l, -ENOSYS)"
proof -
  have "axidma_dma_init dma node dev (acquire (Kmalloc ''axidma_dev'') l) =
      Some (dev', dma_leaked (acquire (Kmalloc ''axidma_dev'') l), rc)"
    using assms by (rule dma_init_leaks)
  moreover have "dma_leaked (acquire (Kmalloc ''axidma_dev'') l) = acquire (Kmalloc ''axidma_dev'') (dma_leaked l)"
    by (simp add: dma_leaked_def acquire_commute)
  ultimately show ?thesis
    using assms(6) by (simp add: axidma_probe_def release_acquire)
qed

text \<open>A tree whose two channels have the same identifier.\<close>

definition twin_node :: dt_driver_node where
  "twin_node = demo_node\<lparr>dn_phandle := (\<lambda>i. Inr (demo_tree, [0]))\<rparr>"

lemma twin_parse:
  "\<exists>dev'. axidma_of_parse_dma_nodes twin_node
     (junk_dev\<lparr>ad_num_chans := 2, ad_channels := [junk_chan, junk_chan], ad_cb_data := [junk_cb, junk_cb]\<rparr>) = Some (dev', -22)"
  by (simp add: axidma_of_parse_dma_nodes_def numeral_2_eq_2 parse_dma_node_def axidma_of_parse_channel_def child_def
      axidma_parse_compatible_property_def is_compatible_def axidma_of_parse_dma_name_def axidma_check_unique_ids_def
      same_id_behind_def twin_node_def demo_defs int_of_u32_def EINVAL_def)

theorem parse_failure_leaks_witness:
  "axidma_probe (Some junk_dev) demo_dma demo_chrdev twin_node recorder [] {#} =
     Some ([], None, {#Kmalloc ''cb_data'', Kmalloc ''channels''#}, -38)"
proof -
  obtain dev' where parse: "axidma_of_parse_dma_nodes twin_node
     (junk_dev\<lparr>ad_num_chans := 2, ad_channels := [junk_chan, junk_chan], ad_cb_data := [junk_cb, junk_cb]\<rparr>) = Some (dev', -22)"
    using twin_parse by blast
  have count: "axidma_of_num_channels twin_node = 2"
    by (simp add: axidma_of_num_channels_def twin_node_def demo_node_def)
  have "axidma_probe (Some junk_dev) demo_dma demo_chrdev twin_node recorder [] {#} = Some ([], None, dma_leaked {#}, -ENOSYS)"
    by (rule parse_failure_leaks [where rc = "-22"]) (use parse count in \<open>simp_all add: demo_dma_def\<close>)
  then show ?thesis by (simp add: dma_leaked_def acquire_def ENOSYS_def)
qed

text \<open>
  C32: A user address that is translated for a transfer becomes a bus address whose bytes lie in one buffer, at the
  offset the user address has in it, as long as the request does not wrap around the address space; otherwise the
  result is 0, which the transfers report as an error.
\<close>

theorem translation_inside:
  assumes "buffers_ok dev" "unat user_addr + unat n < 2 ^ 64"
  shows "\<exists>addr. axidma_uservirt_to_dma dev user_addr n = Some addr \<and> (addr \<noteq> 0 \<longrightarrow> backed dev user_addr n addr)"
  using assms by (rule uservirt_inside)

lemma demo_mapped_ok: "buffers_ok demo_mapped"
  by (simp add: buffers_ok_def own_ok_def demo_mapped_def demo_page_def demo_dev_def)

theorem translation_inside_witness:
  "axidma_uservirt_to_dma demo_mapped 0x70000100 256 = Some 0x10000100 \<and> backed demo_mapped 0x70000100 256 0x10000100"
proof -
  have "axidma_uservirt_to_dma demo_mapped 0x70000100 256 = Some 0x10000100"
    by (simp add: axidma_uservirt_to_dma_def valid_dma_request_def word_le_nat_alt demo_mapped_def demo_page_def)
  then show ?thesis
    using translation_inside [OF demo_mapped_ok, of "0x70000100" 256] by auto
qed

text \<open>
  A request that does wrap around passes the test: from the first byte of any buffer, the length that brings the sum
  of address and length to 0 is accepted and translated to the start of the buffer, although it reaches far beyond
  its end.
\<close>

theorem wrapped_length_accepted:
  assumes "ad_dmabuf_list dev = a # as" "own_ok a" "0 < unat (da_size a)" "0 < unat (da_user_addr a)"
  shows "axidma_uservirt_to_dma dev (da_user_addr a) (- da_user_addr a) = Some (da_dma_addr a) \<and>
    \<not> inside (da_user_addr a) (- da_user_addr a) (da_user_addr a) (da_size a)"
  using wrapped_size_accepted [OF assms] by simp

theorem wrapped_length_accepted_witness:
  "axidma_uservirt_to_dma demo_mapped 0x70000000 (- 0x70000000) = Some 0x10000000 \<and>
   \<not> inside 0x70000000 (- 0x70000000) 0x70000000 0x1000"
  using wrapped_length_accepted [of demo_mapped demo_page "[]"]
  by (simp add: demo_mapped_def demo_page_def own_ok_def demo_dev_def)

subsection \<open>The library over the driver\<close>

text \<open>A host that refuses nothing.\<close>

definition host_grants :: "'o host \<Rightarrow> bool" where
  "host_grants ho \<longleftrightarrow> (\<forall>h. fst (snd (ho_open ho h)) \<and> 0 \<le> snd (snd (ho_open ho h))) \<and> (\<forall>h n. snd (ho_malloc ho h n)) \<and>
     (\<forall>h n. 0 \<le> snd (ho_sigaction ho h n)) \<and> (\<forall>h fd. 0 \<le> snd (ho_close ho h fd))"

lemma granted:
  assumes "host_grants ho"
  shows "0 \<le> snd (le_open (stack_env ho junk eng k ext p) s)" "snd (le_malloc (stack_env ho junk eng k ext p) s n)"
    "0 \<le> snd (le_sigaction (stack_env ho junk eng k ext p) s sg)" "0 \<le> snd (le_close (stack_env ho junk eng k ext p) s fd)"
  using assms by (auto simp: host_grants_def stack_open_def axidma_open_def on_host_def split: prod.splits)
    (metis fst_conv snd_conv)+

definition demo_host :: "unit host" where
  "demo_host =
     \<lparr>ho_open = (\<lambda>h. (h, True, 3)), ho_close = (\<lambda>h fd. (h, 0)), ho_sigaction = (\<lambda>h n. (h, 0)), ho_malloc = (\<lambda>h n. (h, True)),
      ho_mmap = (\<lambda>h fd n. (h, Some 0x70000000)), ho_munmap = (\<lambda>h a n. (h, 0))\<rparr>"

lemma demo_host_grants: "host_grants demo_host"
  by (simp add: host_grants_def demo_host_def)

abbreviation "demo_env \<equiv> stack_env demo_host junk_chan recorder True no_import 7"

text \<open>
  C26: Over the driver, \<open>axidma_init\<close> succeeds and its tables are those of the driver: the array of each kind holds the
  identifiers of the driver's channels of that kind in order, and the table of channels has an entry for each.
\<close>

theorem library_describes_driver:
  assumes "host_grants ho" "stack_inv s" "\<not> ax_initialized ld" "arrays_empty ld"
  shows "\<exists>s' ld'. axidma_init (stack_env ho junk eng k ext p) s ld = Some (s', ld', True) \<and> stack_inv s' \<and>
    stack_chans s' = stack_chans s \<and> describes (stack_chans s) ld' \<and> ax_initialized ld'"
  using stack.init_describes [OF assms(2-4) granted(1-3) [OF assms(1)], of junk eng k ext p] by blast

lemma demo_stack: "stack_inv ((), [], demo_mapped, demo_mapped_ledger)" "stack_chans ((), [], demo_mapped, demo_mapped_ledger) = demo_chans"
proof -
  have "driver_inv demo_area demo_ledger (ad_channels demo_dev) (recorded_in demo_area) ([], demo_mapped, demo_mapped_ledger)"
    by (rule mmap_keeps [OF demo_inv demo_requests(1) demo_mmap])
  then show "stack_inv ((), [], demo_mapped, demo_mapped_ledger)"
    by (simp add: stack_inv_def driver_device_def driver_inv_simp demo_mapped_fields demo_chans_def demo_dev_def)
  show "stack_chans ((), [], demo_mapped, demo_mapped_ledger) = demo_chans"
    by (simp add: stack_chans_def driver_device_def demo_mapped_fields)
qed

theorem library_describes_driver_witness:
  "\<exists>s' ld'. axidma_init demo_env ((), [], demo_mapped, demo_mapped_ledger) zeroed_dev = Some (s', ld', True) \<and>
     describes demo_chans ld'"
  using library_describes_driver [OF demo_host_grants demo_stack(1), of zeroed_dev junk_chan recorder True no_import 7]
  by (auto simp: zeroed_dev_def arrays_empty_def demo_stack(2))

text \<open>
  C12: A one-way transfer of the library on a channel of its table runs the driver's transfer in that channel's direction
  over the same buffer, reports the driver's failure as -1 and its success as 0, and keeps the driver's invariant: the
  engine is asked only for bytes of the buffers' area.
\<close>

theorem library_transfer:
  assumes "driver_inv area base chans I (w, dev, l)" "engine_keeps I (in_area area) eng"
    and "describes chans ld" "c \<in> set chans" "no_wrap buf len"
  shows "\<exists>w' dev' rc.
    oneway_transfer (ch_dir c) eng p w dev \<lparr>tr_wait = wait, tr_channel_id = ch_id c, tr_buf = buf, tr_buf_len = len\<rparr> =
      Some (w', dev', rc) \<and> driver_inv area base chans I (w', dev', l) \<and>
    axidma_oneway_transfer (stack_env ho junk eng k ext p) (h, w, dev, l) ld (ch_id c) buf len wait =
      Some ((h, w', dev', l), if rc < 0 then -1 else 0)"
proof -
  let ?t = "\<lparr>tr_wait = wait, tr_channel_id = ch_id c, tr_buf = buf, tr_buf_len = len\<rparr>"
  have dev: "device_ok dev" "ad_channels dev = chans"
    using assms(1) by (auto simp: driver_inv_simp)
  obtain w' dev' rc where run: "oneway_transfer (ch_dir c) eng p w dev ?t = Some (w', dev', rc)"
    and inv: "driver_inv area base chans I (w', dev', l)"
    using oneway_answers [OF assms(1,2), of ?t "ch_dir c" p] assms(5)
    by (cases "oneway_transfer (ch_dir c) eng p w dev ?t") (auto simp: answers_def engine_result_def)
  then show ?thesis
    using stack_oneway [of dev ld c ho junk eng k ext p h w l buf len wait] dev assms(3,4) by auto
qed

text \<open>The library's device for the two channels.\<close>

definition demo_ld :: axidma_dev where
  "demo_ld =
     \<lparr>ax_initialized = True, ax_fd = 3,
      ax_dma_tx = \<lparr>at_len = 1, at_data = Block [Some 0]\<rparr>, ax_dma_rx = \<lparr>at_len = 1, at_data = Block [Some 1]\<rparr>,
      ax_vdma_tx = \<lparr>at_len = 0, at_data = Block []\<rparr>, ax_vdma_rx = \<lparr>at_len = 0, at_data = Block []\<rparr>,
      ax_num_channels = 2, ax_channels = Block (map (Some \<circ> new_channel) demo_chans)\<rparr>"

lemma demo_describes: "describes demo_chans demo_ld"
  by (simp add: describes_def arrays_hold_def filled_def kind_ids_def has_table_def demo_ld_def demo_chans_def new_channel_def)

lemma demo_mapped_inv:
  "driver_inv demo_area demo_ledger demo_chans (recorded_in demo_area) ([], demo_mapped, demo_mapped_ledger)"
  using mmap_keeps [OF demo_inv demo_requests(1) demo_mmap] by (simp add: demo_dev_def)

theorem library_transfer_witness:
  "axidma_oneway_transfer demo_env ((), [], demo_mapped, demo_mapped_ledger) demo_ld 0 0x70000100 256 True =
     Some (((), [(0x10000100, 256)], demo_used, demo_mapped_ledger), 0)"
proof -
  have c: "hd demo_chans \<in> set demo_chans" "ch_id (hd demo_chans) = 0" "ch_dir (hd demo_chans) = AXIDMA_WRITE"
    by (simp_all add: demo_chans_def)
  have fits: "no_wrap 0x70000100 256" by (simp add: no_wrap_def)
  show ?thesis
    using library_transfer [OF demo_mapped_inv recorder_keeps(1) demo_describes c(1) fits, of 7 True demo_host junk_chan True
        no_import "()"] demo_write
    by (auto simp: c axidma_write_transfer_def demo_trans_def)
qed

text \<open>
  Destroying the library's device leaves the lengths of its arrays. Initialising it again over the same driver writes
  the first identifier behind the end of an array that was allocated anew.
\<close>

theorem reinit_overflows:
  assumes "host_grants ho" "stack_inv s" "describes (stack_chans s) ld"
  shows "\<exists>s' ld'. axidma_destroy (stack_env ho junk eng k ext p) s ld = Some (s', ld') \<and>
    stack_inv s' \<and> \<not> ax_initialized ld' \<and> axidma_init (stack_env ho junk eng k ext p) s' ld' = None"
proof -
  let ?env = "stack_env ho junk eng k ext p" and ?s' = "fst (le_close (stack_env ho junk eng k ext p) s (ax_fd ld))"
  obtain ld' where ld': "axidma_destroy ?env s ld = Some (?s', ld')" "lengths_left (stack_chans s) ld'" "\<not> ax_initialized ld'"
    using destroy_leaves_lengths [OF assms(3) granted(4) [OF assms(1)]] by blast
  have s': "stack_inv ?s'" "stack_chans ?s' = stack_chans s"
    using assms(2) by (simp_all add: stack_system)
  have "axidma_init ?env ?s' ld' = None"
    using stack.init_twice_overflows [OF s'(1) ld'(3) _ granted(1,2) [OF assms(1)]] ld'(2) s'(2) by metis
  then show ?thesis using ld' s'(1) by blast
qed

theorem reinit_overflows_witness:
  "\<exists>s' ld'. axidma_destroy demo_env ((), [], demo_mapped, demo_mapped_ledger) demo_ld = Some (s', ld') \<and>
     axidma_init demo_env s' ld' = None"
  using reinit_overflows [OF demo_host_grants demo_stack(1), of demo_ld junk_chan recorder True no_import 7] demo_describes
  by (auto simp: demo_stack(2))

text \<open>
  A buffer that was imported can never be given back: the driver refuses the command, because its number is the limit
  the dispatcher tests, and the library's function ends in a failed assertion, whatever buffer it is called for.
\<close>

theorem unregister_never_works:
  "axidma_ioctl eng um k ext p AXIDMA_UNREGISTER_BUFFER arg w dev l = Some (w, dev, l, No_copy, -ENOTTY) \<and>
   axidma_unregister_buffer (stack_env ho junk eng k ext p) (h, w, dev, l) ld addr = None"
  by (simp add: unregister_refused stack_unregister)

text \<open>
  A callback that is set for a channel is the one the signal handler calls for it, with the channel's identifier and
  the user data, and the callbacks of all others stay; but only for identifiers below the number of channels. For any
  other identifier setting a callback reaches outside the table.
\<close>

theorem callback_called:
  assumes "has_table cs ld" "c \<in> set cs" "0 \<le> dc_channel_id c"
  shows "if dc_channel_id c < ax_num_channels ld
    then (\<exists>ld'. axidma_set_callback ld (dc_channel_id c) (Some cb) d = Some ld' \<and>
      axidma_callback ld' (dc_channel_id c) = Some (Some (cb, dc_channel_id c, d)) \<and>
      (\<forall>j. j \<noteq> dc_channel_id c \<longrightarrow> axidma_callback ld' j = axidma_callback ld j))
    else axidma_set_callback ld (dc_channel_id c) (Some cb) d = None"
  using set_callback_called [OF assms] set_callback_outside [OF assms(1)] by auto

theorem callback_called_witness:
  "\<exists>ld'. axidma_set_callback demo_ld 1 (Some 40) 41 = Some ld' \<and> axidma_callback ld' 1 = Some (Some (40, 1, 41)) \<and>
     axidma_callback ld' 0 = Some None"
proof -
  have c: "new_channel (demo_chans ! 1) \<in> set (map new_channel demo_chans)" "dc_channel_id (new_channel (demo_chans ! 1)) = 1"
    by (simp_all add: demo_chans_def new_channel_def)
  have "axidma_callback demo_ld 0 = Some None"
    by (simp add: axidma_callback_def demo_ld_def block_load_def demo_chans_def new_channel_def)
  moreover have "has_table (map new_channel demo_chans) demo_ld" "ax_num_channels demo_ld = 2"
    using demo_describes by (auto simp: describes_def demo_ld_def)
  ultimately show ?thesis
    using callback_called [of "map new_channel demo_chans" demo_ld "new_channel (demo_chans ! 1)" 40 41] c by auto
qed

end
