(* ===== verification/Axidma_Transfer.thy ===== *)
theory Axidma_Transfer
  imports Libaxidma "HOL-Library.Signed_Division"
begin

text \<open>
  The helpers of the applications, \<open>axidma_transfer.c\<close>: reading samples out of a text payload into the transmit
  buffer, summing a buffer block by block, and setting a transfer up.
  A buffer of \<open>int\<close>s is a list of integers. An access outside it, a signed overflow, a read of memory that was never
  written and a use of \<open>NULL\<close> are \<open>None\<close>. A C string is the list of its characters without the final zero.
\<close>

subsection \<open>Machine arithmetic\<close>

text \<open>An addition of \<open>int\<close>s; overflow is undefined in user space.\<close>

definition int_add :: "int \<Rightarrow> int \<Rightarrow> int option" where
  "int_add a b = (if INT_MIN \<le> a + b \<and> a + b \<le> INT_MAX then Some (a + b) else None)"

text \<open>\<open>(size_t) n / sizeof(int)\<close> for an \<open>int\<close>, as an integer.\<close>

definition words_of :: "int \<Rightarrow> int" where
  "words_of n = uint (word_of_int n :: u64) div 4"

definition VIB_BUFF_MAX :: int where "VIB_BUFF_MAX = 1320"

subsection \<open>Sums\<close>

text \<open>The loop of \<open>sum_buffer\<close>; a negative index compares as a large unsigned number and ends it.\<close>

function sum_loop :: "int list \<Rightarrow> int \<Rightarrow> int \<Rightarrow> int \<Rightarrow> int option" where
  "sum_loop buffer i limit ret =
     (if 0 \<le> i \<and> i < limit then
        if nat i < length buffer then do { ret \<leftarrow> int_add ret (buffer ! nat i); sum_loop buffer (i + 1) limit ret }
        else None
      else Some ret)"
  by pat_completeness auto
termination by (relation "measure (\<lambda>(b, i, limit, r). nat (limit - i))") auto

declare sum_loop.simps [simp del]

definition sum_buffer :: "int list \<Rightarrow> int \<Rightarrow> int \<Rightarrow> int option" where
  "sum_buffer buffer start stop = sum_loop buffer (int_of_u32 (word_of_int (words_of start))) (words_of stop) 0"

text \<open>What \<open>print_buffer\<close> prints.\<close>

definition print_buffer :: "int list \<Rightarrow> int \<Rightarrow> int list option" where
  "print_buffer buffer sz =
     (if words_of sz \<le> int (length buffer) then Some (take (nat (words_of sz)) buffer) else None)"

fun collect :: "(nat \<Rightarrow> int option) \<Rightarrow> nat \<Rightarrow> nat \<Rightarrow> int list option" where
  "collect f i 0 = Some []"
| "collect f i (Suc n) = do { x \<leftarrow> f i; xs \<leftarrow> collect f (Suc i) n; Some (x # xs) }"

text \<open>
  What \<open>calc_output\<close> prints: the sums of the whole blocks, and that of the rest if there is one. The division of C
  truncates.
\<close>

definition calc_output :: "int list \<Rightarrow> int \<Rightarrow> int list option" where
  "calc_output buffer sz =
     (let j = sz sdiv VIB_BUFF_MAX; r = sz smod VIB_BUFF_MAX in
      do { sums \<leftarrow> collect (\<lambda>i. sum_buffer buffer (VIB_BUFF_MAX * int i) ((int i + 1) * VIB_BUFF_MAX)) 0 (nat j);
           (if r \<noteq> 0 then do { rest \<leftarrow> sum_buffer buffer (VIB_BUFF_MAX * j) (VIB_BUFF_MAX * j + r); Some (sums @ [rest]) }
            else Some sums) })"

subsection \<open>Samples from text\<close>

fun is_prefix :: "char list \<Rightarrow> char list \<Rightarrow> bool" where
  "is_prefix [] s = True"
| "is_prefix (p # ps) [] = False"
| "is_prefix (p # ps) (c # s) = (p = c \<and> is_prefix ps s)"

text \<open>\<open>strstr\<close>: the suffix that begins with the first occurrence.\<close>

fun strstr :: "char list \<Rightarrow> char list \<Rightarrow> char list option" where
  "strstr [] p = (if p = [] then Some [] else None)"
| "strstr (c # s) p = (if is_prefix p (c # s) then Some (c # s) else strstr s p)"

definition is_digit :: "char \<Rightarrow> bool" where
  "is_digit c \<longleftrightarrow> 48 \<le> (of_char c :: nat) \<and> (of_char c :: nat) \<le> 57"

definition is_space :: "char \<Rightarrow> bool" where
  "is_space c \<longleftrightarrow> (of_char c :: nat) \<in> {9, 10, 11, 12, 13, 32}"

text \<open>The digits of a number in a block of memory: a run of digits up to the end of the block is read past it.\<close>

fun digits :: "int \<Rightarrow> char list \<Rightarrow> int option" where
  "digits acc [] = None"
| "digits acc (c # cs) = (if is_digit c then digits (10 * acc + (int (of_char c) - 48)) cs else Some acc)"

fun skip_space :: "char list \<Rightarrow> char list" where
  "skip_space [] = []"
| "skip_space (c # cs) = (if is_space c then skip_space cs else c # cs)"

definition fits_int :: "int \<Rightarrow> int option" where
  "fits_int n = (if INT_MIN \<le> n \<and> n \<le> INT_MAX then Some n else None)"

definition atoi :: "char list \<Rightarrow> int option" where
  "atoi s = (case skip_space s of
     [] \<Rightarrow> None
   | c # cs \<Rightarrow>
       if c = CHR ''-'' then do { n \<leftarrow> digits 0 cs; fits_int (- n) }
       else if c = CHR ''+'' then do { n \<leftarrow> digits 0 cs; fits_int n }
       else do { n \<leftarrow> digits 0 (c # cs); fits_int n })"

text \<open>
  \<open>extract_val\<close>: the block it allocates has one byte more than it copies, and that byte stays what it was, \<open>fill\<close>.
  The pointer behind \<open>payload\<close> is \<open>None\<close> for \<open>NULL\<close>. If the pattern is not found the function ends without a value.
\<close>

definition extract_val :: "char list \<Rightarrow> char list option \<Rightarrow> char \<Rightarrow> (char list option \<times> char list option) option" where
  "extract_val pattern payload fill =
     do { p \<leftarrow> payload;
          start \<leftarrow> strstr p pattern;
          let start = drop (length pattern) start;
          (case strstr start '','' of
             None \<Rightarrow> Some (None, None)
           | Some rest \<Rightarrow> Some (Some (take (length start - length rest) start @ [fill]), Some rest)) }"

text \<open>One assignment of the loop of \<open>fill_tx_buffer\<close>; \<open>atoi(NULL)\<close> is undefined.\<close>

definition store_val ::
    "char list \<Rightarrow> (nat \<Rightarrow> char) \<Rightarrow> int list \<times> nat \<times> char list option \<Rightarrow> (int list \<times> nat \<times> char list option) option" where
  "store_val pattern fill s = (case s of (buffer, cnt, payload) \<Rightarrow>
     do { (target, payload) \<leftarrow> extract_val pattern payload (fill cnt);
          t \<leftarrow> target;
          n \<leftarrow> atoi t;
          (if cnt < length buffer then Some (buffer[cnt := n], Suc cnt, payload) else None) })"

text \<open>The patterns: a letter, a quotation mark and a colon.\<close>

definition key :: "char \<Rightarrow> char list" where
  "key c = [c, CHR 0x22, CHR '':'']"

definition store_sample ::
    "(nat \<Rightarrow> char) \<Rightarrow> int list \<times> nat \<times> char list option \<Rightarrow> (int list \<times> nat \<times> char list option) option" where
  "store_sample fill s =
     do { s \<leftarrow> store_val (key CHR ''x'') fill s; s \<leftarrow> store_val (key CHR ''y'') fill s; store_val (key CHR ''z'') fill s }"

text \<open>The loop runs while \<open>cnt\<close> is below the number of words; \<open>n\<close> bounds its iterations.\<close>

primrec fill_loop ::
    "nat \<Rightarrow> nat \<Rightarrow> (nat \<Rightarrow> char) \<Rightarrow> int list \<times> nat \<times> char list option \<Rightarrow> (int list \<times> nat \<times> char list option) option" where
  "fill_loop 0 words fill s = (if fst (snd s) < words then None else Some s)"
| "fill_loop (Suc n) words fill s =
     (if fst (snd s) < words then do { s \<leftarrow> store_sample fill s; fill_loop n words fill s } else Some s)"

text \<open>Every iteration stores three words, so as many iterations as words are enough.\<close>

definition fill_tx_buffer :: "(nat \<Rightarrow> char) \<Rightarrow> int list \<Rightarrow> nat \<Rightarrow> char list \<Rightarrow> int list option" where
  "fill_tx_buffer fill tx_buffer tx_buff_size payload =
     map_option fst (fill_loop (tx_buff_size div 4) (tx_buff_size div 4) fill (tx_buffer, 0, Some payload))"

text \<open>
  \<open>fill_buffers\<close> also fills the receive buffer, with an assignment that uses \<open>cnt\<close> on its right while it increments it
  on its left: the two are unsequenced, which is undefined. It returns what it printed.
\<close>

definition fill_buffers ::
    "(nat \<Rightarrow> char) \<Rightarrow> int list \<Rightarrow> nat \<Rightarrow> int list \<Rightarrow> nat \<Rightarrow> char list \<Rightarrow> (int list \<times> int list \<times> int list) option" where
  "fill_buffers fill tx_buffer tx_buff_size rx_buffer rx_buff_size payload =
     do { tx \<leftarrow> fill_tx_buffer fill tx_buffer tx_buff_size payload;
          (if 0 < rx_buff_size div 4 then None
           else do {
             a \<leftarrow> print_buffer tx (int tx_buff_size);
             b \<leftarrow> print_buffer rx_buffer (int rx_buff_size);
             Some (tx, rx_buffer, a @ b) }) }"

subsection \<open>Transfers\<close>

record dma_transfer =
  dt_tx_channel :: int
  dt_rx_channel :: int
  dt_tx_buff_size :: u64
  dt_rx_buff_size :: u64
  dt_tx_buffer :: "u64 option"
  dt_rx_buffer :: "u64 option"

definition transfer_buffer_oneway ::
    "'s lib_env \<Rightarrow> 's \<Rightarrow> axidma_dev \<Rightarrow> dma_transfer \<Rightarrow> ('s \<times> int) option" where
  "transfer_buffer_oneway env s dev t =
     axidma_oneway_transfer env s dev (dt_tx_channel t) (case dt_tx_buffer t of None \<Rightarrow> 0 | Some b \<Rightarrow> b)
       (dt_tx_buff_size t) True"

definition transfer_buffer_twoway ::
    "'s lib_env \<Rightarrow> 's \<Rightarrow> axidma_dev \<Rightarrow> dma_transfer \<Rightarrow> ('s \<times> int) option" where
  "transfer_buffer_twoway env s dev t =
     axidma_twoway_transfer env s dev (dt_tx_channel t) (case dt_tx_buffer t of None \<Rightarrow> 0 | Some b \<Rightarrow> b)
       (dt_tx_buff_size t) None (dt_rx_channel t) (case dt_rx_buffer t of None \<Rightarrow> 0 | Some b \<Rightarrow> b)
       (dt_rx_buff_size t) None True"

definition init_axidma_trans_oneway ::
    "'s lib_env \<Rightarrow> 's \<Rightarrow> axidma_dev \<Rightarrow> dma_transfer \<Rightarrow> ('s \<times> axidma_dev \<times> dma_transfer \<times> int) option" where
  "init_axidma_trans_oneway env s dev t =
     (let t = t\<lparr>dt_tx_buff_size := word_of_int VIB_BUFF_MAX\<rparr>;
          tx_chan = axidma_get_dma_tx dev in
      if at_len tx_chan < 1 then do { (s, dev) \<leftarrow> axidma_destroy env s dev; Some (s, dev, t, -1) }
      else do {
        c \<leftarrow> block_load (at_data tx_chan) 0;
        let t = (if dt_tx_channel t \<noteq> c then t\<lparr>dt_tx_channel := c\<rparr> else t);
        let (s, b) = axidma_malloc env s dev (dt_tx_buff_size t);
        let t = t\<lparr>dt_tx_buffer := b\<rparr>;
        (if b = None then do { (s, dev) \<leftarrow> axidma_destroy env s dev; Some (s, dev, t, -1) }
         else Some (s, dev, t, 0)) })"

text \<open>Without receive channels the device is not destroyed; the channels are only set if both are -1.\<close>

definition init_axidma_trans_twoway ::
    "'s lib_env \<Rightarrow> 's \<Rightarrow> axidma_dev \<Rightarrow> dma_transfer \<Rightarrow> ('s \<times> axidma_dev \<times> dma_transfer \<times> int) option" where
  "init_axidma_trans_twoway env s dev t =
     (let t = t\<lparr>dt_tx_buff_size := word_of_int VIB_BUFF_MAX, dt_rx_buff_size := word_of_int VIB_BUFF_MAX\<rparr>;
          tx_chan = axidma_get_dma_tx dev;
          rx_chan = axidma_get_dma_rx dev in
      if at_len tx_chan < 1 then do { (s, dev) \<leftarrow> axidma_destroy env s dev; Some (s, dev, t, -1) }
      else if at_len rx_chan < 1 then Some (s, dev, t, -1)
      else do {
        t \<leftarrow> (if dt_tx_channel t = -1 \<and> dt_rx_channel t = -1
               then do { c \<leftarrow> block_load (at_data tx_chan) 0; d \<leftarrow> block_load (at_data rx_chan) 0;
                         Some (t\<lparr>dt_tx_channel := c, dt_rx_channel := d\<rparr>) }
               else Some t);
        let (s, b) = axidma_malloc env s dev (dt_tx_buff_size t);
        let t = t\<lparr>dt_tx_buffer := b\<rparr>;
        (if b = None then do { (s, dev) \<leftarrow> axidma_destroy env s dev; Some (s, dev, t, -1) }
         else
           let (s, b) = axidma_malloc env s dev (dt_rx_buff_size t);
               t = t\<lparr>dt_rx_buffer := b\<rparr> in
           if b = None then do { (s, dev) \<leftarrow> axidma_destroy env s dev; Some (s, dev, t, -1) }
           else Some (s, dev, t, 0)) })"

subsection \<open>Block sums\<close>

text \<open>The sum of a list of \<open>int\<close>s, defined if no partial sum overflows.\<close>

fun checked_sum :: "int \<Rightarrow> int list \<Rightarrow> int option" where
  "checked_sum ret [] = Some ret"
| "checked_sum ret (x # xs) = do { ret \<leftarrow> int_add ret x; checked_sum ret xs }"

function chunks :: "nat \<Rightarrow> 'a list \<Rightarrow> 'a list list" where
  "chunks n xs = (if n = 0 \<or> xs = [] then [] else take n xs # chunks n (drop n xs))"
  by pat_completeness auto
termination by (relation "measure (\<lambda>(n, xs). length xs)") auto

declare chunks.simps [simp del]

lemma chunks_Nil [simp]: "chunks n [] = []"
  by (simp add: chunks.simps [of n "[]"])

lemma sum_loop_block:
  "i + n \<le> length buffer \<Longrightarrow> sum_loop buffer (int i) (int (i + n)) ret = checked_sum ret (take n (drop i buffer))"
proof (induction n arbitrary: i ret)
  case 0
  then show ?case by (simp add: sum_loop.simps)
next
  case (Suc n)
  have "take (Suc n) (drop i buffer) = buffer ! i # take n (drop (Suc i) buffer)"
    using Suc.prems by (simp add: Cons_nth_drop_Suc [symmetric])
  moreover have "sum_loop buffer (int i) (int (i + Suc n)) ret =
      do { ret \<leftarrow> int_add ret (buffer ! i); sum_loop buffer (int (Suc i)) (int (Suc i + n)) ret }"
    using Suc.prems by (subst sum_loop.simps) (simp add: add.commute)
  ultimately show ?case using Suc.IH [of "Suc i"] Suc.prems by (simp cong: option.case_cong)
qed

lemma words_of_small: "n < 2 ^ 31 \<Longrightarrow> words_of (int n) = int (n div 4)"
  by (simp add: words_of_def unsigned_of_nat take_bit_nat_eq_self zdiv_int)

lemma int_of_u32_small: "n < 2 ^ 31 \<Longrightarrow> int_of_u32 (word_of_int (int n)) = int n"
  by (simp add: int_of_u32_def signed_of_nat signed_take_bit_int_eq_self)

lemma sum_buffer_block:
  assumes "i + n \<le> length buffer" "4 * length buffer < 2 ^ 31"
  shows "sum_buffer buffer (int (4 * i)) (int (4 * (i + n))) = checked_sum 0 (take n (drop i buffer))"
proof -
  have "words_of (int (4 * i)) = int i" "words_of (int (4 * (i + n))) = int (i + n)"
    using assms words_of_small [of "4 * i"] words_of_small [of "4 * (i + n)"] by simp_all
  then show ?thesis
    using assms int_of_u32_small [of i] sum_loop_block [OF assms(1), of 0] by (simp add: sum_buffer_def)
qed

text \<open>Summing every chunk, as far as no sum overflows.\<close>

fun chunk_sums :: "int list list \<Rightarrow> int list option" where
  "chunk_sums [] = Some []"
| "chunk_sums (c # cs) = do { x \<leftarrow> checked_sum 0 c; xs \<leftarrow> chunk_sums cs; Some (x # xs) }"

lemma chunk_sums_append: "chunk_sums (cs @ ds) = do { xs \<leftarrow> chunk_sums cs; ys \<leftarrow> chunk_sums ds; Some (xs @ ys) }"
  by (induction cs) (auto split: bind_splits)

lemma collect_sums:
  assumes "\<And>i. k \<le> i \<Longrightarrow> i < k + n \<Longrightarrow> f i = checked_sum 0 (cs ! i)" "k + n \<le> length cs"
  shows "collect f k n = chunk_sums (take n (drop k cs))"
  using assms
proof (induction n arbitrary: k)
  case (Suc n)
  have "take (Suc n) (drop k cs) = cs ! k # take n (drop (Suc k) cs)"
    using Suc.prems(2) by (simp add: Cons_nth_drop_Suc [symmetric])
  moreover have "collect f (Suc k) n = chunk_sums (take n (drop (Suc k) cs))" using Suc.prems by (intro Suc.IH) auto
  moreover have "f k = checked_sum 0 (cs ! k)" using Suc.prems(1) by simp
  ultimately show ?case by simp
qed simp

lemma chunks_nth:
  assumes "0 < n"
  shows "i < length (chunks n xs) \<Longrightarrow> chunks n xs ! i = take n (drop (n * i) xs)"
  using assms
proof (induction n xs arbitrary: i rule: chunks.induct)
  case (1 n xs)
  then show ?case by (cases i) (auto simp: chunks.simps [of n xs] add.commute split: if_splits)
qed

lemma chunks_length: "0 < n \<Longrightarrow> length (chunks n xs) = (length xs + n - 1) div n"
proof (induction n xs rule: chunks.induct)
  case (1 n xs)
  show ?case
  proof (cases "xs = []")
    case True
    then show ?thesis using 1(2) by simp
  next
    case False
    have "(length xs + n - 1) div n = Suc ((length xs - 1) div n)"
      using 1(2) False by (cases xs) (simp_all add: div_add_self2)
    moreover have "length (chunks n (drop n xs)) = (length xs - n + n - 1) div n" using 1 False by simp
    moreover have "(length xs - n + n - 1) div n = (length xs - 1) div n"
      using 1(2) False by (cases "n \<le> length xs") (auto simp: div_less)
    ultimately show ?thesis using 1(2) False by (simp add: chunks.simps [of n xs])
  qed
qed

lemma ceil_div:
  assumes "0 < (n :: nat)"
  shows "(w + n - 1) div n = w div n + (if w mod n = 0 then 0 else 1)"
proof -
  have "w + n - 1 = n * (w div n) + (w mod n + n - 1)" using assms by (simp add: Nat.add_diff_assoc)
  then have "(w + n - 1) div n = w div n + (w mod n + n - 1) div n" using assms by (metis div_mult_self4 not_gr0)
  moreover have "(w mod n + n - 1) div n = (if w mod n = 0 then 0 else 1)"
  proof (cases "w mod n")
    case (Suc r)
    moreover have "r < n" using mod_less_divisor [OF assms, of w] Suc by simp
    ultimately show ?thesis using assms by (simp add: div_add_self2)
  qed (use assms in simp)
  ultimately show ?thesis by simp
qed

lemma take_last: "length xs = Suc j \<Longrightarrow> xs = take j xs @ [xs ! j]"
  by (metis lessI order_refl take_Suc_conv_app_nth take_all)

lemma vib_bytes: "VIB_BUFF_MAX * int j + int (4 * r) = int (4 * (330 * j + r))" "VIB_BUFF_MAX * int j = int (4 * (330 * j))"
  by (simp_all add: VIB_BUFF_MAX_def)

text \<open>\<open>calc_output\<close> prints the sums of the chunks of 330.\<close>

lemma truncated_div: "0 \<le> m \<Longrightarrow> int n sdiv m = int n div m" "0 \<le> m \<Longrightarrow> int n smod m = int n mod m"
  by (cases "n = 0"; cases "m = 0"; simp add: signed_divide_int_def smod_int_alt_def sgn_if)+

lemma calc_output_chunks:
  assumes small: "4 * length buffer < 2 ^ 31"
  shows "calc_output buffer (int (4 * length buffer)) = chunk_sums (chunks 330 buffer)"
proof -
  let ?w = "length buffer" and ?cs = "chunks 330 buffer"
  let ?j = "?w div 330" and ?r = "?w mod 330"
  let ?f = "\<lambda>i. sum_buffer buffer (VIB_BUFF_MAX * int i) ((int i + 1) * VIB_BUFF_MAX)"
  have len: "length ?cs = ?j + (if ?r = 0 then 0 else 1)"
    using chunks_length [of 330 buffer] ceil_div [of 330 ?w] by simp
  have div: "int (4 * ?w) sdiv VIB_BUFF_MAX = int ?j" "int (4 * ?w) smod VIB_BUFF_MAX = int (4 * ?r)"
  proof -
    have "4 * ?w div (4 * 330) = ?j" "4 * ?w mod (4 * 330) = 4 * ?r" by (rule div_mult_mult1, simp) (rule mod_mult_mult1)
    then have "int (4 * ?w div (4 * 330)) = int ?j" "int (4 * ?w mod (4 * 330)) = int (4 * ?r)" by (simp_all only:)
    then have "int (4 * ?w) div VIB_BUFF_MAX = int ?j" "int (4 * ?w) mod VIB_BUFF_MAX = int (4 * ?r)"
      unfolding of_nat_div of_nat_mod by (simp_all add: VIB_BUFF_MAX_def)
    moreover have "0 \<le> VIB_BUFF_MAX" by (simp add: VIB_BUFF_MAX_def)
    ultimately show "int (4 * ?w) sdiv VIB_BUFF_MAX = int ?j" "int (4 * ?w) smod VIB_BUFF_MAX = int (4 * ?r)"
      by (simp_all only: truncated_div)
  qed
  have f: "?f i = checked_sum 0 (?cs ! i)" if "i < ?j" for i
  proof -
    have "330 * i + 330 \<le> ?w" using that by (simp add: div_less_iff_less_mult)
    from sum_buffer_block [OF this small] show ?thesis
      using that len chunks_nth [of 330 i buffer] by (simp add: VIB_BUFF_MAX_def algebra_simps)
  qed
  have whole: "collect ?f 0 ?j = chunk_sums (take ?j ?cs)"
    using collect_sums [of 0 ?j ?f ?cs] f len by simp
  show ?thesis
  proof (cases "?r = 0")
    case True
    then show ?thesis using whole len div by (simp add: calc_output_def Let_def)
  next
    case False
    have "330 * ?j + ?r \<le> ?w" by simp
    from sum_buffer_block [OF this small] have blk: "sum_buffer buffer (int (4 * (330 * ?j))) (int (4 * (330 * ?j + ?r))) =
        checked_sum 0 (take ?r (drop (330 * ?j) buffer))" .
    have last: "take ?r (drop (330 * ?j) buffer) = ?cs ! ?j"
      using False len chunks_nth [of 330 ?j buffer] by (simp add: minus_mult_div_eq_mod)
    have "sum_buffer buffer (VIB_BUFF_MAX * int ?j) (VIB_BUFF_MAX * int ?j + int (4 * ?r)) = checked_sum 0 (?cs ! ?j)"
      unfolding vib_bytes(1) unfolding vib_bytes(2) using blk unfolding last .
    moreover have "length ?cs = Suc ?j" using len False by simp
    then have "chunk_sums ?cs = chunk_sums (take ?j ?cs @ [?cs ! ?j])" by (rule arg_cong [OF take_last])
    then have "chunk_sums ?cs = do { xs \<leftarrow> chunk_sums (take ?j ?cs); ys \<leftarrow> chunk_sums [?cs ! ?j]; Some (xs @ ys) }"
      unfolding chunk_sums_append .
    ultimately show ?thesis
      using whole div False by (simp add: calc_output_def Let_def)
  qed
qed

lemma checked_sum_value: "checked_sum r xs = Some v \<Longrightarrow> v = r + sum_list xs"
proof (induction xs arbitrary: r)
  case (Cons x xs)
  then have "checked_sum (r + x) xs = Some v" by (auto simp: int_add_def split: if_splits)
  then show ?case using Cons.IH [of "r + x"] by simp
qed simp

lemma checked_sum_range:
  "checked_sum r xs = Some v \<Longrightarrow> INT_MIN \<le> r \<Longrightarrow> r \<le> INT_MAX \<Longrightarrow> INT_MIN \<le> v \<and> v \<le> INT_MAX"
  by (induction xs arbitrary: r) (auto simp: int_add_def split: bind_splits if_splits)

subsection \<open>Reading samples back\<close>

text \<open>A number in decimal, and the text of a sample as the sensor writes it.\<close>

fun show_nat :: "nat \<Rightarrow> char list" where
  "show_nat n = (if n < 10 then [char_of (48 + n)] else show_nat (n div 10) @ [char_of (48 + n mod 10)])"

declare show_nat.simps [simp del]

definition show_int :: "int \<Rightarrow> char list" where
  "show_int n = (if n < 0 then CHR ''-'' # show_nat (nat (- n)) else show_nat (nat n))"

definition show_object :: "int \<times> int \<times> int \<Rightarrow> char list" where
  "show_object s = (case s of (x, y, z) \<Rightarrow>
     [CHR ''{'', CHR 0x22] @ key CHR ''x'' @ show_int x @ [CHR '','', CHR 0x22] @ key CHR ''y'' @ show_int y @
     [CHR '','', CHR 0x22] @ key CHR ''z'' @ show_int z @ [CHR ''}'']
  )"

text \<open>The samples of a payload are the elements of a list, and the time follows it.\<close>

fun show_samples :: "(int \<times> int \<times> int) list \<Rightarrow> char list" where
  "show_samples [] = []"
| "show_samples [s] = show_object s"
| "show_samples (s # ss) = show_object s @ CHR '','' # show_samples ss"

definition quoted :: "char list \<Rightarrow> char list" where
  "quoted s = CHR 0x22 # s @ [CHR 0x22]"

definition show_payload :: "(int \<times> int \<times> int) list \<Rightarrow> nat \<Rightarrow> char list" where
  "show_payload samples time = CHR ''{'' # quoted ''vibration'' @ '':['' @ show_samples samples @ ''],'' @
     quoted ''time'' @ CHR '':'' # show_nat time @ ''}''"

definition sample_words :: "int \<times> int \<times> int \<Rightarrow> int list" where
  "sample_words s = (case s of (x, y, z) \<Rightarrow> [x, y, z])"

lemma sample_words_simp [simp]: "sample_words (x, y, z) = [x, y, z]"
  by (simp add: sample_words_def)

lemma digit_char: "d < 10 \<Longrightarrow> is_digit (char_of (48 + d)) \<and> (of_char (char_of (48 + d) :: char) :: nat) = 48 + d"
  by (simp add: is_digit_def)

lemma digits_append: "list_all is_digit ds \<Longrightarrow> digits acc (ds @ cs) =
    digits (foldl (\<lambda>a c. 10 * a + (int (of_char c) - 48)) acc ds) cs"
  by (induction ds arbitrary: acc) auto

lemma show_nat_digits:
  "list_all is_digit (show_nat n) \<and> show_nat n \<noteq> [] \<and> foldl (\<lambda>a c. 10 * a + (int (of_char c) - 48)) 0 (show_nat n) = int n"
proof (induction n rule: show_nat.induct)
  case (1 n)
  show ?case
  proof (cases "n < 10")
    case True
    then show ?thesis using digit_char [OF True] by (simp add: show_nat.simps [of n])
  next
    case False
    have "int n = 10 * int (n div 10) + int (n mod 10)" by presburger
    then show ?thesis
      using False 1 digit_char [of "n mod 10"] by (simp add: show_nat.simps [of n])
  qed
qed

text \<open>The byte behind the copied characters does not matter if a character that is no digit comes before it.\<close>

lemma digits_show: "\<not> is_digit c \<Longrightarrow> digits 0 (show_nat n @ c # cs) = Some (int n)"
  using show_nat_digits [of n] by (simp add: digits_append)

lemma digits_show_digit: "is_digit c \<Longrightarrow> digits 0 (show_nat n @ [c]) = None"
  using show_nat_digits [of n] by (simp add: digits_append)

lemma show_nat_head: "\<exists>c cs. show_nat n = c # cs \<and> is_digit c"
  using show_nat_digits [of n] by (cases "show_nat n") auto

lemma atoi_show:
  assumes "INT_MIN \<le> n" "n \<le> INT_MAX" "\<not> is_digit c"
  shows "atoi (show_int n @ c # cs) = Some n"
proof (cases "n < 0")
  case True
  then show ?thesis
    using assms digits_show [OF assms(3), of "nat (- n)" cs]
    by (simp add: atoi_def show_int_def is_space_def fits_int_def)
next
  case False
  obtain d ds where h: "show_nat (nat n) = d # ds" "is_digit d" using show_nat_head by blast
  have "\<not> is_space d" "d \<noteq> CHR ''-''" "d \<noteq> CHR ''+''" using h(2) by (auto simp: is_digit_def is_space_def)
  then show ?thesis
    using assms False h(1) digits_show [OF assms(3), of "nat n" cs]
    by (simp add: atoi_def show_int_def fits_int_def)
qed

text \<open>A digit behind the number lets the function read past the block.\<close>

lemma atoi_show_digit:
  assumes "is_digit c"
  shows "atoi (show_int n @ [c]) = None"
proof (cases "n < 0")
  case True
  then show ?thesis
    using digits_show_digit [OF assms, of "nat (- n)"] by (simp add: atoi_def show_int_def is_space_def)
next
  case False
  obtain d ds where h: "show_nat (nat n) = d # ds" "is_digit d" using show_nat_head by blast
  have "\<not> is_space d" "d \<noteq> CHR ''-''" "d \<noteq> CHR ''+''" using h(2) by (auto simp: is_digit_def is_space_def)
  then show ?thesis
    using False h(1) digits_show_digit [OF assms, of "nat n"] by (simp add: atoi_def show_int_def)
qed

lemma show_int_no_comma: "CHR '','' \<notin> set (show_int n)"
  using show_nat_digits [of "nat (- n)"] show_nat_digits [of "nat n"]
  by (auto simp: show_int_def list_all_iff is_digit_def)

lemma show_int_no_letter: "c \<in> set (show_int n) \<Longrightarrow> is_digit c \<or> c = CHR ''-''"
  using show_nat_digits [of "nat (- n)"] show_nat_digits [of "nat n"]
  by (auto simp: show_int_def list_all_iff split: if_splits)

text \<open>Searching goes over text that does not contain the first character of what is searched.\<close>

lemma strstr_skip: "p \<notin> set a \<Longrightarrow> strstr (a @ s) (p # ps) = strstr s (p # ps)"
  by (induction a) auto

lemma strstr_here: "is_prefix p s \<Longrightarrow> s \<noteq> [] \<Longrightarrow> strstr s p = Some s"
  by (cases s) auto

lemma is_prefix_append [simp]: "is_prefix p (p @ s)"
  by (induction p) auto

lemma key_length [simp]: "length (key c) = 3" "key c \<noteq> []"
  by (simp_all add: key_def)

text \<open>
  Extracting a value: text before the key in which its letter does not occur, the key, the value, something that holds
  no comma, a comma.
\<close>

lemma extract_val_at:
  assumes "c \<notin> set a" "CHR '','' \<notin> set v"
  shows "extract_val (key c) (Some (a @ key c @ v @ CHR '','' # rest)) f = Some (Some (v @ [f]), Some (CHR '','' # rest))"
proof -
  have "strstr (a @ key c @ v @ CHR '','' # rest) (key c) = strstr (key c @ v @ CHR '','' # rest) (key c)"
    using strstr_skip [OF assms(1)] by (simp add: key_def)
  also have "\<dots> = Some (key c @ v @ CHR '','' # rest)"
    by (rule strstr_here) simp_all
  finally have s: "strstr (a @ key c @ v @ CHR '','' # rest) (key c) = Some (key c @ v @ CHR '','' # rest)" .
  have "strstr (v @ CHR '','' # rest) '','' = Some (CHR '','' # rest)"
    using strstr_skip [OF assms(2)] by simp
  then show ?thesis using s by (simp add: extract_val_def)
qed

lemma store_val_at:
  assumes "c \<notin> set a" "CHR '','' \<notin> set v" "atoi (v @ [fill cnt]) = Some n" "cnt < length buffer"
  shows "store_val (key c) fill (buffer, cnt, Some (a @ key c @ v @ CHR '','' # rest)) =
    Some (buffer[cnt := n], Suc cnt, Some (CHR '','' # rest))"
  using extract_val_at [OF assms(1,2)] assms(3,4) by (simp add: store_val_def)

definition int_range :: "int \<times> int \<times> int \<Rightarrow> bool" where
  "int_range s \<longleftrightarrow> (\<forall>n \<in> set (sample_words s). INT_MIN \<le> n \<and> n \<le> INT_MAX)"

text \<open>One sample is read back; the text before it may hold what is left of the sample before.\<close>

lemma store_val_number:
  assumes "c \<notin> set a" "INT_MIN \<le> n" "n \<le> INT_MAX" "cnt < length buffer"
  shows "store_val (key c) fill (buffer, cnt, Some (a @ key c @ show_int n @ CHR '','' # rest)) =
    (if is_digit (fill cnt) then None else Some (buffer[cnt := n], Suc cnt, Some (CHR '','' # rest)))"
proof (cases "is_digit (fill cnt)")
  case True
  then show ?thesis
    using extract_val_at [OF assms(1) show_int_no_comma] atoi_show_digit by (simp add: store_val_def)
next
  case False
  then show ?thesis
    using store_val_at [OF assms(1) show_int_no_comma _ assms(4)] atoi_show [OF assms(2,3)] by simp
qed

lemma store_sample_at:
  assumes room: "cnt + 2 < length buffer" and range: "int_range (x, y, z)"
    and a: "CHR ''x'' \<notin> set a" and t: "CHR '','' \<notin> set t"
  shows "store_sample fill (buffer, cnt, Some (a @ show_object (x, y, z) @ t @ CHR '','' # rest)) =
    (if is_digit (fill cnt) \<or> is_digit (fill (Suc cnt)) then None
     else Some (buffer[cnt := x, Suc cnt := y, Suc (Suc cnt) := z], cnt + 3, Some (CHR '','' # rest)))"
proof -
  have r: "INT_MIN \<le> x" "x \<le> INT_MAX" "INT_MIN \<le> y" "y \<le> INT_MAX" "INT_MIN \<le> z" "z \<le> INT_MAX"
    using range by (simp_all add: int_range_def sample_words_def)
  let ?rz = "CHR '','' # rest"
  let ?ry = "CHR '','' # CHR 0x22 # key CHR ''z'' @ show_int z @ CHR ''}'' # t @ ?rz"
  let ?rx = "CHR '','' # CHR 0x22 # key CHR ''y'' @ show_int y @ ?ry"
  have x: "store_val (key CHR ''x'') fill (buffer, cnt, Some ((a @ [CHR ''{'', CHR 0x22]) @ key CHR ''x'' @ show_int x @ ?rx)) =
      (if is_digit (fill cnt) then None else Some (buffer[cnt := x], Suc cnt, Some ?rx))"
    by (rule store_val_number [OF _ r(1,2)]) (use a room in auto)
  have y: "store_val (key CHR ''y'') fill (buffer[cnt := x], Suc cnt, Some ([CHR '','', CHR 0x22] @ key CHR ''y'' @ show_int y @ ?ry)) =
      (if is_digit (fill (Suc cnt)) then None else Some (buffer[cnt := x, Suc cnt := y], Suc (Suc cnt), Some ?ry))"
    by (rule store_val_number [OF _ r(3,4)]) (use room in auto)
  have z: "store_val (key CHR ''z'') fill (buffer[cnt := x, Suc cnt := y], Suc (Suc cnt),
        Some ([CHR '','', CHR 0x22] @ key CHR ''z'' @ (show_int z @ CHR ''}'' # t) @ ?rz)) =
      Some (buffer[cnt := x, Suc cnt := y, Suc (Suc cnt) := z], Suc (Suc (Suc cnt)), Some ?rz)"
    using room t atoi_show [OF r(5,6), of "CHR ''}''"] show_int_no_comma by (intro store_val_at) (auto simp: is_digit_def)
  show ?thesis
    using x y z by (simp add: store_sample_def show_object_def)
qed

text \<open>
  The byte behind a copied number is never written. For the first two numbers of a sample it must not be a digit, or
  \<open>atoi\<close> reads on behind the block; the third is copied with the brace behind it.
\<close>

definition terminated :: "(nat \<Rightarrow> char) \<Rightarrow> nat \<Rightarrow> nat \<Rightarrow> bool" where
  "terminated fill i n \<longleftrightarrow> (\<forall>j \<in> set [i..<i + n]. j mod 3 \<noteq> 2 \<longrightarrow> \<not> is_digit (fill j))"

lemma terminated_append: "terminated fill i (m + n) \<longleftrightarrow> terminated fill i m \<and> terminated fill (i + m) n"
  by (auto simp: terminated_def add.assoc)

lemma terminated_0 [simp]: "terminated fill i 0"
  by (simp add: terminated_def)

lemma terminated_sample:
  assumes "3 dvd i"
  shows "terminated fill i 3 \<longleftrightarrow> \<not> is_digit (fill i) \<and> \<not> is_digit (fill (Suc i))"
proof -
  have "[i..<i + 3] = [i, Suc i, Suc (Suc i)]" by (simp add: upt_rec numeral_3_eq_3)
  moreover have "i mod 3 = 0" "Suc i mod 3 = 1" "Suc (Suc i) mod 3 = 2" using assms by presburger+
  ultimately show ?thesis by (simp add: terminated_def)
qed

text \<open>
  A piece of a payload is a sample, some text without a comma, and a comma. The loop reads piece after piece; what is
  left begins with the comma of the last.
\<close>

definition piece :: "(int \<times> int \<times> int) \<times> char list \<Rightarrow> char list" where
  "piece p = show_object (fst p) @ snd p @ '',''"

definition good_piece :: "(int \<times> int \<times> int) \<times> char list \<Rightarrow> bool" where
  "good_piece p \<longleftrightarrow> int_range (fst p) \<and> CHR '','' \<notin> set (snd p)"

lemma fill_loop_pieces:
  assumes "\<forall>p \<in> set ps. good_piece p" "3 dvd cnt" "cnt + 3 * length ps \<le> length buffer"
    and "CHR ''x'' \<notin> set a" "length ps \<le> n" "cnt + 3 * length ps \<le> words"
  shows "fill_loop n words fill (buffer, cnt, Some (a @ concat (map piece ps) @ rest)) =
    (if terminated fill cnt (3 * length ps) then fill_loop (n - length ps) words fill
      (take cnt buffer @ concat (map (sample_words \<circ> fst) ps) @ drop (cnt + 3 * length ps) buffer, cnt + 3 * length ps,
       Some ((if ps = [] then a else '','') @ rest)) else None)"
  using assms
proof (induction ps arbitrary: n buffer cnt a)
  case (Cons p ps)
  obtain x y z t where p: "p = ((x, y, z), t)" by (metis prod.collapse)
  obtain m where m: "n = Suc m" using Cons.prems(5) by (cases n) auto
  let ?b = "buffer[cnt := x, Suc cnt := y, Suc (Suc cnt) := z]"
  let ?r = "concat (map piece ps) @ rest"
  have split: "terminated fill cnt (3 * length (p # ps)) \<longleftrightarrow> terminated fill cnt 3 \<and> terminated fill (cnt + 3) (3 * length ps)"
    using terminated_append [of fill cnt 3 "3 * length ps"] by simp
  have st: "store_sample fill (buffer, cnt, Some (a @ show_object (x, y, z) @ t @ CHR '','' # ?r)) =
      (if terminated fill cnt 3 then Some (?b, cnt + 3, Some ('','' @ ?r)) else None)"
    using store_sample_at [of cnt buffer x y z a t fill ?r] Cons.prems(1-4) p by (simp add: good_piece_def terminated_sample)
  have "fill_loop m words fill (?b, cnt + 3, Some ('','' @ ?r)) = (if terminated fill (cnt + 3) (3 * length ps)
      then fill_loop (m - length ps) words fill
        (take (cnt + 3) ?b @ concat (map (sample_words \<circ> fst) ps) @ drop (cnt + 3 + 3 * length ps) ?b,
         cnt + 3 + 3 * length ps, Some ((if ps = [] then '','' else '','') @ rest)) else None)"
    by (rule Cons.IH) (use Cons.prems m in auto)
  moreover have "take (cnt + 3) ?b = take cnt buffer @ [x, y, z]"
    using Cons.prems(3) by (simp add: take_Suc_conv_app_nth numeral_3_eq_3 nth_list_update)
  moreover have "drop (cnt + 3 + 3 * length ps) ?b = drop (cnt + 3 * length (p # ps)) buffer"
    by (simp add: add.assoc)
  moreover have "fill_loop n words fill (buffer, cnt, Some (a @ concat (map piece (p # ps)) @ rest)) =
      (if terminated fill cnt 3 then fill_loop m words fill (?b, cnt + 3, Some ('','' @ ?r)) else None)"
    using st Cons.prems(6) m p by (simp add: piece_def)
  ultimately show ?case
    using m p Cons.prems(6) split by (simp add: add.assoc comp_def)
qed simp

text \<open>\<open>k\<close> samples are read if there are as many, and the function never returns properly if there are fewer.\<close>

lemma strstr_missing: "p \<notin> set s \<Longrightarrow> strstr s (p # ps) = None"
  by (induction s) auto

lemma store_sample_missing: "CHR ''x'' \<notin> set s \<Longrightarrow> store_sample fill (buffer, cnt, Some s) = None"
  using strstr_missing [of "CHR ''x''" s] by (simp add: store_sample_def store_val_def extract_val_def key_def)

lemma fill_tx_buffer_pieces:
  assumes "\<forall>p \<in> set ps. good_piece p" "CHR ''x'' \<notin> set a" "CHR ''x'' \<notin> set rest"
    and k: "length buffer = 3 * k"
  shows "fill_tx_buffer fill buffer (4 * length buffer) (a @ concat (map piece ps) @ rest) =
    (if k \<le> length ps \<and> terminated fill 0 (3 * k) then Some (concat (map (sample_words \<circ> fst) (take k ps))) else None)"
proof (cases "k \<le> length ps")
  case True
  have "a @ concat (map piece ps) @ rest = a @ concat (map piece (take k ps)) @ concat (map piece (drop k ps)) @ rest"
    by (metis append.assoc append_take_drop_id concat_append map_append)
  moreover have "\<forall>p \<in> set (take k ps). good_piece p" using assms(1) in_set_takeD by fast
  ultimately show ?thesis
    using fill_loop_pieces [of "take k ps" 0 buffer a "3 * k" "3 * k" fill "concat (map piece (drop k ps)) @ rest"] assms(2) True k
    by (cases "3 * k - k") (auto simp: fill_tx_buffer_def)
next
  case False
  then obtain d where d: "3 * k - length ps = Suc d" by (cases "3 * k - length ps") auto
  have "CHR ''x'' \<notin> set ((if ps = [] then a else '','') @ rest)" using assms(2,3) by auto
  then show ?thesis
    using fill_loop_pieces [of ps 0 buffer a "3 * k" "3 * k" fill rest] assms(1,2) False k d store_sample_missing
    by (simp add: fill_tx_buffer_def)
qed

text \<open>The samples of a payload as the sensor sends it are such pieces: the last one has the end of the list behind it.\<close>

fun sample_pieces :: "(int \<times> int \<times> int) list \<Rightarrow> ((int \<times> int \<times> int) \<times> char list) list" where
  "sample_pieces [] = []"
| "sample_pieces [s] = [(s, '']'')]"
| "sample_pieces (s # ss) = (s, []) # sample_pieces ss"

lemma sample_pieces_map [simp]: "map fst (sample_pieces ss) = ss" "length (sample_pieces ss) = length ss"
  by (induction ss rule: sample_pieces.induct) simp_all

lemma sample_pieces_good: "\<forall>s \<in> set ss. int_range s \<Longrightarrow> \<forall>p \<in> set (sample_pieces ss). good_piece p"
  by (induction ss rule: sample_pieces.induct) (auto simp: good_piece_def)

lemma show_samples_pieces: "ss \<noteq> [] \<Longrightarrow> show_samples ss @ CHR '']'' # CHR '','' # rest = concat (map piece (sample_pieces ss)) @ rest"
  by (induction ss rule: sample_pieces.induct) (auto simp: piece_def)

lemma show_nat_no_x: "CHR ''x'' \<notin> set (show_nat n)"
  using show_nat_digits [of n] by (auto simp: list_all_iff is_digit_def)

lemma fill_tx_buffer_payload:
  assumes "samples \<noteq> []" "\<forall>s \<in> set samples. int_range s" "length buffer = 3 * k"
  shows "fill_tx_buffer fill buffer (4 * length buffer) (show_payload samples time) =
    (if k \<le> length samples \<and> terminated fill 0 (3 * k) then Some (concat (map sample_words (take k samples))) else None)"
proof -
  let ?rest = "quoted ''time'' @ CHR '':'' # show_nat time @ ''}''"
  let ?a = "CHR ''{'' # quoted ''vibration'' @ '':[''"
  have pieces: "show_payload samples time = ?a @ concat (map piece (sample_pieces samples)) @ ?rest"
    using show_samples_pieces [OF assms(1), of ?rest] by (simp add: show_payload_def)
  have words: "map (sample_words \<circ> fst) (take k (sample_pieces samples)) = map sample_words (take k samples)"
    by (metis list.map_comp sample_pieces_map(1) take_map)
  have "CHR ''x'' \<notin> set ?a" "CHR ''x'' \<notin> set ?rest"
    using show_nat_no_x by (simp_all add: quoted_def)
  then show ?thesis
    unfolding pieces words [symmetric]
    by (subst fill_tx_buffer_pieces [OF sample_pieces_good [OF assms(2)] _ _ assms(3)]) simp_all
qed

text \<open>A payload without samples ends in \<open>atoi(NULL)\<close>.\<close>

lemma fill_without_samples:
  assumes "CHR ''x'' \<notin> set payload" "0 < tx_buff_size div 4"
  shows "fill_tx_buffer fill buffer tx_buff_size payload = None"
proof -
  obtain n where n: "tx_buff_size div 4 = Suc n" using assms(2) by (cases "tx_buff_size div 4") auto
  show ?thesis using store_sample_missing [OF assms(1)] by (simp add: fill_tx_buffer_def n)
qed

text \<open>\<open>fill_buffers\<close> is undefined as soon as there is something to receive.\<close>

lemma fill_buffers_undefined: "4 \<le> rx_buff_size \<Longrightarrow> fill_buffers fill tx tx_buff_size rx rx_buff_size payload = None"
  by (cases "fill_tx_buffer fill tx tx_buff_size payload") (simp_all add: fill_buffers_def div_eq_0_iff)

subsection \<open>Setting up\<close>

text \<open>With a device that describes the driver's channels, the transfer gets the first transmit channel and a buffer.\<close>

lemma described_first:
  assumes "describes chans dev" "kind_ids AXIDMA_DMA AXIDMA_WRITE chans = i # is"
  shows "block_load (at_data (ax_dma_tx dev)) 0 = Some i" "1 \<le> at_len (ax_dma_tx dev)"
  using assms by (simp_all add: describes_def arrays_hold_def filled_def block_load_def)

lemma init_oneway_ok:
  assumes "describes chans dev" "kind_ids AXIDMA_DMA AXIDMA_WRITE chans = i # is" "axidma_malloc env s dev 1320 = (s', Some b)"
  shows "init_axidma_trans_oneway env s dev t =
    Some (s', dev, t\<lparr>dt_tx_buff_size := 1320, dt_tx_channel := i, dt_tx_buffer := Some b\<rparr>, 0)"
  using described_first [OF assms(1,2)] assms(3)
  by (simp add: init_axidma_trans_oneway_def axidma_get_dma_tx_def VIB_BUFF_MAX_def Let_def)

text \<open>Without a receive channel the two-way setup fails and leaves the device as it is, with its arrays allocated.\<close>

lemma init_twoway_leaks:
  assumes "describes chans dev" "kind_ids AXIDMA_DMA AXIDMA_WRITE chans = i # is" "kind_ids AXIDMA_DMA AXIDMA_READ chans = []"
  shows "\<exists>t'. init_axidma_trans_twoway env s dev t = Some (s, dev, t', -1)"
proof -
  have "at_len (ax_dma_rx dev) = 0" using assms(1,3) by (simp add: describes_def arrays_hold_def filled_def)
  then show ?thesis
    using described_first [OF assms(1,2)]
    by (simp add: init_axidma_trans_twoway_def axidma_get_dma_tx_def axidma_get_dma_rx_def Let_def)
qed

end
