(* ===== verification/Hls_Sum.thy ===== *)
theory Hls_Sum
  imports Axidma_Transfer
begin

text \<open>
  The accelerator \<open>sum_330\<close> of \<open>sum_330.cpp\<close>: it sums the words of a stream and writes a result after every 330th
  word and after the last one. In hardware the sum is a 32-bit register. A stream is the list of its packets; reading
  from an empty one blocks for ever and is \<open>None\<close>.
\<close>

subsection \<open>Packets\<close>

text \<open>\<open>ap_axis<32, 2, 5, 6>\<close>.\<close>

record side_chan =
  sc_data :: u32
  sc_keep :: "4 word"
  sc_strb :: "4 word"
  sc_user :: "2 word"
  sc_last :: bool
  sc_id :: "5 word"
  sc_dest :: "6 word"

definition N :: nat where "N = 330"

subsection \<open>The accelerator\<close>

fun sum_330_loop :: "nat \<Rightarrow> u32 \<Rightarrow> side_chan list \<Rightarrow> side_chan list \<Rightarrow> (side_chan list \<times> side_chan list) option" where
  "sum_330_loop cnt acc [] out = None"
| "sum_330_loop cnt acc (tmp1 # inp) out =
     (let acc = acc + sc_data tmp1; cnt = cnt + 1 in
      if sc_last tmp1 then Some (inp, out @ [tmp1\<lparr>sc_data := acc, sc_keep := -1, sc_last := True\<rparr>])
      else if cnt = N then sum_330_loop 0 0 inp (out @ [tmp1\<lparr>sc_data := acc\<rparr>])
      else sum_330_loop cnt acc inp out)"

definition sum_330 :: "side_chan list \<Rightarrow> (side_chan list \<times> side_chan list) option" where
  "sum_330 inp = sum_330_loop 0 0 inp []"

subsection \<open>What it writes\<close>

text \<open>A packet stream for a list of words: the last packet carries the mark.\<close>

definition marked :: "side_chan list \<Rightarrow> bool" where
  "marked ps \<longleftrightarrow> ps \<noteq> [] \<and> sc_last (last ps) \<and> (\<forall>p \<in> set (butlast ps). \<not> sc_last p)"

lemma marked_Cons: "marked (p # ps) \<longleftrightarrow> (if ps = [] then sc_last p else \<not> sc_last p \<and> marked ps)"
  by (auto simp: marked_def)

definition word_sum :: "side_chan list \<Rightarrow> u32" where
  "word_sum ps = (\<Sum>p \<leftarrow> ps. sc_data p)"

lemma chunks_step:
  "ps \<noteq> [] \<Longrightarrow> 0 < n \<Longrightarrow> chunks n ps = (if length ps \<le> n then [ps] else take n ps # chunks n (drop n ps))"
  by (simp add: chunks.simps [of n ps])

text \<open>Before a block is full: \<open>cnt\<close> words of it are summed.\<close>

lemma loop_block:
  assumes "cnt < N"
  shows "marked ps \<Longrightarrow> \<exists>rs rest. sum_330_loop cnt s ps out = Some (rest, out @ rs) \<and> rest = [] \<and>
    map sc_data rs =
      (if length ps \<le> N - cnt then [s + word_sum ps]
       else (s + word_sum (take (N - cnt) ps)) # map word_sum (chunks N (drop (N - cnt) ps)))"
  using assms
proof (induction ps arbitrary: cnt s out)
  case Nil
  then show ?case by (simp add: marked_def)
next
  case (Cons p ps)
  show ?case
  proof (cases "ps = []")
    case True
    then show ?thesis using Cons.prems by (simp add: marked_Cons word_sum_def Let_def Suc_le_eq)
  next
    case False
    then have p: "\<not> sc_last p" "marked ps" using Cons.prems(1) by (simp_all add: marked_Cons)
    show ?thesis
    proof (cases "cnt + 1 = N")
      case True
      let ?r = "p\<lparr>sc_data := s + sc_data p\<rparr>"
      have "chunks N ps = (if length ps \<le> N then [ps] else take N ps # chunks N (drop N ps))"
        using False by (intro chunks_step) (simp_all add: N_def)
      moreover obtain rs where "sum_330_loop 0 0 ps (out @ [?r]) = Some ([], (out @ [?r]) @ rs)"
          "map sc_data rs = (if length ps \<le> N then [word_sum ps] else word_sum (take N ps) # map word_sum (chunks N (drop N ps)))"
        using Cons.IH [OF p(2), of 0 0 "out @ [?r]"] by (auto simp: N_def)
      moreover have one: "N - cnt = 1" using True by simp
      moreover have "\<not> length (p # ps) \<le> N - cnt" unfolding one using False by (cases ps) simp_all
      ultimately show ?thesis using p True by (auto simp: Let_def word_sum_def)
    next
      case neq: False
      have "cnt + 1 < N" using Cons.prems(2) neq by simp
      then obtain rs where "sum_330_loop (cnt + 1) (s + sc_data p) ps out = Some ([], out @ rs)"
          "map sc_data rs = (if length ps \<le> N - (cnt + 1) then [s + sc_data p + word_sum ps]
             else (s + sc_data p + word_sum (take (N - (cnt + 1)) ps)) # map word_sum (chunks N (drop (N - (cnt + 1)) ps)))"
        using Cons.IH [OF p(2), of "cnt + 1" "s + sc_data p" out] by auto
      moreover have "N - cnt = Suc (N - (cnt + 1))" using Cons.prems(2) by simp
      ultimately show ?thesis using p neq by (auto simp: Let_def word_sum_def add.assoc)
    qed
  qed
qed

text \<open>The results are the word sums of the chunks of 330 packets; all of the stream is read.\<close>

lemma sum_330_chunks:
  assumes "marked ps"
  shows "\<exists>rs. sum_330 ps = Some ([], rs) \<and> map sc_data rs = map word_sum (chunks N ps)"
proof -
  have ne: "ps \<noteq> []" using assms by (simp add: marked_def)
  have "chunks N ps = (if length ps \<le> N then [ps] else take N ps # chunks N (drop N ps))"
    using ne by (intro chunks_step) (simp_all add: N_def)
  then show ?thesis
    using loop_block [of 0 ps 0 "[]"] assms by (auto simp: sum_330_def N_def)
qed

subsection \<open>Hardware and software agree\<close>

lemma word_sum_of_ints: "(\<Sum>x \<leftarrow> xs. word_of_int x) = (word_of_int (sum_list xs) :: u32)"
  by (induction xs) simp_all

lemma sint_in_range:
  assumes "INT_MIN \<le> n" "n \<le> INT_MAX"
  shows "sint (word_of_int n :: u32) = n"
  using assms by (simp add: signed_of_int signed_take_bit_int_eq_self INT_MIN_def INT_MAX_def)

lemma chunks_map: "chunks n (map f xs) = map (map f) (chunks n xs)"
  by (induction n xs rule: chunks.induct)
    (subst chunks.simps, subst (2) chunks.simps, simp add: take_map drop_map)

lemma chunk_sums_words:
  "chunk_sums cs = Some sums \<Longrightarrow> map (\<lambda>c. sint (word_of_int (sum_list c) :: u32)) cs = sums"
proof (induction cs arbitrary: sums)
  case (Cons c cs)
  then obtain x xs where x: "checked_sum 0 c = Some x" "chunk_sums cs = Some xs" "sums = x # xs"
    by (auto split: bind_splits)
  have "x = sum_list c" "INT_MIN \<le> x \<and> x \<le> INT_MAX"
    using checked_sum_value [OF x(1)] checked_sum_range [OF x(1)] by (simp_all add: INT_MIN_def INT_MAX_def)
  then show ?case using Cons.IH x sint_in_range by simp
qed simp

text \<open>
  What the accelerator writes for a buffer that is streamed to it, read as \<open>int\<close>s, is what \<open>calc_output\<close> prints for it.
\<close>

lemma hardware_is_software:
  assumes "calc_output buffer (int (4 * length buffer)) = Some sums" "4 * length buffer < 2 ^ 31"
    and "marked ps" "map sc_data ps = map word_of_int buffer"
  shows "\<exists>rs. sum_330 ps = Some ([], rs) \<and> map (sint \<circ> sc_data) rs = sums"
proof -
  obtain rs where rs: "sum_330 ps = Some ([], rs)" "map sc_data rs = map word_sum (chunks N ps)"
    using sum_330_chunks [OF assms(3)] by blast
  have "map word_sum (chunks N ps) = map sum_list (chunks N (map sc_data ps))"
    by (simp add: chunks_map word_sum_def comp_def)
  also have "\<dots> = map (\<lambda>c. word_of_int (sum_list c)) (chunks N buffer)"
    unfolding assms(4) by (simp add: chunks_map word_sum_of_ints)
  finally have "map (sint \<circ> sc_data) rs = map (\<lambda>c. sint (word_of_int (sum_list c) :: u32)) (chunks N buffer)"
    using rs(2) by (metis (no_types, lifting) comp_def list.map_comp map_eq_conv)
  moreover have "chunk_sums (chunks N buffer) = Some sums"
    using calc_output_chunks [OF assms(2)] assms(1) by (simp add: N_def)
  ultimately show ?thesis using rs(1) chunk_sums_words by metis
qed

end
