(* ===== verification/Caeco_Driver.thy ===== *)
theory Caeco_Driver
  imports Kernel_C Axidma_Types
begin

text \<open>
  The driver of the CAECO accelerator, \<open>caeco.c\<close>: its registers, the task it signals, and loading and unloading.
  What the kernel answers is an argument. Resources are entered into a ledger; the kernel warns about giving back one
  that is not held (an interrupt line that was never requested, a clock that was never enabled) and goes on, so the
  number of warnings is part of the result. Reading memory that was never written is \<open>None\<close>.
\<close>

subsection \<open>State\<close>

datatype cares = Ca_local | Ca_region u64 u64 | Ca_iomem u64 | Ca_irq int | Ca_clock nat | Ca_chrdev int | Ca_class | Ca_node

type_synonym caledger = "cares multiset"

text \<open>The interrupt number is assigned late.\<close>

record caeco_local =
  ca_irq :: "int option"
  ca_mem_start :: u64
  ca_mem_end :: u64
  ca_base_addr :: u64

definition CAECO_SIGNAL :: int where "CAECO_SIGNAL = 23"
definition CAECO_IP_CMD :: u64 where "CAECO_IP_CMD = 0"
definition CAECO_IP_RESULT :: u64 where "CAECO_IP_RESULT = 4"

text \<open>The bus: what a register reads as, and the writes so far, the last first.\<close>

record bus =
  bus_read :: "u64 \<Rightarrow> u32"
  bus_writes :: "(u64 \<times> u32) list"

definition caeco_read :: "bus \<Rightarrow> caeco_local \<Rightarrow> u64 \<Rightarrow> u32" where
  "caeco_read b caeco reg = bus_read b (ca_base_addr caeco + reg)"

definition caeco_write :: "bus \<Rightarrow> caeco_local \<Rightarrow> u64 \<Rightarrow> u32 \<Rightarrow> bus" where
  "caeco_write b caeco reg val = b\<lparr>bus_writes := (ca_base_addr caeco + reg, val) # bus_writes b\<rparr>"

definition caeco_start :: "bus \<Rightarrow> caeco_local \<Rightarrow> bus" where
  "caeco_start b caeco = caeco_write b caeco CAECO_IP_CMD 1"

text \<open>The result is only printed.\<close>

definition get_caeco_result :: "bus \<Rightarrow> caeco_local \<Rightarrow> u32" where
  "get_caeco_result b caeco = caeco_read b caeco CAECO_IP_RESULT"

subsection \<open>The task\<close>

text \<open>\<open>us_task\<close> is the task that opened the file last.\<close>

definition caeco_open :: "nat option \<Rightarrow> nat option \<Rightarrow> nat option \<times> int" where
  "caeco_open current us_task = (current, 0)"

definition caeco_release :: "nat option \<Rightarrow> nat option \<Rightarrow> (nat option \<times> int) option" where
  "caeco_release current us_task =
     (if current = us_task then (case us_task of None \<Rightarrow> None | Some _ \<Rightarrow> Some (None, 0)) else Some (us_task, 0))"

text \<open>The interrupt handler prints the result and signals the task.\<close>

definition caeco_irq :: "bus \<Rightarrow> caeco_local \<Rightarrow> nat option \<Rightarrow> u32 \<times> (nat \<times> int) option" where
  "caeco_irq b lp us_task = (get_caeco_result b lp, map_option (\<lambda>t. (t, CAECO_SIGNAL)) us_task)"

text \<open>What user space and the device do to the driver, in any order, and the signals that are sent.\<close>

datatype caeco_event = Opens nat | Releases nat | Interrupts

fun caeco_run :: "bus \<Rightarrow> caeco_local \<Rightarrow> caeco_event list \<Rightarrow> nat option \<Rightarrow> (nat option \<times> (nat \<times> int) list) option" where
  "caeco_run b lp [] us = Some (us, [])"
| "caeco_run b lp (Opens t # es) us = caeco_run b lp es (fst (caeco_open (Some t) us))"
| "caeco_run b lp (Releases t # es) us =
     do { (us, rc) \<leftarrow> caeco_release (Some t) us; caeco_run b lp es us }"
| "caeco_run b lp (Interrupts # es) us =
     do { (us', sigs) \<leftarrow> caeco_run b lp es us;
          Some (us', (case snd (caeco_irq b lp us) of None \<Rightarrow> sigs | Some s \<Rightarrow> s # sigs)) }"

subsection \<open>The clock\<close>

text \<open>Giving something back: the kernel warns if it is not held.\<close>

definition give_back :: "cares \<Rightarrow> caledger \<Rightarrow> caledger \<times> nat" where
  "give_back r l = (case release r l of None \<Rightarrow> (l, 1) | Some l \<Rightarrow> (l, 0))"

record clk_answers =
  ck_get :: "int + nat"
  ck_enable :: int

text \<open>The clock is a by-value parameter: the caller does not get it. A clock that could not be enabled is disabled.\<close>

definition caeco_clk_init :: "clk_answers \<Rightarrow> caledger \<Rightarrow> caledger \<times> nat \<times> int" where
  "caeco_clk_init ans l =
     (case ck_get ans of
        Inl rc \<Rightarrow> (l, 0, rc)
      | Inr clk \<Rightarrow>
          if ck_enable ans \<noteq> 0 then (let (l, w) = give_back (Ca_clock clk) l in (l, w, ck_enable ans))
          else (acquire (Ca_clock clk) l, 0, 0))"

subsection \<open>Probe and remove\<close>

record caeco_answers =
  an_mem :: "(u64 \<times> u64) option"
  an_kmalloc :: bool
  an_region :: bool
  an_ioremap :: "u64 option"
  an_irq :: "int option"
  an_request_irq :: int
  an_clk :: clk_answers

text \<open>The number of warnings is the last component; the driver's data are \<open>None\<close> unless the probe succeeds.\<close>

definition caeco_probe ::
    "caeco_answers \<Rightarrow> bus \<Rightarrow> caledger \<Rightarrow> (bus \<times> caeco_local option \<times> caledger \<times> int \<times> nat) option" where
  "caeco_probe ans b l =
     (case an_mem ans of
        None \<Rightarrow> Some (b, None, l, -ENODEV, 0)
      | Some (start, stop) \<Rightarrow>
      if \<not> an_kmalloc ans then Some (b, None, l, -ENOMEM, 0) else
      let l = acquire Ca_local l;
          lp = \<lparr>ca_irq = None, ca_mem_start = start, ca_mem_end = stop, ca_base_addr = 0\<rparr>;
          n = stop - start + 1 in
      if \<not> an_region ans then do { l \<leftarrow> release Ca_local l; Some (b, None, l, -EBUSY, 0) } else
      let l = acquire (Ca_region start n) l in
     (case an_ioremap ans of
        None \<Rightarrow> do { l \<leftarrow> release (Ca_region start n) l; l \<leftarrow> release Ca_local l; Some (b, None, l, -EIO, 0) }
      | Some base \<Rightarrow>
      let l = acquire (Ca_iomem base) l;
          lp = lp\<lparr>ca_base_addr := base\<rparr> in
     (case an_irq ans of
        None \<Rightarrow> Some (b, Some lp, l, 0, 0)
      | Some irq \<Rightarrow>
      let lp = lp\<lparr>ca_irq := Some irq\<rparr> in
      if an_request_irq ans \<noteq> 0 then
        (let (l, w) = give_back (Ca_irq irq) l in
         do { l \<leftarrow> release (Ca_region start n) l; l \<leftarrow> release Ca_local l; Some (b, None, l, an_request_irq ans, w) })
      else
        let l = acquire (Ca_irq irq) l;
            (l, w, rc) = caeco_clk_init (an_clk ans) l
        in Some (caeco_start b lp, Some lp, l, 0, w))))"

definition caeco_remove :: "caeco_local \<Rightarrow> caledger \<Rightarrow> (caledger \<times> int \<times> nat) option" where
  "caeco_remove lp l =
     do { irq \<leftarrow> ca_irq lp;
          let (l, w) = give_back (Ca_irq irq) l;
          l \<leftarrow> release (Ca_iomem (ca_base_addr lp)) l;
          l \<leftarrow> release (Ca_region (ca_mem_start lp) (ca_mem_end lp - ca_mem_start lp + 1)) l;
          l \<leftarrow> release Ca_local l;
          Some (l, 0, w) }"

subsection \<open>The module\<close>

text \<open>
  The class is used without a test: for an error pointer that is undefined. A device node that could not be created is
  not noticed.
\<close>

record chdev_answers =
  cd_major :: int
  cd_class :: bool
  cd_node :: bool
  cd_driver :: int

definition caeco_chdev_init :: "chdev_answers \<Rightarrow> caledger \<Rightarrow> (caledger \<times> int) option" where
  "caeco_chdev_init ans l =
     (if cd_major ans < 0 then Some (l, -1)
      else
        let l = acquire (Ca_chrdev (cd_major ans)) l in
        if \<not> cd_class ans then None
        else
          let l = acquire Ca_class l in
          Some (if cd_node ans then acquire Ca_node l else l, 0))"

text \<open>Destroying a device node that does not exist does nothing.\<close>

definition caeco_chdev_exit :: "int \<Rightarrow> caledger \<Rightarrow> caledger option" where
  "caeco_chdev_exit major l =
     do { l \<leftarrow> release Ca_class (fst (give_back Ca_node l)); release (Ca_chrdev major) l }"

definition caeco_init :: "chdev_answers \<Rightarrow> caledger \<Rightarrow> (caledger \<times> int) option" where
  "caeco_init ans l =
     do { (l, rc) \<leftarrow> caeco_chdev_init ans l;
          Some (l, if rc < 0 then rc else cd_driver ans) }"

text \<open>Unregistering the driver removes the devices it was bound to.\<close>

definition caeco_exit :: "int \<Rightarrow> caeco_local option \<Rightarrow> caledger \<Rightarrow> (caledger \<times> nat) option" where
  "caeco_exit major lp l =
     do { l \<leftarrow> caeco_chdev_exit major l;
          (case lp of None \<Rightarrow> Some (l, 0) | Some lp \<Rightarrow> do { (l, rc, w) \<leftarrow> caeco_remove lp l; Some (l, w) }) }"

subsection \<open>Signals go to the task that opened the file\<close>

text \<open>
  The task after a run: that of the last opening, unless that very task has released the file since. A release by
  another task changes nothing.
\<close>

fun registered :: "caeco_event list \<Rightarrow> nat option \<Rightarrow> nat option" where
  "registered [] us = us"
| "registered (Opens t # es) us = registered es (Some t)"
| "registered (Releases t # es) us = registered es (if us = Some t then None else us)"
| "registered (Interrupts # es) us = registered es us"

lemma release_task: "caeco_release (Some t) us = Some (if us = Some t then None else us, 0)"
  by (cases us) (auto simp: caeco_release_def)

fun signals :: "caeco_event list \<Rightarrow> nat option \<Rightarrow> (nat \<times> int) list" where
  "signals [] us = []"
| "signals (Opens t # es) us = signals es (Some t)"
| "signals (Releases t # es) us = signals es (if us = Some t then None else us)"
| "signals (Interrupts # es) us = (case us of None \<Rightarrow> [] | Some t \<Rightarrow> [(t, CAECO_SIGNAL)]) @ signals es us"

lemma caeco_run_ok: "caeco_run b lp es us = Some (registered es us, signals es us)"
  by (induction es us rule: registered.induct)
    (auto simp: caeco_open_def release_task caeco_irq_def split: option.split)

lemma signals_append: "signals (es @ fs) us = signals es us @ signals fs (registered es us)"
  by (induction es us rule: registered.induct) auto

text \<open>A task that never opened the file is never signalled.\<close>

lemma signalled_opened: "(t, s) \<in> set (signals es us) \<Longrightarrow> Opens t \<in> set es \<or> us = Some t"
  by (induction es us rule: registered.induct) (auto split: option.splits if_splits)

subsection \<open>What loading and unloading leave behind\<close>

text \<open>What a fully successful probe holds.\<close>

definition caeco_held :: "caeco_local \<Rightarrow> int \<Rightarrow> caledger \<Rightarrow> caledger" where
  "caeco_held lp irq l = acquire (Ca_irq irq) (acquire (Ca_iomem (ca_base_addr lp))
     (acquire (Ca_region (ca_mem_start lp) (ca_mem_end lp - ca_mem_start lp + 1)) (acquire Ca_local l)))"

lemma give_back_held [simp]: "give_back r (acquire r l) = (l, 0)"
  by (simp add: give_back_def release_acquire)

text \<open>
  A probe that gets everything starts the accelerator and holds the five resources; removing the driver gives all of
  them back but the clock, which stays enabled.
\<close>

lemma probe_remove_keeps_clock:
  assumes "an_mem ans = Some (start, stop)" "an_kmalloc ans" "an_region ans" "an_ioremap ans = Some base" "an_irq ans = Some irq"
    and "an_request_irq ans = 0" "ck_get (an_clk ans) = Inr clk" "ck_enable (an_clk ans) = 0"
  shows "\<exists>lp l'. caeco_probe ans b l = Some (b\<lparr>bus_writes := (base, 1) # bus_writes b\<rparr>, Some lp, l', 0, 0) \<and>
    caeco_remove lp l' = Some (acquire (Ca_clock clk) l, 0, 0)"
  using assms
  by (simp add: caeco_probe_def caeco_clk_init_def caeco_start_def caeco_write_def CAECO_IP_CMD_def caeco_remove_def
      give_back_def ledger_simps)

text \<open>
  A probe that is refused the interrupt frees it all the same, which the kernel warns about, and leaves the mapping of
  the registers behind.
\<close>

lemma refused_irq_leaks:
  assumes "an_mem ans = Some (start, stop)" "an_kmalloc ans" "an_region ans" "an_ioremap ans = Some base" "an_irq ans = Some irq"
    and "an_request_irq ans \<noteq> 0" "Ca_irq irq \<notin># l"
  shows "caeco_probe ans b l = Some (b, None, acquire (Ca_iomem base) l, an_request_irq ans, 1)"
proof -
  have "release (Ca_irq irq) l = None" using assms(7) by (simp add: release_None_iff)
  then show ?thesis using assms(1-6) by (simp add: caeco_probe_def give_back_def ledger_simps Let_def)
qed

text \<open>Every probe that fails earlier gives back what it took.\<close>

lemma probe_fails_clean:
  assumes "an_mem ans = None \<or> \<not> an_kmalloc ans \<or> \<not> an_region ans \<or> an_ioremap ans = None"
  shows "\<exists>rc. rc < 0 \<and> caeco_probe ans b l = Some (b, None, l, rc, 0)"
  using assms
  by (cases "an_mem ans") (auto simp: caeco_probe_def ledger_simps errno_defs Let_def split: option.split)

text \<open>
  Without an interrupt in the device tree the probe succeeds, does not start the accelerator and leaves the interrupt
  number unassigned, which removing the driver reads.
\<close>

lemma no_irq_remove_undefined:
  assumes "an_mem ans = Some (start, stop)" "an_kmalloc ans" "an_region ans" "an_ioremap ans = Some base" "an_irq ans = None"
  shows "\<exists>lp l'. caeco_probe ans b l = Some (b, Some lp, l', 0, 0) \<and> caeco_remove lp l' = None"
  using assms by (simp add: caeco_probe_def caeco_remove_def Let_def)

text \<open>A clock that cannot be enabled is disabled all the same; the probe does not notice.\<close>

lemma clock_failure_ignored:
  assumes "ck_get ans = Inr clk" "ck_enable ans \<noteq> 0" "Ca_clock clk \<notin># l"
  shows "caeco_clk_init ans l = (l, 1, ck_enable ans)"
  using assms by (simp add: caeco_clk_init_def give_back_def release_None_iff [THEN iffD2])

text \<open>The module: a registration that fails leaves the character device behind.\<close>

lemma init_leaks_chrdev:
  assumes "0 \<le> cd_major ans" "cd_class ans" "cd_node ans" "cd_driver ans < 0"
  shows "caeco_init ans l = Some (acquire Ca_node (acquire Ca_class (acquire (Ca_chrdev (cd_major ans)) l)), cd_driver ans)"
  using assms by (simp add: caeco_init_def caeco_chdev_init_def)

lemma chdev_exit_restores:
  assumes "caeco_chdev_init ans l = Some (l', 0)" "Ca_node \<notin># l"
  shows "caeco_chdev_exit (cd_major ans) l' = Some l"
proof (cases "cd_node ans")
  case True
  then show ?thesis using assms(1)
    by (auto simp: caeco_chdev_init_def caeco_chdev_exit_def release_acquire Let_def split: if_splits)
next
  case False
  have "release Ca_node l = None" using assms(2) by (simp add: release_None_iff)
  then show ?thesis using assms(1) False
    by (auto simp: caeco_chdev_init_def caeco_chdev_exit_def give_back_def ledger_simps Let_def split: if_splits)
qed

end
