(* ===== verification/Accelero_App.thy ===== *)
theory Accelero_App
  imports Mqtt_Client Axidma_Transfer
begin

text \<open>
  The application \<open>transfer-accelero-caeco.c\<close>: it subscribes to the vibration samples, copies every payload into the
  transmit buffer and hands the buffer to the accelerator when that is ready, which a signal of its driver tells.
  The system calls of the library are those of \<open>lib_env\<close>; the socket, the thread and the accelerator's device file
  are answers. What the signal handlers do while a function runs is an argument of it.
\<close>

subsection \<open>Global state\<close>

record app =
  ap_tx_buf :: "int list"
  ap_tx_channel :: int
  ap_cnt :: int
  ap_rdy :: bool
  ap_run :: bool

definition tx_size :: nat where "tx_size = 1320"

definition signal_caeco :: "app \<Rightarrow> app" where
  "signal_caeco a = a\<lparr>ap_rdy := True\<rparr>"

definition signal_keyboard :: "app \<Rightarrow> app" where
  "signal_keyboard a = a\<lparr>ap_run := False\<rparr>"

subsection \<open>Receiving samples\<close>

text \<open>
  \<open>addr\<close> is the address of the transmit buffer, \<open>during\<close> what the signal handlers do while the transfer blocks. The
  flag is cleared after the transfer, whatever its result.
\<close>

definition publish_callback ::
    "(nat \<Rightarrow> char) \<Rightarrow> 's lib_env \<Rightarrow> axidma_dev \<Rightarrow> u64 \<Rightarrow> (app \<Rightarrow> app) \<Rightarrow> char list \<Rightarrow> 's \<Rightarrow> app \<Rightarrow> ('s \<times> app) option" where
  "publish_callback fill env dev addr during message s a =
     do { buf \<leftarrow> fill_tx_buffer fill (ap_tx_buf a) tx_size message;
          let a = a\<lparr>ap_tx_buf := buf\<rparr>;
          (if ap_rdy a then do {
             let a = a\<lparr>ap_cnt := ap_cnt a + 1\<rparr>;
             (s, rc) \<leftarrow> axidma_oneway_transfer env s dev (ap_tx_channel a) addr (of_nat tx_size) True;
             Some (s, (during a)\<lparr>ap_rdy := False\<rparr>)
           } else Some (s, a)) }"

subsection \<open>Starting up\<close>

definition EXIT_FAILURE :: int where "EXIT_FAILURE = 1"
definition EXIT_SUCCESS :: int where "EXIT_SUCCESS = 0"

text \<open>What \<open>exit_example\<close> does: the status, the count it prints, whether it closes the socket and cancels the thread.\<close>

record exit_report =
  ex_status :: int
  ex_cnt :: int
  ex_closed :: bool
  ex_cancelled :: bool

definition exit_example :: "int \<Rightarrow> int \<Rightarrow> bool \<Rightarrow> app \<Rightarrow> exit_report" where
  "exit_example status sockfd client_daemon a =
     \<lparr>ex_status = status, ex_cnt = ap_cnt a, ex_closed = (sockfd \<noteq> -1), ex_cancelled = client_daemon\<rparr>"

text \<open>How \<open>main\<close> goes on: it has returned, the process has exited, or it waits in its loop.\<close>

datatype main_state = Returned int | Exited exit_report | Serving mqtt_client u64

record main_answers =
  mn_caeco_fd :: int
  mn_sockfd :: int
  mn_client :: mqtt_client
  mn_sendbuf :: mem
  mn_recvbuf :: mem
  mn_thread :: int
  mn_daemon :: "mqtt_client \<Rightarrow> mqtt_client"

definition vibration_topic :: cstring where
  "vibration_topic = map of_char ''things/AC-67-B2-63-DD-58/properties/vibration''"

definition no_will :: will where
  "no_will = \<lparr>will_topic = None, will_message = None, will_message_size = 0\<rparr>"

text \<open>
  The part of \<open>main\<close> behind the DMA device: the MQTT client. The thread that serves the client already runs when the
  subscription is queued: \<open>mn_daemon\<close> is what it has done to the client by then.
\<close>

definition start_mqtt :: "main_answers \<Rightarrow> u64 \<Rightarrow> app \<Rightarrow> main_state option" where
  "start_mqtt ans tx_buf a =
     (if mn_sockfd ans = -1 then Some (Exited (exit_example EXIT_FAILURE (mn_sockfd ans) False a))
      else do {
        client \<leftarrow> fst (mqtt_init (Some (mn_client ans)) (mn_sockfd ans) (Some (mn_sendbuf ans)) (Some (mn_recvbuf ans)));
        (client, e) \<leftarrow> mqtt_connect client None no_will None None MQTT_CONNECT_CLEAN_SESSION 400;
        (if cl_error client \<noteq> MQTT_OK then do {
           message \<leftarrow> mqtt_error_str (err_code (cl_error client));
           Some (Exited (exit_example EXIT_FAILURE (mn_sockfd ans) False a))
         }
         else if mn_thread ans \<noteq> 0 then Some (Exited (exit_example EXIT_FAILURE (mn_sockfd ans) False a))
         else do {
           (client, e) \<leftarrow> mqtt_subscribe (mn_daemon ans client) vibration_topic 0;
           Some (Serving client tx_buf)
         }) })"

definition accelero_main ::
    "'s lib_env \<Rightarrow> main_answers \<Rightarrow> 's \<Rightarrow> axidma_dev \<Rightarrow> app \<Rightarrow> ('s \<times> axidma_dev \<times> app \<times> main_state) option" where
  "accelero_main env ans s dev a =
     (if mn_caeco_fd ans < 0 then Some (s, dev, a, Returned (-1))
      else do {
        (s, dev, ok) \<leftarrow> axidma_init env s dev;
        (if \<not> ok then Some (s, dev, a, Returned (-1))
         else
           let (s, tx_buf) = axidma_malloc env s dev (of_nat tx_size) in
           case tx_buf of
             None \<Rightarrow> do { (s, dev) \<leftarrow> axidma_destroy env s dev; Some (s, dev, a, Returned (-1)) }
           | Some addr \<Rightarrow>
               if at_len (axidma_get_dma_tx dev) < 1 then do {
                 s \<leftarrow> axidma_free env s addr (of_nat tx_size);
                 (s, dev) \<leftarrow> axidma_destroy env s dev;
                 Some (s, dev, a, Returned (-1))
               }
               else do {
                 a \<leftarrow> (if ap_tx_channel a = -1
                        then do { c \<leftarrow> block_load (at_data (axidma_get_dma_tx dev)) 0; Some (a\<lparr>ap_tx_channel := c\<rparr>) }
                        else Some a);
                 m \<leftarrow> start_mqtt ans addr a;
                 Some (s, dev, a, m)
               })
      })"

text \<open>The loop ends when the flag does; the process then exits, and what follows in \<open>main\<close> is not reached.\<close>

definition accelero_stop :: "int \<Rightarrow> app \<Rightarrow> main_state option" where
  "accelero_stop sockfd a =
     (if ap_run a then None else Some (Exited (exit_example EXIT_SUCCESS sockfd True a)))"

subsection \<open>The application and the accelerator\<close>

text \<open>
  The accelerator answers every buffer it gets by one interrupt, whose signal sets the flag. What it gets is counted
  where it gets it: the system calls are those of \<open>env\<close>, with a number beside the state that grows with every
  transfer the driver accepts. A step of the application takes off the number the interrupts that have arrived, so
  it is that of the buffers under way. A payload is handled while any of their interrupts arrive during the transfer.
\<close>

definition on_signals :: "nat \<Rightarrow> app \<Rightarrow> app" where
  "on_signals k a = (signal_caeco ^^ k) a"

definition beside :: "('s \<Rightarrow> 's \<times> 'r) \<Rightarrow> 's \<times> nat \<Rightarrow> ('s \<times> nat) \<times> 'r" where
  "beside f x = (case f (fst x) of (s, r) \<Rightarrow> ((s, snd x), r))"

definition counting :: "'s lib_env \<Rightarrow> ('s \<times> nat) lib_env" where
  "counting env =
     \<lparr>le_open = beside (le_open env), le_close = (\<lambda>x fd. beside (\<lambda>s. le_close env s fd) x),
      le_ioctl = (\<lambda>x fd cmd a. do {
        (s, rc, out) \<leftarrow> le_ioctl env (fst x) fd cmd a;
        Some ((s, if cmd \<in> {AXIDMA_DMA_READ, AXIDMA_DMA_WRITE, AXIDMA_DMA_READWRITE} \<and> 0 \<le> rc then Suc (snd x) else snd x),
          rc, out) }),
      le_sigaction = (\<lambda>x n. beside (\<lambda>s. le_sigaction env s n) x), le_malloc = (\<lambda>x n. beside (\<lambda>s. le_malloc env s n) x),
      le_mmap = (\<lambda>x fd n. beside (\<lambda>s. le_mmap env s fd n) x), le_munmap = (\<lambda>x p n. beside (\<lambda>s. le_munmap env s p n) x)\<rparr>"

lemma counting_oneway:
  "axidma_oneway_transfer (counting env) (s, n) dev ch addr len wait =
     do { (s, rc) \<leftarrow> axidma_oneway_transfer env s dev ch addr len wait; Some ((s, if rc < 0 then n else Suc n), rc) }"
proof (cases "known_channel dev ch")
  case (Some c)
  have "cmd \<in> {AXIDMA_DMA_READ, AXIDMA_DMA_WRITE, AXIDMA_DMA_READWRITE}" if "dir_to_ioctl (dc_dir c) = Some cmd" for cmd
    using that by (cases "dc_dir c") (auto simp: dir_to_ioctl_def)
  then show ?thesis
    using Some by (auto simp: axidma_oneway_transfer_def counting_def bind_eq_Some_conv split: bind_split option.split)
qed (simp add: axidma_oneway_transfer_def)

inductive app_step :: "(nat \<Rightarrow> char) \<Rightarrow> 's lib_env \<Rightarrow> axidma_dev \<Rightarrow> u64 \<Rightarrow> 's \<times> app \<times> nat \<Rightarrow> 's \<times> app \<times> nat \<Rightarrow> bool"
  for fill env dev addr where
  app_publish: "publish_callback fill (counting env) dev addr (on_signals k) message (s, pend) a = Some ((s', sent), a') \<Longrightarrow>
     k \<le> sent \<Longrightarrow> ap_rdy a \<or> k = 0 \<Longrightarrow>
     app_step fill env dev addr (s, a, pend) (s', a', sent - k)"
| app_interrupt: "app_step fill env dev addr (s, a, Suc pend) (s, signal_caeco a, pend)"
| app_keyboard: "app_step fill env dev addr (s, a, pend) (s, signal_keyboard a, pend)"

inductive app_reach :: "(nat \<Rightarrow> char) \<Rightarrow> 's lib_env \<Rightarrow> axidma_dev \<Rightarrow> u64 \<Rightarrow> 's \<times> app \<times> nat \<Rightarrow> 's \<times> app \<times> nat \<Rightarrow> bool"
  for fill env dev addr x where
  app_start: "app_reach fill env dev addr x x"
| app_more: "app_reach fill env dev addr x y \<Longrightarrow> app_step fill env dev addr y z \<Longrightarrow> app_reach fill env dev addr x z"

lemma on_signals_rdy [simp]: "ap_cnt (on_signals k a) = ap_cnt a"
proof -
  have "ap_cnt ((signal_caeco ^^ k) a) = ap_cnt a" by (induction k) (simp_all add: signal_caeco_def)
  then show ?thesis by (simp add: on_signals_def)
qed

text \<open>A payload is transferred exactly if the flag is set, and the flag is clear afterwards.\<close>

lemma publish_callback_cases:
  assumes "publish_callback fill env dev addr (on_signals k) message s a = Some (s', a')"
  shows "\<not> ap_rdy a'" "ap_cnt a' = ap_cnt a + (if ap_rdy a then 1 else 0)" "\<not> ap_rdy a \<Longrightarrow> s' = s"
    "ap_rdy a \<Longrightarrow> \<exists>rc. axidma_oneway_transfer env s dev (ap_tx_channel a) addr (of_nat tx_size) True = Some (s', rc)"
  using assms by (auto simp: publish_callback_def Let_def split: bind_splits if_splits)

lemma publish_counts:
  assumes "publish_callback fill (counting env) dev addr (on_signals k) message (s, pend) a = Some ((s', sent), a')"
  shows "\<not> ap_rdy a'" "ap_cnt a' = ap_cnt a + (if ap_rdy a then 1 else 0)" "\<not> ap_rdy a \<Longrightarrow> s' = s \<and> sent = pend"
    "sent \<le> Suc pend"
proof -
  note c = publish_callback_cases [OF assms]
  show "\<not> ap_rdy a'" "ap_cnt a' = ap_cnt a + (if ap_rdy a then 1 else 0)" "\<not> ap_rdy a \<Longrightarrow> s' = s \<and> sent = pend"
    using c by auto
  show "sent \<le> Suc pend"
    using c(3,4) by (cases "ap_rdy a") (auto simp: counting_oneway split: bind_splits if_splits)
qed

text \<open>The application never has more than one buffer under way, and none when it is ready for the next.\<close>

definition one_at_a_time :: "app \<times> nat \<Rightarrow> bool" where
  "one_at_a_time x \<longleftrightarrow> (case x of (a, pend) \<Rightarrow> pend \<le> 1 \<and> (ap_rdy a \<longrightarrow> pend = 0))"

lemma step_one_at_a_time:
  assumes "app_step fill env dev addr x y" "one_at_a_time (snd x)"
  shows "one_at_a_time (snd y)"
  using assms(1)
proof (cases rule: app_step.cases)
  case (app_publish k message s pend a s' sent a')
  then show ?thesis
    using assms(2) publish_counts [OF app_publish(3)] by (cases "ap_rdy a") (auto simp: one_at_a_time_def)
qed (use assms(2) in \<open>auto simp: one_at_a_time_def signal_keyboard_def\<close>)

lemma reach_one_at_a_time: "app_reach fill env dev addr x y \<Longrightarrow> one_at_a_time (snd x) \<Longrightarrow> one_at_a_time (snd y)"
  by (induction rule: app_reach.induct) (auto intro: step_one_at_a_time)

text \<open>
  A state without the flag and without a buffer under way is dead: no step leaves it, so nothing is ever transferred
  again.
\<close>

definition stalled :: "int \<Rightarrow> 's \<Rightarrow> 's \<times> app \<times> nat \<Rightarrow> bool" where
  "stalled n t x \<longleftrightarrow> (case x of (s, a, pend) \<Rightarrow> \<not> ap_rdy a \<and> pend = 0 \<and> ap_cnt a = n \<and> s = t)"

lemma step_stalled:
  assumes "app_step fill env dev addr x y" "stalled n t x"
  shows "stalled n t y"
  using assms(1)
proof (cases rule: app_step.cases)
  case (app_publish k message s pend a s' sent a')
  then show ?thesis using assms(2) publish_counts [OF app_publish(3)] by (auto simp: stalled_def)
qed (use assms(2) in \<open>auto simp: stalled_def signal_keyboard_def\<close>)

lemma reach_stalled: "app_reach fill env dev addr x y \<Longrightarrow> stalled n t x \<Longrightarrow> stalled n t y"
  by (induction rule: app_reach.induct) (auto intro: step_stalled)

text \<open>A payload that is handled when the flag is set, with \<open>k\<close> interrupts during the transfer.\<close>

lemma publish_transfers:
  assumes "ap_rdy a" "fill_tx_buffer fill (ap_tx_buf a) tx_size message = Some buf"
    and "axidma_oneway_transfer env s dev (ap_tx_channel a) addr (of_nat tx_size) True = Some (s', rc)"
    and "k \<le> (if rc < 0 then 0 else 1)"
  shows "\<exists>a'. app_step fill env dev addr (s, a, 0) (s', a', (if rc < 0 then 0 else 1) - k) \<and> \<not> ap_rdy a' \<and> ap_cnt a' = ap_cnt a + 1"
proof -
  let ?a = "(on_signals k (a\<lparr>ap_tx_buf := buf, ap_cnt := ap_cnt a + 1\<rparr>))\<lparr>ap_rdy := False\<rparr>"
  have run: "publish_callback fill (counting env) dev addr (on_signals k) message (s, 0) a =
      Some ((s', if rc < 0 then 0 else 1), ?a)"
    using assms(1-3) by (simp add: publish_callback_def Let_def counting_oneway)
  then show ?thesis
    using app_publish [OF run assms(4)] assms(1) publish_counts [OF run] by auto
qed

text \<open>
  An interrupt that arrives while the transfer still blocks is lost: the flag it sets is cleared behind it, and the
  application stalls. So it does when the transfer fails, because no interrupt will come.
\<close>

lemma early_interrupt_stalls:
  assumes "ap_rdy a" "fill_tx_buffer fill (ap_tx_buf a) tx_size message = Some buf"
    and "axidma_oneway_transfer env s dev (ap_tx_channel a) addr (of_nat tx_size) True = Some (s', rc)"
  shows "\<exists>a'. app_step fill env dev addr (s, a, 0) (s', a', 0) \<and> stalled (ap_cnt a + 1) s' (s', a', 0)"
  using publish_transfers [OF assms order_refl] by (auto simp: stalled_def)

text \<open>One that arrives after it makes the application ready again.\<close>

lemma late_interrupt_serves:
  assumes "ap_rdy a" "fill_tx_buffer fill (ap_tx_buf a) tx_size message = Some buf"
    and "axidma_oneway_transfer env s dev (ap_tx_channel a) addr (of_nat tx_size) True = Some (s', rc)"
  shows "\<exists>a'. publish_callback fill env dev addr id message s a = Some (s', a') \<and>
    ap_rdy (signal_caeco a') \<and> ap_cnt (signal_caeco a') = ap_cnt a + 1 \<and>
    (0 \<le> rc \<longrightarrow> app_reach fill env dev addr (s, a, 0) (s', signal_caeco a', 0))"
proof -
  let ?a = "a\<lparr>ap_tx_buf := buf, ap_cnt := ap_cnt a + 1, ap_rdy := False\<rparr>"
  have run: "publish_callback fill env dev addr id message s a = Some (s', ?a)"
    using assms by (simp add: publish_callback_def Let_def)
  have "app_reach fill env dev addr (s, a, 0) (s', signal_caeco ?a, 0)" if rc: "0 \<le> rc"
  proof -
    have "publish_callback fill (counting env) dev addr (on_signals 0) message (s, 0) a = Some ((s', 1), ?a)"
      using assms rc by (simp add: publish_callback_def Let_def counting_oneway on_signals_def)
    from app_publish [OF this] have "app_step fill env dev addr (s, a, 0) (s', ?a, Suc 0)" by simp
    then show ?thesis by (rule app_more [OF app_more [OF app_start] app_interrupt])
  qed
  then show ?thesis using run by (intro exI [of _ ?a]) (simp add: signal_caeco_def)
qed

subsection \<open>The client that is served\<close>

text \<open>Queuing keeps the length of the send buffer.\<close>

lemma pack_at_memory:
  assumes "mq_inv mq" "writes_packet pack b" "pack_at mq pack = Some (mq', rv)"
  shows "length (mq_mem mq') = length (mq_mem mq)"
proof -
  have room: "mq_curr mq + mq_curr_sz mq \<le> length (mq_mem mq)" using curr_room [OF assms(1)] .
  then have "packs (pack (mq_mem mq) (Some (mq_curr mq)) (mq_curr_sz mq)) (mq_mem mq) (mq_curr mq) (mq_curr_sz mq) b"
    using assms(2) by (simp add: writes_packet_def)
  then obtain bs rv where "length bs \<le> mq_curr_sz mq"
      "pack (mq_mem mq) (Some (mq_curr mq)) (mq_curr_sz mq) = Some (patch (mq_mem mq) (mq_curr mq) bs, rv)"
    by (auto simp: packs_def split: if_splits)
  then show ?thesis using assms(3) room by (simp add: pack_at_def) (auto simp: len_simps)
qed

lemma retry_memory:
  assumes inv: "mq_inv mq" and w: "writes_packet pack b" and run: "pack_with_retry pack_at mqtt_mq_clean mq pack = Some (mq', rv)"
  shows "length (mq_mem mq') = length (mq_mem mq)"
proof -
  obtain mq1 rv1 where p: "pack_at mq pack = Some (mq1, rv1)"
    using run by (auto simp: pack_with_retry_def split: bind_splits)
  note len = pack_at_memory [OF inv w p]
  show ?thesis
  proof (cases "rv1 = Cnt 0")
    case False
    then show ?thesis using run p len by (simp add: pack_with_retry_def)
  next
    case True
    have "mq_inv mq1" using pack_at_ok [OF inv w] p by auto
    then obtain mq2 where c: "mqtt_mq_clean mq1 = Some mq2" "mq_inv mq2" "length (mq_mem mq2) = length (mq_mem mq1)"
      using mq_clean_refines by blast
    then show ?thesis using run p True len pack_at_memory [OF c(2) w] by (simp add: pack_with_retry_def)
  qed
qed

lemma register_memory [simp]: "mq_mem (mqtt_mq_register mq n) = mq_mem mq" "mq_mem (mq_update i f mq) = mq_mem mq"
  by (simp_all add: mqtt_mq_register_def mq_update_def set_curr_sz_def Let_def)

lemma pack_fails_memory: "pack_fails c e rel = Some (c', r) \<Longrightarrow> mq_mem (cl_mq c') = mq_mem (cl_mq c)"
  by (auto simp: pack_fails_def mutex_unlock_def split: if_splits)

lemma queue_packet_memory:
  assumes inv: "client_inv c" and w: "writes_packet pack b" and run: "queue_packet c pack rel f = Some (c', e)"
  shows "length (mq_mem (cl_mq c')) = length (mq_mem (cl_mq c))"
proof (cases "err_code (cl_error c) < 0")
  case True
  then obtain r where "pack_fails c (cl_error c) rel = Some (c', Inl r)"
    using run by (auto simp: queue_packet_def MQTT_CLIENT_TRY_PACK_def pack_fails_def split: bind_splits if_splits sum.splits)
  then show ?thesis using pack_fails_memory by fastforce
next
  case False
  obtain mq rv where p: "pack_with_retry pack_at mqtt_mq_clean (cl_mq c) pack = Some (mq, rv)"
    using run False by (auto simp: queue_packet_def MQTT_CLIENT_TRY_PACK_def split: bind_splits)
  have len: "length (mq_mem mq) = length (mq_mem (cl_mq c))"
    using retry_memory [OF _ w p] inv by (simp add: client_inv_def)
  show ?thesis
    using run False p len
    by (cases rv) (auto simp: queue_packet_def MQTT_CLIENT_TRY_PACK_def Let_def mutex_unlock_def pack_fails_def
        split: if_splits bind_splits)
qed

text \<open>The anonymous session with a clean start.\<close>

definition anonymous_connect :: "u8 list" where
  "anonymous_connect = enc_connect [] no_will None None MQTT_CONNECT_CLEAN_SESSION 400"

lemma anonymous_flags:
  "connect_flags_and_length [] no_will None None MQTT_CONNECT_CLEAN_SESSION = Inr (MQTT_CONNECT_CLEAN_SESSION, 12)"
  by (simp add: connect_flags_and_length_def no_will_def mqtt_packed_cstrlen_def MQTT_CONNECT_RESERVED_def
      MQTT_CONNECT_CLEAN_SESSION_def MQTT_CONNECT_WILL_FLAG_def MQTT_CONNECT_WILL_RETAIN_def
      MQTT_CONNECT_USER_NAME_def MQTT_CONNECT_PASSWORD_def Let_def)

lemma anonymous_fits:
  "fits None" "fits (will_topic no_will)" "fits (will_message no_will)"
  "\<forall>msg. will_message no_will = Some msg \<longrightarrow> will_message_size no_will = length msg"
  by (simp_all add: fits_def no_will_def)

text \<open>With room for its packet, queuing succeeds, and takes as much of the buffer as the packet and its descriptor.\<close>

lemma queue_packet_room:
  assumes inv: "client_inv c" and w: "writes_packet pack b" and room: "length b \<le> mq_curr_sz (cl_mq c)" "cl_error c = MQTT_OK"
    and run: "queue_packet c pack rel f = Some (c', e)"
  shows "e = MQTT_OK" "mq_curr (cl_mq c') = mq_curr (cl_mq c) + length b"
    "length (mq_msgs (cl_mq c')) = Suc (length (mq_msgs (cl_mq c)))"
proof -
  have "mq_curr (cl_mq c) + mq_curr_sz (cl_mq c) \<le> length (mq_mem (cl_mq c))"
    using curr_room [of "cl_mq c"] inv by (simp add: client_inv_def)
  then have "pack (mq_mem (cl_mq c)) (Some (mq_curr (cl_mq c))) (mq_curr_sz (cl_mq c)) =
      Some (patch (mq_mem (cl_mq c)) (mq_curr (cl_mq c)) b, Cnt (length b))" "b \<noteq> []"
    using w room(1) by (auto simp: writes_packet_def packs_def)
  then have "queue_packet c pack rel f = do {
      c \<leftarrow> (if rel then mutex_unlock (c\<lparr>cl_mq := mq_update (length (mq_msgs (cl_mq c))) f
              (mqtt_mq_register ((cl_mq c)\<lparr>mq_mem := patch (mq_mem (cl_mq c)) (mq_curr (cl_mq c)) b\<rparr>) (length b))\<rparr>)
            else Some (c\<lparr>cl_mq := mq_update (length (mq_msgs (cl_mq c))) f
              (mqtt_mq_register ((cl_mq c)\<lparr>mq_mem := patch (mq_mem (cl_mq c)) (mq_curr (cl_mq c)) b\<rparr>) (length b))\<rparr>));
      Some (c, MQTT_OK) }"
    using room(2) by (simp add: queue_packet_def MQTT_CLIENT_TRY_PACK_def pack_with_retry_def pack_at_def Let_def mqtt_mq_length_def)
  then show "e = MQTT_OK" "mq_curr (cl_mq c') = mq_curr (cl_mq c) + length b"
    "length (mq_msgs (cl_mq c')) = Suc (length (mq_msgs (cl_mq c)))"
    using run by (auto simp: mutex_unlock_def mqtt_mq_register_def mq_update_def set_curr_sz_def Let_def split: if_splits)
qed

lemma client_room:
  assumes "client_inv c" "mq_curr (cl_mq c) + 40 * Suc (length (mq_msgs (cl_mq c))) + n \<le> length (mq_mem (cl_mq c))"
  shows "n \<le> mq_curr_sz (cl_mq c)"
proof -
  have "int n \<le> queue_tail (cl_mq c) - int sizeof_queued_message - int (mq_curr (cl_mq c))"
    using assms(2) by (simp add: queue_tail_def mem_end_def sizeof_queued_message_def)
  then have "n \<le> mqtt_mq_currsz (cl_mq c)" by (auto simp: mqtt_mq_currsz_def Let_def)
  then show ?thesis using assms(1) by (simp add: client_inv_def mq_inv_def)
qed

lemma subscribe_room:
  assumes inv: "client_inv c" "\<not> cl_mutex c" "length (mq_mem (cl_mq c)) < 2621400" and topic: "length topic < 65536"
    and room: "\<And>pid. length (enc_subscribe pid [(topic, qos)]) \<le> mq_curr_sz (cl_mq c)" "cl_error c = MQTT_OK"
    and run: "mqtt_subscribe c topic qos = Some (c', e)"
  shows "e = MQTT_OK"
proof -
  obtain pid where "client_next_pid (c\<lparr>cl_mutex := True\<rparr>) = Some (c\<lparr>cl_mutex := True, cl_pid_lfsr := pid\<rparr>, pid)"
    using with_pid_ok [of "c\<lparr>cl_mutex := True\<rparr>" "\<lambda>pid m p n. mqtt_pack_subscribe_request m p n (ucast pid) [(topic, qos)]"
        "\<lambda>pid. enc_subscribe pid [(topic, qos)]" "\<lambda>pid q. q\<lparr>q_control_type := MQTT_CONTROL_SUBSCRIBE, q_packet_id := pid\<rparr>"]
      inv subscribe_writes_pid [OF topic] by auto
  then have "queue_packet (c\<lparr>cl_mutex := True, cl_pid_lfsr := pid\<rparr>)
      (\<lambda>m p n. mqtt_pack_subscribe_request m p n (ucast pid) [(topic, qos)]) True
      (\<lambda>q. q\<lparr>q_control_type := MQTT_CONTROL_SUBSCRIBE, q_packet_id := pid\<rparr>) = Some (c', e)"
    using run inv(2) by (simp add: mqtt_subscribe_def mutex_lock_def)
  then show ?thesis
    by (rule queue_packet_room(1) [rotated -1]) (use inv(1) subscribe_writes_pid [OF topic] room in simp_all)
qed

text \<open>
  Starting the client ends in an exit with a failure and the socket closed, exactly if there is no socket or no thread;
  or in a client that serves. At the first its queue held the CONNECT packet; when the thread had done to it what it
  had done, the SUBSCRIBE for the vibration samples was queued behind the rest, or there was an error, which the client
  carries and \<open>main\<close> does not look at. As long as the thread has done nothing there is room, and both packets are queued.
\<close>

definition serves :: "(mqtt_client \<Rightarrow> mqtt_client) \<Rightarrow> mqtt_client \<Rightarrow> bool" where
  "serves daemon c \<longleftrightarrow> client_inv c \<and> \<not> cl_mutex c \<and> (\<exists>c1 pid. pid \<noteq> 0 \<and> client_inv c1 \<and> \<not> cl_mutex c1 \<and> cl_error c1 = MQTT_OK \<and>
     map fst (pending c1) = [anonymous_connect] \<and>
     (map fst (pending c) = map fst (pending (daemon c1)) @ [enc_subscribe pid [(vibration_topic, 0)]] \<and>
        cl_error c = cl_error (daemon c1) \<or>
      daemon c1 \<noteq> c1 \<and> pending c = pending (daemon c1) \<and> cl_error c \<noteq> MQTT_OK))"

text \<open>What is asked of the thread, and what its rounds keep.\<close>

definition daemon_keeps :: "(mqtt_client \<Rightarrow> mqtt_client) \<Rightarrow> bool" where
  "daemon_keeps daemon \<longleftrightarrow> (\<forall>c. client_inv c \<and> \<not> cl_mutex c \<longrightarrow>
     client_inv (daemon c) \<and> \<not> cl_mutex (daemon c) \<and> length (mq_mem (cl_mq (daemon c))) = length (mq_mem (cl_mq c)))"

lemma subscribe_length: "length (enc_subscribe pid [(vibration_topic, 0)]) = 52"
  by (simp add: enc_subscribe_def subscribe_body_def be16_def enc_str_def mqtt_packed_cstrlen_def vibration_topic_def
      enc_fixed_header_def enc_length.simps)

lemma anonymous_connect_length: "length anonymous_connect = 14"
  by code_simp

lemma start_mqtt_ok:
  assumes "length (mn_sendbuf ans) = 1024" and daemon: "daemon_keeps (mn_daemon ans)"
  shows "\<exists>m. start_mqtt ans addr a = Some m \<and>
    (case m of Serving c b \<Rightarrow> mn_sockfd ans \<noteq> -1 \<and> mn_thread ans = 0 \<and> b = addr \<and> serves (mn_daemon ans) c
     | Exited r \<Rightarrow> (mn_sockfd ans = -1 \<or> mn_thread ans \<noteq> 0) \<and>
         ex_status r = EXIT_FAILURE \<and> ex_cnt r = ap_cnt a \<and> (ex_closed r \<longleftrightarrow> mn_sockfd ans \<noteq> -1)
     | Returned _ \<Rightarrow> False)"
proof (cases "mn_sockfd ans = -1")
  case True
  then show ?thesis by (simp add: start_mqtt_def exit_example_def)
next
  case False
  obtain c where c: "mqtt_init (Some (mn_client ans)) (mn_sockfd ans) (Some (mn_sendbuf ans)) (Some (mn_recvbuf ans)) = (Some c, MQTT_OK)"
    by (simp add: mqtt_init_def)
  have q: "cl_mq c = mqtt_mq_init (cl_mq (mn_client ans)) (Some (mn_sendbuf ans))"
    "cl_recv_curr c + cl_recv_curr_sz c = length (cl_recv_mem c)"
    using c by (auto simp: mqtt_init_def)
  have ci: "client_inv c" "cl_mutex c" "cl_error c = MQTT_ERROR_CONNECT_NOT_CALLED" "length (mq_mem (cl_mq c)) = 1024"
      "pending c = []" "mq_curr (cl_mq c) = 0" "mq_msgs (cl_mq c) = []"
    using c q mq_init_inv assms(1)
    by (auto simp: client_inv_def mqtt_init_def pending_def mq_abs_def mqtt_mq_init_def set_curr_sz_def)
  obtain c1 e1 where c1: "mqtt_connect c None no_will None None MQTT_CONNECT_CLEAN_SESSION 400 = Some (c1, e1)"
      "client_inv c1" "\<not> cl_mutex c1"
      "queued (c\<lparr>cl_error := MQTT_OK\<rparr>) c1 e1 anonymous_connect (\<lambda>q. q\<lparr>q_control_type := MQTT_CONTROL_CONNECT\<rparr>)"
    using connect_ok [OF ci(1-3), of None no_will None None MQTT_CONNECT_CLEAN_SESSION _ _ 400] anonymous_flags anonymous_fits
    by (auto simp: anonymous_connect_def)
  let ?pack = "\<lambda>m p n. mqtt_pack_connection_request m p n None no_will None None MQTT_CONNECT_CLEAN_SESSION 400"
  have w: "writes_packet ?pack anonymous_connect"
    using connect_packs [of _ _ _ None, OF _ _ anonymous_fits(1-3) anonymous_fits(1) anonymous_fits(1) anonymous_fits(4)] anonymous_flags
    by (simp add: writes_packet_def anonymous_connect_def) (simp add: enc_connect_def enc_fixed_header_def Let_def)
  let ?c = "c\<lparr>cl_keep_alive := 400, cl_error := MQTT_OK\<rparr>"
  have qp: "queue_packet ?c ?pack True (\<lambda>q. q\<lparr>q_control_type := MQTT_CONTROL_CONNECT\<rparr>) = Some (c1, e1)"
    using c1(1) ci by (simp add: mqtt_connect_def)
  have mem: "length (mq_mem (cl_mq c1)) = 1024" using queue_packet_memory [OF _ w qp] ci by simp
  have room: "length anonymous_connect \<le> mq_curr_sz (cl_mq ?c)"
    by (rule client_room) (use ci anonymous_connect_length in simp_all)
  have one: "e1 = MQTT_OK" "mq_curr (cl_mq c1) = 14" "length (mq_msgs (cl_mq c1)) = 1"
    using queue_packet_room [OF _ w room _ qp] ci anonymous_connect_length by simp_all
  have pend: "cl_error c1 = MQTT_OK" "map fst (pending c1) = [anonymous_connect]"
    using c1(4) ci(5) one(1) by (auto simp: queued_def)
  let ?d = "mn_daemon ans c1"
  have d: "client_inv ?d" "\<not> cl_mutex ?d" "length (mq_mem (cl_mq ?d)) < 2621400"
    using daemon c1(2,3) mem by (auto simp: daemon_keeps_def)
  obtain c2 e2 pid where c2: "mqtt_subscribe ?d vibration_topic 0 = Some (c2, e2)" "client_inv c2" "\<not> cl_mutex c2" "pid \<noteq> 0"
      "queued ?d c2 e2 (enc_subscribe pid [(vibration_topic, 0)])
        (\<lambda>q. q\<lparr>q_control_type := MQTT_CONTROL_SUBSCRIBE, q_packet_id := pid\<rparr>)"
    using subscribe_ok [OF d, of vibration_topic 0] by (auto simp: vibration_topic_def)
  have "52 \<le> mq_curr_sz (cl_mq c1)" by (rule client_room [OF c1(2)]) (use one mem in simp)
  then have "e2 = MQTT_OK" if "?d = c1"
    using subscribe_room [OF d, of vibration_topic 0 c2 e2] that c2(1) pend(1) subscribe_length
    by (auto simp: vibration_topic_def)
  then have "serves (mn_daemon ans) c2"
    using c2 c1(2,3) pend unfolding serves_def queued_def
    by (intro conjI exI [of _ c1] exI [of _ pid]) (auto split: if_splits)
  then show ?thesis
    using False c c1(1) c2(1) pend(1) by (auto simp: start_mqtt_def exit_example_def)
qed

end
