(* ===== verification/App_Properties.thy ===== *)
theory App_Properties
  imports Mqtt_Properties Axidma_Properties Hls_Sum Caeco_Driver Accelero_App
begin

text \<open>
  The properties of the accelerator, of its driver and of the application, each with a concrete instance.
\<close>

subsection \<open>Samples and sums\<close>

text \<open>
  C10: A payload as the sensor sends it, the list of its samples and a time, fills a transmit buffer for \<open>k\<close> samples with
  the numbers of its first \<open>k\<close> samples, in order, under exactly two conditions. The payload has \<open>k\<close> samples: otherwise the
  function converts a value that is not there. And the copies of the numbers happen to be terminated: \<open>extract_val\<close>
  allocates a byte behind a number and never writes it, and where that byte behind the \<open>x\<close> or the \<open>y\<close> of a sample is a
  digit, \<open>atoi\<close> reads on, behind the block. If one of the conditions fails the behaviour is undefined.
\<close>

theorem payload_roundtrip:
  assumes "samples \<noteq> []" "\<forall>s \<in> set samples. int_range s" "length buffer = 3 * k"
  shows "fill_tx_buffer fill buffer (4 * length buffer) (show_payload samples time) =
    (if k \<le> length samples \<and> terminated fill 0 (3 * k) then Some (concat (map sample_words (take k samples))) else None)"
  using assms by (rule fill_tx_buffer_payload)

lemma terminated_brace [simp]: "terminated (\<lambda>_. CHR ''}'') i n"
  by (simp add: terminated_def is_digit_def)

theorem payload_roundtrip_witness:
  "fill_tx_buffer (\<lambda>_. CHR ''}'') [0, 0, 0, 0, 0, 0] 24
     (show_payload [(-13375, 194, -220), (INT_MIN, INT_MAX, 0), (1, 2, 3)] 1664810617768) =
   Some [-13375, 194, -220, INT_MIN, INT_MAX, 0] \<and>
   fill_tx_buffer (\<lambda>_. CHR ''7'') [0, 0, 0] 12 (show_payload [(-13375, 194, -220)] 1664810617768) = None"
proof -
  have "\<not> terminated (\<lambda>_. CHR ''7'') 0 (3 * 1)"
    by (simp add: terminated_def is_digit_def) (rule bexI [of _ 0], simp_all)
  then show ?thesis
    using payload_roundtrip [of "[(-13375, 194, -220), (INT_MIN, INT_MAX, 0), (1, 2, 3)]" "[0, 0, 0, 0, 0, 0]" 2
        "\<lambda>_. CHR ''}''" 1664810617768]
      payload_roundtrip [of "[(-13375, 194, -220)]" "[0, 0, 0]" 1 "\<lambda>_. CHR ''7''" 1664810617768]
    by (simp add: int_range_def INT_MIN_def INT_MAX_def numeral_2_eq_2)
qed

text \<open>
  C9: What the accelerator writes for a buffer that is streamed to it, read as \<open>int\<close>s, is what the software
  \<open>calc_output\<close> computes for it, whenever that is defined (no sum overflows): the sums of its blocks of 330 words and
  of the rest. The accelerator reads the whole stream.
\<close>

theorem accelerator_computes_calc_output:
  assumes "calc_output buffer (int (4 * length buffer)) = Some sums" "4 * length buffer < 2 ^ 31"
    and "marked ps" "map sc_data ps = map word_of_int buffer"
  shows "\<exists>rs. sum_330 ps = Some ([], rs) \<and> map (sint \<circ> sc_data) rs = sums"
  using assms by (rule hardware_is_software)

definition demo_packet :: "u32 \<Rightarrow> bool \<Rightarrow> side_chan" where
  "demo_packet x l = \<lparr>sc_data = x, sc_keep = -1, sc_strb = -1, sc_user = 0, sc_last = l, sc_id = 0, sc_dest = 0\<rparr>"

theorem accelerator_computes_calc_output_witness:
  "\<exists>rs. sum_330 [demo_packet 5 False, demo_packet (-7) True] = Some ([], rs) \<and> map (sint \<circ> sc_data) rs = [-2]"
proof (rule accelerator_computes_calc_output [where buffer = "[5, -7]"])
  show "calc_output [5, -7] (int (4 * length [5, -7 :: int])) = Some [-2]"
    using calc_output_chunks [of "[5, -7]"] by (simp add: chunks_step int_add_def INT_MIN_def INT_MAX_def)
qed (simp_all add: marked_def demo_packet_def)

subsection \<open>The driver of the accelerator\<close>

lemma signals_registered:
  "\<forall>e \<in> set fs. (\<forall>u. e \<noteq> Opens u) \<and> e \<noteq> Releases t \<Longrightarrow>
     signals fs (Some t) = replicate (count_list fs Interrupts) (t, CAECO_SIGNAL) \<and> registered fs (Some t) = Some t"
proof (induction fs)
  case (Cons e fs)
  then show ?case by (cases e) auto
qed simp

text \<open>
  Every interrupt signals the task that opened the file last, once, until that task releases it; what other tasks
  release in between changes nothing. Before that only tasks that had opened the file were signalled.
\<close>

theorem interrupts_signal_opener:
  assumes "\<forall>e \<in> set fs. (\<forall>u. e \<noteq> Opens u) \<and> e \<noteq> Releases t"
  shows "\<exists>sigs. caeco_run b lp (es @ Opens t # fs) None =
      Some (Some t, sigs @ replicate (count_list fs Interrupts) (t, CAECO_SIGNAL)) \<and>
    (\<forall>u s. (u, s) \<in> set sigs \<longrightarrow> Opens u \<in> set es)"
proof -
  have app: "signals (es @ Opens t # fs) None = signals es None @ signals fs (Some t)"
    by (simp add: signals_append)
  have reg: "registered (es @ Opens t # fs) None = registered fs (Some t)" for es
  proof -
    have "registered (es @ gs) us = registered gs (registered es us)" for gs us
      by (induction es us rule: registered.induct) auto
    then show ?thesis by simp
  qed
  have "Opens u \<in> set es" if "(u, s) \<in> set (signals es None)" for u s
    using signalled_opened [OF that] by simp
  then show ?thesis
    using signals_registered [OF assms] by (auto simp: caeco_run_ok app reg)
qed

theorem interrupts_signal_opener_witness:
  "\<exists>sigs. caeco_run \<lparr>bus_read = (\<lambda>_. 0), bus_writes = []\<rparr> \<lparr>ca_irq = Some 61, ca_mem_start = 0, ca_mem_end = 15, ca_base_addr = 0\<rparr>
     ([Opens 5, Interrupts] @ Opens 7 # [Interrupts, Releases 5, Interrupts]) None =
     Some (Some 7, sigs @ [(7, CAECO_SIGNAL), (7, CAECO_SIGNAL)])"
proof -
  have ev: "\<forall>e \<in> set [Interrupts, Releases 5, Interrupts]. (\<forall>u. e \<noteq> Opens u) \<and> e \<noteq> Releases 7"
    by simp
  show ?thesis
    using interrupts_signal_opener [OF ev, of "\<lparr>bus_read = (\<lambda>_. 0), bus_writes = []\<rparr>"
      "\<lparr>ca_irq = Some 61, ca_mem_start = 0, ca_mem_end = 15, ca_base_addr = 0\<rparr>" "[Opens 5, Interrupts]"]
    by (auto simp: numeral_2_eq_2)
qed

text \<open>
  A probe that gets everything starts the accelerator with one write to its command register and holds its resources;
  removing the driver gives all of them back, without a warning of the kernel, except the clock, which stays enabled.
\<close>

theorem remove_keeps_clock:
  assumes "an_mem ans = Some (start, stop)" "an_kmalloc ans" "an_region ans" "an_ioremap ans = Some base" "an_irq ans = Some irq"
    and "an_request_irq ans = 0" "ck_get (an_clk ans) = Inr clk" "ck_enable (an_clk ans) = 0"
  shows "\<exists>lp l'. caeco_probe ans b l = Some (b\<lparr>bus_writes := (base, 1) # bus_writes b\<rparr>, Some lp, l', 0, 0) \<and>
    caeco_remove lp l' = Some (acquire (Ca_clock clk) l, 0, 0)"
  using assms by (rule probe_remove_keeps_clock)

definition demo_caeco :: caeco_answers where
  "demo_caeco = \<lparr>an_mem = Some (0x43C00000, 0x43C0FFFF), an_kmalloc = True, an_region = True, an_ioremap = Some 0xF0000000,
     an_irq = Some 61, an_request_irq = 0, an_clk = \<lparr>ck_get = Inr 15, ck_enable = 0\<rparr>\<rparr>"

theorem remove_keeps_clock_witness:
  "\<exists>lp l'. caeco_probe demo_caeco \<lparr>bus_read = (\<lambda>_. 0), bus_writes = []\<rparr> {#} =
       Some (\<lparr>bus_read = (\<lambda>_. 0), bus_writes = [(0xF0000000, 1)]\<rparr>, Some lp, l', 0, 0) \<and>
     caeco_remove lp l' = Some ({#Ca_clock 15#}, 0, 0)"
  using remove_keeps_clock [where ans = demo_caeco and clk = 15 and b = "\<lparr>bus_read = (\<lambda>_. 0), bus_writes = []\<rparr>" and l = "{#}"]
  by (simp add: demo_caeco_def acquire_def)

text \<open>
  A probe that is refused the interrupt frees the line it never got, about which the kernel warns, and never unmaps
  the registers.
\<close>

theorem refused_interrupt_leaks:
  assumes "an_mem ans = Some (start, stop)" "an_kmalloc ans" "an_region ans" "an_ioremap ans = Some base" "an_irq ans = Some irq"
    and "an_request_irq ans \<noteq> 0" "Ca_irq irq \<notin># l"
  shows "caeco_probe ans b l = Some (b, None, acquire (Ca_iomem base) l, an_request_irq ans, 1)"
  using assms by (rule refused_irq_leaks)

theorem refused_interrupt_leaks_witness:
  "caeco_probe (demo_caeco\<lparr>an_request_irq := -16\<rparr>) \<lparr>bus_read = (\<lambda>_. 0), bus_writes = []\<rparr> {#} =
     Some (\<lparr>bus_read = (\<lambda>_. 0), bus_writes = []\<rparr>, None, {#Ca_iomem 0xF0000000#}, -16, 1)"
  using refused_interrupt_leaks [where ans = "demo_caeco\<lparr>an_request_irq := -16\<rparr>" and l = "{#}"]
  by (simp add: demo_caeco_def acquire_def)

subsection \<open>The application\<close>

text \<open>
  C22: Over the driver, with a host that grants open, memory and mappings, a device tree that has a DMA transmit channel,
  the accelerator's device file and a send buffer of 1024 bytes, the start of the application is defined. It ends in an
  exit that reports a failure, counts no transfer and closes the socket if there is one, exactly if there is no socket
  or no thread. Otherwise it ends in a state that serves: the library describes the driver's channels, and the client
  keeps its invariant and has its mutex free. Its queue held exactly the CONNECT of an anonymous session when the thread
  was started, and the SUBSCRIBE for the vibration samples has been queued behind whatever the thread, which already
  runs, had left there. Only if the thread had already changed the client can the SUBSCRIBE be missing; then the client
  carries an error, which \<open>main\<close> does not look at. The thread is asked to keep the client's invariant and mutex.
\<close>

theorem application_starts:
  assumes "host_grants ho" "\<And>h fd n. snd (ho_mmap ho h fd n) = Some addr"
    and "stack_inv s" "kind_ids AXIDMA_DMA AXIDMA_WRITE (stack_chans s) = i # is"
    and "\<not> ax_initialized ld" "arrays_empty ld" "0 \<le> mn_caeco_fd ans" "length (mn_sendbuf ans) = 1024"
    and "daemon_keeps (mn_daemon ans)"
  shows "\<exists>s' ld' m. accelero_main (stack_env ho junk eng k ext p) ans s ld a =
      Some (s', ld', a\<lparr>ap_tx_channel := if ap_tx_channel a = -1 then i else ap_tx_channel a\<rparr>, m) \<and>
    describes (stack_chans s) ld' \<and>
    (case m of
       Serving c b \<Rightarrow> mn_sockfd ans \<noteq> -1 \<and> mn_thread ans = 0 \<and> b = addr \<and> serves (mn_daemon ans) c
     | Exited r \<Rightarrow> (mn_sockfd ans = -1 \<or> mn_thread ans \<noteq> 0) \<and>
         ex_status r = EXIT_FAILURE \<and> ex_cnt r = ap_cnt a \<and> (ex_closed r \<longleftrightarrow> mn_sockfd ans \<noteq> -1)
     | Returned _ \<Rightarrow> False)"
proof -
  let ?env = "stack_env ho junk eng k ext p" and ?a = "a\<lparr>ap_tx_channel := if ap_tx_channel a = -1 then i else ap_tx_channel a\<rparr>"
  obtain s1 ld' where init: "axidma_init ?env s ld = Some (s1, ld', True)" and ld': "describes (stack_chans s) ld'"
    using stack.init_describes [OF assms(3,5,6) granted(1-3) [OF assms(1)], of junk eng k ext p] by blast
  obtain s2 where buf: "axidma_malloc ?env s1 ld' (of_nat tx_size) = (s2, Some addr)"
  proof -
    have "snd (axidma_malloc ?env s1 ld' (of_nat tx_size)) = Some addr"
      using assms(2) by (simp add: axidma_malloc_def stack_env_def on_host_def split: prod.splits) (metis snd_conv)
    then show ?thesis using that by (cases "axidma_malloc ?env s1 ld' (of_nat tx_size)") auto
  qed
  obtain m where m: "start_mqtt ans addr ?a = Some m"
      "case m of Serving c b \<Rightarrow> mn_sockfd ans \<noteq> -1 \<and> mn_thread ans = 0 \<and> b = addr \<and> serves (mn_daemon ans) c
       | Exited r \<Rightarrow> (mn_sockfd ans = -1 \<or> mn_thread ans \<noteq> 0) \<and>
           ex_status r = EXIT_FAILURE \<and> ex_cnt r = ap_cnt ?a \<and> (ex_closed r \<longleftrightarrow> mn_sockfd ans \<noteq> -1)
       | Returned _ \<Rightarrow> False"
    using start_mqtt_ok [OF assms(8,9), of addr ?a] by (elim exE conjE) (rule that)
  have "accelero_main ?env ans s ld a = Some (s2, ld', ?a, m)"
    using init buf m(1) described_first [OF ld' assms(4)] assms(7)
    by (cases "ap_tx_channel a = -1") (simp_all add: accelero_main_def axidma_get_dma_tx_def)
  moreover have cnt: "ap_cnt ?a = ap_cnt a" by simp
  ultimately show ?thesis using ld' m(2) [unfolded cnt] by blast
qed

definition idle_app :: app where
  "idle_app = \<lparr>ap_tx_buf = replicate 330 0, ap_tx_channel = 0, ap_cnt = 0, ap_rdy = True, ap_run = True\<rparr>"

definition demo_main :: main_answers where
  "demo_main = \<lparr>mn_caeco_fd = 3, mn_sockfd = 4, mn_client = idle_client 200 False MQTT_OK, mn_sendbuf = replicate 1024 0,
     mn_recvbuf = replicate 4096 0, mn_thread = 0, mn_daemon = id\<rparr>"

lemma serves_alone:
  "serves id c \<Longrightarrow> client_inv c \<and> \<not> cl_mutex c \<and> cl_error c = MQTT_OK \<and>
    (\<exists>pid. pid \<noteq> 0 \<and> map fst (pending c) = [anonymous_connect, enc_subscribe pid [(vibration_topic, 0)]])"
  unfolding serves_def by (elim exE conjE disjE) (simp_all, metis)

theorem application_starts_witness:
  "\<exists>s' ld' c pid. accelero_main demo_env demo_main ((), [], demo_mapped, demo_mapped_ledger) zeroed_dev idle_app =
     Some (s', ld', idle_app, Serving c 0x70000000) \<and> describes demo_chans ld' \<and> client_inv c \<and> \<not> cl_mutex c \<and> pid \<noteq> 0 \<and>
     map fst (pending c) = [anonymous_connect, enc_subscribe pid [(vibration_topic, 0)]] \<and> cl_error c = MQTT_OK"
proof -
  have host: "\<And>h fd n. snd (ho_mmap demo_host h fd n) = Some 0x70000000"
    by (simp add: demo_host_def)
  have kinds: "kind_ids AXIDMA_DMA AXIDMA_WRITE (stack_chans ((), [], demo_mapped, demo_mapped_ledger)) = 0 # []"
    by (simp add: demo_stack(2) kind_ids_def demo_chans_def)
  have fresh_ld: "\<not> ax_initialized zeroed_dev" "arrays_empty zeroed_dev"
    by (simp_all add: zeroed_dev_def arrays_empty_def)
  have main: "0 \<le> mn_caeco_fd demo_main" "length (mn_sendbuf demo_main) = 1024" "daemon_keeps (mn_daemon demo_main)"
    "mn_sockfd demo_main \<noteq> -1" "mn_thread demo_main = 0"
    by (simp_all add: demo_main_def daemon_keeps_def)
  have app: "idle_app\<lparr>ap_tx_channel := if ap_tx_channel idle_app = -1 then 0 else ap_tx_channel idle_app\<rparr> = idle_app"
    by (simp add: idle_app_def)
  note starts = application_starts [OF demo_host_grants host demo_stack(1) kinds fresh_ld main(1-3), of junk_chan recorder True no_import 7
      idle_app, unfolded app demo_stack(2)]
  obtain s' ld' m where run: "accelero_main demo_env demo_main ((), [], demo_mapped, demo_mapped_ledger) zeroed_dev idle_app =
      Some (s', ld', idle_app, m)" "describes demo_chans ld'"
    and m: "case m of
       Serving c b \<Rightarrow> mn_sockfd demo_main \<noteq> -1 \<and> mn_thread demo_main = 0 \<and> b = 0x70000000 \<and> serves (mn_daemon demo_main) c
     | Exited r \<Rightarrow> (mn_sockfd demo_main = -1 \<or> mn_thread demo_main \<noteq> 0) \<and>
         ex_status r = EXIT_FAILURE \<and> ex_cnt r = ap_cnt idle_app \<and> (ex_closed r \<longleftrightarrow> mn_sockfd demo_main \<noteq> -1)
     | Returned _ \<Rightarrow> False"
    using starts by (elim exE conjE) (rule that)
  obtain c where c: "m = Serving c 0x70000000" using m main(4,5) by (cases m) auto
  then have "serves (mn_daemon demo_main) c" using m by simp
  moreover have "mn_daemon demo_main = id" by (simp add: demo_main_def)
  ultimately have s: "serves id c" by simp
  obtain pid where pid: "pid \<noteq> 0" "map fst (pending c) = [anonymous_connect, enc_subscribe pid [(vibration_topic, 0)]]"
    using serves_alone [OF s] by (elim exE conjE) (rule that)
  have "cl_error c = MQTT_OK" "client_inv c" "\<not> cl_mutex c" using serves_alone [OF s] by simp_all
  then show ?thesis using pid run c
    by (intro exI [of _ s'] exI [of _ ld'] exI [of _ c] exI [of _ pid] conjI) simp_all
qed

text \<open>
  C36: The application never has more than one buffer under way at the accelerator, and none when it is ready for the
  next one, whatever the order of payloads, interrupts and key presses. A buffer is under way from the transfer that the
  driver accepts, counted at the system call itself, until the interrupt for it has been signalled.
\<close>

theorem one_buffer_under_way:
  assumes "app_reach fill env dev addr (s, a, n) (s', a', n')" "n \<le> 1" "ap_rdy a \<longrightarrow> n = 0"
  shows "n' \<le> 1 \<and> (ap_rdy a' \<longrightarrow> n' = 0)"
  using reach_one_at_a_time [OF assms(1)] assms(2,3) by (simp add: one_at_a_time_def)

text \<open>
  C14: An interrupt that arrives while the transfer still blocks is lost for good: the flag it sets is cleared when the
  transfer returns, and from then on no payload, interrupt or key press ever starts a transfer again. One that arrives
  after the transfer has returned makes the application ready for the next payload; such an interrupt follows a transfer
  that was accepted. After one that failed there is none, and the application has stalled in the same way.
\<close>

theorem early_interrupt_is_lost:
  assumes "ap_rdy a" "fill_tx_buffer fill (ap_tx_buf a) tx_size message = Some buf"
    and "axidma_oneway_transfer env s dev (ap_tx_channel a) addr (of_nat tx_size) True = Some (s1, rc)"
  shows "(\<exists>a1. app_step fill env dev addr (s, a, 0) (s1, a1, 0) \<and>
      (\<forall>s2 a2 n. app_reach fill env dev addr (s1, a1, 0) (s2, a2, n) \<longrightarrow>
         s2 = s1 \<and> \<not> ap_rdy a2 \<and> ap_cnt a2 = ap_cnt a + 1)) \<and>
    (\<exists>a1. publish_callback fill env dev addr id message s a = Some (s1, a1) \<and>
      ap_rdy (signal_caeco a1) \<and> ap_cnt (signal_caeco a1) = ap_cnt a + 1 \<and>
      (0 \<le> rc \<longrightarrow> app_reach fill env dev addr (s, a, 0) (s1, signal_caeco a1, 0)))"
proof -
  obtain a1 where a1: "app_step fill env dev addr (s, a, 0) (s1, a1, 0)" "stalled (ap_cnt a + 1) s1 (s1, a1, 0)"
    using early_interrupt_stalls [OF assms] by blast
  moreover have "s2 = s1 \<and> \<not> ap_rdy a2 \<and> ap_cnt a2 = ap_cnt a + 1"
    if "app_reach fill env dev addr (s1, a1, 0) (s2, a2, n)" for s2 a2 n
    using reach_stalled [OF that a1(2)] by (simp add: stalled_def)
  ultimately show ?thesis using late_interrupt_serves [OF assms] by blast
qed

text \<open>A system in which every call succeeds, and a payload of 110 samples.\<close>

definition granting :: "unit lib_env" where
  "granting =
     \<lparr>le_open = (\<lambda>s. (s, 3)), le_close = (\<lambda>s fd. (s, 0)), le_ioctl = (\<lambda>s fd cmd a. Some (s, 0, Out_none)),
      le_sigaction = (\<lambda>s n. (s, 0)), le_malloc = (\<lambda>s n. (s, True)), le_mmap = (\<lambda>s fd n. (s, Some 0x70000000)),
      le_munmap = (\<lambda>s a n. (s, 0))\<rparr>"

definition demo_payload :: "char list" where
  "demo_payload = show_payload (replicate 110 (1, -2, 3)) 1664810617768"

lemma demo_filled:
  "fill_tx_buffer (\<lambda>_. CHR ''}'') (ap_tx_buf idle_app) tx_size demo_payload = Some (concat (replicate 110 [1, -2, 3]))"
proof -
  have "fill_tx_buffer (\<lambda>_. CHR ''}'') (replicate 330 0) (4 * length (replicate 330 (0 :: int))) demo_payload =
      (if (110 :: nat) \<le> length (replicate 110 (1 :: int, -2 :: int, 3 :: int)) \<and> terminated (\<lambda>_. CHR ''}'') 0 (3 * 110)
       then Some (concat (map sample_words (take 110 (replicate 110 (1, -2, 3))))) else None)"
    unfolding demo_payload_def
    by (rule fill_tx_buffer_payload) (auto simp: int_range_def INT_MIN_def INT_MAX_def)
  then show ?thesis by (simp add: idle_app_def tx_size_def)
qed

lemma demo_granted:
  "axidma_oneway_transfer granting () demo_ld (ap_tx_channel idle_app) 0x70000000 (of_nat tx_size) True = Some ((), 0)"
proof -
  have c: "hd demo_chans \<in> set demo_chans" "ch_id (hd demo_chans) = 0"
    by (simp_all add: demo_chans_def)
  have "known_channel demo_ld 0 = Some (new_channel (hd demo_chans))"
    using described_channel [OF demo_describes c(1)] by (simp add: c(2))
  then show ?thesis
    by (simp add: axidma_oneway_transfer_def granting_def idle_app_def new_channel_def demo_chans_def dir_to_ioctl_def)
qed

theorem early_interrupt_is_lost_witness:
  "\<exists>a1. app_step (\<lambda>_. CHR ''}'') granting demo_ld 0x70000000 ((), idle_app, 0) ((), a1, 0) \<and>
     (\<forall>a2 n. app_reach (\<lambda>_. CHR ''}'') granting demo_ld 0x70000000 ((), a1, 0) ((), a2, n) \<longrightarrow> \<not> ap_rdy a2 \<and> ap_cnt a2 = 1)"
  using early_interrupt_is_lost [OF _ demo_filled demo_granted] by (auto simp: idle_app_def)

theorem one_buffer_under_way_witness:
  "\<exists>a. app_reach (\<lambda>_. CHR ''}'') granting demo_ld 0x70000000 ((), idle_app, 0) ((), a, 1) \<and> \<not> ap_rdy a"
proof -
  have "axidma_oneway_transfer (counting granting) ((), 0) demo_ld (ap_tx_channel idle_app) 0x70000000 (of_nat tx_size) True =
      Some (((), 1), 0)"
    using demo_granted by (simp add: counting_oneway)
  then obtain a where a: "publish_callback (\<lambda>_. CHR ''}'') (counting granting) demo_ld 0x70000000 (on_signals 0) demo_payload ((), 0) idle_app =
      Some (((), 1), a)"
    by (simp add: publish_callback_def demo_filled) (simp add: idle_app_def)
  have "app_step (\<lambda>_. CHR ''}'') granting demo_ld 0x70000000 ((), idle_app, 0) ((), a, 1 - 0)"
    by (rule app_publish [OF a]) simp_all
  then have run: "app_reach (\<lambda>_. CHR ''}'') granting demo_ld 0x70000000 ((), idle_app, 0) ((), a, 1)"
    using app_more [OF app_start] by simp
  then show ?thesis
    using one_buffer_under_way [OF run] by (auto simp: idle_app_def)
qed

end
