(* ===== verification/Axidma_Host.thy ===== *)
theory Axidma_Host
  imports Axidma_Properties
begin

text \<open>
  What the programs over the library leave mapped. The mappings of a process are part of the host, behind \<open>mmap\<close> and
  \<open>munmap\<close>; what is known of them is only how these calls, and no others, change the collection of them.
\<close>

subsection \<open>The mappings of the process\<close>

definition counts_maps :: "'o host \<Rightarrow> ('o \<Rightarrow> (u64 \<times> u64) multiset) \<Rightarrow> bool" where
  "counts_maps ho mapped \<longleftrightarrow>
     (\<forall>h. mapped (fst (ho_open ho h)) = mapped h) \<and> (\<forall>h fd. mapped (fst (ho_close ho h fd)) = mapped h) \<and>
     (\<forall>h n. mapped (fst (ho_sigaction ho h n)) = mapped h) \<and> (\<forall>h n. mapped (fst (ho_malloc ho h n)) = mapped h) \<and>
     (\<forall>h fd n. mapped (fst (ho_mmap ho h fd n)) =
        (case snd (ho_mmap ho h fd n) of None \<Rightarrow> mapped h | Some a \<Rightarrow> add_mset (a, n) (mapped h))) \<and>
     (\<forall>h a n. mapped (fst (ho_munmap ho h a n)) =
        (if 0 \<le> snd (ho_munmap ho h a n) then mapped h - {#(a, n)#} else mapped h))"

text \<open>A session with a loaded driver in which the process has the mappings \<open>M\<close>.\<close>

definition mapped_inv ::
    "'o host \<Rightarrow> ('o \<Rightarrow> (u64 \<times> u64) multiset) \<Rightarrow> (u64 \<times> u64) multiset \<Rightarrow> nat set \<Rightarrow> axledger \<Rightarrow> axidma_chan list
       \<Rightarrow> ('w \<Rightarrow> bool) \<Rightarrow> ('o, 'w) stack \<Rightarrow> bool" where
  "mapped_inv ho mapped M area base chans I s \<longleftrightarrow>
     session_inv area base chans I s \<and> counts_maps ho mapped \<and> mapped (fst s) = M"

lemma mapped_host:
  "fst (fst (on_host f s)) = fst (f (fst s))" "snd (on_host f s) = snd (f (fst s))"
  by (simp_all add: on_host_def split: prod.splits)

lemma mapped_open: "fst (fst (stack_open ho s)) = fst (ho_open ho (fst s))"
  by (simp add: stack_open_def Let_def split: prod.splits)

lemma mapped_signal:
  assumes "mapped_inv ho mapped M area base chans I s"
  shows "\<exists>s'. stack_ioctl junk eng k ext p s fd AXIDMA_SET_DMA_SIGNAL (Arg_value (word_of_int SIGRTMIN)) =
    Some (s', 0, Out_none) \<and> mapped_inv ho mapped M area base chans I s' \<and> stack_chans s' = stack_chans s"
proof -
  have "session_inv area base chans I s" using assms by (simp add: mapped_inv_def)
  from session_signal [OF this, of junk eng k ext p fd] obtain s' where
    s': "stack_ioctl junk eng k ext p s fd AXIDMA_SET_DMA_SIGNAL (Arg_value (word_of_int SIGRTMIN)) = Some (s', 0, Out_none)"
    "session_inv area base chans I s'" "stack_chans s' = stack_chans s" by blast
  then have "fst s' = fst s" by (cases s) (auto simp: stack_ioctl_def bind_eq_Some_conv)
  then show ?thesis using s' assms by (auto simp: mapped_inv_def)
qed

lemma mapped_system:
  assumes "mapped_inv ho mapped M area base chans I s"
  shows "mapped_inv ho mapped M area base chans I (fst (stack_open ho s))"
    "mapped_inv ho mapped M area base chans I (fst (on_host (\<lambda>h. ho_malloc ho h n) s))"
    "mapped_inv ho mapped M area base chans I (fst (on_host (\<lambda>h. ho_sigaction ho h sg) s))"
    "mapped_inv ho mapped M area base chans I (fst (on_host (\<lambda>h. ho_close ho h fd) s))"
  using assms by (simp_all add: mapped_inv_def session_system mapped_host mapped_open counts_maps_def)

lemma mapped_session: "mapped_inv ho mapped M area base chans I s \<Longrightarrow> session_inv area base chans I s"
  by (simp add: mapped_inv_def)

text \<open>The driver provides the library's interface in such a session, too.\<close>

interpretation mappings: channel_driver "stack_env ho junk eng k ext p" stack_chans "mapped_inv ho mapped M area base chans I"
  for ho junk eng k ext p mapped M area base chans I
proof (unfold_locales, unfold stack_env_simps)
  fix s and fd :: int
  assume s: "mapped_inv ho mapped M area base chans I s"
  note inv = session_stack(1) [OF mapped_session [OF s]]
  show "list_all valid_kind (stack_chans s)" "stack_chans s \<noteq> []" "distinct (map ch_id (stack_chans s))"
    by (rule stack_laws [OF inv])+
  show "stack_ioctl junk eng k ext p s fd AXIDMA_GET_NUM_DMA_CHANNELS Arg_counts = Some (s, 0, Out_counts (counts_of (stack_chans s)))"
    by (rule stack_counts [OF inv])
  show "stack_ioctl junk eng k ext p s fd AXIDMA_GET_DMA_CHANNELS (Arg_channels (length (stack_chans s))) =
      Some (s, 0, Out_channels (stack_chans s))"
    by (rule stack_table [OF inv])
  show "\<exists>s'. stack_ioctl junk eng k ext p s fd AXIDMA_SET_DMA_SIGNAL (Arg_value (word_of_int SIGRTMIN)) = Some (s', 0, Out_none) \<and>
      mapped_inv ho mapped M area base chans I s' \<and> stack_chans s' = stack_chans s"
    by (rule mapped_signal [OF s])
qed (simp_all add: mapped_system stack_system)

subsection \<open>What the programs do to them\<close>

lemma mapped_opens:
  assumes "host_grants ho" "mapped_inv ho mapped M area base chans I s" "\<not> ax_initialized ld" "arrays_empty ld"
  shows "\<exists>s' ld'. axidma_init (stack_env ho junk eng k ext p) s ld = Some (s', ld', True) \<and>
    mapped_inv ho mapped M area base chans I s' \<and> describes chans ld' \<and> ax_initialized ld'"
  using mappings.init_describes [OF assms(2-4) granted(1-3) [OF assms(1)], of junk eng k ext p]
    session_stack(2) [OF mapped_session [OF assms(2)]]
  by metis

lemma mapped_maps:
  assumes "\<forall>h fd n. snd (ho_mmap ho h fd n) = Some (addr n)" "mapped_inv ho mapped M area base chans I s"
  shows "\<exists>s'. axidma_malloc (stack_env ho junk eng k ext p) s ld n = (s', Some (addr n)) \<and>
    mapped_inv ho mapped (add_mset (addr n, n) M) area base chans I s'"
proof -
  let ?s = "on_host (\<lambda>h. ho_mmap ho h (ax_fd ld) n) s"
  have "axidma_malloc (stack_env ho junk eng k ext p) s ld n = ?s" by (simp add: axidma_malloc_def stack_env_def)
  moreover have "snd ?s = Some (addr n)" using assms(1) by (simp add: mapped_host)
  moreover have "mapped_inv ho mapped (add_mset (addr n, n) M) area base chans I (fst ?s)"
    using assms by (simp add: mapped_inv_def session_system mapped_host counts_maps_def)
  ultimately show ?thesis by (metis prod.collapse)
qed

lemma mapped_unmaps:
  assumes "\<forall>h a n. 0 \<le> snd (ho_munmap ho h a n)" "mapped_inv ho mapped M area base chans I s"
  shows "axidma_free (stack_env ho junk eng k ext p) s a n = Some (fst (le_munmap (stack_env ho junk eng k ext p) s a n))"
    "mapped_inv ho mapped (M - {#(a, n)#}) area base chans I (fst (le_munmap (stack_env ho junk eng k ext p) s a n))"
proof -
  have "0 \<le> snd (le_munmap (stack_env ho junk eng k ext p) s a n)" using assms(1) by (simp add: stack_env_def mapped_host)
  then show "axidma_free (stack_env ho junk eng k ext p) s a n = Some (fst (le_munmap (stack_env ho junk eng k ext p) s a n))"
    by (cases "le_munmap (stack_env ho junk eng k ext p) s a n") (simp add: axidma_free_def)
  show "mapped_inv ho mapped (M - {#(a, n)#}) area base chans I (fst (le_munmap (stack_env ho junk eng k ext p) s a n))"
    using assms by (simp add: mapped_inv_def stack_env_def session_system mapped_host counts_maps_def)
qed

lemma mapped_destroys:
  assumes "host_grants ho" "describes chans ld" "mapped_inv ho mapped M area base chans I s"
  shows "\<exists>s' ld'. axidma_destroy (stack_env ho junk eng k ext p) s ld = Some (s', ld') \<and>
    mapped_inv ho mapped M area base chans I s' \<and> \<not> ax_initialized ld' \<and> snd s' = snd s"
proof -
  let ?s = "on_host (\<lambda>h. ho_close ho h (ax_fd ld)) s"
  have close: "le_close (stack_env ho junk eng k ext p) s (ax_fd ld) = ?s" by simp
  obtain ld' where "axidma_destroy (stack_env ho junk eng k ext p) s ld = Some (fst ?s, ld')" "\<not> ax_initialized ld'"
    using destroy_leaves_lengths [OF assms(2) granted(4) [OF assms(1)]] unfolding close [symmetric] by blast
  then show ?thesis using mapped_system(4) [OF assms(3)] by auto
qed

text \<open>A transfer over the library leaves them alone.\<close>

lemma mapped_transfer:
  assumes inv: "mapped_inv ho mapped M area base chans I s" and eng: "engine_keeps I (in_area area) eng"
    and ld: "describes chans ld" and i: "kind_ids t d chans = i # is" and buf: "no_wrap buf len"
  shows "\<exists>s' rc. axidma_oneway_transfer (stack_env ho junk eng k ext p) s ld i buf len wait = Some (s', rc) \<and>
    mapped_inv ho mapped M area base chans I s' \<and> rc \<in> {0, -1}"
proof -
  obtain h w dev l where s: "s = (h, w, dev, l)" by (cases s)
  have d: "driver_inv area base chans I (w, dev, l)" "chans \<noteq> []" "device_ok dev" "ad_channels dev = chans"
    using inv by (auto simp: s mapped_inv_def session_inv_def driver_inv_simp)
  have "i \<in> set (kind_ids t d chans)" unfolding i by simp
  then obtain c where c: "c \<in> set chans" "ch_id c = i" by (auto simp: kind_ids_def)
  let ?t = "\<lparr>tr_wait = wait, tr_channel_id = ch_id c, tr_buf = buf, tr_buf_len = len\<rparr>"
  obtain w' dev' rc where run: "oneway_transfer (ch_dir c) eng p w dev ?t = Some (w', dev', rc)"
    and "driver_inv area base chans I (w', dev', l)"
    using oneway_answers [OF d(1) eng, of ?t "ch_dir c" p] buf
    by (cases "oneway_transfer (ch_dir c) eng p w dev ?t") (auto simp: answers_def engine_result_def)
  then show ?thesis
    using stack_oneway [of dev ld c ho junk eng k ext p h w l buf len wait] d ld c inv
    by (auto simp: s mapped_inv_def session_inv_def)
qed

lemma mapped_both:
  assumes inv: "mapped_inv ho mapped M area base chans I s" and eng: "engine_keeps I (in_area area) eng" and ld: "describes chans ld"
    and i: "kind_ids AXIDMA_DMA AXIDMA_WRITE chans = i # is" and j: "kind_ids AXIDMA_DMA AXIDMA_READ chans = j # js"
    and buf: "no_wrap txb txl" "no_wrap rxb rxl"
  shows "\<exists>s' rc. axidma_twoway_transfer (stack_env ho junk eng k ext p) s ld i txb txl None j rxb rxl None wait = Some (s', rc) \<and>
    mapped_inv ho mapped M area base chans I s'"
proof -
  obtain h w dev l where s: "s = (h, w, dev, l)" by (cases s)
  have d: "driver_inv area base chans I (w, dev, l)" "chans \<noteq> []" "device_ok dev" "ad_channels dev = chans"
    using inv by (auto simp: s mapped_inv_def session_inv_def driver_inv_simp)
  have "i \<in> set (kind_ids AXIDMA_DMA AXIDMA_WRITE chans)" "j \<in> set (kind_ids AXIDMA_DMA AXIDMA_READ chans)" unfolding i j by simp_all
  then obtain c e where c: "c \<in> set chans" "ch_id c = i" "ch_dir c = AXIDMA_WRITE" "e \<in> set chans" "ch_id e = j" "ch_dir e = AXIDMA_READ"
    by (auto simp: kind_ids_def)
  let ?t = "\<lparr>io_wait = wait, io_tx_channel_id = ch_id c, io_tx_buf = txb, io_tx_buf_len = txl, io_tx_frame = frame_or_default None,
    io_rx_channel_id = ch_id e, io_rx_buf = rxb, io_rx_buf_len = rxl, io_rx_frame = frame_or_default None\<rparr>"
  obtain w' dev' rc where run: "axidma_rw_transfer eng p w dev ?t = Some (w', dev', rc)"
    and "driver_inv area base chans I (w', dev', l)"
    using rw_answers [OF d(1) eng, of ?t p] buf
    by (cases "axidma_rw_transfer eng p w dev ?t") (auto simp: answers_def engine_result_def)
  then show ?thesis
    using stack_twoway [of dev ld c e ho junk eng k ext p h w l txb txl None rxb rxl None wait] d ld c inv
    by (auto simp: s mapped_inv_def session_inv_def)
qed

subsection \<open>A host with a book of its mappings\<close>

definition book_host :: "(u64 \<times> u64) multiset host" where
  "book_host =
     \<lparr>ho_open = (\<lambda>h. (h, True, 3)), ho_close = (\<lambda>h fd. (h, 0)), ho_sigaction = (\<lambda>h n. (h, 0)), ho_malloc = (\<lambda>h n. (h, True)),
      ho_mmap = (\<lambda>h fd n. (add_mset (0x70000000, n) h, Some 0x70000000)), ho_munmap = (\<lambda>h a n. (h - {#(a, n)#}, 0))\<rparr>"

abbreviation "book_env \<equiv> stack_env book_host junk_chan recorder True no_import 7"

lemma book_host_ok:
  "host_grants book_host" "counts_maps book_host id" "\<forall>h fd n. snd (ho_mmap book_host h fd n) = Some 0x70000000"
  "\<forall>h a n. 0 \<le> snd (ho_munmap book_host h a n)"
  by (simp_all add: book_host_def host_grants_def counts_maps_def)

lemma book_loaded: "mapped_inv book_host id {#} demo_area demo_ledger demo_chans (recorded_in demo_area) ({#}, [], demo_mapped, demo_mapped_ledger)"
  using demo_mapped_inv book_host_ok(2) by (simp add: mapped_inv_def session_inv_def demo_chans_def)

end
