(* ===== verification/Test_Programs.thy ===== *)
theory Test_Programs
  imports Hls_Sum Axidma_Stack
begin

text \<open>
  The test programs: \<open>test-transfer-caeco.c\<close>, which sends one buffer of samples to the accelerator,
  \<open>test-transfer-sum.c\<close>, which sends a buffer four times and prints what comes back, and the test bench of the
  accelerator, \<open>sum_330_tb.cpp\<close>. The text of the payload, which the programs have built in, is an argument; so are what
  the memory behind a new mapping holds and what the accelerator writes into the receive buffer. The system calls are
  those of \<open>lib_env\<close>.
\<close>

subsection \<open>One buffer\<close>

text \<open>The contents of the transmit buffer are part of the result. A failed transfer returns at once.\<close>

definition caeco_test_main ::
    "(nat \<Rightarrow> char) \<Rightarrow> 's lib_env \<Rightarrow> int list \<Rightarrow> char list \<Rightarrow> 's \<Rightarrow> axidma_dev \<Rightarrow> ('s \<times> axidma_dev \<times> int list \<times> int) option" where
  "caeco_test_main fill env mem message s dev =
     do { (s, dev, ok) \<leftarrow> axidma_init env s dev;
          (if \<not> ok then Some (s, dev, mem, -1)
           else
             let tx_size = 330 * 4 :: nat;
                 (s, tx_buf) = axidma_malloc env s dev (of_nat tx_size) in
             case tx_buf of
               None \<Rightarrow> do { (s, dev) \<leftarrow> axidma_destroy env s dev; Some (s, dev, mem, -1) }
             | Some addr \<Rightarrow>
                 if at_len (axidma_get_dma_tx dev) < 1 then do {
                   s \<leftarrow> axidma_free env s addr (of_nat tx_size);
                   (s, dev) \<leftarrow> axidma_destroy env s dev;
                   Some (s, dev, mem, -1)
                 }
                 else do {
                   tx_channel \<leftarrow> block_load (at_data (axidma_get_dma_tx dev)) 0;
                   buf \<leftarrow> fill_tx_buffer fill mem tx_size message;
                   (s, rc) \<leftarrow> axidma_oneway_transfer env s dev tx_channel addr (of_nat tx_size) True;
                   (if rc < 0 then Some (s, dev, buf, rc)
                    else do {
                      s \<leftarrow> axidma_free env s addr (of_nat tx_size);
                      (s, dev) \<leftarrow> axidma_destroy env s dev;
                      Some (s, dev, buf, rc)
                    })
                 }) }"

subsection \<open>Four rounds\<close>

text \<open>
  One round sends the transmit buffer and receives; \<open>rx_mem\<close> is what the receive buffer holds in a state of the system.
  The result of sending is overwritten by that of receiving.
\<close>

primrec sum_test_rounds ::
    "'s lib_env \<Rightarrow> axidma_dev \<Rightarrow> int \<times> u64 \<times> u64 \<Rightarrow> int \<times> u64 \<times> u64 \<Rightarrow> ('s \<Rightarrow> int list) \<Rightarrow> nat \<Rightarrow> 's \<Rightarrow> int list list \<Rightarrow> int
       \<Rightarrow> ('s \<times> int list list \<times> int) option" where
  "sum_test_rounds env dev tx rx rx_mem 0 s printed rc = Some (s, printed, rc)"
| "sum_test_rounds env dev tx rx rx_mem (Suc n) s printed rc =
     (case tx of (tx_channel, tx_buf, tx_size) \<Rightarrow> case rx of (rx_channel, rx_buf, rx_size) \<Rightarrow>
        do { (s, rc) \<leftarrow> axidma_oneway_transfer env s dev tx_channel tx_buf tx_size True;
             (s, rc) \<leftarrow> axidma_oneway_transfer env s dev rx_channel rx_buf rx_size True;
             (if rc < 0 then Some (s, printed, rc)
              else do {
                line \<leftarrow> print_buffer (rx_mem s) (sint rx_size);
                sum_test_rounds env dev tx rx rx_mem n s (printed @ [line]) rc
              }) })"

text \<open>
  The labels at the end of \<open>main\<close>, which fall through. The lines that are printed are part of the result: the sums
  the software computes, then the receive buffer after each round.
\<close>

definition free_and_destroy :: "'s lib_env \<Rightarrow> (u64 \<times> u64) list \<Rightarrow> 's \<Rightarrow> axidma_dev \<Rightarrow> 'r \<Rightarrow> ('s \<times> axidma_dev \<times> 'r) option" where
  "free_and_destroy env bufs s dev r =
     do { s \<leftarrow> foldl (\<lambda>s b. do { s \<leftarrow> s; axidma_free env s (fst b) (snd b) }) (Some s) bufs;
          (s, dev) \<leftarrow> axidma_destroy env s dev;
          Some (s, dev, r) }"

definition sum_test_main ::
    "(nat \<Rightarrow> char) \<Rightarrow> 's lib_env \<Rightarrow> int list \<Rightarrow> (int list \<Rightarrow> 's \<Rightarrow> int list) \<Rightarrow> char list \<Rightarrow> 's \<Rightarrow> axidma_dev
       \<Rightarrow> ('s \<times> axidma_dev \<times> int list list \<times> int) option" where
  "sum_test_main fill env mem rx_mem message s dev =
     do { (s, dev, ok) \<leftarrow> axidma_init env s dev;
          (if \<not> ok then Some (s, dev, [], -1)
           else
             let tx_size = 663 * 4 :: nat; rx_size = 3 * 4 :: nat;
                 (s, tx_buf) = axidma_malloc env s dev (of_nat tx_size) in
             case tx_buf of
               None \<Rightarrow> free_and_destroy env [] s dev ([], -1)
             | Some tx_addr \<Rightarrow>
                 let (s, rx_buf) = axidma_malloc env s dev (of_nat rx_size) in
                 case rx_buf of
                   None \<Rightarrow> free_and_destroy env [(tx_addr, of_nat tx_size)] s dev ([], -1)
                 | Some rx_addr \<Rightarrow>
                     let bufs = [(rx_addr, of_nat rx_size), (tx_addr, of_nat tx_size)];
                         tx_chans = axidma_get_dma_tx dev; rx_chans = axidma_get_dma_rx dev in
                     if at_len tx_chans < 1 then free_and_destroy env bufs s dev ([], -1)
                     else if at_len rx_chans < 1 then free_and_destroy env bufs s dev ([], -1)
                     else do {
                       tx_channel \<leftarrow> block_load (at_data tx_chans) 0;
                       rx_channel \<leftarrow> block_load (at_data rx_chans) 0;
                       buf \<leftarrow> fill_tx_buffer fill mem tx_size message;
                       software \<leftarrow> calc_output buf (int tx_size);
                       (s, printed, rc) \<leftarrow> sum_test_rounds env dev (tx_channel, tx_addr, of_nat tx_size)
                         (rx_channel, rx_addr, of_nat rx_size) (rx_mem buf) 4 s [software] 0;
                       (if rc < 0 then Some (s, dev, printed, rc) else free_and_destroy env bufs s dev (printed, rc))
                     }) }"

text \<open>
  What a receive buffer holds that the accelerator has filled, when the words of the transmit buffer were streamed to it.
\<close>

definition accelerated :: "int list \<Rightarrow> int list \<Rightarrow> bool" where
  "accelerated buf r \<longleftrightarrow> (\<exists>ps rs. marked ps \<and> map sc_data ps = map word_of_int buf \<and> sum_330 ps = Some ([], rs) \<and>
     r = map (sint \<circ> sc_data) rs)"

lemma accelerated_sums:
  assumes "accelerated buf r" "calc_output buf (int (4 * length buf)) = Some sums" "4 * length buf < 2 ^ 31"
  shows "r = sums"
  using assms(1) hardware_is_software [OF assms(2,3)] by (fastforce simp: accelerated_def)

lemma calc_output_length:
  assumes "calc_output buf (int (4 * length buf)) = Some sums" "4 * length buf < 2 ^ 31"
  shows "length sums = (length buf + 329) div 330"
proof -
  have "length xs = length cs" if "chunk_sums cs = Some xs" for cs xs
    using that by (induction cs arbitrary: xs) (auto split: bind_splits)
  then have "length sums = length (chunks 330 buf)" using assms(1) unfolding calc_output_chunks [OF assms(2)] by blast
  then show ?thesis by (simp add: chunks_length)
qed

text \<open>
  The rounds that come to their end, with the result of sending and the state behind each; and how they go on while the
  receiving transfers succeed. Every round that comes to its end prints the receive buffer.
\<close>

primrec sent_rounds ::
    "'s lib_env \<Rightarrow> axidma_dev \<Rightarrow> int \<times> u64 \<times> u64 \<Rightarrow> int \<times> u64 \<times> u64 \<Rightarrow> 's \<Rightarrow> (int \<times> 's) list \<Rightarrow> 's \<Rightarrow> bool" where
  "sent_rounds env dev tx rx s [] s' \<longleftrightarrow> s' = s"
| "sent_rounds env dev tx rx s (r # rs) s' \<longleftrightarrow>
     (case tx of (tx_channel, tx_buf, tx_size) \<Rightarrow> case rx of (rx_channel, rx_buf, rx_size) \<Rightarrow>
        \<exists>s1. axidma_oneway_transfer env s dev tx_channel tx_buf tx_size True = Some (s1, fst r) \<and>
          axidma_oneway_transfer env s1 dev rx_channel rx_buf rx_size True = Some (snd r, 0) \<and>
          sent_rounds env dev tx rx (snd r) rs s')"

lemma sum_test_rounds_run:
  assumes tx: "\<forall>s. P s \<longrightarrow> (\<exists>s' rc. axidma_oneway_transfer env s dev tc ta ts True = Some (s', rc) \<and> P s')"
    and rx: "\<forall>s. P s \<longrightarrow> (\<exists>s' rc. axidma_oneway_transfer env s dev rch ra 12 True = Some (s', rc) \<and> P s' \<and> rc \<in> {0, -1})"
    and mem: "\<And>s. length (rx_mem s) = 3"
  shows "P s \<Longrightarrow> \<exists>s' rs s1 rc'. sum_test_rounds env dev (tc, ta, ts) (rch, ra, 12) rx_mem n s printed rc =
      Some (s', printed @ map (rx_mem \<circ> snd) rs, rc') \<and> P s' \<and> length rs \<le> n \<and>
      sent_rounds env dev (tc, ta, ts) (rch, ra, 12) s rs s1 \<and>
      (if length rs = n then s' = s1 \<and> rc' = (if n = 0 then rc else 0)
       else rc' = -1 \<and> (\<exists>s2 r. axidma_oneway_transfer env s1 dev tc ta ts True = Some (s2, r) \<and>
         axidma_oneway_transfer env s2 dev rch ra 12 True = Some (s', -1)))"
proof (induction n arbitrary: s printed rc)
  case 0
  then show ?case by simp
next
  case (Suc n)
  obtain s1 rc1 where 1: "axidma_oneway_transfer env s dev tc ta ts True = Some (s1, rc1)" "P s1" using tx Suc.prems by blast
  obtain s2 rc2 where 2: "axidma_oneway_transfer env s1 dev rch ra 12 True = Some (s2, rc2)" "P s2" "rc2 \<in> {0, -1}"
    using rx 1(2) by blast
  show ?case
  proof (cases "rc2 = 0")
    case False
    then have "sum_test_rounds env dev (tc, ta, ts) (rch, ra, 12) rx_mem (Suc n) s printed rc = Some (s2, printed, -1)"
      using 1 2 by simp
    then show ?thesis using 1 2 False by (intro exI [of _ s2] exI [of _ "[]"] exI [of _ s] exI [of _ "-1"]) simp
  next
    case True
    have line: "print_buffer (rx_mem s2) 12 = Some (rx_mem s2)"
      using mem [of s2] words_of_small [of 12] by (simp add: print_buffer_def)
    obtain s' rs s3 rc' where r: "sum_test_rounds env dev (tc, ta, ts) (rch, ra, 12) rx_mem n s2 (printed @ [rx_mem s2]) 0 =
        Some (s', (printed @ [rx_mem s2]) @ map (rx_mem \<circ> snd) rs, rc')" "P s'" "length rs \<le> n"
        "sent_rounds env dev (tc, ta, ts) (rch, ra, 12) s2 rs s3"
        "if length rs = n then s' = s3 \<and> rc' = (if n = 0 then 0 else 0)
         else rc' = -1 \<and> (\<exists>s2 r. axidma_oneway_transfer env s3 dev tc ta ts True = Some (s2, r) \<and>
           axidma_oneway_transfer env s2 dev rch ra 12 True = Some (s', -1))"
      using Suc.IH [OF 2(2), of "printed @ [rx_mem s2]" 0] by (elim exE conjE) (rule that)
    show ?thesis
      using 1 2(1) True line r
      by (intro exI [of _ s'] exI [of _ "(rc1, s2) # rs"] exI [of _ s3] exI [of _ rc']) (simp split: if_splits)
  qed
qed

lemma free_ok: "0 \<le> snd (le_munmap env s a n) \<Longrightarrow> axidma_free env s a n = Some (fst (le_munmap env s a n))"
  by (cases "le_munmap env s a n") (simp add: axidma_free_def)

text \<open>
  What the programs do once the device is open and the buffers are there. A failed transfer leaves both as they are.
\<close>

lemma caeco_test_transfers:
  assumes init: "axidma_init env s dev = Some (s1, ld, True)" and chans: "describes chans ld"
    "kind_ids AXIDMA_DMA AXIDMA_WRITE chans = i # is" and buf: "axidma_malloc env s1 ld 1320 = (s2, Some addr)"
  shows "caeco_test_main fill env mem message s dev = do {
      words \<leftarrow> fill_tx_buffer fill mem 1320 message;
      (s3, rc) \<leftarrow> axidma_oneway_transfer env s2 ld i addr 1320 True;
      (if rc < 0 then Some (s3, ld, words, rc)
       else do { s4 \<leftarrow> axidma_free env s3 addr 1320; (s5, ld') \<leftarrow> axidma_destroy env s4 ld; Some (s5, ld', words, rc) }) }"
  using init buf described_first [OF chans] by (simp add: caeco_test_main_def axidma_get_dma_tx_def cong: if_cong)

lemma sum_test_prints:
  assumes init: "axidma_init env s dev = Some (s1, ld, True)" and chans: "describes chans ld"
    "kind_ids AXIDMA_DMA AXIDMA_WRITE chans = i # is" "kind_ids AXIDMA_DMA AXIDMA_READ chans = j # js"
    and bufs: "axidma_malloc env s1 ld 2652 = (s2, Some tx)" "axidma_malloc env s2 ld 12 = (s3, Some rx)"
  shows "sum_test_main fill env mem rx_mem message s dev = do {
      words \<leftarrow> fill_tx_buffer fill mem 2652 message;
      software \<leftarrow> calc_output words 2652;
      (s4, printed, rc) \<leftarrow> sum_test_rounds env ld (i, tx, 2652) (j, rx, 12) (rx_mem words) 4 s3 [software] 0;
      (if rc < 0 then Some (s4, ld, printed, rc) else free_and_destroy env [(rx, 12), (tx, 2652)] s4 ld (printed, rc)) }"
proof -
  have rx_chan: "block_load (at_data (ax_dma_rx ld)) 0 = Some j" "1 \<le> at_len (ax_dma_rx ld)"
    using chans(1,3) by (simp_all add: describes_def arrays_hold_def filled_def block_load_def)
  show ?thesis
    using init bufs described_first [OF chans(1,2)] rx_chan
    by (simp add: sum_test_main_def axidma_get_dma_tx_def axidma_get_dma_rx_def del: sum_test_rounds.simps cong: if_cong)
qed

subsection \<open>The test bench\<close>

definition tb_packet :: "nat \<Rightarrow> side_chan" where
  "tb_packet j = \<lparr>sc_data = 100, sc_keep = 1, sc_strb = 1, sc_user = 1, sc_last = (j = 999), sc_id = 0, sc_dest = 1\<rparr>"

text \<open>The results that are printed.\<close>

definition tb_main :: "int list option" where
  "tb_main =
     do { (inp, out) \<leftarrow> sum_330 (map tb_packet [0..<1000]);
          Some (map (sint \<circ> sc_data) out) }"

lemma butlast_upt_map: "butlast (map f [0..<Suc n]) = map f [0..<n]" "last (map f [0..<Suc n]) = f n"
  by simp_all

lemma tb_marked: "marked (map tb_packet [0..<1000])"
proof -
  have "(1000 :: nat) = Suc 999" by simp
  then show ?thesis
    unfolding marked_def by (simp only: butlast_upt_map) (auto simp: tb_packet_def)
qed

lemma chunks_replicate:
  "0 < n \<Longrightarrow> chunks n (replicate k x) = (if k = 0 then [] else replicate (min n k) x # chunks n (replicate (k - n) x))"
  by (simp add: chunks.simps [of n "replicate k x"])

lemma tb_main_results: "tb_main = Some [33000, 33000, 33000, 1000]"
proof -
  obtain rs where rs: "sum_330 (map tb_packet [0..<1000]) = Some ([], rs)"
    "map sc_data rs = map word_sum (chunks N (map tb_packet [0..<1000]))"
    using sum_330_chunks [OF tb_marked] by blast
  have data: "map sc_data (map tb_packet [0..<1000]) = replicate 1000 100"
    by (simp add: map_replicate_const tb_packet_def comp_def)
  have "map word_sum (chunks N (map tb_packet [0..<1000])) = map sum_list (chunks N (map sc_data (map tb_packet [0..<1000])))"
    by (simp only: chunks_map) (simp add: word_sum_def comp_def)
  also have "\<dots> = map sum_list (chunks N (replicate 1000 (100 :: u32)))" unfolding data ..
  also have "\<dots> = [33000, 33000, 33000, 1000]"
    by (simp add: chunks_replicate N_def sum_list_replicate)
  finally have "map sint (map sc_data rs) = map sint [33000, 33000, 33000, 1000 :: u32]"
    using rs(2) by simp
  then show ?thesis using rs(1) by (simp add: tb_main_def)
qed

end
