(* ===== verification/Axidma_Benchmark.thy ===== *)
theory Axidma_Benchmark
  imports Test_Programs
begin

text \<open>
  The benchmark of the DMA library, \<open>axidma-benchmark.c\<close>, with its utilities \<open>util.c\<close>: the command line, the test
  pattern and its verification, one checked transfer, repeated transfers, and the whole program. The result of
  \<open>getopt\<close> is the list of options with their arguments; numbers with a fraction are converted by an argument,
  \<open>mib\<close>. What is only printed, the timing and the usage, is left out. A buffer is its bytes; what a transfer makes of
  the two buffers is the argument \<open>moved\<close>. Reading a variable that was never written is \<open>None\<close>.
\<close>

subsection \<open>Numbers in arguments\<close>

text \<open>
  \<open>sscanf\<close> with a conversion \<open>%d\<close>: the number and what follows it. The inner \<open>None\<close> is a matching failure, and \<open>Inl\<close>
  the end of the input before a conversion. A number outside of \<open>int\<close> is undefined, the outer \<open>None\<close>.
\<close>

fun number :: "int \<Rightarrow> char list \<Rightarrow> int \<times> char list" where
  "number acc [] = (acc, [])"
| "number acc (c # cs) = (if is_digit c then number (10 * acc + (int (of_char c) - 48)) cs else (acc, c # cs))"

definition scan_int :: "char list \<Rightarrow> (unit + (int \<times> char list) option) option" where
  "scan_int s = (case skip_space s of
     [] \<Rightarrow> Some (Inl ())
   | c # cs \<Rightarrow>
       let neg = (c = CHR ''-''); ds = (if c = CHR ''-'' \<or> c = CHR ''+'' then cs else c # cs) in
       if ds = [] \<or> \<not> is_digit (hd ds) then Some (Inr None)
       else
         let (n, rest) = number 0 ds in
         do { n \<leftarrow> fits_int (if neg then - n else n); Some (Inr (Some (n, rest))) })"

text \<open>The results of the parsers: a negative code, or the numbers.\<close>

definition parse_int :: "char list \<Rightarrow> (int + int) option" where
  "parse_int arg =
     do { r \<leftarrow> scan_int arg;
          Some (case r of Inl _ \<Rightarrow> Inl (-1) | Inr None \<Rightarrow> Inl (- EINVAL) | Inr (Some (n, _)) \<Rightarrow> Inr n) }"

text \<open>
  \<open>"%dx%dx%d\<newline>"\<close>. The input may end, or not match, behind a number; then fewer than three were converted.
\<close>

definition after_x :: "char list \<Rightarrow> char list option" where
  "after_x s = (case s of [] \<Rightarrow> None | c # cs \<Rightarrow> if c = CHR ''x'' then Some cs else None)"

definition parse_resolution :: "char list \<Rightarrow> (int + int \<times> int \<times> int) option" where
  "parse_resolution arg =
     do { r \<leftarrow> scan_int arg;
          (case r of
             Inl _ \<Rightarrow> Some (Inl (-1))
           | Inr None \<Rightarrow> Some (Inl (- EINVAL))
           | Inr (Some (height, rest)) \<Rightarrow>
               (case after_x rest of
                  None \<Rightarrow> Some (Inl (- EINVAL))
                | Some rest \<Rightarrow>
                    do { r \<leftarrow> scan_int rest;
                         (case r of
                            Inr (Some (width, rest)) \<Rightarrow>
                              (case after_x rest of
                                 None \<Rightarrow> Some (Inl (- EINVAL))
                               | Some rest \<Rightarrow>
                                   do { r \<leftarrow> scan_int rest;
                                        Some (case r of
                                           Inr (Some (depth, rest)) \<Rightarrow> Inr (height, width, depth)
                                         | _ \<Rightarrow> Inl (- EINVAL)) })
                          | _ \<Rightarrow> Some (Inl (- EINVAL))) })) }"

subsection \<open>The command line\<close>

definition DEFAULT_TRANSFER_SIZE :: int where "DEFAULT_TRANSFER_SIZE = 1920 * 1080 * 4"
definition DEFAULT_NUM_TRANSFERS :: int where "DEFAULT_NUM_TRANSFERS = 1000"

text \<open>The two flags that are never initialised are \<open>None\<close> until they are set.\<close>

record bench_args =
  ba_use_vdma :: bool
  ba_tx_channel :: int
  ba_rx_channel :: int
  ba_tx_size :: u64
  ba_rx_size :: u64
  ba_tx_frame :: axidma_video_frame
  ba_rx_frame :: axidma_video_frame
  ba_num_transfers :: int
  ba_tx_frame_specified :: "bool option"
  ba_rx_frame_specified :: "bool option"

definition default_args :: bench_args where
  "default_args =
     \<lparr>ba_use_vdma = False, ba_tx_channel = -1, ba_rx_channel = -1, ba_tx_size = word_of_int DEFAULT_TRANSFER_SIZE,
      ba_rx_size = word_of_int DEFAULT_TRANSFER_SIZE, ba_tx_frame = \<lparr>fr_height = -1, fr_width = -1, fr_depth = -1\<rparr>,
      ba_rx_frame = \<lparr>fr_height = -1, fr_width = -1, fr_depth = -1\<rparr>, ba_num_transfers = DEFAULT_NUM_TRANSFERS,
      ba_tx_frame_specified = None, ba_rx_frame_specified = None\<rparr>"

text \<open>An option ends in new arguments, in an error, or in the exit of the help text.\<close>

datatype parsed = Parsed bench_args | Rejected | Helped

definition int_mult :: "int \<Rightarrow> int \<Rightarrow> int option" where
  "int_mult a b = fits_int (a * b)"

definition with_int :: "char list \<Rightarrow> (int \<Rightarrow> bench_args) \<Rightarrow> parsed option" where
  "with_int arg f = do { r \<leftarrow> parse_int arg; Some (case r of Inl _ \<Rightarrow> Rejected | Inr n \<Rightarrow> Parsed (f n)) }"

definition with_mib :: "(char list \<Rightarrow> u64 option) \<Rightarrow> char list \<Rightarrow> (u64 \<Rightarrow> bench_args) \<Rightarrow> parsed option" where
  "with_mib mib arg f = Some (case mib arg of None \<Rightarrow> Rejected | Some n \<Rightarrow> Parsed (f n))"

definition with_frame :: "char list \<Rightarrow> (axidma_video_frame \<Rightarrow> u64 \<Rightarrow> bench_args) \<Rightarrow> parsed option" where
  "with_frame arg f =
     (if arg = [] then Some Rejected
      else do {
        r \<leftarrow> parse_resolution arg;
        (case r of
           Inl _ \<Rightarrow> Some Rejected
         | Inr (h, w, d) \<Rightarrow>
             do { n \<leftarrow> int_mult h w; n \<leftarrow> int_mult n d;
                  Some (Parsed (f \<lparr>fr_height = h, fr_width = w, fr_depth = d\<rparr> (word_of_int n))) })
      })"

definition parse_option :: "(char list \<Rightarrow> u64 option) \<Rightarrow> char \<times> char list \<Rightarrow> bench_args \<Rightarrow> parsed option" where
  "parse_option mib opt a = (case opt of (option, arg) \<Rightarrow>
     if option = CHR ''v'' then Some (Parsed (a\<lparr>ba_use_vdma := True\<rparr>))
     else if option = CHR ''t'' then with_int arg (\<lambda>n. a\<lparr>ba_tx_channel := n\<rparr>)
     else if option = CHR ''r'' then with_int arg (\<lambda>n. a\<lparr>ba_rx_channel := n\<rparr>)
     else if option = CHR ''i'' then with_mib mib arg (\<lambda>n. a\<lparr>ba_tx_size := n\<rparr>)
     else if option = CHR ''b'' then with_int arg (\<lambda>n. a\<lparr>ba_tx_size := word_of_int n\<rparr>)
     else if option = CHR ''f'' then
       with_frame arg (\<lambda>fr n. a\<lparr>ba_tx_frame := fr, ba_tx_size := n, ba_tx_frame_specified := Some True\<rparr>)
     else if option = CHR ''o'' then with_mib mib arg (\<lambda>n. a\<lparr>ba_rx_size := n\<rparr>)
     else if option = CHR ''s'' then with_int arg (\<lambda>n. a\<lparr>ba_rx_size := word_of_int n\<rparr>)
     else if option = CHR ''g'' then
       with_frame arg (\<lambda>fr n. a\<lparr>ba_rx_frame := fr, ba_rx_size := n, ba_rx_frame_specified := Some True\<rparr>)
     else if option = CHR ''n'' then with_int arg (\<lambda>n. a\<lparr>ba_num_transfers := n\<rparr>)
     else if option = CHR ''h'' then Some Helped
     else Some Rejected)"

fun parse_options :: "(char list \<Rightarrow> u64 option) \<Rightarrow> (char \<times> char list) list \<Rightarrow> bench_args \<Rightarrow> parsed option" where
  "parse_options mib [] a = Some (Parsed a)"
| "parse_options mib (opt # opts) a =
     do { p \<leftarrow> parse_option mib opt a;
          (case p of Parsed a \<Rightarrow> parse_options mib opts a | _ \<Rightarrow> Some p) }"

text \<open>The last test reads both flags, the second only if the first is set.\<close>

definition check_args :: "bench_args \<Rightarrow> parsed option" where
  "check_args a =
     (if (ba_tx_channel a = -1) \<noteq> (ba_rx_channel a = -1) then Some Rejected
      else if (ba_tx_size a = word_of_int DEFAULT_TRANSFER_SIZE) \<noteq> (ba_rx_size a = word_of_int DEFAULT_TRANSFER_SIZE)
      then Some Rejected
      else if ba_use_vdma a then do {
        tx \<leftarrow> ba_tx_frame_specified a;
        missing \<leftarrow> (if \<not> tx then Some True else map_option Not (ba_rx_frame_specified a));
        Some (if missing then Rejected else Parsed a)
      }
      else Some (Parsed a))"

definition parse_args :: "(char list \<Rightarrow> u64 option) \<Rightarrow> (char \<times> char list) list \<Rightarrow> parsed option" where
  "parse_args mib opts =
     do { p \<leftarrow> parse_options mib opts default_args;
          (case p of Parsed a \<Rightarrow> check_args a | _ \<Rightarrow> Some p) }"

subsection \<open>The test pattern\<close>

definition TEST_PATTERN :: "nat \<Rightarrow> u32" where
  "TEST_PATTERN i = 0x1234ACDE XOR of_nat i"

text \<open>An \<open>int\<close> in memory, the low byte first.\<close>

definition int_bytes :: "u32 \<Rightarrow> u8 list" where
  "int_bytes w = [ucast w, ucast (drop_bit 8 w), ucast (drop_bit 16 w), ucast (drop_bit 24 w)]"

definition store_word :: "mem \<Rightarrow> nat \<Rightarrow> u32 \<Rightarrow> mem option" where
  "store_word m i w = map_option fst (put (m, 4 * i) (int_bytes w))"

definition word_bytes :: "mem \<Rightarrow> nat \<Rightarrow> u8 list option" where
  "word_bytes m i = read_bytes m (4 * i) 4"

text \<open>A byte as a \<open>char\<close>, which is signed on some machines.\<close>

definition char_value :: "bool \<Rightarrow> u8 \<Rightarrow> int" where
  "char_value is_signed b = (if is_signed then sint b else uint b)"

text \<open>The loops: \<open>n\<close> iterations from \<open>i\<close> on. The bytes that are left over are written from the start of the buffer.\<close>

primrec fill_words :: "(nat \<Rightarrow> u32) \<Rightarrow> nat \<Rightarrow> nat \<Rightarrow> mem \<Rightarrow> mem option" where
  "fill_words pat i 0 m = Some m"
| "fill_words pat i (Suc n) m = do { m \<leftarrow> store_word m i (pat i); fill_words pat (Suc i) n m }"

primrec fill_bytes :: "(nat \<Rightarrow> u32) \<Rightarrow> nat \<Rightarrow> nat \<Rightarrow> mem \<Rightarrow> mem option" where
  "fill_bytes pat i 0 m = Some m"
| "fill_bytes pat i (Suc n) m = do { m \<leftarrow> store m i (ucast (pat i)); fill_bytes pat (Suc i) n m }"

definition init_data :: "mem \<Rightarrow> mem \<Rightarrow> nat \<Rightarrow> nat \<Rightarrow> (mem \<times> mem) option" where
  "init_data tx_buf rx_buf tx_buf_size rx_buf_size =
     do { tx_buf \<leftarrow> fill_words TEST_PATTERN 0 (tx_buf_size div 4) tx_buf;
          tx_buf \<leftarrow> fill_bytes (\<lambda>i. TEST_PATTERN (i + tx_buf_size div 4)) 0 (tx_buf_size mod 4) tx_buf;
          rx_buf \<leftarrow> fill_words (\<lambda>i. TEST_PATTERN (i + tx_buf_size)) 0 (rx_buf_size div 4) rx_buf;
          rx_buf \<leftarrow> fill_bytes (\<lambda>i. TEST_PATTERN (i + tx_buf_size + rx_buf_size div 4)) 0 (rx_buf_size mod 4) rx_buf;
          Some (tx_buf, rx_buf) }"

text \<open>Whether all words, or bytes, are those of the pattern: the first that is not ends the loop.\<close>

primrec words_match :: "(nat \<Rightarrow> u32) \<Rightarrow> nat \<Rightarrow> nat \<Rightarrow> mem \<Rightarrow> bool option" where
  "words_match pat i 0 m = Some True"
| "words_match pat i (Suc n) m =
     do { bs \<leftarrow> word_bytes m i; (if bs \<noteq> int_bytes (pat i) then Some False else words_match pat (Suc i) n m) }"

primrec bytes_match :: "bool \<Rightarrow> (nat \<Rightarrow> u32) \<Rightarrow> nat \<Rightarrow> nat \<Rightarrow> mem \<Rightarrow> bool option" where
  "bytes_match sg pat i 0 m = Some True"
| "bytes_match sg pat i (Suc n) m =
     do { b \<leftarrow> load m i; (if char_value sg b \<noteq> sint (pat i) then Some False else bytes_match sg pat (Suc i) n m) }"

text \<open>How many of them are.\<close>

primrec same_words :: "(nat \<Rightarrow> u32) \<Rightarrow> nat \<Rightarrow> nat \<Rightarrow> mem \<Rightarrow> nat option" where
  "same_words pat i 0 m = Some 0"
| "same_words pat i (Suc n) m =
     do { bs \<leftarrow> word_bytes m i; k \<leftarrow> same_words pat (Suc i) n m; Some (if bs = int_bytes (pat i) then Suc k else k) }"

primrec same_bytes :: "bool \<Rightarrow> (nat \<Rightarrow> u32) \<Rightarrow> nat \<Rightarrow> nat \<Rightarrow> mem \<Rightarrow> nat option" where
  "same_bytes sg pat i 0 m = Some 0"
| "same_bytes sg pat i (Suc n) m =
     do { b \<leftarrow> load m i; k \<leftarrow> same_bytes sg pat (Suc i) n m; Some (if char_value sg b = sint (pat i) then Suc k else k) }"

text \<open>The warning about a receive buffer that is mostly unchanged does not change the result.\<close>

definition verify_data :: "bool \<Rightarrow> mem \<Rightarrow> mem \<Rightarrow> nat \<Rightarrow> nat \<Rightarrow> int option" where
  "verify_data sg tx_buf rx_buf tx_buf_size rx_buf_size =
     do { words \<leftarrow> words_match TEST_PATTERN 0 (tx_buf_size div 4) tx_buf;
          (if \<not> words then Some (- EINVAL)
           else do {
             bytes \<leftarrow> bytes_match sg (\<lambda>i. TEST_PATTERN (i + tx_buf_size div 4)) 0 (tx_buf_size mod 4) tx_buf;
             (if \<not> bytes then Some (- EINVAL)
              else do {
                a \<leftarrow> same_words (\<lambda>i. TEST_PATTERN (i + tx_buf_size)) 0 (rx_buf_size div 4) rx_buf;
                b \<leftarrow> same_bytes sg (\<lambda>i. TEST_PATTERN (i + tx_buf_size + rx_buf_size div 4)) 0 (rx_buf_size mod 4) rx_buf;
                Some (if a + b = rx_buf_size div 4 + rx_buf_size mod 4 then - EINVAL else 0)
              })
           }) }"

subsection \<open>Transfers\<close>

text \<open>A channel, the address, the memory and the size of its buffer, and the frame if there is one.\<close>

record bench_side =
  bs_channel :: int
  bs_addr :: u64
  bs_mem :: mem
  bs_size :: int
  bs_frame :: "axidma_video_frame option"

definition transfer_both :: "'s lib_env \<Rightarrow> 's \<Rightarrow> axidma_dev \<Rightarrow> bench_side \<Rightarrow> bench_side \<Rightarrow> ('s \<times> int) option" where
  "transfer_both env s dev tx rx =
     axidma_twoway_transfer env s dev (bs_channel tx) (bs_addr tx) (word_of_int (bs_size tx)) (bs_frame tx)
       (bs_channel rx) (bs_addr rx) (word_of_int (bs_size rx)) (bs_frame rx) True"

text \<open>A negative size becomes a huge one, for which the buffers are too small.\<close>

definition single_transfer_test ::
    "bool \<Rightarrow> 's lib_env \<Rightarrow> (mem \<Rightarrow> mem \<Rightarrow> mem \<times> mem) \<Rightarrow> 's \<Rightarrow> axidma_dev \<Rightarrow> bench_side \<Rightarrow> bench_side \<Rightarrow> ('s \<times> int) option" where
  "single_transfer_test sg env moved s dev tx rx =
     (if bs_size tx < 0 \<or> bs_size rx < 0 then None
      else do {
        (tx_buf, rx_buf) \<leftarrow> init_data (bs_mem tx) (bs_mem rx) (nat (bs_size tx)) (nat (bs_size rx));
        (s, rc) \<leftarrow> transfer_both env s dev tx rx;
        (if rc < 0 then Some (s, rc)
         else do {
           rc \<leftarrow> verify_data sg (fst (moved tx_buf rx_buf)) (snd (moved tx_buf rx_buf)) (nat (bs_size tx)) (nat (bs_size rx));
           Some (s, rc)
         })
      })"

text \<open>\<open>n\<close> transfers; the first that fails ends them.\<close>

primrec time_transfers :: "'s lib_env \<Rightarrow> axidma_dev \<Rightarrow> bench_side \<Rightarrow> bench_side \<Rightarrow> nat \<Rightarrow> 's \<Rightarrow> ('s \<times> int) option" where
  "time_transfers env dev tx rx 0 s = Some (s, 0)"
| "time_transfers env dev tx rx (Suc n) s =
     do { (s, rc) \<leftarrow> transfer_both env s dev tx rx;
          (if rc < 0 then Some (s, rc) else time_transfers env dev tx rx n s) }"

definition time_dma :: "'s lib_env \<Rightarrow> 's \<Rightarrow> axidma_dev \<Rightarrow> bench_side \<Rightarrow> bench_side \<Rightarrow> int \<Rightarrow> ('s \<times> int) option" where
  "time_dma env s dev tx rx num_transfers = time_transfers env dev tx rx (nat num_transfers) s"

subsection \<open>The program\<close>

text \<open>\<open>fresh_mem\<close> is what a new mapping of a size holds.\<close>

definition run_bench ::
    "bool \<Rightarrow> 's lib_env \<Rightarrow> (mem \<Rightarrow> mem \<Rightarrow> mem \<times> mem) \<Rightarrow> (u64 \<Rightarrow> mem) \<Rightarrow> bench_args \<Rightarrow> u64 \<Rightarrow> u64 \<Rightarrow> 's \<Rightarrow> axidma_dev \<Rightarrow> ('s \<times> int) option" where
  "run_bench sg env moved fresh_mem a tx_addr rx_addr s dev =
     (let tx_chans = (if ba_use_vdma a then axidma_get_vdma_tx dev else axidma_get_dma_tx dev);
          rx_chans = (if ba_use_vdma a then axidma_get_vdma_rx dev else axidma_get_dma_rx dev) in
      if at_len tx_chans < 1 then Some (s, - ENODEV)
      else if at_len rx_chans < 1 then Some (s, - ENODEV)
      else do {
        (tx_channel, rx_channel) \<leftarrow>
          (if ba_tx_channel a = -1 \<and> ba_rx_channel a = -1
           then do { c \<leftarrow> block_load (at_data tx_chans) 0; d \<leftarrow> block_load (at_data rx_chans) 0; Some (c, d) }
           else Some (ba_tx_channel a, ba_rx_channel a));
        let tx = \<lparr>bs_channel = tx_channel, bs_addr = tx_addr, bs_mem = fresh_mem (ba_tx_size a),
                  bs_size = int_of_size (ba_tx_size a), bs_frame = (if ba_use_vdma a then Some (ba_tx_frame a) else None)\<rparr>;
        let rx = \<lparr>bs_channel = rx_channel, bs_addr = rx_addr, bs_mem = fresh_mem (ba_rx_size a),
                  bs_size = int_of_size (ba_rx_size a), bs_frame = (if ba_use_vdma a then Some (ba_rx_frame a) else None)\<rparr>;
        (s, rc) \<leftarrow> single_transfer_test sg env moved s dev tx rx;
        (if rc < 0 then Some (s, rc) else time_dma env s dev tx rx (ba_num_transfers a))
      })"

definition bench_main ::
    "bool \<Rightarrow> (char list \<Rightarrow> u64 option) \<Rightarrow> 's lib_env \<Rightarrow> (mem \<Rightarrow> mem \<Rightarrow> mem \<times> mem) \<Rightarrow> (u64 \<Rightarrow> mem) \<Rightarrow> (char \<times> char list) list
       \<Rightarrow> 's \<Rightarrow> axidma_dev \<Rightarrow> ('s \<times> axidma_dev \<times> int) option" where
  "bench_main sg mib env moved fresh_mem opts s dev =
     do { p \<leftarrow> parse_args mib opts;
          (case p of
             Helped \<Rightarrow> Some (s, dev, 0)
           | Rejected \<Rightarrow> Some (s, dev, 1)
           | Parsed a \<Rightarrow>
               do { (s, dev, ok) \<leftarrow> axidma_init env s dev;
                    (if \<not> ok then Some (s, dev, 1)
                     else
                       let (s, tx_buf) = axidma_malloc env s dev (ba_tx_size a) in
                       case tx_buf of
                         None \<Rightarrow> free_and_destroy env [] s dev (-1)
                       | Some tx_addr \<Rightarrow>
                           let (s, rx_buf) = axidma_malloc env s dev (ba_rx_size a) in
                           case rx_buf of
                             None \<Rightarrow> free_and_destroy env [(tx_addr, ba_tx_size a)] s dev (-1)
                           | Some rx_addr \<Rightarrow>
                               do { (s, rc) \<leftarrow> run_bench sg env moved fresh_mem a tx_addr rx_addr s dev;
                                    free_and_destroy env [(rx_addr, ba_rx_size a), (tx_addr, ba_tx_size a)] s dev rc }) }) }"

subsection \<open>Robust reading and writing\<close>

text \<open>
  \<open>rd\<close> and \<open>wr\<close> are the system calls, \<open>Inl\<close> an \<open>errno\<close>. They return -1 when they fail; the code compares the result
  with \<open>-EINTR\<close>.
\<close>

function robust_read_loop ::
    "('w \<Rightarrow> nat \<Rightarrow> 'w \<times> (int + u8 list)) \<Rightarrow> nat \<Rightarrow> 'w \<Rightarrow> mem \<Rightarrow> nat \<Rightarrow> ('w \<times> mem \<times> int) option" where
  "robust_read_loop rd buf_size w m bytes_remain =
     (case rd w bytes_remain of
        (w, Inl errno) \<Rightarrow>
          if (-1 :: int) \<noteq> - EINTR then Some (w, m, -1) else robust_read_loop rd buf_size w m bytes_remain
      | (w, Inr data) \<Rightarrow>
          if data = [] then Some (w, m, int (buf_size - bytes_remain))
          else if bytes_remain < length data then None
          else do {
            (m, _) \<leftarrow> put (m, buf_size - bytes_remain) data;
            robust_read_loop rd buf_size w m (bytes_remain - length data)
          })"
  by pat_completeness auto
termination by (relation "measure (\<lambda>(rd, buf_size, w, m, bytes_remain). bytes_remain)")
    (auto simp: EINTR_def simp flip: length_greater_0_conv)

declare robust_read_loop.simps [simp del]

definition robust_read ::
    "('w \<Rightarrow> nat \<Rightarrow> 'w \<times> (int + u8 list)) \<Rightarrow> 'w \<Rightarrow> mem \<Rightarrow> nat \<Rightarrow> ('w \<times> mem \<times> int) option" where
  "robust_read rd w buf buf_size = robust_read_loop rd buf_size w buf buf_size"

function robust_write_loop ::
    "('w \<Rightarrow> u8 list \<Rightarrow> 'w \<times> (int + nat)) \<Rightarrow> u8 list \<Rightarrow> 'w \<Rightarrow> nat \<Rightarrow> ('w \<times> int) option" where
  "robust_write_loop wr buf w bytes_remain =
     (case wr w (drop (length buf - bytes_remain) buf) of
        (w, Inl errno) \<Rightarrow>
          if (-1 :: int) \<noteq> - EINTR then Some (w, -1) else robust_write_loop wr buf w bytes_remain
      | (w, Inr n) \<Rightarrow>
          if n = 0 then Some (w, int (length buf - bytes_remain))
          else if bytes_remain < n then None
          else robust_write_loop wr buf w (bytes_remain - n))"
  by pat_completeness auto
termination by (relation "measure (\<lambda>(wr, buf, w, bytes_remain). bytes_remain)") (auto simp: EINTR_def)

declare robust_write_loop.simps [simp del]

definition robust_write :: "('w \<Rightarrow> u8 list \<Rightarrow> 'w \<times> (int + nat)) \<Rightarrow> 'w \<Rightarrow> u8 list \<Rightarrow> ('w \<times> int) option" where
  "robust_write wr w buf = robust_write_loop wr buf w (length buf)"

subsection \<open>What is written and what is checked\<close>

definition pattern :: "(nat \<Rightarrow> u32) \<Rightarrow> nat \<Rightarrow> nat \<Rightarrow> u8 list" where
  "pattern pat i n = concat (map (int_bytes \<circ> pat) [i..<i + n])"

lemma int_bytes_length [simp]: "length (int_bytes w) = 4"
  by (simp add: int_bytes_def)

lemma pattern_length [simp]: "length (pattern pat i n) = 4 * n"
  by (induction n) (simp_all add: pattern_def)

lemma pattern_Cons: "pattern pat i (Suc n) = int_bytes (pat i) @ pattern pat (Suc i) n"
  by (simp add: pattern_def upt_conv_Cons del: upt_Suc)

lemma fill_words_pattern:
  "4 * (i + n) \<le> length m \<Longrightarrow> fill_words pat i n m = Some (patch m (4 * i) (pattern pat i n))"
proof (induction n arbitrary: i m)
  case 0
  then show ?case by (simp add: pattern_def)
next
  case (Suc n)
  have "store_word m i (pat i) = Some (patch m (4 * i) (int_bytes (pat i)))"
    using Suc.prems by (simp add: store_word_def put_Some)
  moreover have "fill_words pat (Suc i) n (patch m (4 * i) (int_bytes (pat i))) =
      Some (patch (patch m (4 * i) (int_bytes (pat i))) (4 * Suc i) (pattern pat (Suc i) n))"
    using Suc.prems by (intro Suc.IH) simp
  moreover have "patch (patch m (4 * i) (int_bytes (pat i))) (4 * Suc i) (pattern pat (Suc i) n) =
      patch m (4 * i) (int_bytes (pat i) @ pattern pat (Suc i) n)"
    using Suc.prems by (intro patch_patch) simp_all
  ultimately show ?case by (simp add: pattern_Cons)
qed

lemma fill_bytes_some: "i + n \<le> length m \<Longrightarrow> \<exists>bs. length bs = n \<and> fill_bytes pat i n m = Some (patch m i bs)"
proof (induction n arbitrary: i m)
  case (Suc n)
  have s: "store m i (ucast (pat i)) = Some (patch m i [ucast (pat i)])" using Suc.prems by (simp add: store_patch)
  obtain bs where bs: "length bs = n" "fill_bytes pat (Suc i) n (patch m i [ucast (pat i)]) =
      Some (patch (patch m i [ucast (pat i)]) (Suc i) bs)"
    using Suc.IH [of "Suc i" "patch m i [ucast (pat i)]"] Suc.prems by auto
  then have "fill_bytes pat i (Suc n) m = Some (patch m i (ucast (pat i) # bs))"
    using s Suc.prems patch_patch [of i m "Suc i" "[ucast (pat i)]" bs] by simp
  then show ?case using bs(1) by (intro exI [of _ "ucast (pat i) # bs"]) simp
qed simp

lemma chunk_split:
  assumes "4 * (i + Suc n) \<le> length (m :: 'a list)"
  shows "take (4 * Suc n) (drop (4 * i) m) = take 4 (drop (4 * i) m) @ take (4 * n) (drop (4 * Suc i) m)"
  using take_add [of 4 "4 * n" "drop (4 * i) m"] by (simp add: add.commute)

lemma words_match_pattern:
  "4 * (i + n) \<le> length m \<Longrightarrow> words_match pat i n m = Some (take (4 * n) (drop (4 * i) m) = pattern pat i n)"
proof (induction n arbitrary: i)
  case (Suc n)
  have "4 * i + 4 \<le> length m" using Suc.prems by simp
  then show ?case
    using Suc.IH [of "Suc i"] Suc.prems
    unfolding chunk_split [OF Suc.prems] pattern_Cons
    by (auto simp: word_bytes_def read_bytes_def)
qed (simp add: pattern_def)

lemma same_words_pattern:
  "4 * (i + n) \<le> length m \<Longrightarrow>
    \<exists>k. same_words pat i n m = Some k \<and> k \<le> n \<and> (k = n \<longleftrightarrow> take (4 * n) (drop (4 * i) m) = pattern pat i n)"
proof (induction n arbitrary: i)
  case (Suc n)
  obtain k where k: "same_words pat (Suc i) n m = Some k" "k \<le> n"
      "k = n \<longleftrightarrow> take (4 * n) (drop (4 * Suc i) m) = pattern pat (Suc i) n"
    using Suc.IH [of "Suc i"] Suc.prems by auto
  have "4 * i + 4 \<le> length m" using Suc.prems by simp
  then show ?case
    using k unfolding chunk_split [OF Suc.prems] pattern_Cons
    by (auto simp: word_bytes_def read_bytes_def)
qed (simp add: pattern_def)

text \<open>For sizes of whole words, the check decides whether the first buffer is as it was and the second one is not.\<close>

lemma verify_decides:
  assumes tx: "length tx = 4 * n" "length tx' = 4 * n" and rx: "length rx = 4 * k" "length rx' = 4 * k"
  shows "\<exists>tx0 rx0. init_data tx rx (4 * n) (4 * k) = Some (tx0, rx0) \<and>
    verify_data sg tx' rx' (4 * n) (4 * k) = Some (if tx' = tx0 \<and> rx' \<noteq> rx0 then 0 else - EINVAL)"
proof -
  let ?p = "pattern TEST_PATTERN 0 n" and ?q = "pattern (\<lambda>i. TEST_PATTERN (i + 4 * n)) 0 k"
  have init: "init_data tx rx (4 * n) (4 * k) = Some (?p, ?q)"
    using tx rx fill_words_pattern [of 0 n tx TEST_PATTERN] fill_words_pattern [of 0 k rx "\<lambda>i. TEST_PATTERN (i + 4 * n)"]
    by (simp add: init_data_def patch_def)
  obtain c where c: "same_words (\<lambda>i. TEST_PATTERN (i + 4 * n)) 0 k rx' = Some c" "c \<le> k" "c = k \<longleftrightarrow> rx' = ?q"
    using same_words_pattern [of 0 k rx' "\<lambda>i. TEST_PATTERN (i + 4 * n)"] rx by auto
  have "words_match TEST_PATTERN 0 n tx' = Some (tx' = ?p)"
    using words_match_pattern [of 0 n tx' TEST_PATTERN] tx by simp
  then have "verify_data sg tx' rx' (4 * n) (4 * k) = Some (if tx' = ?p \<and> rx' \<noteq> ?q then 0 else - EINVAL)"
    using c by (simp add: verify_data_def)
  then show ?thesis using init by blast
qed

text \<open>The pattern of an index below \<open>2 ^ 27\<close> keeps bit 28, so no \<open>char\<close> has its value.\<close>

lemma TEST_PATTERN_bit: "i < 2 ^ 28 \<Longrightarrow> bit (TEST_PATTERN i) 28"
proof -
  assume "i < 2 ^ 28"
  then have "take_bit 28 i = i" by (simp add: take_bit_nat_eq_self)
  then have "\<not> bit i 28" using bit_take_bit_iff [of 28 i 28] by simp
  then show ?thesis by (simp add: TEST_PATTERN_def bit_simps)
qed

lemma TEST_PATTERN_no_char:
  assumes "i < 2 ^ 28"
  shows "char_value sg b \<noteq> sint (TEST_PATTERN i)"
proof
  assume eq: "char_value sg b = sint (TEST_PATTERN i)"
  have "bit (sint (TEST_PATTERN i)) 28" using TEST_PATTERN_bit [OF assms] by (simp add: bit_simps)
  moreover have "\<not> bit (sint (TEST_PATTERN i)) 30"
  proof -
    have "take_bit 28 i = i" using assms by (simp add: take_bit_nat_eq_self)
    then have "\<not> bit i 30" using bit_take_bit_iff [of 28 i 30] by simp
    then show ?thesis by (simp add: TEST_PATTERN_def bit_simps)
  qed
  moreover have "bit (char_value sg b) 28 = bit (char_value sg b) 30"
    by (cases sg) (simp_all add: char_value_def bit_simps, auto dest: bit_imp_le_length)
  ultimately show False using eq by simp
qed

text \<open>With a size that is no multiple of the word, the check always fails, whatever is in the buffers.\<close>

lemma verify_misaligned:
  assumes "n mod 4 \<noteq> 0" "n < 2 ^ 29" "n \<le> length tx"
  shows "verify_data sg tx rx n k = Some (- EINVAL)"
proof -
  have len: "4 * (0 + n div 4) \<le> length tx" "0 < length tx" using assms(1,3) by auto
  have "words_match TEST_PATTERN 0 (n div 4) tx \<noteq> None" unfolding words_match_pattern [OF len(1)] by simp
  then obtain ok where ok: "words_match TEST_PATTERN 0 (n div 4) tx = Some ok" by blast
  obtain d where d: "n mod 4 = Suc d" using assms(1) by (cases "n mod 4") auto
  have "n div 4 < 2 ^ 28" using assms(2) by simp
  then have "bytes_match sg (\<lambda>i. TEST_PATTERN (i + n div 4)) 0 (Suc d) tx = Some False"
    using len(2) TEST_PATTERN_no_char [of "n div 4" sg] by (simp add: load_def)
  then show ?thesis using ok d by (simp add: verify_data_def)
qed

text \<open>On buffers of the announced sizes both functions are defined.\<close>

lemma init_data_defined:
  assumes "length tx = n" "length rx = k"
  shows "\<exists>tx0 rx0. init_data tx rx n k = Some (tx0, rx0) \<and> length tx0 = n \<and> length rx0 = k"
proof -
  have w: "4 * (0 + l div 4) \<le> l" "l mod 4 \<le> l" for l :: nat by auto
  have fill: "\<exists>m'. fill_words p 0 (length m div 4) m = Some m' \<and> length m' = length m" for p m
    using fill_words_pattern [of 0 "length m div 4" m p] w(1) [of "length m"] by simp
  have rest: "\<exists>m'. fill_bytes p 0 (l mod 4) m = Some m' \<and> length m' = l" if "length m = l" for p l m
    using fill_bytes_some [of 0 "l mod 4" m p] w(2) [of l] that by auto
  obtain a where a: "fill_words TEST_PATTERN 0 (n div 4) tx = Some a" "length a = n" using fill assms(1) by blast
  obtain b where b: "fill_bytes (\<lambda>i. TEST_PATTERN (i + n div 4)) 0 (n mod 4) a = Some b" "length b = n" using rest a(2) by blast
  obtain c where c: "fill_words (\<lambda>i. TEST_PATTERN (i + n)) 0 (k div 4) rx = Some c" "length c = k" using fill assms(2) by blast
  obtain d where "fill_bytes (\<lambda>i. TEST_PATTERN (i + n + k div 4)) 0 (k mod 4) c = Some d" "length d = k" using rest c(2) by blast
  then show ?thesis using a b c by (simp add: init_data_def)
qed

lemma bytes_match_defined: "i + n \<le> length m \<Longrightarrow> \<exists>ok. bytes_match sg pat i n m = Some ok"
  by (induction n arbitrary: i) (auto simp: load_def Suc_le_eq)

lemma same_bytes_defined: "i + n \<le> length m \<Longrightarrow> \<exists>k. same_bytes sg pat i n m = Some k"
proof (induction n arbitrary: i)
  case (Suc n)
  then obtain k where "same_bytes sg pat (Suc i) n m = Some k" by fastforce
  then show ?case using Suc.prems by (simp add: load_def)
qed simp

lemma verify_data_defined:
  assumes "length tx = n" "length rx = k"
  shows "\<exists>rc. verify_data sg tx rx n k = Some rc \<and> (rc = 0 \<or> rc = - EINVAL)"
proof -
  have w: "4 * (0 + l div 4) \<le> l" "0 + l mod 4 \<le> l" for l :: nat by auto
  obtain a where "words_match TEST_PATTERN 0 (n div 4) tx = Some a"
    using words_match_pattern [of 0 "n div 4" tx] w(1) [of n] assms(1) by blast
  moreover obtain b where "bytes_match sg (\<lambda>i. TEST_PATTERN (i + n div 4)) 0 (n mod 4) tx = Some b"
    using bytes_match_defined [of 0 "n mod 4" tx] w(2) [of n] assms(1) by blast
  moreover obtain c where "same_words (\<lambda>i. TEST_PATTERN (i + n)) 0 (k div 4) rx = Some c"
    using same_words_pattern [of 0 "k div 4" rx] w(1) [of k] assms(2) by blast
  moreover obtain d where "same_bytes sg (\<lambda>i. TEST_PATTERN (i + n + k div 4)) 0 (k mod 4) rx = Some d"
    using same_bytes_defined [of 0 "k mod 4" rx] w(2) [of k] assms(2) by blast
  ultimately show ?thesis by (simp add: verify_data_def)
qed

text \<open>
  A transfer that always answers and keeps \<open>P\<close>: so do the test and the repetition, and the test fails for a size that is
  no multiple of the word.
\<close>

definition moves :: "('s \<Rightarrow> bool) \<Rightarrow> 's lib_env \<Rightarrow> axidma_dev \<Rightarrow> bench_side \<Rightarrow> bench_side \<Rightarrow> bool" where
  "moves P env dev tx rx \<longleftrightarrow> (\<forall>s. P s \<longrightarrow> (\<exists>s' rc. transfer_both env s dev tx rx = Some (s', rc) \<and> P s'))"

definition keeps_lengths :: "(mem \<Rightarrow> mem \<Rightarrow> mem \<times> mem) \<Rightarrow> bool" where
  "keeps_lengths moved \<longleftrightarrow> (\<forall>a b. length (fst (moved a b)) = length a \<and> length (snd (moved a b)) = length b)"

lemma transfer_both_mem [simp]: "transfer_both env s dev (tx\<lparr>bs_mem := a\<rparr>) (rx\<lparr>bs_mem := b\<rparr>) = transfer_both env s dev tx rx"
  by (simp add: transfer_both_def)

lemma single_transfer_answers:
  assumes P: "P s" "moves P env dev tx rx" and len: "int (length (bs_mem tx)) = bs_size tx" "int (length (bs_mem rx)) = bs_size rx"
    and moved: "keeps_lengths moved"
  shows "\<exists>s' rc. single_transfer_test sg env moved s dev tx rx = Some (s', rc) \<and> P s' \<and>
    (bs_size tx mod 4 \<noteq> 0 \<and> bs_size tx < 2 ^ 29 \<longrightarrow> rc < 0)"
proof -
  have len': "length (bs_mem tx) = nat (bs_size tx)" "length (bs_mem rx) = nat (bs_size rx)" using len by simp_all
  obtain a b where i: "init_data (bs_mem tx) (bs_mem rx) (nat (bs_size tx)) (nat (bs_size rx)) = Some (a, b)"
      "length a = nat (bs_size tx)" "length b = nat (bs_size rx)"
    using init_data_defined [OF len'] by blast
  obtain s' rc where t: "transfer_both env s dev tx rx = Some (s', rc)" "P s'" using P by (auto simp: moves_def)
  obtain v where v: "verify_data sg (fst (moved a b)) (snd (moved a b)) (nat (bs_size tx)) (nat (bs_size rx)) = Some v"
    using verify_data_defined [of "fst (moved a b)" "nat (bs_size tx)" "snd (moved a b)" "nat (bs_size rx)" sg] i moved
    by (auto simp: keeps_lengths_def)
  have "v = - EINVAL" if "bs_size tx mod 4 \<noteq> 0" "bs_size tx < 2 ^ 29"
  proof -
    have "nat (bs_size tx) mod 4 \<noteq> 0" "nat (bs_size tx) < 2 ^ 29"
      using that unfolding len(1) [symmetric] by (presburger, simp)
    then show ?thesis
      using verify_misaligned [of "nat (bs_size tx)" "fst (moved a b)" sg] v i(2) moved by (simp add: keeps_lengths_def)
  qed
  then show ?thesis
    using i t v len by (cases "rc < 0") (auto simp: single_transfer_test_def EINVAL_def)
qed

lemma time_transfers_answers:
  "P s \<Longrightarrow> moves P env dev tx rx \<Longrightarrow> \<exists>s' rc. time_transfers env dev tx rx n s = Some (s', rc) \<and> P s'"
proof (induction n arbitrary: s)
  case (Suc n)
  then obtain s' rc where "transfer_both env s dev tx rx = Some (s', rc)" "P s'" by (auto simp: moves_def)
  then show ?case using Suc by (cases "rc < 0") auto
qed simp

subsection \<open>Reading ends\<close>

text \<open>The call returns no more than was asked for, and nothing when nothing was.\<close>

definition reads :: "('w \<Rightarrow> nat \<Rightarrow> 'w \<times> (int + u8 list)) \<Rightarrow> bool" where
  "reads rd \<longleftrightarrow> (\<forall>w n w' data. rd w n = (w', Inr data) \<longrightarrow> length data \<le> n)"

lemma robust_read_loop_ends:
  assumes "reads rd"
  shows "k \<le> n \<Longrightarrow> n \<le> length m \<Longrightarrow> \<exists>w' bs rc. robust_read_loop rd n w m k = Some (w', patch m (n - k) bs, rc) \<and>
    length bs \<le> k \<and> (rc = -1 \<or> rc = int (n - k + length bs))"
proof (induction k arbitrary: w m rule: less_induct)
  case (less k)
  obtain w1 r where c: "rd w k = (w1, r)" by (cases "rd w k")
  show ?case
  proof (cases "\<exists>data. r = Inr data \<and> data \<noteq> []")
    case False
    then have "\<exists>rc. robust_read_loop rd n w m k = Some (w1, m, rc) \<and> (rc = -1 \<or> rc = int (n - k))"
      using c by (subst robust_read_loop.simps) (cases r, auto simp: EINTR_def)
    then show ?thesis by (metis add.right_neutral le0 list.size(3) patch_Nil)
  next
    case True
    then obtain data where d: "r = Inr data" "data \<noteq> []" by blast
    then have le: "length data \<le> k" using assms c by (simp add: reads_def)
    let ?m = "patch m (n - k) data"
    have put: "put (m, n - k) data = Some (?m, n - k + length data)" using le less.prems by (simp add: put_Some)
    have step: "robust_read_loop rd n w m k = robust_read_loop rd n w1 ?m (k - length data)"
      using c d le put by (subst robust_read_loop.simps) simp
    have "k - length data < k" "k - length data \<le> n" "n \<le> length ?m" using d(2) le less.prems by (cases data, auto)
    from less.IH [OF this, of w1] obtain w' bs rc where rec: "robust_read_loop rd n w1 ?m (k - length data) =
        Some (w', patch ?m (n - (k - length data)) bs, rc)" "length bs \<le> k - length data"
        "rc = -1 \<or> rc = int (n - (k - length data) + length bs)" by blast
    have "n - (k - length data) = n - k + length data" using le less.prems by simp
    moreover have "patch ?m (n - k + length data) bs = patch m (n - k) (data @ bs)"
      using less.prems by (intro patch_patch) simp_all
    ultimately show ?thesis
      using step rec le by (intro exI [of _ w'] exI [of _ "data @ bs"] exI [of _ rc]) auto
  qed
qed

text \<open>An interrupted read is not repeated: -1 is compared with \<open>-EINTR\<close>.\<close>

lemma robust_read_interrupted:
  assumes "rd w n = (w1, Inl EINTR)"
  shows "robust_read rd w m n = Some (w1, m, -1)"
  using assms by (simp add: robust_read_def robust_read_loop.simps [of rd n w m n] EINTR_def)

text \<open>The flags of the frames are read although nothing was written to them.\<close>

lemma frames_unspecified: "parse_args mib [(CHR ''v'', [])] = None"
  by (simp add: parse_args_def parse_option_def check_args_def default_args_def)

end
