(* ===== verification/Mqtt_Pal_Platforms.thy ===== *)
theory Mqtt_Pal_Platforms
  imports Mqtt_Pal
begin

text \<open>
  The other branches of the platform layer \<open>src/mqtt-c/src/mqtt_pal.c\<close>: mbedTLS, wolfSSL, BearSSL, OpenSSL's BIO and
  Winsock. The write and read functions of the library take the place of \<open>send\<close> and \<open>recv\<close> in the environment
  \<open>env\<close>, a negative result being an \<open>Errno\<close>; what else the code asks the library is an argument. A length that
  does not fit the \<open>int\<close> it is cast to is not modelled: it is \<open>None\<close>.
  The interface \<open>exact_sender\<close> is what \<open>mqtt_pal.h\<close> asks of \<open>mqtt_pal_sendall\<close> and what the client relies on.
\<close>

definition fits_cast :: "nat \<Rightarrow> bool" where
  "fits_cast n \<longleftrightarrow> int n \<le> INT_MAX"

subsection \<open>mbedTLS\<close>

text \<open>
  \<open>again\<close> tells the codes that ask to call again later. A write may accept nothing, when the library has flushed an
  earlier record first; the loop then tries again, and nothing bounds how often.
\<close>

partial_function (option) mbedtls_send_loop ::
    "'w env \<Rightarrow> (int \<Rightarrow> bool) \<Rightarrow> 'w \<Rightarrow> u8 list \<Rightarrow> nat \<Rightarrow> ('w \<times> nat \<times> ssize) option" where
  "mbedtls_send_loop env again w bytes sent =
     (if sent < length bytes then
        (case sys_send env w (drop sent bytes) of
           (w, Errno rv) \<Rightarrow>
             if again rv then Some (w, sent, Cnt 0) else Some (w, sent, Err MQTT_ERROR_SOCKET_ERROR)
         | (w, Ret rv) \<Rightarrow> mbedtls_send_loop env again w bytes (sent + rv))
      else Some (w, sent, Cnt 0))"

definition mbedtls_sendall ::
    "'w env \<Rightarrow> (int \<Rightarrow> bool) \<Rightarrow> 'w \<Rightarrow> mem \<Rightarrow> nat \<Rightarrow> nat \<Rightarrow> ('w \<times> ssize) option" where
  "mbedtls_sendall env again w m buf len =
     do { bytes \<leftarrow> read_bytes m buf len;
          (w, sent, error) \<leftarrow> mbedtls_send_loop env again w bytes 0;
          Some (w, if sent = 0 then error else Cnt sent) }"

function mbedtls_recv_loop ::
    "'w env \<Rightarrow> (int \<Rightarrow> bool) \<Rightarrow> 'w \<Rightarrow> mem \<Rightarrow> nat \<Rightarrow> nat \<Rightarrow> ('w \<times> mem \<times> nat \<times> ssize) option" where
  "mbedtls_recv_loop env again w m buf bufsz =
     (case sys_recv env w bufsz of
        (w, Errno rv) \<Rightarrow>
          if again rv then Some (w, m, buf, Cnt 0) else Some (w, m, buf, Err MQTT_ERROR_SOCKET_ERROR)
      | (w, Ret data) \<Rightarrow>
          if data = [] then Some (w, m, buf, Err MQTT_ERROR_SOCKET_ERROR)
          else if bufsz < length data then None
          else do {
            (m, buf) \<leftarrow> put (m, buf) data;
            (if bufsz - length data > 0 then mbedtls_recv_loop env again w m buf (bufsz - length data)
             else Some (w, m, buf, Cnt 0))
          })"
  by pat_completeness auto
termination by (relation "measure (\<lambda>(env, again, w, m, buf, bufsz). bufsz)") auto

declare mbedtls_recv_loop.simps [simp del]

definition mbedtls_recvall ::
    "'w env \<Rightarrow> (int \<Rightarrow> bool) \<Rightarrow> 'w \<Rightarrow> mem \<Rightarrow> nat \<Rightarrow> nat \<Rightarrow> ('w \<times> mem \<times> ssize) option" where
  "mbedtls_recvall env again w m start bufsz =
     do { (w, m, buf, error) \<leftarrow> mbedtls_recv_loop env again w m start bufsz;
          Some (w, m, if buf = start then error else Cnt (buf - start)) }"

subsection \<open>wolfSSL\<close>

text \<open>A result that is not positive is looked up with \<open>wolfSSL_get_error\<close>.\<close>

function wolfssl_send_loop ::
    "'w env \<Rightarrow> ('w \<Rightarrow> int \<Rightarrow> int) \<Rightarrow> (int \<Rightarrow> bool) \<Rightarrow> 'w \<Rightarrow> u8 list \<Rightarrow> nat \<Rightarrow> ('w \<times> ssize) option" where
  "wolfssl_send_loop env get_error want w bytes sent =
     (if sent < length bytes then
        if \<not> fits_cast (length bytes - sent) then None
        else (case sys_send env w (drop sent bytes) of
           (w, Errno tmp) \<Rightarrow>
             if want (get_error w tmp) then Some (w, Cnt sent) else Some (w, Err MQTT_ERROR_SOCKET_ERROR)
         | (w, Ret tmp) \<Rightarrow>
             if tmp = 0 then
               if want (get_error w 0) then Some (w, Cnt sent) else Some (w, Err MQTT_ERROR_SOCKET_ERROR)
             else wolfssl_send_loop env get_error want w bytes (sent + tmp))
      else Some (w, Cnt sent))"
  by pat_completeness auto
termination by (relation "measure (\<lambda>(env, g, want, w, bytes, sent). length bytes - sent)") auto

declare wolfssl_send_loop.simps [simp del]

definition wolfssl_sendall ::
    "'w env \<Rightarrow> ('w \<Rightarrow> int \<Rightarrow> int) \<Rightarrow> (int \<Rightarrow> bool) \<Rightarrow> 'w \<Rightarrow> mem \<Rightarrow> nat \<Rightarrow> nat \<Rightarrow> ('w \<times> ssize) option" where
  "wolfssl_sendall env get_error want w m buf len =
     do { bytes \<leftarrow> read_bytes m buf len; wolfssl_send_loop env get_error want w bytes 0 }"

text \<open>The result is the end of what was read, or the error.\<close>

function wolfssl_recv_loop ::
    "'w env \<Rightarrow> ('w \<Rightarrow> int \<Rightarrow> int) \<Rightarrow> (int \<Rightarrow> bool) \<Rightarrow> 'w \<Rightarrow> mem \<Rightarrow> nat \<Rightarrow> nat \<Rightarrow> ('w \<times> mem \<times> ssize) option" where
  "wolfssl_recv_loop env get_error want w m buf bufsz =
     (if \<not> fits_cast bufsz then None
      else case sys_recv env w bufsz of
        (w, Errno tmp) \<Rightarrow>
          if want (get_error w tmp) then Some (w, m, Cnt buf) else Some (w, m, Err MQTT_ERROR_SOCKET_ERROR)
      | (w, Ret data) \<Rightarrow>
          if data = [] then
            if want (get_error w 0) then Some (w, m, Cnt buf) else Some (w, m, Err MQTT_ERROR_SOCKET_ERROR)
          else if bufsz < length data then None
          else do {
            (m, buf) \<leftarrow> put (m, buf) data;
            (if bufsz - length data > 0 then wolfssl_recv_loop env get_error want w m buf (bufsz - length data)
             else Some (w, m, Cnt buf))
          })"
  by pat_completeness auto
termination by (relation "measure (\<lambda>(env, g, want, w, m, buf, bufsz). bufsz)") auto

declare wolfssl_recv_loop.simps [simp del]

definition from_start :: "nat \<Rightarrow> 'w \<times> mem \<times> ssize \<Rightarrow> 'w \<times> mem \<times> ssize" where
  "from_start start r = (case r of (w, m, rv) \<Rightarrow> (w, m, case rv of Cnt buf \<Rightarrow> Cnt (buf - start) | Err e \<Rightarrow> Err e))"

definition wolfssl_recvall ::
    "'w env \<Rightarrow> ('w \<Rightarrow> int \<Rightarrow> int) \<Rightarrow> (int \<Rightarrow> bool) \<Rightarrow> 'w \<Rightarrow> mem \<Rightarrow> nat \<Rightarrow> nat \<Rightarrow> ('w \<times> mem \<times> ssize) option" where
  "wolfssl_recvall env get_error want w m start bufsz =
     map_option (from_start start) (wolfssl_recv_loop env get_error want w m start bufsz)"

subsection \<open>OpenSSL's BIO\<close>

text \<open>A write that may be retried is retried at once, so the loop may never end. So may the one that reads.\<close>

partial_function (option) bio_send_loop ::
    "'w env \<Rightarrow> ('w \<Rightarrow> bool) \<Rightarrow> 'w \<Rightarrow> u8 list \<Rightarrow> nat \<Rightarrow> ('w \<times> ssize) option" where
  "bio_send_loop env should_retry w bytes sent =
     (if sent < length bytes then
        if \<not> fits_cast (length bytes - sent) then None
        else (case sys_send env w (drop sent bytes) of
           (w, Errno tmp) \<Rightarrow>
             if should_retry w then bio_send_loop env should_retry w bytes sent else Some (w, Err MQTT_ERROR_SOCKET_ERROR)
         | (w, Ret tmp) \<Rightarrow>
             if tmp > 0 then bio_send_loop env should_retry w bytes (sent + tmp)
             else if should_retry w then bio_send_loop env should_retry w bytes sent
             else Some (w, Err MQTT_ERROR_SOCKET_ERROR))
      else Some (w, Cnt sent))"

definition bio_sendall :: "'w env \<Rightarrow> ('w \<Rightarrow> bool) \<Rightarrow> 'w \<Rightarrow> mem \<Rightarrow> nat \<Rightarrow> nat \<Rightarrow> ('w \<times> ssize) option" where
  "bio_sendall env should_retry w m buf len =
     do { bytes \<leftarrow> read_bytes m buf len; bio_send_loop env should_retry w bytes 0 }"

partial_function (option) bio_recv_loop ::
    "'w env \<Rightarrow> ('w \<Rightarrow> bool) \<Rightarrow> ('w \<Rightarrow> bool) \<Rightarrow> 'w \<Rightarrow> mem \<Rightarrow> nat \<Rightarrow> nat \<Rightarrow> ('w \<times> mem \<times> ssize) option" where
  "bio_recv_loop env should_retry should_read w m buf bufsz =
     (if \<not> fits_cast bufsz then None
      else case sys_recv env w bufsz of
        (w, Errno rv) \<Rightarrow>
          if \<not> should_retry w then Some (w, m, Err MQTT_ERROR_SOCKET_ERROR)
          else if \<not> should_read w \<and> bufsz > 0 then bio_recv_loop env should_retry should_read w m buf bufsz
          else Some (w, m, Cnt buf)
      | (w, Ret data) \<Rightarrow>
          if data = [] then
            if \<not> should_retry w then Some (w, m, Err MQTT_ERROR_SOCKET_ERROR)
            else if \<not> should_read w \<and> bufsz > 0 then bio_recv_loop env should_retry should_read w m buf bufsz
            else Some (w, m, Cnt buf)
          else if bufsz < length data then None
          else do {
            (m, buf) \<leftarrow> put (m, buf) data;
            (if \<not> should_read w \<and> bufsz - length data > 0 then
               bio_recv_loop env should_retry should_read w m buf (bufsz - length data)
             else Some (w, m, Cnt buf))
          })"

definition bio_recvall ::
    "'w env \<Rightarrow> ('w \<Rightarrow> bool) \<Rightarrow> ('w \<Rightarrow> bool) \<Rightarrow> 'w \<Rightarrow> mem \<Rightarrow> nat \<Rightarrow> nat \<Rightarrow> ('w \<times> mem \<times> ssize) option" where
  "bio_recvall env should_retry should_read w m start bufsz =
     map_option (from_start start) (bio_recv_loop env should_retry should_read w m start bufsz)"

subsection \<open>Winsock\<close>

text \<open>Sending gives up on every result below one.\<close>

function winsock_send_loop :: "'w env \<Rightarrow> 'w \<Rightarrow> u8 list \<Rightarrow> nat \<Rightarrow> 'w \<times> ssize" where
  "winsock_send_loop env w bytes sent =
     (if sent < length bytes then
        (case sys_send env w (drop sent bytes) of
           (w, Errno tmp) \<Rightarrow> (w, Err MQTT_ERROR_SOCKET_ERROR)
         | (w, Ret tmp) \<Rightarrow>
             if tmp < 1 then (w, Err MQTT_ERROR_SOCKET_ERROR) else winsock_send_loop env w bytes (sent + tmp))
      else (w, Cnt sent))"
  by pat_completeness auto
termination by (relation "measure (\<lambda>(env, w, bytes, sent). length bytes - sent)") auto

declare winsock_send_loop.simps [simp del]

definition winsock_sendall :: "'w env \<Rightarrow> 'w \<Rightarrow> mem \<Rightarrow> nat \<Rightarrow> nat \<Rightarrow> ('w \<times> ssize) option" where
  "winsock_sendall env w m buf len =
     do { bytes \<leftarrow> read_bytes m buf len; Some (winsock_send_loop env w bytes 0) }"

text \<open>\<open>would_block\<close> tells whether the error of the last call is \<open>WSAEWOULDBLOCK\<close>.\<close>

function winsock_recv_loop ::
    "'w env \<Rightarrow> (int \<Rightarrow> bool) \<Rightarrow> 'w \<Rightarrow> mem \<Rightarrow> nat \<Rightarrow> nat \<Rightarrow> ('w \<times> mem \<times> ssize) option" where
  "winsock_recv_loop env would_block w m buf bufsz =
     (case sys_recv env w bufsz of
        (w, Errno err) \<Rightarrow>
          if \<not> would_block err then Some (w, m, Err MQTT_ERROR_SOCKET_ERROR) else Some (w, m, Cnt buf)
      | (w, Ret data) \<Rightarrow>
          if data = [] then Some (w, m, Cnt buf)
          else if bufsz < length data then None
          else do {
            (m, buf) \<leftarrow> put (m, buf) data;
            (if bufsz - length data > 0 then winsock_recv_loop env would_block w m buf (bufsz - length data)
             else Some (w, m, Cnt buf))
          })"
  by pat_completeness auto
termination by (relation "measure (\<lambda>(env, b, w, m, buf, bufsz). bufsz)") auto

declare winsock_recv_loop.simps [simp del]

definition winsock_recvall ::
    "'w env \<Rightarrow> (int \<Rightarrow> bool) \<Rightarrow> 'w \<Rightarrow> mem \<Rightarrow> nat \<Rightarrow> nat \<Rightarrow> ('w \<times> mem \<times> ssize) option" where
  "winsock_recvall env would_block w m start bufsz =
     map_option (from_start start) (winsock_recv_loop env would_block w m start bufsz)"

subsection \<open>BearSSL\<close>

text \<open>The bits of the engine's state.\<close>

definition BR_SSL_CLOSED :: u32 where "BR_SSL_CLOSED = 1"
definition BR_SSL_SENDREC :: u32 where "BR_SSL_SENDREC = 2"
definition BR_SSL_RECVREC :: u32 where "BR_SSL_RECVREC = 4"
definition BR_SSL_SENDAPP :: u32 where "BR_SSL_SENDAPP = 8"
definition BR_SSL_RECVAPP :: u32 where "BR_SSL_RECVAPP = 16"

text \<open>
  The engine, and the functions \<open>low_read\<close> and \<open>low_write\<close> of the handle, as functions of the world. What is copied into
  the buffer for application data is acknowledged at once, in \<open>br_sendapp\<close>.
\<close>

record 'w bearssl =
  br_last_error :: "'w \<Rightarrow> int"
  br_state :: "'w \<Rightarrow> u32"
  br_sendrec_buf :: "'w \<Rightarrow> u8 list"
  br_low_write :: "'w \<Rightarrow> u8 list \<Rightarrow> 'w \<times> int"
  br_sendrec_ack :: "'w \<Rightarrow> int \<Rightarrow> 'w"
  br_recvrec_len :: "'w \<Rightarrow> nat"
  br_low_read :: "'w \<Rightarrow> nat \<Rightarrow> 'w \<times> int"
  br_recvrec_ack :: "'w \<Rightarrow> int \<Rightarrow> 'w"
  br_sendapp_len :: "'w \<Rightarrow> nat"
  br_sendapp :: "'w \<Rightarrow> u8 list \<Rightarrow> 'w"
  br_flush :: "'w \<Rightarrow> 'w"
  br_recvapp_buf :: "'w \<Rightarrow> u8 list"
  br_recvapp_ack :: "'w \<Rightarrow> nat \<Rightarrow> 'w"

text \<open>The last test has a logical instead of a bitwise conjunction.\<close>

definition do_rec_data :: "'w bearssl \<Rightarrow> 'w \<Rightarrow> u32 \<Rightarrow> 'w \<times> MQTTErrors" where
  "do_rec_data br w status =
     (if br_last_error br w \<noteq> 0 then (w, MQTT_ERROR_SOCKET_ERROR)
      else if status AND BR_SSL_SENDREC = BR_SSL_SENDREC then
        let buffer = br_sendrec_buf br w in
        if length buffer > 0 then
          let (w, rc) = br_low_write br w buffer in
          if rc < 0 then (w, MQTT_ERROR_SOCKET_ERROR) else (br_sendrec_ack br w rc, MQTT_OK)
        else (w, MQTT_OK)
      else if status AND BR_SSL_RECVREC = BR_SSL_RECVREC then
        let len = br_recvrec_len br w in
        if len > 0 then
          let (w, rc) = br_low_read br w len in
          if rc < 0 then (w, MQTT_ERROR_SOCKET_ERROR) else (br_recvrec_ack br w rc, MQTT_OK)
        else (w, MQTT_OK)
      else if (if status \<noteq> 0 \<and> BR_SSL_CLOSED \<noteq> 0 then 1 else 0) = BR_SSL_CLOSED then (w, MQTT_ERROR_SOCKET_ERROR)
      else (w, MQTT_OK))"

text \<open>Moving records when there are any, and the state behind it.\<close>

definition move_records :: "'w bearssl \<Rightarrow> 'w \<Rightarrow> u32 \<Rightarrow> 'w \<times> u32 \<times> MQTTErrors" where
  "move_records br w status =
     (if status AND (BR_SSL_RECVREC OR BR_SSL_SENDREC) \<noteq> 0 then
        let (w, rc) = do_rec_data br w status in
        if rc \<noteq> MQTT_OK then (w, status, rc) else (w, br_state br w, rc)
      else (w, status, MQTT_OK))"

text \<open>One iteration: the world and what is left to send, or the error that is returned.\<close>

definition bearssl_round :: "'w bearssl \<Rightarrow> 'w \<Rightarrow> u8 list \<Rightarrow> ('w \<times> MQTTErrors) + ('w \<times> u8 list)" where
  "bearssl_round br w walker =
     (let status = br_state br w in
      if status AND BR_SSL_CLOSED \<noteq> 0 then Inl (w, MQTT_ERROR_SOCKET_ERROR)
      else
        let (w, status, rc) = move_records br w status in
        if rc \<noteq> MQTT_OK then Inl (w, rc)
        else if status AND BR_SSL_SENDAPP = BR_SSL_SENDAPP then
          let len = br_sendapp_len br w in
          if len > 0 then
            let write = (if len \<ge> length walker then length walker else len) in
            Inr (br_flush br (br_sendapp br w (take write walker)), drop write walker)
          else Inr (w, walker)
        else Inr (w, walker))"

partial_function (option) bearssl_send_loop :: "'w bearssl \<Rightarrow> 'w \<Rightarrow> u8 list \<Rightarrow> ('w \<times> MQTTErrors) option" where
  "bearssl_send_loop br w walker =
     (if walker = [] then Some (w, MQTT_OK)
      else (case bearssl_round br w walker of
         Inl r \<Rightarrow> Some r
       | Inr (w, walker) \<Rightarrow> bearssl_send_loop br w walker))"

definition bearssl_sendall :: "'w bearssl \<Rightarrow> 'w \<Rightarrow> mem \<Rightarrow> nat \<Rightarrow> nat \<Rightarrow> ('w \<times> ssize) option" where
  "bearssl_sendall br w m buf len =
     do { bytes \<leftarrow> read_bytes m buf len;
          (w, rc) \<leftarrow> bearssl_send_loop br w bytes;
          Some (w, if rc = MQTT_OK then Cnt len else Err rc) }"

definition bearssl_recvall :: "'w bearssl \<Rightarrow> 'w \<Rightarrow> mem \<Rightarrow> nat \<Rightarrow> nat \<Rightarrow> ('w \<times> mem \<times> ssize) option" where
  "bearssl_recvall br w m start bufsz =
     (let (w, status, rc) = move_records br w (br_state br w) in
      if rc \<noteq> MQTT_OK then Some (w, m, Err rc)
      else if status AND BR_SSL_RECVAPP = BR_SSL_RECVAPP then
        let buffer = br_recvapp_buf br w in
        if length buffer > 0 then
          let write = (if length buffer \<ge> bufsz then bufsz else length buffer) in
          do { (m, _) \<leftarrow> put (m, start) (take write buffer); Some (br_recvapp_ack br w write, m, Cnt write) }
        else Some (w, m, Cnt 0)
      else Some (w, m, Cnt 0))"

subsection \<open>What the client relies on\<close>

text \<open>
  Sending a message in as many calls as it takes, each from where the last one stopped, as \<open>__mqtt_send\<close> does. The
  result is how far it came.
\<close>

primrec send_rest ::
    "('w \<Rightarrow> mem \<Rightarrow> nat \<Rightarrow> nat \<Rightarrow> ('w \<times> ssize) option) \<Rightarrow> nat \<Rightarrow> 'w \<Rightarrow> mem \<Rightarrow> nat \<Rightarrow> nat \<Rightarrow> ('w \<times> nat) option" where
  "send_rest sendall 0 w m buf len = Some (w, 0)"
| "send_rest sendall (Suc k) w m buf len =
     do { (w, rv) \<leftarrow> sendall w m buf len;
          (case rv of
             Err e \<Rightarrow> Some (w, 0)
           | Cnt n \<Rightarrow> do { (w, n') \<leftarrow> send_rest sendall k w m (buf + n) (len - n); Some (w, n + n') }) }"

definition exact_result :: "('w \<Rightarrow> u8 list) \<Rightarrow> 'w \<Rightarrow> mem \<Rightarrow> nat \<Rightarrow> nat \<Rightarrow> 'w \<Rightarrow> ssize \<Rightarrow> bool" where
  "exact_result wire w m buf len w' rv \<longleftrightarrow>
     (case rv of Cnt n \<Rightarrow> n \<le> len \<and> wire w' = wire w @ take n (drop buf m)
      | Err e \<Rightarrow> e = MQTT_ERROR_SOCKET_ERROR \<and> wire w' = wire w)"

locale exact_sender =
  fixes sendall :: "'w \<Rightarrow> mem \<Rightarrow> nat \<Rightarrow> nat \<Rightarrow> ('w \<times> ssize) option" and wire :: "'w \<Rightarrow> u8 list" and ok :: bool
  assumes exact: "ok \<Longrightarrow> buf + len \<le> length m \<Longrightarrow>
    \<exists>w' rv. sendall w m buf len = Some (w', rv) \<and> exact_result wire w m buf len w' rv"
begin

text \<open>However often the message is taken up again, its bytes arrive in order and once.\<close>

lemma send_rest_exact:
  assumes ok: ok
  shows "buf + len \<le> length m \<Longrightarrow>
    \<exists>w' n. send_rest sendall k w m buf len = Some (w', n) \<and> n \<le> len \<and> wire w' = wire w @ take n (drop buf m)"
proof (induction k arbitrary: w buf len)
  case (Suc k)
  obtain w1 rv where 1: "sendall w m buf len = Some (w1, rv)" "exact_result wire w m buf len w1 rv"
    using exact [OF ok Suc.prems] by blast
  show ?case
  proof (cases rv)
    case (Err e)
    then show ?thesis using 1 by (simp add: exact_result_def)
  next
    case (Cnt n)
    then have n: "n \<le> len" "wire w1 = wire w @ take n (drop buf m)" using 1(2) by (simp_all add: exact_result_def)
    then have "buf + n + (len - n) \<le> length m" using Suc.prems by simp
    then obtain w2 n' where 2: "send_rest sendall k w1 m (buf + n) (len - n) = Some (w2, n')" "n' \<le> len - n"
        "wire w2 = wire w1 @ take n' (drop (buf + n) m)" using Suc.IH by blast
    have "take n (drop buf m) @ take n' (drop (buf + n) m) = take (n + n') (drop buf m)"
      using take_add [of n n' "drop buf m"] by (simp add: add.commute)
    then show ?thesis using 1(1) Cnt n 2 by simp
  qed
qed simp

end

interpretation posix: exact_sender "mqtt_pal_sendall env" wire "env_ok wire env" for env wire
  by unfold_locales (use sendall_wire in \<open>fastforce simp: exact_result_def\<close>)

text \<open>A write of mbedTLS that accepts nothing has flushed something.\<close>

definition flushes :: "('w \<Rightarrow> nat) \<Rightarrow> 'w env \<Rightarrow> bool" where
  "flushes pending env \<longleftrightarrow>
     (\<forall>w bytes w'. bytes \<noteq> [] \<longrightarrow> sys_send env w bytes = (w', Ret 0) \<longrightarrow> pending w' < pending w)"

lemma sent_pieces:
  assumes "sent + n \<le> sent'"
  shows "take n (drop sent bytes) @ drop (sent + n) (take sent' bytes) = drop sent (take sent' bytes)"
  using take_add [of n "sent' - (sent + n)" "drop sent bytes"] assms by (simp add: drop_take add.commute)

lemma mbedtls_send_loop_wire:
  assumes env: "env_ok wire env" and flush: "flushes pending env"
  shows "sent \<le> length bytes \<Longrightarrow> \<exists>w' sent' error. mbedtls_send_loop env again w bytes sent = Some (w', sent', error) \<and>
    sent \<le> sent' \<and> sent' \<le> length bytes \<and> wire w' = wire w @ drop sent (take sent' bytes) \<and>
    (error = Cnt 0 \<or> error = Err MQTT_ERROR_SOCKET_ERROR)"
proof (induction "length bytes - sent" arbitrary: sent w rule: less_induct)
  case outer: less
  note le = outer.prems
  have "\<exists>w' sent' error. mbedtls_send_loop env again w bytes sent = Some (w', sent', error) \<and>
    sent \<le> sent' \<and> sent' \<le> length bytes \<and> wire w' = wire w @ drop sent (take sent' bytes) \<and>
    (error = Cnt 0 \<or> error = Err MQTT_ERROR_SOCKET_ERROR)" for w
  proof (induction "pending w" arbitrary: w rule: less_induct)
    case inner: less
    show ?case
    proof (cases "sent < length bytes")
      case False
      then show ?thesis using le by (subst mbedtls_send_loop.simps) simp
    next
      case True
      obtain w1 r where c: "sys_send env w (drop sent bytes) = (w1, r)" by (cases "sys_send env w (drop sent bytes)")
      note r = env_send [OF env c]
      show ?thesis
      proof (cases r)
        case (Errno e)
        then show ?thesis using True c r le by (subst mbedtls_send_loop.simps) simp
      next
        case (Ret n)
        have step: "mbedtls_send_loop env again w bytes sent = mbedtls_send_loop env again w1 bytes (sent + n)"
          using True c Ret by (subst mbedtls_send_loop.simps) simp
        show ?thesis
        proof (cases "n = 0")
          case True
          moreover have "drop sent bytes \<noteq> []" using \<open>sent < length bytes\<close> by simp
          ultimately have "pending w1 < pending w" "wire w1 = wire w"
            using flush [unfolded flushes_def, rule_format, of "drop sent bytes" w w1] c Ret r by simp_all
          then show ?thesis using inner.hyps [of w1] step True by simp
        next
          case False
          have n: "n \<le> length bytes - sent" "wire w1 = wire w @ take n (drop sent bytes)" using r Ret by simp_all
          have "length bytes - (sent + n) < length bytes - sent" "sent + n \<le> length bytes" using True False n le by simp_all
          from outer.hyps [OF this, of w1] obtain w' sent' error where
            "mbedtls_send_loop env again w1 bytes (sent + n) = Some (w', sent', error)" "sent + n \<le> sent'" "sent' \<le> length bytes"
            "wire w' = wire w1 @ drop (sent + n) (take sent' bytes)" "error = Cnt 0 \<or> error = Err MQTT_ERROR_SOCKET_ERROR" by blast
          then show ?thesis using step n(2) sent_pieces [of sent n sent' bytes] by simp
        qed
      qed
    qed
  qed
  then show ?case .
qed

lemma mbedtls_sendall_exact:
  assumes "env_ok wire env" "flushes pending env" "buf + len \<le> length m"
  shows "\<exists>w' rv. mbedtls_sendall env again w m buf len = Some (w', rv) \<and> exact_result wire w m buf len w' rv"
proof -
  let ?bs = "take len (drop buf m)"
  obtain w' sent' error where l: "mbedtls_send_loop env again w ?bs 0 = Some (w', sent', error)" "sent' \<le> length ?bs"
    "wire w' = wire w @ drop 0 (take sent' ?bs)" "error = Cnt 0 \<or> error = Err MQTT_ERROR_SOCKET_ERROR"
    using mbedtls_send_loop_wire [OF assms(1,2), of 0 ?bs] by blast
  then show ?thesis
    using assms(3) by (auto simp: mbedtls_sendall_def read_bytes_def exact_result_def min_absorb1)
qed

interpretation mbedtls: exact_sender "mbedtls_sendall env again" wire "env_ok wire env \<and> flushes pending env"
  for env again wire pending
  by unfold_locales (elim conjE, rule mbedtls_sendall_exact)

text \<open>The loop that receives is that of POSIX, but for the codes.\<close>

lemma mbedtls_recv_posix: "mbedtls_recv_loop env (\<lambda>e. e = EAGAIN) w m buf bufsz = recvall_loop env w m buf bufsz"
proof (induction bufsz arbitrary: w m buf rule: less_induct)
  case (less bufsz)
  obtain w1 r where c: "sys_recv env w bufsz = (w1, r)" by (cases "sys_recv env w bufsz")
  show ?case
  proof (cases "\<exists>data. r = Ret data \<and> data \<noteq> [] \<and> length data \<le> bufsz")
    case False
    then show ?thesis using c
      by (subst mbedtls_recv_loop.simps, subst recvall_loop.simps) (auto simp: EWOULDBLOCK_def split: sysret.splits)
  next
    case True
    then obtain data where d: "r = Ret data" "data \<noteq> []" "length data \<le> bufsz" by blast
    then have "bufsz - length data < bufsz" by (cases data) auto
    then show ?thesis using c d less.IH
      by (subst mbedtls_recv_loop.simps, subst recvall_loop.simps) (cases "put (m, buf) data", auto)
  qed
qed

subsection \<open>What the other platforms do instead\<close>

text \<open>A failure behind a partial write: the count is lost, and the client sends the first bytes again.\<close>

lemma wolfssl_drops:
  assumes "sys_send env w bytes = (w1, Ret n)" "0 < n" "n < length bytes" "fits_cast (length bytes)"
    and "sys_send env w1 (drop n bytes) = (w2, Errno e)" "\<not> want (get_error w2 e)"
  shows "wolfssl_send_loop env get_error want w bytes 0 = Some (w2, Err MQTT_ERROR_SOCKET_ERROR)"
  using assms by (subst wolfssl_send_loop.simps, subst wolfssl_send_loop.simps) (auto simp: fits_cast_def)

lemma bio_drops:
  assumes "sys_send env w bytes = (w1, Ret n)" "0 < n" "n < length bytes" "fits_cast (length bytes)"
    and "sys_send env w1 (drop n bytes) = (w2, Errno e)" "\<not> should_retry w2"
  shows "bio_send_loop env should_retry w bytes 0 = Some (w2, Err MQTT_ERROR_SOCKET_ERROR)"
  using assms by (subst bio_send_loop.simps, subst bio_send_loop.simps) (auto simp: fits_cast_def)

lemma winsock_drops:
  assumes "sys_send env w bytes = (w1, Ret n)" "0 < n" "n < length bytes"
    and "sys_send env w1 (drop n bytes) = (w2, Errno e)"
  shows "winsock_send_loop env w bytes 0 = (w2, Err MQTT_ERROR_SOCKET_ERROR)"
  using assms by (subst winsock_send_loop.simps, subst winsock_send_loop.simps) auto

lemma posix_keeps:
  assumes "sys_send env w bytes = (w1, Ret n)" "0 < n" "n < length bytes"
    and "sys_send env w1 (drop n bytes) = (w2, Errno e)"
  shows "fst (sendall_loop env w bytes 0) = w2" "fst (snd (sendall_loop env w bytes 0)) = n"
  using assms by (subst sendall_loop.simps, subst sendall_loop.simps, auto)+

text \<open>A BIO that cannot write for now is asked for ever.\<close>

lemma bio_send_stuck:
  assumes stuck: "\<And>w. P w \<Longrightarrow> \<exists>w' e. sys_send env w bytes = (w', Errno e) \<and> P w' \<and> should_retry w'"
    and w: "P w" "bytes \<noteq> []"
  shows "bio_send_loop env should_retry w bytes 0 = None"
proof -
  define Q where "Q env' retry w bs sent (r :: 'a \<times> ssize) \<longleftrightarrow>
    \<not> (env' = env \<and> retry = should_retry \<and> P w \<and> bs = bytes \<and> sent = (0 :: nat))" for env' retry w bs sent r
  have never: "Q env' retry w bs sent r" if "bio_send_loop env' retry w bs sent = Some r" for env' retry w bs sent r
  proof (rule bio_send_loop.raw_induct [OF _ that])
    fix loop :: "'a env \<Rightarrow> ('a \<Rightarrow> bool) \<Rightarrow> 'a \<Rightarrow> u8 list \<Rightarrow> nat \<Rightarrow> ('a \<times> ssize) option" and env' retry w bs sent r
    assume IH: "\<And>env' retry w bs sent r. loop env' retry w bs sent = Some r \<Longrightarrow> Q env' retry w bs sent r"
      and run: "(if sent < length bs then
          if \<not> fits_cast (length bs - sent) then None
          else (case sys_send env' w (drop sent bs) of
             (w, Errno tmp) \<Rightarrow> if retry w then loop env' retry w bs sent else Some (w, Err MQTT_ERROR_SOCKET_ERROR)
           | (w, Ret tmp) \<Rightarrow>
               if tmp > 0 then loop env' retry w bs (sent + tmp)
               else if retry w then loop env' retry w bs sent
               else Some (w, Err MQTT_ERROR_SOCKET_ERROR))
        else Some (w, Cnt sent)) = Some r"
    show "Q env' retry w bs sent r"
    proof (rule ccontr)
      assume "\<not> Q env' retry w bs sent r"
      then have e: "env' = env" "retry = should_retry" "P w" "bs = bytes" "sent = 0" by (simp_all add: Q_def)
      obtain w' e where "sys_send env w bytes = (w', Errno e)" "P w'" "should_retry w'" using stuck [OF e(3)] by blast
      then show False using run IH [of env' retry w' bs sent r] e w(2) by (auto simp: Q_def split: if_splits)
    qed
  qed
  show ?thesis
  proof (rule ccontr)
    assume "bio_send_loop env should_retry w bytes 0 \<noteq> None"
    then obtain r where "bio_send_loop env should_retry w bytes 0 = Some r" by blast
    from never [OF this] w(1) show False by (simp add: Q_def)
  qed
qed

text \<open>A connection that the peer has closed is an error on the others, and nothing new for Winsock.\<close>

lemma closed_connection:
  assumes "sys_recv env w bufsz = (w1, Ret [])"
  shows "winsock_recvall env would_block w m start bufsz = Some (w1, m, Cnt 0)"
    "mqtt_pal_recvall env w m start bufsz = Some (w1, m, Err MQTT_ERROR_SOCKET_ERROR)"
    "mbedtls_recvall env again w m start bufsz = Some (w1, m, Err MQTT_ERROR_SOCKET_ERROR)"
  using assms
  by (simp_all add: winsock_recvall_def winsock_recv_loop.simps [of env would_block w m start] from_start_def
      mqtt_pal_recvall_def recvall_loop.simps [of env w m start] mbedtls_recvall_def mbedtls_recv_loop.simps [of env again w m start])

text \<open>Data that were received before a failure are lost with it: the client goes on behind them.\<close>

lemma wolfssl_loses_data:
  assumes "sys_recv env w bufsz = (w1, Ret data)" "data \<noteq> []" "length data < bufsz" "start + bufsz \<le> length m" "fits_cast bufsz"
    and "sys_recv env w1 (bufsz - length data) = (w2, Errno e)" "\<not> want (get_error w2 e)"
  shows "wolfssl_recvall env get_error want w m start bufsz = Some (w2, patch m start data, Err MQTT_ERROR_SOCKET_ERROR)"
    "mqtt_pal_recvall env w m start bufsz = Some (w2, patch m start data, Cnt (length data))"
proof -
  have p: "put (m, start) data = Some (patch m start data, start + length data)" using assms(3,4) by (simp add: put_Some)
  show "wolfssl_recvall env get_error want w m start bufsz = Some (w2, patch m start data, Err MQTT_ERROR_SOCKET_ERROR)"
    using assms p
    by (simp add: wolfssl_recvall_def, subst wolfssl_recv_loop.simps, subst wolfssl_recv_loop.simps)
      (auto simp: fits_cast_def from_start_def)
  show "mqtt_pal_recvall env w m start bufsz = Some (w2, patch m start data, Cnt (length data))"
    using assms p
    by (simp add: mqtt_pal_recvall_def, subst recvall_loop.simps, subst recvall_loop.simps) auto
qed

subsection \<open>BearSSL's engine\<close>

text \<open>The logical conjunction does no harm: the function is only called when there are records to move.\<close>

lemma move_records_typo:
  assumes "move_records br w status = (w', status', MQTT_ERROR_SOCKET_ERROR)" "br_last_error br w = 0"
  shows "status AND (BR_SSL_RECVREC OR BR_SSL_SENDREC) \<noteq> 0"
  using assms by (auto simp: move_records_def split: if_splits)

text \<open>
  What is promised of the engine: \<open>plain\<close> is the application data it has taken, which only \<open>br_sendapp\<close> extends. Nothing is
  promised of its progress: the socket may take nothing for now, or for ever.
\<close>

definition bearssl_ok :: "('w \<Rightarrow> u8 list) \<Rightarrow> 'w bearssl \<Rightarrow> bool" where
  "bearssl_ok plain br \<longleftrightarrow>
     (\<forall>w bytes. plain (br_sendapp br w bytes) = plain w @ bytes) \<and>
     (\<forall>w. plain (br_flush br w) = plain w) \<and>
     (\<forall>w bytes. plain (fst (br_low_write br w bytes)) = plain w) \<and> (\<forall>w n. plain (fst (br_low_read br w n)) = plain w) \<and>
     (\<forall>w rc. plain (br_sendrec_ack br w rc) = plain w) \<and> (\<forall>w rc. plain (br_recvrec_ack br w rc) = plain w)"

lemma do_rec_data_plain:
  assumes "bearssl_ok plain br" "do_rec_data br w status = (w', rc)"
  shows "plain w' = plain w \<and> (rc = MQTT_OK \<or> rc = MQTT_ERROR_SOCKET_ERROR)"
proof -
  have "plain (fst (do_rec_data br w status)) = plain w"
    using assms(1) unfolding bearssl_ok_def do_rec_data_def
    by (auto simp: Let_def split: prod.splits) (metis fst_conv)+
  moreover have "rc = MQTT_OK \<or> rc = MQTT_ERROR_SOCKET_ERROR"
    using assms(2) by (auto simp: do_rec_data_def Let_def split: if_splits prod.splits)
  ultimately show ?thesis using assms(2) by simp
qed

lemma move_records_plain:
  assumes "bearssl_ok plain br" "move_records br w status = (w', status', rc)"
  shows "plain w' = plain w \<and> (rc = MQTT_OK \<or> rc = MQTT_ERROR_SOCKET_ERROR)"
  using assms(2) do_rec_data_plain [OF assms(1), of w status]
  by (cases "do_rec_data br w status") (auto simp: move_records_def Let_def split: if_splits)

lemma bearssl_round_plain:
  assumes ok: "bearssl_ok plain br"
  shows "case bearssl_round br w walker of
      Inl (w', rc) \<Rightarrow> plain w' = plain w \<and> rc = MQTT_ERROR_SOCKET_ERROR
    | Inr (w', rest) \<Rightarrow> \<exists>sent. walker = sent @ rest \<and> plain w' = plain w @ sent"
proof -
  obtain w1 st rc where mv: "move_records br w (br_state br w) = (w1, st, rc)" by (metis prod_cases3)
  note p = move_records_plain [OF ok mv]
  show ?thesis
  proof (cases "bearssl_round br w walker")
    case (Inl r)
    then show ?thesis using mv p by (auto simp: bearssl_round_def Let_def split: if_splits)
  next
    case (Inr r)
    obtain w' rest where r: "r = (w', rest)" by (cases r)
    have "\<exists>sent. walker = sent @ rest \<and> plain w' = plain w @ sent"
    proof (cases "rest = walker \<and> w' = w1")
      case True
      then show ?thesis using p by simp
    next
      case False
      let ?n = "if br_sendapp_len br w1 \<ge> length walker then length walker else br_sendapp_len br w1"
      have "w' = br_flush br (br_sendapp br w1 (take ?n walker))" "rest = drop ?n walker"
        using Inr r mv False by (auto simp: bearssl_round_def Let_def split: if_splits)
      then have "walker = take ?n walker @ rest" "plain w' = plain w @ take ?n walker"
        using ok p by (simp_all only: append_take_drop_id bearssl_ok_def)
      then show ?thesis by blast
    qed
    then show ?thesis using Inr r by simp
  qed
qed

text \<open>
  The loop, a number of its iterations at a time: \<open>Inl\<close> is where it has ended. Every byte that is no longer left to send
  has been handed over.
\<close>

primrec bearssl_rounds :: "'w bearssl \<Rightarrow> nat \<Rightarrow> 'w \<Rightarrow> u8 list \<Rightarrow> ('w \<times> MQTTErrors) + ('w \<times> u8 list)" where
  "bearssl_rounds br 0 w walker = Inr (w, walker)"
| "bearssl_rounds br (Suc n) w walker =
     (if walker = [] then Inl (w, MQTT_OK)
      else (case bearssl_round br w walker of
         Inl r \<Rightarrow> Inl r
       | Inr (w, walker) \<Rightarrow> bearssl_rounds br n w walker))"

lemma bearssl_rounds_end: "bearssl_rounds br n w walker = Inl r \<Longrightarrow> bearssl_send_loop br w walker = Some r"
proof (induction n arbitrary: w walker)
  case (Suc n)
  then show ?case by (subst bearssl_send_loop.simps) (auto split: if_splits sum.splits)
qed simp

lemma bearssl_rounds_add:
  "bearssl_rounds br n w walker = Inr (w1, rest) \<Longrightarrow> bearssl_rounds br (n + k) w walker = bearssl_rounds br k w1 rest"
  by (induction n arbitrary: w walker) (auto split: if_splits sum.splits)

lemma bearssl_rounds_plain:
  assumes ok: "bearssl_ok plain br"
  shows "case bearssl_rounds br n w walker of
      Inl (w', rc) \<Rightarrow> \<exists>sent rest. walker = sent @ rest \<and> plain w' = plain w @ sent \<and>
        (rc = MQTT_OK \<and> rest = [] \<or> rc = MQTT_ERROR_SOCKET_ERROR \<and> rest \<noteq> [])
    | Inr (w', rest) \<Rightarrow> \<exists>sent. walker = sent @ rest \<and> plain w' = plain w @ sent"
proof (induction n arbitrary: w walker)
  case (Suc n)
  show ?case
  proof (cases "walker = []")
    case True
    then show ?thesis by simp
  next
    case walker: False
    show ?thesis
    proof (cases "bearssl_round br w walker")
      case (Inl r)
      then show ?thesis using bearssl_round_plain [OF ok, of w walker] walker by (auto split: prod.splits)
    next
      case (Inr q)
      obtain w1 rest where q: "q = (w1, rest)" by (cases q)
      then obtain sent where s: "walker = sent @ rest" "plain w1 = plain w @ sent"
        using bearssl_round_plain [OF ok, of w walker] Inr by auto
      then show ?thesis using Suc.IH [where w = w1 and walker = rest] Inr q walker
        by (cases "bearssl_rounds br n w1 rest") (auto split: prod.splits)
    qed
  qed
qed simp

text \<open>A loop that never ends hands nothing more over from some iteration on.\<close>

lemma bearssl_send_loop_stuck:
  assumes ok: "bearssl_ok plain br" and none: "bearssl_send_loop br w walker = None"
  shows "\<exists>N sent. sent < length walker \<and> (\<forall>n \<ge> N. \<exists>w'. bearssl_rounds br n w walker = Inr (w', drop sent walker) \<and>
    plain w' = plain w @ take sent walker)"
proof -
  have "\<exists>w' rest. bearssl_rounds br n w walker = Inr (w', rest)" for n
    using bearssl_rounds_end [of br n w walker] none by (cases "bearssl_rounds br n w walker") auto
  then obtain W R where r: "\<And>n. bearssl_rounds br n w walker = Inr (W n, R n)" by metis
  have step: "bearssl_rounds br k (W n) (R n) = Inr (W (n + k), R (n + k))" for n k
    using bearssl_rounds_add [OF r [of n], of k] r [of "n + k"] by simp
  have more: "\<exists>sent. R n = sent @ R (n + k)" for n k
    using bearssl_rounds_plain [OF ok, where n = k and w = "W n" and walker = "R n"] unfolding step by auto
  have left: "R n \<noteq> []" for n
    using step [of 1 n] by auto
  define N where "N = (ARG_MIN (\<lambda>n. length (R n)) n. True)"
  have least: "length (R N) \<le> length (R n)" for n
    unfolding N_def by (rule arg_min_nat_le) simp
  have same: "R n = R N" if "N \<le> n" for n
  proof -
    have "N + (n - N) = n" using that by simp
    then obtain sent where "R N = sent @ R n" using more [of N "n - N"] by metis
    moreover then have "sent = []" using least [of n] by simp
    ultimately show ?thesis by simp
  qed
  obtain s where s: "walker = s @ R N" using bearssl_rounds_plain [OF ok, where n = N and w = w and walker = walker] r [of N] by auto
  have split: "drop (length s) walker = R N" "take (length s) walker = s" "length s < length walker"
    using left [of N] by (simp_all add: s)
  have "\<exists>w'. bearssl_rounds br n w walker = Inr (w', drop (length s) walker) \<and> plain w' = plain w @ take (length s) walker"
    if n: "N \<le> n" for n
  proof -
    obtain t where "walker = t @ R N" "plain (W n) = plain w @ t"
      using bearssl_rounds_plain [OF ok, where n = n and w = w and walker = walker] unfolding r same [OF n] by auto
    then have "plain (W n) = plain w @ s" using s by simp
    then show ?thesis unfolding split r same [OF n] by simp
  qed
  then show ?thesis using split(3) by blast
qed

lemma bearssl_send_loop_sent:
  assumes ok: "bearssl_ok plain br" and some: "bearssl_send_loop br w walker = Some (w', rc)"
  shows "\<exists>sent rest. walker = sent @ rest \<and> plain w' = plain w @ sent \<and>
    (rc = MQTT_OK \<and> rest = [] \<or> rc = MQTT_ERROR_SOCKET_ERROR \<and> rest \<noteq> [])"
proof -
  define Q where "Q br' w walker r \<longleftrightarrow> (br' = br \<longrightarrow> (case r of (w', rc) \<Rightarrow> \<exists>sent rest. walker = sent @ rest \<and> plain w' = plain w @ sent \<and>
      (rc = MQTT_OK \<and> rest = [] \<or> rc = MQTT_ERROR_SOCKET_ERROR \<and> rest \<noteq> [])))" for br' w walker and r :: "_ \<times> MQTTErrors"
  have "Q br' w walker r" if "bearssl_send_loop br' w walker = Some r" for br' w walker r
  proof (rule bearssl_send_loop.raw_induct [OF _ that])
    fix loop :: "'a bearssl \<Rightarrow> 'a \<Rightarrow> u8 list \<Rightarrow> ('a \<times> MQTTErrors) option" and br' w walker r
    assume IH: "\<And>br' w walker r. loop br' w walker = Some r \<Longrightarrow> Q br' w walker r"
      and run: "(if walker = [] then Some (w, MQTT_OK)
          else (case bearssl_round br' w walker of Inl r \<Rightarrow> Some r | Inr (w, walker) \<Rightarrow> loop br' w walker)) = Some r"
    show "Q br' w walker r"
    proof (cases "walker = [] \<or> br' \<noteq> br")
      case True
      then show ?thesis using run by (auto simp: Q_def)
    next
      case walker: False
      note p = bearssl_round_plain [OF ok, of w walker]
      show ?thesis
      proof (cases "bearssl_round br w walker")
        case (Inl e)
        then show ?thesis using run p walker by (auto simp: Q_def split: prod.splits)
      next
        case (Inr q)
        obtain w1 rest where q: "q = (w1, rest)" by (cases q)
        then obtain s where s: "walker = s @ rest" "plain w1 = plain w @ s" using p Inr by auto
        have "loop br w1 rest = Some r" using run walker Inr q by simp
        from IH [OF this] s walker show ?thesis by (auto simp: Q_def split: prod.splits)
      qed
    qed
  qed
  from this [OF some] show ?thesis by (simp add: Q_def)
qed

lemma bearssl_sendall_all:
  assumes "bearssl_ok plain br" "buf + len \<le> length m"
  shows "case bearssl_sendall br w m buf len of
      Some (w', rv) \<Rightarrow> \<exists>sent. plain w' = plain w @ take sent (drop buf m) \<and>
        (rv = Cnt len \<and> sent = len \<or> rv = Err MQTT_ERROR_SOCKET_ERROR \<and> sent < len)
    | None \<Rightarrow> \<exists>N sent. sent < len \<and> (\<forall>n \<ge> N. \<exists>w'. plain w' = plain w @ take sent (drop buf m) \<and>
        bearssl_rounds br n w (take len (drop buf m)) = Inr (w', drop sent (take len (drop buf m))))"
proof -
  let ?bs = "take len (drop buf m)"
  have len: "length ?bs = len" and read: "read_bytes m buf len = Some ?bs" using assms(2) by (simp_all add: read_bytes_def)
  show ?thesis
  proof (cases "bearssl_send_loop br w ?bs")
    case None
    then have "bearssl_sendall br w m buf len = None" using read by (simp add: bearssl_sendall_def)
    moreover obtain N sent where s: "sent < length ?bs" "\<forall>n \<ge> N. \<exists>w'. bearssl_rounds br n w ?bs = Inr (w', drop sent ?bs) \<and>
        plain w' = plain w @ take sent ?bs"
      using bearssl_send_loop_stuck [OF assms(1) None] by blast
    moreover have "take sent ?bs = take sent (drop buf m)" using s(1) len by (simp add: min_absorb1)
    ultimately have "sent < len \<and> (\<forall>n \<ge> N. \<exists>w'. plain w' = plain w @ take sent (drop buf m) \<and>
        bearssl_rounds br n w ?bs = Inr (w', drop sent ?bs))" using len by metis
    then show ?thesis using \<open>bearssl_sendall br w m buf len = None\<close> by auto
  next
    case (Some r)
    obtain w' rc where r: "r = (w', rc)" by (cases r)
    obtain sent rest where s: "?bs = sent @ rest" "plain w' = plain w @ sent"
      "rc = MQTT_OK \<and> rest = [] \<or> rc = MQTT_ERROR_SOCKET_ERROR \<and> rest \<noteq> []"
      using bearssl_send_loop_sent [OF assms(1)] Some r by blast
    have t: "sent = take (length sent) (drop buf m)" "length sent \<le> len"
      using s(1) len by (metis append_eq_conv_conj min.absorb1 take_take length_append le_add1) (metis len s(1) length_append le_add1)
    have run: "bearssl_sendall br w m buf len = Some (w', if rc = MQTT_OK then Cnt len else Err rc)"
      using Some r read by (simp add: bearssl_sendall_def)
    show ?thesis unfolding run using s t len
      by (auto intro!: exI [of _ "length sent"])
  qed
qed

end
