(* ===== verification/Mqtt_Sockets.thy ===== *)
theory Mqtt_Sockets
  imports Mqtt_Pal_Platforms "HOL-Library.Multiset"
begin

text \<open>
  Opening a connection to the broker: \<open>open_nb_socket\<close> of \<open>templates/posix_sockets.h\<close>, which the application uses, and
  \<open>host_connect\<close>, \<open>sock_read\<close> and \<open>sock_write\<close> of \<open>templates/bearssl_sockets.h\<close>. The resolver and the socket calls are
  functions of a world; \<open>opened\<close> is the multiset of the descriptors that are open in it.
\<close>

subsection \<open>System calls\<close>

text \<open>\<open>net_resolve\<close> answers the addresses of the host, or that there are none to be had.\<close>

record ('w, 'a) net =
  net_resolve :: "'w \<Rightarrow> 'w \<times> 'a list option"
  net_socket :: "'w \<Rightarrow> 'a \<Rightarrow> 'w \<times> int"
  net_connect :: "'w \<Rightarrow> int \<Rightarrow> 'a \<Rightarrow> 'w \<times> int"
  net_close :: "'w \<Rightarrow> int \<Rightarrow> 'w"
  net_nonblock :: "'w \<Rightarrow> int \<Rightarrow> 'w"

definition net_ok :: "('w \<Rightarrow> int multiset) \<Rightarrow> ('w, 'a) net \<Rightarrow> bool" where
  "net_ok opened net \<longleftrightarrow>
     (\<forall>w. opened (fst (net_resolve net w)) = opened w) \<and>
     (\<forall>w a. case net_socket net w a of (w', fd) \<Rightarrow>
        if fd = -1 then opened w' = opened w else 0 \<le> fd \<and> opened w' = add_mset fd (opened w)) \<and>
     (\<forall>w fd a. opened (fst (net_connect net w fd a)) = opened w) \<and>
     (\<forall>w fd. opened (net_close net w fd) = opened w - {#fd#}) \<and>
     (\<forall>w fd. opened (net_nonblock net w fd) = opened w)"

lemma net_socketD:
  assumes "net_ok opened net" "net_socket net w a = (w', fd)"
  shows "if fd = -1 then opened w' = opened w else 0 \<le> fd \<and> opened w' = add_mset fd (opened w)"
proof -
  from assms(1) have "case net_socket net w a of (w', fd) \<Rightarrow>
      if fd = -1 then opened w' = opened w else 0 \<le> fd \<and> opened w' = add_mset fd (opened w)"
    by (simp add: net_ok_def)
  then show ?thesis using assms(2) by simp
qed

lemma net_keeps:
  assumes "net_ok opened net"
  shows "opened (fst (net_resolve net w)) = opened w" "opened (fst (net_connect net w fd a)) = opened w"
    "opened (net_close net w fd) = opened w - {#fd#}" "opened (net_nonblock net w fd) = opened w"
  using assms by (simp_all add: net_ok_def)

subsection \<open>POSIX\<close>

text \<open>The addresses are tried in order; the result is the descriptor that is connected, or -1.\<close>

fun try_addresses :: "('w, 'a) net \<Rightarrow> 'w \<Rightarrow> 'a list \<Rightarrow> int \<Rightarrow> 'w \<times> int" where
  "try_addresses net w [] sockfd = (w, sockfd)"
| "try_addresses net w (p # ps) sockfd =
     (let (w, sockfd) = net_socket net w p in
      if sockfd = -1 then try_addresses net w ps sockfd
      else
        let (w, rv) = net_connect net w sockfd p in
        if rv = -1 then try_addresses net (net_close net w sockfd) ps (-1)
        else (w, sockfd))"

definition open_nb_socket :: "('w, 'a) net \<Rightarrow> 'w \<Rightarrow> 'w \<times> int" where
  "open_nb_socket net w =
     (case net_resolve net w of
        (w, None) \<Rightarrow> (w, -1)
      | (w, Some servinfo) \<Rightarrow>
          let (w, sockfd) = try_addresses net w servinfo (-1) in
          (if sockfd \<noteq> -1 then net_nonblock net w sockfd else w, sockfd))"

lemma try_addresses_opened:
  assumes ok: "net_ok opened net"
  shows "try_addresses net w ps (-1) = (w', r) \<Longrightarrow>
    (if r = -1 then opened w' = opened w else 0 \<le> r \<and> opened w' = add_mset r (opened w))"
proof (induction ps arbitrary: w)
  case (Cons p ps)
  obtain w1 fd where s: "net_socket net w p = (w1, fd)" by (cases "net_socket net w p")
  obtain w2 rv where c: "net_connect net w1 fd p = (w2, rv)" by (cases "net_connect net w1 fd p")
  note o = net_socketD [OF ok s]
  have k: "opened w2 = opened w1" using net_keeps(2) [OF ok, of w1 fd p] c by simp
  consider "fd = -1" | "fd \<noteq> -1" "rv = -1" | "fd \<noteq> -1" "rv \<noteq> -1" by blast
  then show ?case
  proof cases
    case 1
    then show ?thesis using Cons.IH [of w1] Cons.prems s o by (simp add: Let_def split: if_splits)
  next
    case 2
    then have "opened (net_close net w2 fd) = opened w" using o k net_keeps(3) [OF ok] by simp
    then show ?thesis using Cons.IH [of "net_close net w2 fd"] Cons.prems s c 2 by (simp add: Let_def split: if_splits)
  next
    case 3
    then show ?thesis using Cons.prems s c o k by (auto simp: Let_def split: if_splits)
  qed
qed simp

lemma open_nb_socket_opened:
  assumes ok: "net_ok opened net" and run: "open_nb_socket net w = (w', r)"
  shows "if r = -1 then opened w' = opened w else 0 \<le> r \<and> opened w' = add_mset r (opened w)"
proof -
  obtain w1 a where a: "net_resolve net w = (w1, a)" by (cases "net_resolve net w")
  then have w1: "opened w1 = opened w" using net_keeps(1) [OF ok, of w] by simp
  show ?thesis
  proof (cases a)
    case None
    then show ?thesis using run a w1 by (simp add: open_nb_socket_def)
  next
    case (Some ps)
    obtain w2 fd where t: "try_addresses net w1 ps (-1) = (w2, fd)" by (cases "try_addresses net w1 ps (-1)")
    show ?thesis
      using run a Some t try_addresses_opened [OF ok t] w1 net_keeps(4) [OF ok]
      by (auto simp: open_nb_socket_def split: if_splits)
  qed
qed

text \<open>An address that accepts is reached if the ones before it fail, whatever fails of them.\<close>

lemma try_addresses_reaches:
  assumes sock: "\<And>w p. snd (net_socket net w p) \<noteq> -1" and conn: "\<And>w fd p. snd (net_connect net w fd p) = (if good p then 0 else -1)"
  shows "snd (try_addresses net w ps (-1)) \<noteq> -1 \<longleftrightarrow> (\<exists>p \<in> set ps. good p)"
proof (induction ps arbitrary: w)
  case (Cons p ps)
  obtain w1 fd where s: "net_socket net w p = (w1, fd)" by (cases "net_socket net w p")
  obtain w2 rv where c: "net_connect net w1 fd p = (w2, rv)" by (cases "net_connect net w1 fd p")
  have "fd \<noteq> -1" "rv = (if good p then 0 else -1)" using sock [of w p] conn [of w1 fd p] s c by simp_all
  then show ?case using Cons.IH s c by (simp add: Let_def)
qed simp

subsection \<open>BearSSL\<close>

text \<open>
  One socket for all addresses; the loop counts through the list but always dials its first entry. If no attempt
  succeeds, the socket is forgotten.
\<close>

fun dial :: "('w, 'a) net \<Rightarrow> 'w \<Rightarrow> int \<Rightarrow> 'a list \<Rightarrow> nat \<Rightarrow> 'w \<times> bool" where
  "dial net w sockfd addrs 0 = (w, False)"
| "dial net w sockfd addrs (Suc n) =
     (let (w, rv) = net_connect net w sockfd (hd addrs) in
      if 0 > rv then dial net w sockfd addrs n
      else (net_nonblock net w sockfd, True))"

definition host_connect :: "('w, 'a) net \<Rightarrow> 'a \<Rightarrow> 'w \<Rightarrow> 'w \<times> int" where
  "host_connect net ipv4 w =
     (case net_resolve net w of
        (w, None) \<Rightarrow> (w, -1)
      | (w, Some addr_list) \<Rightarrow>
          let (w, sockfd) = net_socket net w ipv4 in
          if sockfd = -1 then (w, -1)
          else
            let (w, found) = dial net w sockfd addr_list (length addr_list) in
            (w, if found then sockfd else -1))"

lemma dial_opened: "net_ok opened net \<Longrightarrow> opened (fst (dial net w fd addrs n)) = opened w"
proof (induction n arbitrary: w)
  case (Suc n)
  obtain w1 rv where "net_connect net w fd (hd addrs) = (w1, rv)" by (cases "net_connect net w fd (hd addrs)")
  then show ?case using Suc net_keeps(2) [OF Suc.prems, of w fd "hd addrs"] net_keeps(4) [OF Suc.prems] by (simp add: Let_def)
qed simp

lemma dial_first_only:
  "(\<And>w. snd (net_connect net w fd (hd addrs)) < 0) \<Longrightarrow> \<not> snd (dial net w fd addrs n)"
proof (induction n arbitrary: w)
  case (Suc n)
  then show ?case by (cases "net_connect net w fd (hd addrs)") (simp add: Let_def, metis snd_conv)
qed simp

text \<open>A first address that does not answer: the others are never tried, and the socket stays open.\<close>

lemma host_connect_leaks:
  assumes ok: "net_ok opened net" and r: "net_resolve net w = (w1, Some addrs)" and s: "net_socket net w1 ipv4 = (w2, fd)" "fd \<noteq> -1"
    and c: "\<And>w. snd (net_connect net w fd (hd addrs)) < 0"
  shows "snd (host_connect net ipv4 w) = -1 \<and> opened (fst (host_connect net ipv4 w)) = add_mset fd (opened w)"
proof -
  have "opened w1 = opened w" using net_keeps(1) [OF ok, of w] r by simp
  then have "opened w2 = add_mset fd (opened w)" using net_socketD [OF ok s(1)] s(2) by simp
  then show ?thesis
    using r s dial_opened [OF ok, of w2 fd addrs "length addrs"] dial_first_only [where addrs = addrs and w = w2 and n = "length addrs", OF c]
    by (cases "dial net w2 fd addrs (length addrs)") (simp add: host_connect_def)
qed

text \<open>The callbacks of the engine; the first two arguments are the calls. An interrupted call is repeated.\<close>

partial_function (option) sock_read :: "('w \<Rightarrow> nat \<Rightarrow> 'w \<times> nat sysret) \<Rightarrow> 'w \<Rightarrow> nat \<Rightarrow> ('w \<times> int) option" where
  "sock_read rd w len =
     (case rd w len of
        (w, Errno e) \<Rightarrow>
          if e = EINTR then sock_read rd w len
          else if e = EWOULDBLOCK \<or> e = EAGAIN then Some (w, 0)
          else Some (w, -1)
      | (w, Ret n) \<Rightarrow> Some (w, int n))"

text \<open>\<open>errno\<close> is looked at after a result of 0, too; then it is left over from an earlier call, \<open>stale\<close>.\<close>

partial_function (option) sock_write :: "('w \<Rightarrow> u8 list \<Rightarrow> 'w \<times> nat sysret) \<Rightarrow> ('w \<Rightarrow> int) \<Rightarrow> 'w \<Rightarrow> u8 list \<Rightarrow> ('w \<times> int) option" where
  "sock_write wr stale w buf =
     (case wr w buf of
        (w, Errno e) \<Rightarrow> if e = EINTR then sock_write wr stale w buf else Some (w, -1)
      | (w, Ret n) \<Rightarrow> if n = 0 \<and> stale w = EINTR then sock_write wr stale w buf else Some (w, int n))"

text \<open>
  A socket that is full for now is a failed connection for the engine that writes, and no news for the one that reads.
\<close>

lemma sock_full:
  assumes "wr w buf = (w1, Errno EAGAIN)"
  shows "sock_write wr stale w buf = Some (w1, -1)"
  using assms by (subst sock_write.simps) (simp add: EAGAIN_def EINTR_def)

lemma sock_empty:
  assumes "rd w len = (w1, Errno EAGAIN)"
  shows "sock_read rd w len = Some (w1, 0)"
  using assms by (subst sock_read.simps) (simp add: EAGAIN_def EINTR_def)

text \<open>So sending over a full socket ends in an error, after which the client reconnects.\<close>

lemma full_socket_fails:
  assumes "br_last_error br w = 0" "br_sendrec_buf br w \<noteq> []"
    and "wr w (br_sendrec_buf br w) = (w1, Errno EAGAIN)" "\<And>w bs. sock_write wr stale w bs = Some (br_low_write br w bs)"
    and "br_state br w = BR_SSL_SENDREC" "bytes \<noteq> []"
  shows "bearssl_send_loop br w bytes = Some (w1, MQTT_ERROR_SOCKET_ERROR)"
proof -
  have "br_low_write br w (br_sendrec_buf br w) = (w1, -1)"
    using sock_full [of wr w "br_sendrec_buf br w" w1 stale] assms(3) assms(4) [of w "br_sendrec_buf br w"] by simp
  then have "do_rec_data br w BR_SSL_SENDREC = (w1, MQTT_ERROR_SOCKET_ERROR)"
    using assms(1,2) by (simp add: do_rec_data_def)
  then show ?thesis
    using assms(5,6)
    by (subst bearssl_send_loop.simps) (simp add: bearssl_round_def move_records_def BR_SSL_SENDREC_def BR_SSL_RECVREC_def BR_SSL_CLOSED_def)
qed

end
