(* ===== verification/Client_Refresher.thy ===== *)
theory Client_Refresher
  imports Accelero_App Mqtt_Recv
begin

text \<open>
  The thread of the application that serves its client, \<open>client_refresher\<close> of \<open>transfer-accelero-caeco.c\<close>, and the
  steps of the main thread beside it. Within \<open>mqtt_sync\<close> the mutex is free between the parts: a step of the system
  is one of the parts that hold it.
\<close>

subsection \<open>The thread\<close>

text \<open>The thread never returns; what a number of its rounds does to the client. Sleeping is left out.\<close>

primrec client_refresher ::
    "'w env \<Rightarrow> callbacks \<Rightarrow> (nat \<Rightarrow> nat \<times> mqtt_response) \<Rightarrow> nat \<Rightarrow> 'w \<Rightarrow> mqtt_client \<Rightarrow> ('w \<times> mqtt_client) option" where
  "client_refresher env cb start 0 w client = Some (w, client)"
| "client_refresher env cb start (Suc n) w client =
     do { (w, client) \<leftarrow> client_refresher env cb start n w client;
          (w, client, err) \<leftarrow> mqtt_sync env cb (fst (start n)) (snd (start n)) w client;
          (case err of None \<Rightarrow> None | Some e \<Rightarrow> Some (w, client)) }"

subsection \<open>What no operation changes\<close>

text \<open>The size of the send buffer and the callbacks.\<close>

definition same_client :: "mqtt_client \<Rightarrow> mqtt_client \<Rightarrow> bool" where
  "same_client c c' \<longleftrightarrow> length (mq_mem (cl_mq c')) = length (mq_mem (cl_mq c)) \<and>
     cl_inspector_callback c' = cl_inspector_callback c \<and> cl_reconnect_callback c' = cl_reconnect_callback c"

lemma same_client_refl [simp]: "same_client c c"
  by (simp add: same_client_def)

lemma same_client_trans: "same_client a b \<Longrightarrow> same_client b c \<Longrightarrow> same_client a c"
  by (simp add: same_client_def)

lemma same_client_fields [simp]:
  "same_client c (c'\<lparr>cl_mutex := b\<rparr>) = same_client c c'" "same_client c (c'\<lparr>cl_error := e\<rparr>) = same_client c c'"
  "same_client c (c'\<lparr>cl_send_offset := n\<rparr>) = same_client c c'" "same_client c (c'\<lparr>cl_number_of_timeouts := k\<rparr>) = same_client c c'"
  "same_client c (c'\<lparr>cl_time_of_last_send := t\<rparr>) = same_client c c'" "same_client c (c'\<lparr>cl_pid_lfsr := p\<rparr>) = same_client c c'"
  "same_client c (c'\<lparr>cl_published := ps\<rparr>) = same_client c c'" "same_client c (c'\<lparr>cl_recv_mem := m\<rparr>) = same_client c c'"
  "same_client c (c'\<lparr>cl_recv_curr := i\<rparr>) = same_client c c'" "same_client c (c'\<lparr>cl_recv_curr_sz := j\<rparr>) = same_client c c'"
  "same_client c (c'\<lparr>cl_typical_response_time := r\<rparr>) = same_client c c'"
  "same_client c (update_msg i f c') = same_client c c'" "same_client c (update_response_time d c') = same_client c c'"
  "same_client c (publish_response_callback c' pub) = same_client c c'"
  by (simp_all add: same_client_def update_msg_def update_response_time_def publish_response_callback_def)

lemma same_client_mem: "length m = length (mq_mem (cl_mq c')) \<Longrightarrow> same_client c (set_mq_mem m c') = same_client c c'"
  by (simp add: same_client_def set_mq_mem_def)

lemma setup_queue_packet:
  assumes inv: "client_inv c" and locked: "cl_mutex c" and w: "writes_packet pack b"
    and keep: "\<And>q. q_start (f q) = q_start q \<and> q_size (f q) = q_size q \<and> q_state (f q) = q_state q"
    and run: "queue_packet c pack rel f = Some (c', e)"
  shows "same_client c c'"
proof -
  obtain d e' where "queue_packet c pack rel f = Some (d, e')" "queue_frame c d"
    using queue_packet_ok [OF inv locked w keep] by blast
  then have "queue_frame c c'" using run by simp
  then show ?thesis
    using queue_packet_memory [OF inv w run] queue_frameD(7,8) [of c c'] by (simp add: same_client_def)
qed

lemma setup_pubxxx:
  assumes "client_inv c" "cl_mutex c" "ct \<in> {MQTT_CONTROL_PUBACK, MQTT_CONTROL_PUBREC, MQTT_CONTROL_PUBREL, MQTT_CONTROL_PUBCOMP}"
    and "mqtt_pubxxx ct c pid = Some (c', e)"
  shows "same_client c c'"
  by (rule setup_queue_packet [OF assms(1,2) pubxxx_writes [OF assms(3)] _ assms(4) [unfolded mqtt_pubxxx_def]]) simp

lemma setup_ping:
  assumes "client_inv c" "cl_mutex c" "mqtt_ping_locked c = Some (c', e)"
  shows "same_client c c'"
  by (rule setup_queue_packet [OF assms(1,2) ping_writes _ assms(3) [unfolded mqtt_ping_locked_def]]) simp

subsection \<open>Receiving\<close>

text \<open>
  What receiving does to the client, as far as a relation can tell that looks at nothing but the queue and at fields
  that receiving leaves alone: it follows from what the relation says of completing a message and of queuing a reply.
\<close>

locale receive_frame =
  fixes R :: "mqtt_client \<Rightarrow> mqtt_client \<Rightarrow> bool"
  assumes R_refl: "R c c"
    and R_trans: "R a b \<Longrightarrow> R b c \<Longrightarrow> R a c"
    and R_error: "R c (c'\<lparr>cl_error := e\<rparr>) = R c c'"
    and R_published: "R c (c'\<lparr>cl_published := ps\<rparr>) = R c c'"
    and R_response: "R c (c'\<lparr>cl_typical_response_time := r\<rparr>) = R c c'"
    and R_mem: "R c (c'\<lparr>cl_recv_mem := m\<rparr>) = R c c'"
    and R_curr: "R c (c'\<lparr>cl_recv_curr := i\<rparr>) = R c c'"
    and R_curr_sz: "R c (c'\<lparr>cl_recv_curr_sz := i\<rparr>) = R c c'"
    and R_complete: "R c (update_msg i (\<lambda>q. q\<lparr>q_state := MQTT_QUEUED_COMPLETE\<rparr>) c') = R c c'"
    and R_reply: "client_inv c \<Longrightarrow> cl_mutex c \<Longrightarrow>
      ct \<in> {MQTT_CONTROL_PUBACK, MQTT_CONTROL_PUBREC, MQTT_CONTROL_PUBREL, MQTT_CONTROL_PUBCOMP} \<Longrightarrow>
      mqtt_pubxxx ct c pid = Some (c', e) \<Longrightarrow> R c c'"
begin

lemmas R_fields [simp] = R_refl R_error R_published R_response R_mem R_curr R_curr_sz R_complete

lemma R_updates [simp]: "R c (update_response_time d c') = R c c'" "R c (publish_response_callback c' pub) = R c c'"
  by (simp_all add: update_response_time_def publish_response_callback_def)

lemma release_frame:
  assumes inv: "client_inv c" and locked: "cl_mutex c" and run: "release_msg env w c ctype pid k = Some (w', c', e)"
    and k: "\<And>w1 c1 d. client_inv c1 \<Longrightarrow> cl_mutex c1 \<Longrightarrow> k w1 c1 d = Some (w', c', e) \<Longrightarrow> R c1 c'"
  shows "R c c'"
proof (cases "mqtt_mq_find (cl_mq c) ctype pid")
  case None
  then show ?thesis using run by (auto simp: release_msg_def recv_fails_def)
next
  case (Some i)
  let ?c = "update_msg i (\<lambda>q. q\<lparr>q_state := MQTT_QUEUED_COMPLETE\<rparr>) c"
  obtain w1 d where "k w1 ?c d = Some (w', c', e)"
    using run Some by (cases "sys_time env w") (auto simp: release_msg_def Let_def bind_eq_Some_conv)
  then have "R ?c c'" using k [of ?c w1 d] inv locked by (simp add: client_inv_update)
  then show ?thesis using R_trans [of c ?c c'] by simp
qed

lemma stage_frame:
  assumes "client_inv c" "cl_mutex c" "ct \<in> {MQTT_CONTROL_PUBACK, MQTT_CONTROL_PUBREC, MQTT_CONTROL_PUBREL, MQTT_CONTROL_PUBCOMP}"
    and "stage_reply w (mqtt_pubxxx ct c pid) k = Some (w', c', e)" "\<And>c1. R c c1 \<Longrightarrow> R c (k c1)"
  shows "R c c'"
proof -
  obtain c1 rv where r: "mqtt_pubxxx ct c pid = Some (c1, rv)"
    using assms(4) by (cases "mqtt_pubxxx ct c pid") (auto simp: stage_reply_def)
  then have "R c c1" by (rule R_reply [OF assms(1-3)])
  then show ?thesis using r assms(4,5) by (auto simp: stage_reply_def recv_fails_def split: if_splits)
qed

lemma reply_frame:
  assumes "client_inv c" "cl_mutex c" "ct \<in> {MQTT_CONTROL_PUBACK, MQTT_CONTROL_PUBREC, MQTT_CONTROL_PUBREL, MQTT_CONTROL_PUBCOMP}"
    and "stage_reply w (mqtt_pubxxx ct (update_response_time d c) pid) id = Some (w', c', e)"
  shows "R c c'"
proof -
  have "R (update_response_time d c) c'"
    by (rule stage_frame [OF _ _ assms(3,4)]) (use assms(1,2) in \<open>simp_all add: update_response_time_def\<close>)
  then show ?thesis using R_trans [of c "update_response_time d c" c'] by simp
qed

lemma handle_publish_frame:
  assumes inv: "client_inv c" and locked: "cl_mutex c" and run: "handle_publish w c p = Some (w', c', e)"
  shows "R c c'"
proof -
  consider pid where "stage_reply w (mqtt_puback c pid) (\<lambda>c. publish_response_callback c p) = Some (w', c', e)"
    | pid where "stage_reply w (mqtt_pubrec c pid) (\<lambda>c. publish_response_callback c p) = Some (w', c', e)"
    | "c' = c \<or> c' = publish_response_callback c p"
    using run by (auto simp: handle_publish_def bind_eq_Some_conv split: if_splits)
  then show ?thesis
  proof cases
    case 1
    show ?thesis by (rule stage_frame [OF inv locked _ 1 [unfolded mqtt_puback_def]]) simp_all
  next
    case 2
    show ?thesis by (rule stage_frame [OF inv locked _ 2 [unfolded mqtt_pubrec_def]]) simp_all
  next
    case 3
    then show ?thesis by auto
  qed
qed

lemma handle_ack_frame:
  assumes "client_inv c" "cl_mutex c" "handle_ack env w c ct pid = Some (w', c', e)"
  shows "R c c'"
  by (rule release_frame [OF assms(1,2) assms(3) [unfolded handle_ack_def]]) auto

lemma handle_response_frame:
  assumes inv: "client_inv c" and locked: "cl_mutex c" and run: "handle_response env w c d = Some (w', c', e)"
  shows "R c c'"
proof (cases d)
  case Undecoded
  then show ?thesis using run by (auto simp: handle_response_def recv_fails_def)
next
  case (Connack sp rc)
  show ?thesis
    by (rule release_frame [OF inv locked run [unfolded handle_response_def Connack decoded.case handle_connack_def]])
      (auto simp: recv_fails_def Let_def split: if_splits)
next
  case (Publish p)
  then show ?thesis using run handle_publish_frame [OF inv locked] by (simp add: handle_response_def)
next
  case (Pubrec pid)
  have "c' = c \<or> release_msg env w c MQTT_CONTROL_PUBLISH (Some pid)
      (\<lambda>w c d. stage_reply w (mqtt_pubrel (update_response_time d c) pid) id) = Some (w', c', e)"
    using run by (auto simp: handle_response_def Pubrec handle_pubrec_def split: if_splits)
  then show ?thesis
    by (elim disjE) (simp, rule release_frame [OF inv locked], assumption, rule reply_frame, unfold mqtt_pubrel_def, auto)
next
  case (Pubrel pid)
  show ?thesis
    by (rule release_frame [OF inv locked run [unfolded handle_response_def Pubrel decoded.case handle_pubrel_def]])
      (rule reply_frame, unfold mqtt_pubcomp_def, auto)
next
  case (Suback pid codes n)
  show ?thesis
    by (rule release_frame [OF inv locked run [unfolded handle_response_def Suback decoded.case handle_suback_def]])
      (auto simp: recv_fails_def Let_def bind_eq_Some_conv split: if_splits)
qed (use run handle_ack_frame [OF inv locked] in \<open>auto simp: handle_response_def\<close>)

lemma recv_iteration_frame:
  assumes inv: "client_inv c" and locked: "cl_mutex c" and del: "env_ok wire env"
    and run: "recv_iteration env w c r = Some (w', c', r', ret)"
  shows "R c c'"
proof -
  obtain w1 bs rv where v: "mqtt_pal_recvall env w (cl_recv_mem c) (cl_recv_curr c) (cl_recv_curr_sz c) =
      Some (w1, patch (cl_recv_mem c) (cl_recv_curr c) bs, rv)" "length bs \<le> cl_recv_curr_sz c"
      "case rv of Cnt n \<Rightarrow> n = length bs | Err e \<Rightarrow> e = MQTT_ERROR_SOCKET_ERROR \<and> bs = []"
    using recvall_safe [OF del, of "cl_recv_curr c" "cl_recv_curr_sz c" "cl_recv_mem c" w] inv by (auto simp: client_inv_def)
  show ?thesis
  proof (cases rv)
    case (Err e)
    then show ?thesis using run v by (auto simp: recv_iteration_def)
  next
    case (Cnt n)
    let ?c = "c\<lparr>cl_recv_mem := patch (cl_recv_mem c) (cl_recv_curr c) bs, cl_recv_curr := cl_recv_curr c + n,
      cl_recv_curr_sz := cl_recv_curr_sz c - n\<rparr>"
    have c: "client_inv ?c" "cl_mutex ?c" "R c ?c"
      using inv locked v(2,3) Cnt by (auto simp: client_inv_def)
    obtain r1 consumed where u: "mqtt_unpack_response r (cl_recv_mem ?c) (Some 0) (cl_recv_curr ?c) = Some (r1, consumed)"
      using run v Cnt by (cases "mqtt_unpack_response r (cl_recv_mem ?c) (Some 0) (cl_recv_curr ?c)") (auto simp: recv_iteration_def Let_def)
    show ?thesis
    proof (cases "\<exists>k. consumed = Cnt k \<and> k \<noteq> 0")
      case False
      then show ?thesis using run v(1) Cnt u by (cases consumed) (auto simp: recv_iteration_def Let_def split: if_splits)
    next
      case True
      then obtain k where k: "consumed = Cnt k" "k \<noteq> 0" by blast
      obtain w2 c2 e where h: "handle_response env w1 ?c (decoded r1) = Some (w2, c2, e)" "consume c2 k = Some c'"
        using run v(1) Cnt u k by (auto simp: recv_iteration_def Let_def bind_eq_Some_conv split: if_splits)
      have "R c2 c'" using h(2) by (auto simp: consume_def bind_eq_Some_conv split: if_splits)
      then show ?thesis using handle_response_frame [OF c(1,2) h(1)] c(3) by (blast intro: R_trans)
    qed
  qed
qed

lemma recv_loop_frame:
  assumes env: "env_ok wire env" and del: "delivers avail env"
  shows "client_inv c \<Longrightarrow> cl_mutex c \<Longrightarrow> broker_ok env w c r \<Longrightarrow> recv_loop env fuel w c r = Some (w', c', ret) \<Longrightarrow> R c c'"
proof (induction fuel arbitrary: w c r)
  case (Suc fuel)
  obtain w1 c1 r1 ret1 where i: "recv_iteration env w c r = Some (w1, c1, r1, ret1)" "iterated wire avail w c w1 c1 ret1"
    using recv_iteration_ok [OF env del Suc.prems(1,2) broker_ok_here [OF Suc.prems(3)]] by blast
  have s: "R c c1" by (rule recv_iteration_frame [OF Suc.prems(1,2) env i(1)])
  show ?case
  proof (cases ret1)
    case None
    have "R c1 c'"
      by (rule Suc.IH) (use i None Suc.prems broker_ok_next [of env w c r w1 c1 r1] in \<open>auto simp: iterated_def\<close>)
    then show ?thesis using s by (blast intro: R_trans)
  next
    case (Some e)
    then show ?thesis using i s Suc.prems(4) by simp
  qed
qed simp

end

interpretation kept: receive_frame same_client
  by unfold_locales (use same_client_trans setup_pubxxx in \<open>auto simp: same_client_def update_msg_def\<close>)

subsection \<open>Sending\<close>

lemma setup_sent_state: "sent_state m msg = Some (m', s) \<Longrightarrow> length m' = length m"
  by (auto simp: sent_state_def store_def Let_def bind_eq_Some_conv split: MQTTControlPacketType.splits if_splits)

lemma setup_transmit:
  assumes "transmit env w c i msg = Some (w', c', e)"
  shows "same_client c c'"
proof -
  obtain w1 tmp where s: "mqtt_pal_sendall env w (mq_mem (cl_mq c)) (q_start msg + cl_send_offset c) (q_size msg - cl_send_offset c) =
      Some (w1, tmp)" using assms by (auto simp: transmit_def bind_eq_Some_conv split: if_splits)
  show ?thesis
  proof (cases tmp)
    case (Err err)
    then show ?thesis using assms s by (auto simp: transmit_def split: if_splits)
  next
    case (Cnt n)
    show ?thesis
    proof (cases "cl_send_offset c + n < q_size msg")
      case True
      then show ?thesis using assms s Cnt by (auto simp: transmit_def Let_def split: if_splits)
    next
      case False
      obtain w2 now where t: "sys_time env w1 = (w2, now)" by (cases "sys_time env w1")
      obtain m st where st: "sent_state (mq_mem (cl_mq c)) msg = Some (m, st)"
        using assms s Cnt False t by (cases "sent_state (mq_mem (cl_mq c)) msg") (auto simp: transmit_def Let_def split: if_splits)
      show ?thesis
        using assms s Cnt False t st setup_sent_state [OF st]
        by (cases st) (auto simp: transmit_def Let_def same_client_mem split: if_splits)
    qed
  qed
qed

lemma setup_send_message:
  assumes "send_message env w c i fl = Some (w', c', fl', e)"
  shows "same_client c c'"
proof -
  obtain msg where m: "mqtt_mq_get (cl_mq c) i = Some msg" using assms by (auto simp: send_message_def bind_eq_Some_conv)
  obtain w1 c1 resend where r: "check_resend env w c msg = (w1, c1, resend)" by (metis prod_cases3)
  have c1: "same_client c c1" using r by (auto simp: check_resend_def split: if_splits prod.splits)
  have "c' = c1 \<or> (\<exists>w2. transmit env w1 c1 i msg = Some (w2, c', e))"
    using assms m r by (auto simp: send_message_def bind_eq_Some_conv split: if_splits)
  then have "same_client c1 c'" using setup_transmit [of env w1 c1 i msg] by auto
  then show ?thesis using c1 same_client_trans [of c c1 c'] by auto
qed

lemma setup_send_loop: "send_loop env w c i fl n = Some (w', c', e) \<Longrightarrow> same_client c c'"
proof (induction n arbitrary: w c i fl)
  case (Suc n)
  obtain w1 c1 fl1 e1 where m: "send_message env w c i fl = Some (w1, c1, fl1, e1)"
    using Suc.prems by (auto simp: bind_eq_Some_conv)
  note s = setup_send_message [OF m]
  show ?case
  proof (cases "e1 = Go_on")
    case True
    then have "send_loop env w1 c1 (Suc i) fl1 n = Some (w', c', e)" using Suc.prems m by simp
    from Suc.IH [OF this] s show ?thesis by (blast intro: same_client_trans)
  next
    case False
    then show ?thesis using Suc.prems m s by simp
  qed
qed simp

lemma setup_keep_alive:
  assumes "client_inv c" "cl_mutex c" "keep_alive_check env w c = Some (w', c', rv)"
  shows "same_client c c'"
proof -
  obtain d e where p: "mqtt_ping_locked c = Some (d, e)" using ping_locked_ok [OF assms(1,2)] by blast
  have d: "same_client c d" by (rule setup_ping [OF assms(1,2) p])
  have "c' = c \<or> c' = d \<or> c' = d\<lparr>cl_error := e\<rparr>"
    using assms(3) p by (auto simp: keep_alive_check_def Let_def split: prod.splits if_splits)
  then show ?thesis using d by auto
qed

lemma setup_send:
  assumes env: "env_ok wire env" and inv: "client_inv c" and off: "cl_send_offset c = 0"
    and run: "mqtt_send env w c = Some (w', c', rv)"
  shows "same_client c c'"
proof (cases "err_code (cl_error c) < 0 \<and> cl_error c \<noteq> MQTT_ERROR_SEND_BUFFER_IS_FULL")
  case True
  then show ?thesis using run off
    by (auto simp: mqtt_send_def mutex_lock_def mutex_unlock_def Let_def split: if_splits)
next
  case False
  let ?c = "c\<lparr>cl_mutex := True\<rparr>"
  have "offset_fits ?c 0" using off by (simp add: offset_fits_def)
  then obtain w1 c1 e where l: "send_loop env w ?c 0 False (n_msgs ?c) = Some (w1, c1, e)" "client_inv c1" "send_frame ?c c1"
    using send_loop_ok [OF env, of ?c 0 "n_msgs ?c" False w] inv by auto
  have s: "same_client c c1" "cl_mutex c1"
    using setup_send_loop [OF l(1)] l(3) by (auto simp: send_frame_def same_client_def)
  have run': "(case e of Return err \<Rightarrow> do { c \<leftarrow> mutex_unlock c1; Some (w1, c, err) }
      | _ \<Rightarrow> do { (w, c, rv) \<leftarrow> keep_alive_check env w1 c1; c \<leftarrow> mutex_unlock c; Some (w, c, rv) }) = Some (w', c', rv)"
    using run False l(1) by (auto simp: mqtt_send_def mutex_lock_def mqtt_mq_length_def Let_def split: if_splits)
  show ?thesis
  proof (cases "\<exists>err. e = Return err")
    case True
    then show ?thesis using run' s by (auto simp: mutex_unlock_def split: if_splits)
  next
    case False
    then obtain w2 c2 rv2 where k: "keep_alive_check env w1 c1 = Some (w2, c2, rv2)" "mutex_unlock c2 = Some c'"
      using run' by (cases e) (auto simp: bind_eq_Some_conv)
    note d = setup_keep_alive [OF l(2) s(2) k(1)]
    have "same_client c2 c'" using k(2) by (auto simp: mutex_unlock_def split: if_splits)
    then show ?thesis using d s(1) by (auto intro: same_client_trans)
  qed
qed

subsection \<open>The thread beside the main thread\<close>

text \<open>
  Where the thread is: before \<open>mqtt_sync\<close>, behind its first part with the flag \<open>reconnecting\<close>, or behind receiving.
  The main thread subscribes whenever it likes. Nothing is known of what the response structure held before, and
  receiving takes as many iterations as it needs.
\<close>

datatype refresher_pc = At_sync | At_recv bool | At_send bool

inductive client_step ::
    "'w env \<Rightarrow> callbacks \<Rightarrow> 'w \<times> mqtt_client \<times> refresher_pc \<Rightarrow> 'w \<times> mqtt_client \<times> refresher_pc \<Rightarrow> bool"
  for env cb where
  step_recover: "sync_recover cb c = Some (c1, Inr reconnecting) \<Longrightarrow> sync_inspect cb c1 = Some (c', MQTT_OK) \<Longrightarrow>
    client_step env cb (w, c, At_sync) (w, c', At_recv reconnecting)"
| step_recv: "mqtt_recv env fuel response w c = Some (w', c', Some e) \<Longrightarrow>
    client_step env cb (w, c, At_recv reconnecting) (w', c', if e = MQTT_OK then At_send reconnecting else At_sync)"
| step_send: "mqtt_send env w c = Some (w', c', rv) \<Longrightarrow> \<not> (reconnecting \<and> cl_reconnect_callback c') \<Longrightarrow>
    client_step env cb (w, c, At_send reconnecting) (w', c', At_sync)"
| step_main: "mqtt_subscribe c topic qos = Some (c', e) \<Longrightarrow> length topic < 65536 \<Longrightarrow>
    client_step env cb (w, c, pc) (w, c', pc)"

inductive client_reach ::
    "'w env \<Rightarrow> callbacks \<Rightarrow> 'w \<times> mqtt_client \<times> refresher_pc \<Rightarrow> 'w \<times> mqtt_client \<times> refresher_pc \<Rightarrow> bool"
  for env cb x where
  reach_start: "client_reach env cb x x"
| reach_more: "client_reach env cb x y \<Longrightarrow> client_step env cb y z \<Longrightarrow> client_reach env cb x z"

text \<open>A run in which no pass over the queue has left a packet half-sent.\<close>

inductive steady_reach ::
    "'w env \<Rightarrow> callbacks \<Rightarrow> 'w \<times> mqtt_client \<times> refresher_pc \<Rightarrow> 'w \<times> mqtt_client \<times> refresher_pc \<Rightarrow> bool"
  for env cb x where
  steady_start: "steady_reach env cb x x"
| steady_more: "steady_reach env cb x y \<Longrightarrow> client_step env cb y z \<Longrightarrow> cl_send_offset (fst (snd z)) = 0 \<Longrightarrow>
    steady_reach env cb x z"

lemma steady_is_reach: "steady_reach env cb x y \<Longrightarrow> client_reach env cb x y"
  by (induction rule: steady_reach.induct) (auto intro: client_reach.intros)

inductive_cases client_stepE: "client_step env cb (w, c, pc) (w', c', pc')"

text \<open>Without other threads, the parts one after the other are \<open>mqtt_sync\<close>.\<close>

lemma sync_is_steps:
  assumes "sync_recover cb c = Some (c1, Inr reconnecting)" "sync_inspect cb c1 = Some (c2, MQTT_OK)"
    and "mqtt_recv env fuel r w c2 = Some (w3, c3, Some e)"
    and "e = MQTT_OK \<Longrightarrow> mqtt_send env w3 c3 = Some (w4, c4, rv) \<and> \<not> (reconnecting \<and> cl_reconnect_callback c4)"
  shows "if e = MQTT_OK then mqtt_sync env cb fuel r w c = Some (w4, c4, Some rv) \<and>
      client_reach env cb (w, c, At_sync) (w4, c4, At_sync)
    else mqtt_sync env cb fuel r w c = Some (w3, c3, Some e) \<and> client_reach env cb (w, c, At_sync) (w3, c3, At_sync)"
proof -
  have "client_reach env cb (w, c, At_sync) (w, c2, At_recv reconnecting)"
    by (rule reach_more [OF reach_start step_recover [OF assms(1,2)]])
  from reach_more [OF this step_recv [OF assms(3)]]
  have r: "client_reach env cb (w, c, At_sync) (w3, c3, if e = MQTT_OK then At_send reconnecting else At_sync)" .
  show ?thesis
  proof (cases "e = MQTT_OK")
    case True
    then have "client_reach env cb (w, c, At_sync) (w4, c4, At_sync)"
      using r assms(4) [OF True] by (simp only: simp_thms if_True) (rule reach_more [OF r [unfolded True, simplified] step_send], auto)
    moreover have "mqtt_sync env cb fuel r w c = Some (w4, c4, Some rv)"
      using assms True by (auto simp: mqtt_sync_def)
    ultimately show ?thesis using True by simp
  next
    case False
    then show ?thesis using r assms(1-3) by (simp add: mqtt_sync_def)
  qed
qed

text \<open>
  What holds whenever the mutex is free: the client's invariant, no half-sent message, a send buffer small enough for
  the identifiers, and no callbacks, which the application does not set.
\<close>

definition refreshed :: "mqtt_client \<Rightarrow> bool" where
  "refreshed c \<longleftrightarrow> client_inv c \<and> \<not> cl_mutex c \<and> cl_send_offset c = 0 \<and> length (mq_mem (cl_mq c)) < 2621400 \<and>
     \<not> cl_inspector_callback c \<and> \<not> cl_reconnect_callback c"

lemma refreshed_same: "refreshed c \<Longrightarrow> same_client c c' \<Longrightarrow> client_inv c' \<Longrightarrow> \<not> cl_mutex c' \<Longrightarrow> cl_send_offset c' = 0 \<Longrightarrow> refreshed c'"
  by (simp add: refreshed_def same_client_def)

text \<open>Every part is defined, and keeps it.\<close>

lemma refreshed_recover:
  assumes "refreshed c"
  shows "\<exists>c1 reconnecting. sync_recover cb c = Some (c1, Inr reconnecting) \<and> sync_inspect cb c1 = Some (c1, MQTT_OK) \<and> refreshed c1"
  using assms by (auto simp: sync_recover_def sync_inspect_def mutex_lock_def mutex_unlock_def refreshed_def Let_def)

lemma refreshed_recv:
  assumes env: "env_ok wire env" and del: "delivers avail env" and c: "refreshed c"
    and broker: "broker_ok env w (c\<lparr>cl_mutex := True\<rparr>) r"
  shows "avail w + cl_recv_curr c < fuel \<Longrightarrow> \<exists>w' c' e. mqtt_recv env fuel r w c = Some (w', c', Some e)"
    and "mqtt_recv env fuel r w c = Some (w', c', Some e) \<Longrightarrow> refreshed c' \<and> wire w' = wire w"
proof -
  have inv: "client_inv c" "\<not> cl_mutex c" using c by (simp_all add: refreshed_def)
  show "avail w + cl_recv_curr c < fuel \<Longrightarrow> \<exists>w' c' e. mqtt_recv env fuel r w c = Some (w', c', Some e)"
    using mqtt_recv_ok [OF env del inv broker] by blast
  assume run: "mqtt_recv env fuel r w c = Some (w', c', Some e)"
  have c1: "client_inv (c\<lparr>cl_mutex := True\<rparr>)" "cl_mutex (c\<lparr>cl_mutex := True\<rparr>)" using inv by simp_all
  obtain w2 c2 ret where l: "recv_loop env fuel w (c\<lparr>cl_mutex := True\<rparr>) r = Some (w2, c2, ret)" "client_inv c2" "cl_mutex c2"
    "wire w2 = wire w" "cl_send_offset c2 = cl_send_offset (c\<lparr>cl_mutex := True\<rparr>)"
    using recv_loop_ok [OF env del c1 broker, of fuel] by blast
  have "same_client (c\<lparr>cl_mutex := True\<rparr>) c2" by (rule kept.recv_loop_frame [OF env del c1 broker l(1)])
  moreover have "w' = w2" "c' = c2\<lparr>cl_mutex := False\<rparr>"
    using run l(1,3) inv(2) by (auto simp: mqtt_recv_def mutex_lock_def mutex_unlock_def split: option.splits)
  ultimately show "refreshed c' \<and> wire w' = wire w"
    using l c by (simp add: refreshed_def same_client_def)
qed

lemma refreshed_send:
  assumes env: "env_ok wire env" and c: "refreshed c"
  shows "\<exists>w' c' rv. mqtt_send env w c = Some (w', c', rv) \<and> (cl_send_offset c' = 0 \<longrightarrow> refreshed c') \<and>
    packets_written wire w w' c (cl_send_offset c')"
proof -
  have inv: "client_inv c" "\<not> cl_mutex c" "offset_fits c 0" "cl_send_offset c = 0"
    using c by (simp_all add: refreshed_def offset_fits_def)
  obtain w' c' rv where r: "mqtt_send env w c = Some (w', c', rv)" "client_inv c'" "\<not> cl_mutex c'"
    "packets_sent wire w w' c (cl_send_offset c')"
    using mqtt_send_ok [OF env inv(1-3), of w] by blast
  have "same_client c c'" by (rule setup_send [OF env inv(1,4) r(1)])
  then show ?thesis using r refreshed_same [OF c] packets_sent_idle [OF inv(4)] by metis
qed

lemma refreshed_subscribe:
  assumes c: "refreshed c" and topic: "length topic < 65536"
  shows "\<exists>c' e. mqtt_subscribe c topic qos = Some (c', e) \<and> refreshed c' \<and> cl_recv_curr c' = cl_recv_curr c"
proof -
  have inv: "client_inv c" "\<not> cl_mutex c" "length (mq_mem (cl_mq c)) < 2621400" using c by (simp_all add: refreshed_def)
  obtain c' e pid where s: "client_next_pid (c\<lparr>cl_mutex := True\<rparr>) = Some ((c\<lparr>cl_mutex := True\<rparr>)\<lparr>cl_pid_lfsr := pid\<rparr>, pid)"
      "queue_packet (c\<lparr>cl_mutex := True, cl_pid_lfsr := pid\<rparr>)
         (\<lambda>m p n. mqtt_pack_subscribe_request m p n (ucast pid) [(topic, qos)]) True
         (\<lambda>q. q\<lparr>q_control_type := MQTT_CONTROL_SUBSCRIBE, q_packet_id := pid\<rparr>) = Some (c', e)"
    using with_pid_ok [of "c\<lparr>cl_mutex := True\<rparr>" "\<lambda>pid m p n. mqtt_pack_subscribe_request m p n (ucast pid) [(topic, qos)]"
        "\<lambda>pid. enc_subscribe pid [(topic, qos)]" "\<lambda>pid q. q\<lparr>q_control_type := MQTT_CONTROL_SUBSCRIBE, q_packet_id := pid\<rparr>"]
      inv subscribe_writes_pid [OF topic] by auto
  let ?c = "c\<lparr>cl_mutex := True, cl_pid_lfsr := pid\<rparr>"
  have run: "mqtt_subscribe c topic qos = Some (c', e)" using s inv(2) by (simp add: mqtt_subscribe_def mutex_lock_def)
  have locked: "client_inv ?c" "cl_mutex ?c" using inv(1) by simp_all
  have "\<exists>c' e. queue_packet ?c (\<lambda>m p n. mqtt_pack_subscribe_request m p n (ucast pid) [(topic, qos)]) True
         (\<lambda>q. q\<lparr>q_control_type := MQTT_CONTROL_SUBSCRIBE, q_packet_id := pid\<rparr>) = Some (c', e) \<and> client_inv c' \<and>
      cl_mutex c' = (\<not> True) \<and> queued ?c c' e (enc_subscribe pid [(topic, qos)]) 
         (\<lambda>q. q\<lparr>q_control_type := MQTT_CONTROL_SUBSCRIBE, q_packet_id := pid\<rparr>) \<and> queue_frame ?c c' \<and>
      (cl_error ?c \<noteq> MQTT_OK \<longrightarrow> e \<noteq> MQTT_OK)"
    by (rule queue_packet_ok [OF locked subscribe_writes_pid [OF topic]]) simp
  then have d: "client_inv c'" "\<not> cl_mutex c'" "queue_frame ?c c'" using s(2) by auto
  have "same_client ?c c'"
    by (rule setup_queue_packet [OF locked subscribe_writes_pid [OF topic] _ s(2)]) simp
  then have "refreshed c' \<and> cl_recv_curr c' = cl_recv_curr c"
    using d c queue_frameD(1,4) [OF d(3)] by (simp add: refreshed_def same_client_def)
  then show ?thesis using run by blast
qed

subsection \<open>All interleavings\<close>

lemma step_refreshed:
  assumes env: "env_ok wire env" and del: "delivers avail env"
    and broker: "\<And>rec r. pc = At_recv rec \<Longrightarrow> broker_ok env w (c\<lparr>cl_mutex := True\<rparr>) r"
    and step: "client_step env cb (w, c, pc) (w', c', pc')" and c: "refreshed c" and steady: "cl_send_offset c' = 0"
  shows "refreshed c'"
proof (rule client_stepE [OF step])
  fix c1 reconnecting
  assume "sync_recover cb c = Some (c1, Inr reconnecting)" "sync_inspect cb c1 = Some (c', MQTT_OK)"
  then show ?thesis using refreshed_recover [OF c, of cb] by auto
next
  fix fuel response e reconnecting
  assume "mqtt_recv env fuel response w c = Some (w', c', Some e)" "pc = At_recv reconnecting"
  then show ?thesis using refreshed_recv(2) [OF env del c broker] by blast
next
  fix rv
  assume "mqtt_send env w c = Some (w', c', rv)"
  then show ?thesis using refreshed_send [OF env c, of w] steady by auto
next
  fix topic qos e
  assume "mqtt_subscribe c topic qos = Some (c', e)" "length topic < 65536"
  then show ?thesis using refreshed_subscribe [OF c, of topic qos] by auto
qed

text \<open>The broker keeps the topics of its PUBLISH packets inside them whenever the thread receives.\<close>

definition broker_keeps :: "'w env \<Rightarrow> callbacks \<Rightarrow> 'w \<times> mqtt_client \<times> refresher_pc \<Rightarrow> bool" where
  "broker_keeps env cb x \<longleftrightarrow>
     (\<forall>w c rec r. steady_reach env cb x (w, c, At_recv rec) \<longrightarrow> broker_ok env w (c\<lparr>cl_mutex := True\<rparr>) r)"

lemma reach_refreshed:
  assumes env: "env_ok wire env" and del: "delivers avail env" and broker: "broker_keeps env cb x"
  shows "steady_reach env cb x y \<Longrightarrow> refreshed (fst (snd x)) \<Longrightarrow> refreshed (fst (snd y))"
proof (induction rule: steady_reach.induct)
  case (steady_more y z)
  obtain w c pc w' c' pc' where yz: "y = (w, c, pc)" "z = (w', c', pc')" by (metis prod_cases3)
  have "refreshed c'"
    by (rule step_refreshed [OF env del _ steady_more.hyps(2) [unfolded yz]])
      (use steady_more broker yz in \<open>auto simp: broker_keeps_def\<close>)
  then show ?case by (simp add: yz)
qed simp

text \<open>What the thread does next is defined.\<close>

definition part_defined :: "('w \<Rightarrow> u8 list) \<Rightarrow> 'w env \<Rightarrow> callbacks \<Rightarrow> 'w \<Rightarrow> mqtt_client \<Rightarrow> refresher_pc \<Rightarrow> bool" where
  "part_defined wire env cb w c pc \<longleftrightarrow> (case pc of
     At_sync \<Rightarrow> \<exists>c1 rec. sync_recover cb c = Some (c1, Inr rec) \<and> sync_inspect cb c1 = Some (c1, MQTT_OK)
   | At_recv rec \<Rightarrow> \<exists>fuel. \<forall>r. \<exists>w' c' e. mqtt_recv env fuel r w c = Some (w', c', Some e) \<and> wire w' = wire w
   | At_send rec \<Rightarrow> \<exists>w' c' rv. mqtt_send env w c = Some (w', c', rv) \<and> packets_written wire w w' c (cl_send_offset c'))"

lemma refreshed_part_defined:
  assumes env: "env_ok wire env" and del: "delivers avail env" and c: "refreshed c"
    and broker: "\<And>rec r. pc = At_recv rec \<Longrightarrow> broker_ok env w (c\<lparr>cl_mutex := True\<rparr>) r"
  shows "part_defined wire env cb w c pc"
proof (cases pc)
  case At_sync
  then show ?thesis using refreshed_recover [OF c, of cb] by (auto simp: part_defined_def)
next
  case (At_recv rec)
  have "\<exists>w' c' e. mqtt_recv env (Suc (avail w + cl_recv_curr c)) r w c = Some (w', c', Some e) \<and> wire w' = wire w" for r
    using refreshed_recv [OF env del c broker [OF At_recv]] by blast
  then show ?thesis using At_recv by (auto simp: part_defined_def)
next
  case (At_send rec)
  then show ?thesis using refreshed_send [OF env c, of w] by (auto simp: part_defined_def)
qed

text \<open>
  So any number of rounds of the thread alone is defined, if every call may run as long as it needs, unless a round
  before leaves a packet half-sent.
\<close>

lemma client_refresher_start: "(\<And>k. k < n \<Longrightarrow> f k = g k) \<Longrightarrow> client_refresher env cb f n w c = client_refresher env cb g n w c"
  by (induction n) simp_all

lemma one_round:
  assumes env: "env_ok wire env" and del: "delivers avail env" and c: "refreshed c" and broker: "broker_keeps env cb x"
    and at: "steady_reach env cb x (w, c, At_sync)"
  shows "\<exists>fuel r w' c' rv. mqtt_sync env cb fuel r w c = Some (w', c', Some rv) \<and>
    (cl_send_offset c' = 0 \<longrightarrow> steady_reach env cb x (w', c', At_sync) \<and> refreshed c')"
proof -
  obtain c2 rec where 2: "sync_recover cb c = Some (c2, Inr rec)" "sync_inspect cb c2 = Some (c2, MQTT_OK)" "refreshed c2"
    using refreshed_recover [OF c, of cb] by blast
  have off: "cl_send_offset (fst (snd (w, c2, At_recv rec))) = 0" using 2(3) by (simp add: refreshed_def)
  have at2: "steady_reach env cb x (w, c2, At_recv rec)"
    by (rule steady_more [OF at step_recover [OF 2(1,2)] off])
  fix r
  have b: "broker_ok env w (c2\<lparr>cl_mutex := True\<rparr>) r" using broker at2 by (auto simp: broker_keeps_def)
  let ?fuel = "Suc (avail w + cl_recv_curr c2)"
  obtain w3 c3 e where 3: "mqtt_recv env ?fuel r w c2 = Some (w3, c3, Some e)"
    using refreshed_recv(1) [OF env del 2(3) b, of ?fuel] by auto
  have c3: "refreshed c3" using refreshed_recv(2) [OF env del 2(3) b 3] by simp
  then have "cl_send_offset (fst (snd (w3, c3, if e = MQTT_OK then At_send rec else At_sync))) = 0" by (simp add: refreshed_def)
  note at3 = steady_more [OF at2 step_recv [OF 3, of cb rec] this]
  show ?thesis
  proof (cases "e = MQTT_OK")
    case False
    then have "mqtt_sync env cb ?fuel r w c = Some (w3, c3, Some e)" using sync_is_steps [OF 2(1,2) 3] by simp
    moreover have "steady_reach env cb x (w3, c3, At_sync)" using at3 False by simp
    ultimately show ?thesis using c3 by blast
  next
    case True
    obtain w4 c4 rv where 4: "mqtt_send env w3 c3 = Some (w4, c4, rv)" "cl_send_offset c4 = 0 \<longrightarrow> refreshed c4"
      using refreshed_send [OF env c3, of w3] by (elim exE conjE) (rule that)
    have "same_client c3 c4" by (rule setup_send [OF env _ _ 4(1)]) (use c3 in \<open>simp_all add: refreshed_def\<close>)
    then have call: "\<not> (rec \<and> cl_reconnect_callback c4)" using c3 by (simp add: refreshed_def same_client_def)
    then have "mqtt_sync env cb ?fuel r w c = Some (w4, c4, Some rv)" using sync_is_steps [OF 2(1,2) 3, of w4 c4 rv] 4(1) True by simp
    moreover have "steady_reach env cb x (w4, c4, At_sync)" if "cl_send_offset c4 = 0"
      using steady_more [OF at3 [unfolded True, simplified] step_send [OF 4(1) call]] that by simp
    ultimately show ?thesis using 4(2)
      by (intro exI [of _ ?fuel] exI [of _ r] exI [of _ w4] exI [of _ c4] exI [of _ rv]) simp
  qed
qed

lemma client_refresher_runs:
  assumes env: "env_ok wire env" and del: "delivers avail env" and c: "refreshed c"
    and broker: "broker_keeps env cb (w, c, At_sync)"
  shows "\<exists>start k w' c'. client_refresher env cb start k w c = Some (w', c') \<and>
    (k = n \<and> steady_reach env cb (w, c, At_sync) (w', c', At_sync) \<and> refreshed c' \<or> k \<le> n \<and> cl_send_offset c' \<noteq> 0)"
proof (induction n)
  case 0
  have "client_refresher env cb start 0 w c = Some (w, c)" for start by simp
  then show ?case using steady_start c by fastforce
next
  case (Suc n)
  then obtain start k w1 c1 where 1: "client_refresher env cb start k w c = Some (w1, c1)"
    "k = n \<and> steady_reach env cb (w, c, At_sync) (w1, c1, At_sync) \<and> refreshed c1 \<or> k \<le> n \<and> cl_send_offset c1 \<noteq> 0" by blast
  show ?case
  proof (cases "cl_send_offset c1 = 0")
    case False
    then have "k \<le> Suc n" using 1(2) by auto
    then show ?thesis using 1(1) False by blast
  next
    case True
    then have k: "k = n" "steady_reach env cb (w, c, At_sync) (w1, c1, At_sync)" "refreshed c1" using 1(2) by auto
    obtain fuel r w' c' rv where s: "mqtt_sync env cb fuel r w1 c1 = Some (w', c', Some rv)"
      "cl_send_offset c' = 0 \<longrightarrow> steady_reach env cb (w, c, At_sync) (w', c', At_sync) \<and> refreshed c'"
      using one_round [OF env del k(3) broker k(2)] by (elim exE conjE) (rule that)
    have "client_refresher env cb (start(n := (fuel, r))) n w c = Some (w1, c1)"
      using 1(1) k(1) client_refresher_start [of n "start(n := (fuel, r))" start env cb w c] by simp
    then have "client_refresher env cb (start(n := (fuel, r))) (Suc n) w c = Some (w', c')" using s(1) by simp
    then show ?thesis using s(2) by blast
  qed
qed

end
