(* ===== verification/Mqtt_Framing.thy ===== *)
theory Mqtt_Framing
  imports Client_Refresher
begin

text \<open>
  What goes out to the broker as a stream: whole MQTT packets, one after the other, so that a receiver that only reads
  fixed headers finds their borders. Every message in the queue is such a packet of its own kind, whatever the client
  does; with what a pass over the queue sends, this gives the stream.
\<close>

subsection \<open>A receiver of a stream\<close>

text \<open>It reads a fixed header, with the client's own decoder, and takes as many bytes as that says. The fuel is a packet each.\<close>

definition blank_header :: mqtt_fixed_header where
  "blank_header = \<lparr>control_type = MQTT_CONTROL_CONNECT, control_flags = 0, remaining_length = 0\<rparr>"

primrec split_packets :: "nat \<Rightarrow> u8 list \<Rightarrow> (MQTTControlPacketType \<times> u8 list) list option" where
  "split_packets 0 bs = (if bs = [] then Some [] else None)"
| "split_packets (Suc k) bs =
     (if bs = [] then Some []
      else do {
        (fh, rv) \<leftarrow> mqtt_unpack_fixed_header blank_header bs (Some 0) (length bs);
        (case rv of
           Err e \<Rightarrow> None
         | Cnt n \<Rightarrow>
             if n = 0 then None
             else
               let len = n + unat (remaining_length fh) in
               do { ps \<leftarrow> split_packets k (drop len bs); Some ((control_type fh, take len bs) # ps) })
      })"

text \<open>A packet of a kind: a fixed header that keeps the rules, and as many bytes as it says.\<close>

definition framed :: "MQTTControlPacketType \<Rightarrow> u8 list \<Rightarrow> bool" where
  "framed ct bs \<longleftrightarrow> (\<exists>fh body. bs = enc_fixed_header fh @ body \<and> control_type fh = ct \<and>
     mqtt_fixed_header_rule_violation fh = None \<and> control_flags fh AND 0x0F = control_flags fh \<and>
     unat (remaining_length fh) = length body \<and> length body < 2 ^ 28)"

lemma framed_nonempty: "framed ct bs \<Longrightarrow> bs \<noteq> []"
  by (auto simp: framed_def enc_fixed_header_def)

lemma framed_header:
  assumes "framed ct bs"
  shows "\<exists>fh n. mqtt_unpack_fixed_header fh0 (bs @ behind) (Some 0) (length (bs @ behind)) = Some (fh, Cnt n) \<and>
    0 < n \<and> control_type fh = ct \<and> n + unat (remaining_length fh) = length bs"
proof -
  obtain fh body where fh: "bs = enc_fixed_header fh @ body" "control_type fh = ct" "mqtt_fixed_header_rule_violation fh = None"
    "control_flags fh AND 0x0F = control_flags fh" "unat (remaining_length fh) = length body" "length body < 2 ^ 28"
    using assms by (auto simp: framed_def)
  have "at_mem (bs @ behind) 0 (enc_fixed_header fh)" by (auto simp: fh(1) at_mem_def load_def nth_append)
  then have "mqtt_unpack_fixed_header fh0 (bs @ behind) (Some 0) (length (bs @ behind)) = Some (fh, Cnt (length (enc_fixed_header fh)))"
    by (rule unpack_fixed_header_enc) (use fh in simp_all)
  then show ?thesis using fh by (intro exI [of _ fh] exI [of _ "length (enc_fixed_header fh)"]) (simp add: enc_fixed_header_def)
qed

lemma split_packets_framed:
  "list_all (\<lambda>(ct, bs). framed ct bs) ps \<Longrightarrow> split_packets (length ps) (concat (map snd ps)) = Some ps"
proof (induction ps)
  case (Cons p ps)
  obtain ct bs where p: "p = (ct, bs)" by (cases p)
  have f: "framed ct bs" "split_packets (length ps) (concat (map snd ps)) = Some ps" using Cons p by simp_all
  obtain fh n where h: "mqtt_unpack_fixed_header blank_header (bs @ concat (map snd ps)) (Some 0) (length (bs @ concat (map snd ps))) =
      Some (fh, Cnt n)" "0 < n" "control_type fh = ct" "n + unat (remaining_length fh) = length bs"
    using framed_header [OF f(1)] by blast
  then show ?case using f framed_nonempty [OF f(1)] by (simp add: p Let_def)
qed simp

subsection \<open>The client's packets\<close>

lemmas rule_simps = mqtt_fixed_header_rule_violation_def control_type_is_valid_def required_flags_def mask_required_flags_def

lemma framed_pubxxx:
  assumes "ct \<in> {MQTT_CONTROL_PUBACK, MQTT_CONTROL_PUBREC, MQTT_CONTROL_PUBREL, MQTT_CONTROL_PUBCOMP}"
  shows "framed ct (enc_pubxxx ct pid)"
  using assms unfolding framed_def enc_pubxxx_def
  by (intro exI [of _ "\<lparr>control_type = ct, control_flags = (if ct = MQTT_CONTROL_PUBREL then 2 else 0), remaining_length = 2\<rparr>"]
      exI [of _ "be16 pid"]) (auto simp: rule_simps be16_def)

lemma framed_ping: "framed MQTT_CONTROL_PINGREQ (enc_empty MQTT_CONTROL_PINGREQ)"
  unfolding framed_def enc_empty_def
  by (intro exI [of _ "\<lparr>control_type = MQTT_CONTROL_PINGREQ, control_flags = 0, remaining_length = 0\<rparr>"] exI [of _ "[]"])
    (simp add: rule_simps)

lemma unat_length: "length xs < 2 ^ 28 \<Longrightarrow> unat (of_nat (length xs) :: u32) = length xs"
  by (simp add: unat_of_nat take_bit_nat_eq_self)

lemma framed_subscribe:
  assumes "length topic < 65536"
  shows "framed MQTT_CONTROL_SUBSCRIBE (enc_subscribe pid [(topic, qos)])"
proof -
  let ?body = "subscribe_body pid [(topic, qos)]"
  have small: "length ?body < 2 ^ 28" using assms by (simp add: subscribe_body_def be16_def enc_str_def mqtt_packed_cstrlen_def)
  show ?thesis
    unfolding framed_def enc_subscribe_def
    by (intro exI [of _ "\<lparr>control_type = MQTT_CONTROL_SUBSCRIBE, control_flags = 2, remaining_length = of_nat (length ?body)\<rparr>"]
        exI [of _ ?body]) (use small unat_length [OF small] in \<open>simp add: rule_simps\<close>)
qed

lemma framed_publish:
  assumes "length (publish_body flags topic pid msg) < 2 ^ 28"
  shows "framed MQTT_CONTROL_PUBLISH (enc_publish flags topic pid msg)"
  unfolding framed_def enc_publish_def
  by (intro exI [of _ "\<lparr>control_type = MQTT_CONTROL_PUBLISH, control_flags = flags AND 7,
      remaining_length = of_nat (length (publish_body flags topic pid msg))\<rparr>"] exI [of _ "publish_body flags topic pid msg"])
    (use assms unat_length [OF assms] publish_flag_bits(1) [of flags] in \<open>simp add: rule_simps\<close>)

text \<open>Setting the DUP flag of a PUBLISH for a resend.\<close>

lemma header_byte_dup: "header_byte fh OR MQTT_PUBLISH_DUP = header_byte (fh\<lparr>control_flags := control_flags fh OR 8\<rparr>)"
proof -
  have "\<forall>f :: u8. (f OR 8) AND 0x0F = (f AND 0x0F) OR 8" unfolding all_u8 by code_simp
  then show ?thesis by (simp add: header_byte_def MQTT_PUBLISH_DUP_def or.assoc)
qed

lemma framed_resend: "framed ct bs \<Longrightarrow> framed ct (resend_bytes ct bs)"
proof (cases "ct = MQTT_CONTROL_PUBLISH \<and> qos_of bs = 1")
  case True
  assume "framed ct bs"
  then obtain fh body where fh: "bs = enc_fixed_header fh @ body" "control_type fh = ct"
    "control_flags fh AND 0x0F = control_flags fh" "unat (remaining_length fh) = length body" "length body < 2 ^ 28"
    by (auto simp: framed_def)
  let ?fh = "fh\<lparr>control_flags := control_flags fh OR 8\<rparr>"
  have "resend_bytes ct bs = enc_fixed_header ?fh @ body"
    using True by (simp add: resend_bytes_def fh(1) enc_fixed_header_def header_byte_dup)
  moreover have "mqtt_fixed_header_rule_violation ?fh = None" using True fh(2) by (simp add: rule_simps)
  moreover have "(control_flags fh OR 8) AND 0x0F = control_flags fh OR 8"
    using fh(3) by (simp add: bit.conj_disj_distrib2)
  ultimately show ?thesis using fh unfolding framed_def by (intro exI [of _ ?fh] exI [of _ body]) simp
qed (auto simp: resend_bytes_def)

subsection \<open>Every message in the queue is a packet\<close>

definition queue_framed :: "mqtt_message_queue \<Rightarrow> bool" where
  "queue_framed mq \<longleftrightarrow> (\<forall>x \<in> set (mq_abs mq). framed (q_control_type (snd x)) (fst x))"

lemma queue_framed_at: "queue_framed (cl_mq c) \<longleftrightarrow> (\<forall>j < n_msgs c. framed (q_control_type (snd (msg_at c j))) (fst (msg_at c j)))"
  by (auto simp: queue_framed_def mq_abs_def msg_at_def all_set_conv_all_nth)

text \<open>Queuing drops completed messages at the head, and adds one message at the end.\<close>

lemma queue_packet_entries:
  assumes inv: "client_inv c" and w: "writes_packet pack b" and keep: "\<And>q. q_start (f q) = q_start q \<and> q_size (f q) = q_size q"
    and run: "queue_packet c pack rel f = Some (c', e)"
  shows "\<exists>xs. set xs \<subseteq> set (mq_abs (cl_mq c)) \<and>
    (mq_abs (cl_mq c') = xs \<or> (\<exists>r. mq_abs (cl_mq c') = xs @ [(b, (f r)\<lparr>q_start := 0\<rparr>)]))"
proof (cases "err_code (cl_error c) < 0")
  case True
  then have "cl_mq c' = cl_mq c"
    using run by (auto simp: queue_packet_def MQTT_CLIENT_TRY_PACK_def pack_fails_def mutex_unlock_def split: bind_splits if_splits)
  then show ?thesis by auto
next
  case False
  obtain mq n where mq: "pack_with_retry pack_at mqtt_mq_clean (cl_mq c) pack = Some (mq, Cnt n)"
    "mq_abs mq = mq_abs (cl_mq c) \<or> mq_abs mq = dropWhile msg_done (mq_abs (cl_mq c))"
    "0 < n \<Longrightarrow> mq_abs (mqtt_mq_register mq n) = mq_abs mq @ [mq_entry (cl_mq c) b]"
    using mqueue.retry_ok [OF client_inv_mqD [OF inv] w] by blast
  have sub: "set (mq_abs mq) \<subseteq> set (mq_abs (cl_mq c))" using mq(2) set_dropWhileD by fastforce
  show ?thesis
  proof (cases "n = 0")
    case True
    then have "cl_mq c' = mq"
      using run False mq(1)
      by (auto simp: queue_packet_def MQTT_CLIENT_TRY_PACK_def pack_fails_def mutex_unlock_def Let_def split: bind_splits if_splits)
    then show ?thesis using sub by blast
  next
    case n: False
    then have "cl_mq c' = mq_update (length (mq_msgs mq)) f (mqtt_mq_register mq n)"
      using run False mq(1)
      by (auto simp: queue_packet_def MQTT_CLIENT_TRY_PACK_def mutex_unlock_def mqtt_mq_length_def Let_def split: bind_splits if_splits)
    moreover have "length (mq_abs mq) = length (mq_msgs mq)" by (simp add: mq_abs_def)
    ultimately have "\<exists>r. mq_abs (cl_mq c') = mq_abs mq @ [(b, (f r)\<lparr>q_start := 0\<rparr>)]"
      using mq_abs_update_last [OF keep mq(3) [unfolded mq_entry_def]] n by auto
    then show ?thesis using sub by blast
  qed
qed

lemma queue_packet_framed:
  assumes "client_inv c" "writes_packet pack b" "\<And>q. q_start (f q) = q_start q \<and> q_size (f q) = q_size q"
    and "queue_packet c pack rel f = Some (c', e)" "\<And>r. framed (q_control_type (f r)) b" "queue_framed (cl_mq c)"
  shows "queue_framed (cl_mq c')"
  using queue_packet_entries [OF assms(1-4)] assms(5,6) unfolding queue_framed_def by fastforce

subsection \<open>Receiving and sending keep it\<close>

definition framing_kept :: "mqtt_client \<Rightarrow> mqtt_client \<Rightarrow> bool" where
  "framing_kept c c' \<longleftrightarrow> (queue_framed (cl_mq c) \<longrightarrow> queue_framed (cl_mq c'))"

lemma queue_framed_update:
  assumes "\<And>q. q_start (f q) = q_start q \<and> q_size (f q) = q_size q \<and> q_control_type (f q) = q_control_type q"
  shows "queue_framed (cl_mq (update_msg i f c)) = queue_framed (cl_mq c)"
proof -
  have "framed (q_control_type (snd (msg_at (update_msg i f c) j))) (fst (msg_at (update_msg i f c) j)) =
      framed (q_control_type (snd (msg_at c j))) (fst (msg_at c j))" if "j < n_msgs c" for j
    using msg_at_update [of f j c i] assms that by simp
  then show ?thesis by (simp add: queue_framed_at)
qed

lemma reply_framed:
  assumes "client_inv c" "ct \<in> {MQTT_CONTROL_PUBACK, MQTT_CONTROL_PUBREC, MQTT_CONTROL_PUBREL, MQTT_CONTROL_PUBCOMP}"
    and "mqtt_pubxxx ct c pid = Some (c', e)"
  shows "framing_kept c c'"
  using queue_packet_framed [OF assms(1) pubxxx_writes [OF assms(2)] _ assms(3) [unfolded mqtt_pubxxx_def]] framed_pubxxx [OF assms(2)]
  by (simp add: framing_kept_def)

interpretation framing: receive_frame framing_kept
  by unfold_locales (use reply_framed in \<open>auto simp: framing_kept_def queue_framed_update\<close>)

lemma pass_framed:
  assumes "passed c c' 0 e" "n_msgs c' = n_msgs c" "queue_framed (cl_mq c)"
  shows "queue_framed (cl_mq c')"
proof -
  have "framed (q_control_type (snd (msg_at c' j))) (fst (msg_at c' j))" if j: "j < n_msgs c" for j
  proof -
    have "moved (msg_at c j) (msg_at c' j)" "framed (q_control_type (snd (msg_at c j))) (fst (msg_at c j))"
      using assms(1,3) j by (simp_all add: passed_def queue_framed_at)
    then show ?thesis using framed_resend by (auto simp: moved_def split: option.splits)
  qed
  then show ?thesis using assms(2) by (simp add: queue_framed_at)
qed

lemma keep_alive_framed:
  assumes "client_inv c" "keep_alive_check env w c = Some (w', c', rv)"
  shows "framing_kept c c'"
proof -
  have p: "framing_kept c d" if "mqtt_ping_locked c = Some (d, e)" for d e
    using queue_packet_framed [OF assms(1) ping_writes _ that [unfolded mqtt_ping_locked_def]] framed_ping
    by (simp add: framing_kept_def)
  have "c' = c \<or> (\<exists>d e. mqtt_ping_locked c = Some (d, e) \<and> (c' = d \<or> c' = d\<lparr>cl_error := e\<rparr>))"
    using assms(2) by (auto simp: keep_alive_check_def Let_def bind_eq_Some_conv split: prod.splits if_splits)
  then show ?thesis using p by (auto simp: framing_kept_def)
qed

lemma send_framed:
  assumes env: "env_ok wire env" and inv: "client_inv c" and fits: "offset_fits c 0" and run: "mqtt_send env w c = Some (w', c', rv)"
  shows "framing_kept c c'"
proof (cases "err_code (cl_error c) < 0 \<and> cl_error c \<noteq> MQTT_ERROR_SEND_BUFFER_IS_FULL")
  case True
  then show ?thesis using run by (auto simp: mqtt_send_def mutex_lock_def mutex_unlock_def Let_def framing_kept_def split: if_splits)
next
  case False
  let ?c = "c\<lparr>cl_mutex := True\<rparr>"
  have "offset_fits ?c 0" "client_inv ?c" "0 + n_msgs ?c = n_msgs ?c" using inv fits by (simp_all add: offset_fits_def msg_state_def)
  then obtain w1 c1 e where l: "send_loop env w ?c 0 False (n_msgs ?c) = Some (w1, c1, e)" "client_inv c1" "send_frame ?c c1" "passed ?c c1 0 e"
    using send_loop_ok [OF env, of ?c 0 "n_msgs ?c" False w] by auto
  have k1: "framing_kept c c1"
    using pass_framed [OF l(4)] l(3) by (auto simp: framing_kept_def send_frame_def)
  have run': "(case e of Return err \<Rightarrow> do { c \<leftarrow> mutex_unlock c1; Some (w1, c, err) }
      | _ \<Rightarrow> do { (w, c, rv) \<leftarrow> keep_alive_check env w1 c1; c \<leftarrow> mutex_unlock c; Some (w, c, rv) }) = Some (w', c', rv)"
    using run False l(1) by (auto simp: mqtt_send_def mutex_lock_def mqtt_mq_length_def Let_def split: if_splits)
  show ?thesis
  proof (cases "\<exists>err. e = Return err")
    case True
    then show ?thesis using run' k1 by (auto simp: mutex_unlock_def framing_kept_def split: if_splits)
  next
    case False
    then obtain w2 c2 rv2 where "keep_alive_check env w1 c1 = Some (w2, c2, rv2)" "mutex_unlock c2 = Some c'"
      using run' by (cases e) (auto simp: bind_eq_Some_conv)
    then show ?thesis using keep_alive_framed [OF l(2)] k1 by (auto simp: mutex_unlock_def framing_kept_def split: if_splits)
  qed
qed

lemma subscribe_framed:
  assumes inv: "client_inv c" and topic: "length topic < 65536" and run: "mqtt_subscribe c topic qos = Some (c', e)"
  shows "framing_kept c c'"
proof -
  obtain pid where pid: "queue_packet (c\<lparr>cl_mutex := True, cl_pid_lfsr := pid\<rparr>)
      (\<lambda>m p n. mqtt_pack_subscribe_request m p n (ucast pid) [(topic, qos)]) True
      (\<lambda>q. q\<lparr>q_control_type := MQTT_CONTROL_SUBSCRIBE, q_packet_id := pid\<rparr>) = Some (c', e)"
    using run by (auto simp: mqtt_subscribe_def mutex_lock_def client_next_pid_def bind_eq_Some_conv split: if_splits)
  have "queue_framed (cl_mq c')" if "queue_framed (cl_mq c)"
    by (rule queue_packet_framed [OF _ subscribe_writes_pid [OF topic] _ pid]) (use inv that framed_subscribe [OF topic] in simp_all)
  then show ?thesis by (simp add: framing_kept_def)
qed

subsection \<open>The stream\<close>

text \<open>What went out between two worlds, as packets with their kinds.\<close>

definition stream_grows :: "('w \<Rightarrow> u8 list) \<Rightarrow> 'w \<Rightarrow> 'w \<Rightarrow> bool" where
  "stream_grows wire w w' \<longleftrightarrow> (\<exists>ps. list_all (\<lambda>(ct, bs). framed ct bs) ps \<and> wire w' = wire w @ concat (map snd ps))"

lemma stream_grows_same: "wire w' = wire w \<Longrightarrow> stream_grows wire w w'"
  unfolding stream_grows_def by (intro exI [of _ "[]"]) simp

lemma stream_grows_trans: "stream_grows wire w w1 \<Longrightarrow> stream_grows wire w1 w2 \<Longrightarrow> stream_grows wire w w2"
proof -
  assume "stream_grows wire w w1" "stream_grows wire w1 w2"
  then obtain ps qs where "list_all (\<lambda>(ct, bs). framed ct bs) ps" "wire w1 = wire w @ concat (map snd ps)"
    "list_all (\<lambda>(ct, bs). framed ct bs) qs" "wire w2 = wire w1 @ concat (map snd qs)" by (auto simp: stream_grows_def)
  then show ?thesis unfolding stream_grows_def by (intro exI [of _ "ps @ qs"]) simp
qed

lemma with_kinds: "\<forall>b \<in> set bs. \<exists>ct. framed ct b \<Longrightarrow> \<exists>ps. list_all (\<lambda>(ct, bs). framed ct bs) ps \<and> map snd ps = bs"
proof (induction bs)
  case (Cons b bs)
  then obtain ct ps where "framed ct b" "list_all (\<lambda>(ct, bs). framed ct bs) ps" "map snd ps = bs" by auto
  then show ?case by (intro exI [of _ "(ct, b) # ps"]) simp
qed simp

text \<open>
  The same, and at most the beginning of one message of the queue behind it, whose length is the offset that the client
  keeps.
\<close>

definition stream_ends :: "('w \<Rightarrow> u8 list) \<Rightarrow> 'w \<Rightarrow> mqtt_client \<Rightarrow> 'w \<Rightarrow> nat \<Rightarrow> bool" where
  "stream_ends wire w c w' offset \<longleftrightarrow> (\<exists>ps part. list_all (\<lambda>(ct, bs). framed ct bs) ps \<and>
     wire w' = wire w @ concat (map snd ps) @ part \<and>
     (part = [] \<or> (\<exists>b \<in> fst ` set (mq_abs (cl_mq c)). strict_prefix part b \<and> offset = length part)))"

lemma stream_ends_whole: "stream_grows wire w w' \<Longrightarrow> stream_ends wire w c w' n"
  unfolding stream_grows_def stream_ends_def by force

lemma stream_grows_ends: "stream_grows wire w w1 \<Longrightarrow> stream_ends wire w1 c w2 n \<Longrightarrow> stream_ends wire w c w2 n"
proof -
  assume "stream_grows wire w w1" "stream_ends wire w1 c w2 n"
  then obtain ps qs part where "list_all (\<lambda>(ct, bs). framed ct bs) ps" "wire w1 = wire w @ concat (map snd ps)"
    "list_all (\<lambda>(ct, bs). framed ct bs) qs" "wire w2 = wire w1 @ concat (map snd qs) @ part"
    "part = [] \<or> (\<exists>b \<in> fst ` set (mq_abs (cl_mq c)). strict_prefix part b \<and> n = length part)"
    unfolding stream_grows_def stream_ends_def by (elim exE conjE) (rule that)
  then show ?thesis unfolding stream_ends_def by (intro exI [of _ "ps @ qs"] exI [of _ part]) simp
qed

lemma stream_ends_steady: "stream_ends wire w c w' 0 \<Longrightarrow> stream_grows wire w w'"
  unfolding stream_grows_def stream_ends_def by fastforce

lemma packets_written_stream:
  assumes "packets_written wire w w' c n" "queue_framed (cl_mq c)"
  shows "stream_ends wire w c w' n"
proof -
  obtain sent part j where s: "subseq sent (map (\<lambda>j. fst (msg_at c j)) [0..<n_msgs c])"
    "part = [] \<or> j < n_msgs c \<and> strict_prefix part (fst (msg_at c j)) \<and> n = length part"
    "wire w' = wire w @ concat sent @ part"
    using assms(1) unfolding packets_written_def by blast
  have msg: "fst (msg_at c j) \<in> fst ` set (mq_abs (cl_mq c))" if "j < n_msgs c" for j
    using that by (simp add: msg_at_def mq_abs_def image_image)
  have "b \<in> (\<lambda>j. fst (msg_at c j)) ` {0..<n_msgs c}" if "b \<in> set sent" for b
    using list_emb_set [OF s(1) that] by auto
  then have "\<forall>b \<in> set sent. \<exists>ct. framed ct b" using assms(2) by (fastforce simp: queue_framed_at)
  then obtain ps where "list_all (\<lambda>(ct, bs). framed ct bs) ps" "map snd ps = sent" using with_kinds by blast
  moreover have "part = [] \<or> (\<exists>b \<in> fst ` set (mq_abs (cl_mq c)). strict_prefix part b \<and> n = length part)"
    using s(2) msg by blast
  ultimately show ?thesis using s(3) unfolding stream_ends_def by (intro exI [of _ ps] exI [of _ part]) simp
qed

lemma step_framed:
  assumes env: "env_ok wire env" and del: "delivers avail env"
    and broker: "\<And>rec r. pc = At_recv rec \<Longrightarrow> broker_ok env w (c\<lparr>cl_mutex := True\<rparr>) r"
    and step: "client_step env cb (w, c, pc) (w', c', pc')" and c: "refreshed c" "queue_framed (cl_mq c)"
  shows "queue_framed (cl_mq c') \<and> stream_ends wire w c w' (cl_send_offset c')"
proof (rule client_stepE [OF step])
  fix c1 reconnecting
  assume "sync_recover cb c = Some (c1, Inr reconnecting)" "sync_inspect cb c1 = Some (c', MQTT_OK)" "w' = w"
  then show ?thesis using c
    by (auto simp: sync_recover_def sync_inspect_def mutex_lock_def mutex_unlock_def refreshed_def Let_def stream_grows_same
        stream_ends_whole split: if_splits)
next
  fix fuel response e reconnecting
  assume run: "mqtt_recv env fuel response w c = Some (w', c', Some e)" and pc: "pc = At_recv reconnecting"
  have b: "broker_ok env w (c\<lparr>cl_mutex := True\<rparr>) response" using broker [OF pc] .
  have c1: "client_inv (c\<lparr>cl_mutex := True\<rparr>)" "cl_mutex (c\<lparr>cl_mutex := True\<rparr>)" using c(1) by (simp_all add: refreshed_def)
  obtain w2 c2 ret where l: "recv_loop env fuel w (c\<lparr>cl_mutex := True\<rparr>) response = Some (w2, c2, ret)" "cl_mq c' = cl_mq c2"
    using run c(1) by (auto simp: mqtt_recv_def mutex_lock_def mutex_unlock_def refreshed_def bind_eq_Some_conv split: if_splits option.splits)
  have "framing_kept (c\<lparr>cl_mutex := True\<rparr>) c2" by (rule framing.recv_loop_frame [OF env del c1 b l(1)])
  moreover have "wire w' = wire w" using refreshed_recv(2) [OF env del c(1) b run] by simp
  ultimately show ?thesis using c(2) l(2) by (simp add: framing_kept_def stream_grows_same stream_ends_whole)
next
  fix rv
  assume run: "mqtt_send env w c = Some (w', c', rv)"
  have inv: "client_inv c" "offset_fits c 0" "cl_send_offset c = 0" using c(1) by (simp_all add: refreshed_def offset_fits_def)
  have "packets_written wire w w' c (cl_send_offset c')" using refreshed_send [OF env c(1), of w] run by auto
  then show ?thesis using packets_written_stream c(2) send_framed [OF env inv(1,2) run] by (auto simp: framing_kept_def)
next
  fix topic qos e
  assume "mqtt_subscribe c topic qos = Some (c', e)" "length topic < 65536" "w' = w"
  then show ?thesis using subscribe_framed [of c topic qos c' e] c
    by (simp add: refreshed_def framing_kept_def stream_grows_same stream_ends_whole)
qed

lemma reach_framed:
  assumes env: "env_ok wire env" and del: "delivers avail env" and broker: "broker_keeps env cb x"
  shows "steady_reach env cb x y \<Longrightarrow> refreshed (fst (snd x)) \<Longrightarrow> queue_framed (cl_mq (fst (snd x))) \<Longrightarrow>
    queue_framed (cl_mq (fst (snd y))) \<and> stream_grows wire (fst x) (fst y)"
proof (induction rule: steady_reach.induct)
  case (steady_more y z)
  obtain w c pc w' c' pc' where yz: "y = (w, c, pc)" "z = (w', c', pc')" by (metis prod_cases3)
  have y: "queue_framed (cl_mq c)" "stream_grows wire (fst x) w" using steady_more yz by simp_all
  have c: "refreshed c" using reach_refreshed [OF env del broker steady_more.hyps(1)] steady_more.prems(1) yz by simp
  have "queue_framed (cl_mq c') \<and> stream_ends wire w c w' (cl_send_offset c')"
    by (rule step_framed [OF env del _ steady_more.hyps(2) [unfolded yz] c y(1)])
      (use steady_more.hyps(1) broker yz in \<open>auto simp: broker_keeps_def\<close>)
  moreover have "cl_send_offset c' = 0" using steady_more.hyps(3) yz by simp
  ultimately have "queue_framed (cl_mq c')" "stream_grows wire w w'" using stream_ends_steady by auto
  then show ?case using y(2) yz stream_grows_trans by auto
qed (simp add: stream_grows_same)

end
