(* ===== verification/Mqtt_Offset.thy ===== *)
theory Mqtt_Offset
  imports Mqtt_Properties
begin

text \<open>
  The offset of a half-sent message is kept in the client, not with the message. If the next pass comes to another
  message first, it goes on with that one from the offset.
\<close>

subsection \<open>The first message that is still to be sent\<close>

lemma complete_skipped:
  assumes "i < n_msgs c" "msg_state c i = MQTT_QUEUED_COMPLETE"
  shows "send_message env w c i fl = Some (w, c, fl, Go_on)"
  using assms by (simp add: send_message_def mqtt_mq_get_def check_resend_def hold_back_qos2_def msg_state_def msg_at_def)

lemma unsent_overruns:
  assumes "client_inv c" "i < n_msgs c" "msg_state c i = MQTT_QUEUED_UNSENT" "q_size (snd (msg_at c i)) < cl_send_offset c"
  shows "send_message env w c i False = None"
  using assms hold_back_ok [OF assms(1,2), of True False]
  by (simp add: send_message_def mqtt_mq_get_def check_resend_def msg_state_def msg_at_def transmit_def)

lemma pass_overruns:
  assumes "client_inv c" "i < n_msgs c" "msg_state c i = MQTT_QUEUED_UNSENT" "q_size (snd (msg_at c i)) < cl_send_offset c"
    and before: "\<And>j. j < i \<Longrightarrow> msg_state c j = MQTT_QUEUED_COMPLETE"
  shows "j \<le> i \<Longrightarrow> send_loop env w c j False (n_msgs c - j) = None"
proof (induction "i - j" arbitrary: j)
  case 0
  then have "j = i" "n_msgs c - j = Suc (n_msgs c - Suc j)" using assms(2) by simp_all
  then show ?case using unsent_overruns [OF assms(1-4), of env w] by simp
next
  case (Suc d)
  then have "j < i" "n_msgs c - j = Suc (n_msgs c - Suc j)" using assms(2) by simp_all
  then show ?case using Suc.hyps(1) [of "Suc j"] Suc.hyps(2) complete_skipped [of j c env w False] before assms(2) by simp
qed

text \<open>Nothing is sent before the first pending message, and if it is shorter than the offset, that is out of bounds.\<close>

lemma first_pending_overruns:
  assumes inv: "client_inv c" and first: "pending c = (b, q) # rest" and q: "q_state q = MQTT_QUEUED_UNSENT"
    and short: "length b < cl_send_offset c"
  shows "send_loop env w c 0 False (n_msgs c) = None"
proof -
  have abs: "mq_abs (cl_mq c) ! j = (fst (msg_at c j), (snd (msg_at c j))\<lparr>q_start := 0\<rparr>)" if "j < n_msgs c" for j
    using that by (simp add: mq_abs_def msg_at_def)
  obtain us vs where s: "mq_abs (cl_mq c) = us @ (b, q) # vs" "\<forall>u \<in> set us. msg_done u"
    using first by (auto simp: pending_def filter_eq_Cons_iff)
  have len: "n_msgs c = length (mq_abs (cl_mq c))" by (simp add: mq_abs_def)
  then have i: "length us < n_msgs c" using s(1) by simp
  have at: "fst (msg_at c (length us)) = b" "(snd (msg_at c (length us)))\<lparr>q_start := 0\<rparr> = q"
    using abs [OF i] s(1) by simp_all
  have "msg_state c (length us) = MQTT_QUEUED_UNSENT" using at(2) q by (auto simp: msg_state_def)
  moreover have "q_size (snd (msg_at c (length us))) < cl_send_offset c"
    using msg_in_client(3) [OF inv i] at(1) short by (simp add: msg_at_def)
  moreover have "msg_state c j = MQTT_QUEUED_COMPLETE" if "j < length us" for j
  proof -
    have "mq_abs (cl_mq c) ! j \<in> set us" using s(1) that by (simp add: nth_append)
    then have "msg_done (mq_abs (cl_mq c) ! j)" using s(2) by blast
    then show ?thesis using abs [of j] that i by (simp add: msg_done_def msg_state_def)
  qed
  ultimately show ?thesis using pass_overruns [OF inv i, of 0 env w] by simp
qed

subsection \<open>How it comes about\<close>

text \<open>A pass leaves an unacknowledged QoS 2 PUBLISH at the head, and one that is held back behind it.\<close>

lemma held_back_kept:
  assumes env: "env_ok wire env" and inv: "client_inv c" and off: "cl_send_offset c = 0" and n: "1 < n_msgs c"
    and q2: "open_qos2 c 0" "open_qos2 c 1"
    and run: "send_loop env w c 0 False (n_msgs c) = Some (w1, c1, Break)"
  shows "client_inv c1 \<and> n_msgs c1 = n_msgs c \<and> cl_mutex c1 = cl_mutex c \<and> cl_error c1 = cl_error c \<and> msg_at c1 1 = msg_at c 1 \<and>
    (\<forall>j < n_msgs c. q_control_type (snd (msg_at c1 j)) = q_control_type (snd (msg_at c j)) \<and>
       q_packet_id (snd (msg_at c1 j)) = q_packet_id (snd (msg_at c j)))"
proof -
  have "offset_fits c 0" using off by (simp add: offset_fits_def)
  then obtain w' c' e' where r: "send_loop env w c 0 False (n_msgs c) = Some (w', c', e')" "client_inv c'" "send_frame c c'" "passed c c' 0 e'"
    using send_loop_ok [OF env inv, of 0 "n_msgs c" False w] by auto
  have e: "c' = c1" "e' = Break" using r(1) run by simp_all
  have p: "\<forall>j < n_msgs c. moved (msg_at c j) (msg_at c1 j)" "cl_error c1 = cl_error c"
      "open_qos2 c 1 \<and> msg_at c1 1 \<noteq> msg_at c 1 \<longrightarrow> \<not> open_qos2 c 0"
    using r(4) n unfolding e passed_def by (blast, simp, auto)
  have "q_control_type (snd (msg_at c1 j)) = q_control_type (snd (msg_at c j)) \<and>
      q_packet_id (snd (msg_at c1 j)) = q_packet_id (snd (msg_at c j))" if "j < n_msgs c" for j
    using p(1) that by (auto simp: moved_def split: option.splits)
  then show ?thesis using r(2,3) p(2,3) q2 unfolding e by (auto simp: send_frame_def)
qed

lemma queue_packet_error:
  assumes "client_inv c" "writes_packet pack b" "cl_error c = MQTT_OK" "queue_packet c pack False f = Some (c', e)"
  shows "e = MQTT_OK \<or> e = MQTT_ERROR_SEND_BUFFER_IS_FULL"
proof -
  obtain mq n where "pack_with_retry pack_at mqtt_mq_clean (cl_mq c) pack = Some (mq, Cnt n)"
    using mqueue.retry_ok [OF client_inv_mqD [OF assms(1)] assms(2)] by blast
  then show ?thesis
    using assms(3,4) by (auto simp: queue_packet_def MQTT_CLIENT_TRY_PACK_def pack_fails_def Let_def split: if_splits)
qed

text \<open>The PUBREC for the one at the head brings the other to the front.\<close>

lemma pubrec_advances:
  assumes inv: "client_inv c" and locked: "cl_mutex c" and ok: "cl_error c = MQTT_OK" and n: "1 < n_msgs c"
    and head: "q_control_type (snd (msg_at c 0)) = MQTT_CONTROL_PUBLISH" "q_packet_id (snd (msg_at c 0)) = pid"
    and held: "msg_state c 1 \<noteq> MQTT_QUEUED_COMPLETE"
    and fresh: "\<forall>j < n_msgs c. q_control_type (snd (msg_at c j)) \<noteq> MQTT_CONTROL_PUBREL"
  shows "\<exists>w' c' e rest. handle_pubrec env w c pid = Some (w', c', e) \<and> client_inv c' \<and> cl_mutex c' \<and>
    cl_send_offset c' = cl_send_offset c \<and> (cl_error c' = MQTT_OK \<or> cl_error c' = MQTT_ERROR_SEND_BUFFER_IS_FULL) \<and>
    pending c' = (fst (msg_at c 1), (snd (msg_at c 1))\<lparr>q_start := 0\<rparr>) # rest"
proof -
  obtain q0 q1 qs where msgs: "mq_msgs (cl_mq c) = q0 # q1 # qs"
    using n by (cases "mq_msgs (cl_mq c)"; cases "tl (mq_msgs (cl_mq c))") auto
  have ids: "q_control_type q0 = MQTT_CONTROL_PUBLISH" "q_packet_id q0 = pid" using head by (simp_all add: msg_at_def msgs)
  have "\<forall>q \<in> set (mq_msgs (cl_mq c)). q_control_type q \<noteq> MQTT_CONTROL_PUBREL"
    using fresh by (auto simp: msg_at_def in_set_conv_nth)
  then have rel: "mqtt_mq_find (cl_mq c) MQTT_CONTROL_PUBREL (Some pid) = None"
    by (auto simp: mqtt_mq_find_def msg_matches_def find_msg_None)
  have pub: "mqtt_mq_find (cl_mq c) MQTT_CONTROL_PUBLISH (Some pid) = Some 0"
    using ids by (simp add: mqtt_mq_find_def msg_matches_def msgs upt_from)
  have get: "mqtt_mq_get (cl_mq c) 0 = Some q0" using n by (simp add: mqtt_mq_get_def msgs)
  obtain w' now where t: "sys_time env w = (w', now)" by (cases "sys_time env w")
  let ?c = "update_response_time (now - q_time_sent q0) (update_msg 0 (\<lambda>q. q\<lparr>q_state := MQTT_QUEUED_COMPLETE\<rparr>) c)"
  have inv': "client_inv ?c" "cl_mutex ?c" "cl_send_offset ?c = cl_send_offset c" "cl_error ?c = cl_error c"
    using inv locked by (simp_all add: update_response_time_def client_inv_update)
  have pend: "pending ?c = (fst (msg_at c 1), (snd (msg_at c 1))\<lparr>q_start := 0\<rparr>) #
      filter (\<lambda>x. \<not> msg_done x) (map (\<lambda>q. (msg_bytes (mq_mem (cl_mq c)) q, q\<lparr>q_start := 0\<rparr>)) qs)"
    using held by (simp add: pending_def mq_abs_def update_response_time_def update_msg_def mq_update_def msgs msg_done_def
        msg_state_def msg_at_def)
  obtain c' e where r: "mqtt_pubxxx MQTT_CONTROL_PUBREL ?c pid = Some (c', e)" "client_inv c'" "cl_mutex c'"
    "queued ?c c' e (enc_pubxxx MQTT_CONTROL_PUBREL pid) (\<lambda>q. q\<lparr>q_control_type := MQTT_CONTROL_PUBREL, q_packet_id := pid\<rparr>)"
    "queue_frame ?c c'"
    using pubxxx_ok [OF inv'(1,2), of MQTT_CONTROL_PUBREL pid] by auto
  have run: "handle_pubrec env w c pid = Some (w', if e = MQTT_OK then c' else c'\<lparr>cl_error := e\<rparr>, e)"
    using rel pub get t r(1) by (simp add: handle_pubrec_def release_msg_def stage_reply_def mqtt_pubrel_def recv_fails_def)
  have "e = MQTT_OK \<or> e = MQTT_ERROR_SEND_BUFFER_IS_FULL"
    by (rule queue_packet_error [OF inv'(1) pubxxx_writes]) (use r(1) inv'(4) ok in \<open>simp_all add: mqtt_pubxxx_def\<close>)
  then show ?thesis
    using run r(2-4) queue_frameD(1) [OF r(5)] pend inv'(3,4) ok by (cases "e = MQTT_OK") (auto simp: queued_def)
qed

text \<open>
  C21: The offset of a half-sent message is lost to another one. A pass that finds an unacknowledged QoS 2 PUBLISH at the head
  of the queue holds a second one back and stops in the middle of a third message. After the PUBREC for the first, the
  next pass sends the second from the offset of the third; if it is shorter, the unsigned length of the rest wraps
  around and \<open>__mqtt_send\<close> reads outside the buffer.
\<close>

theorem stale_offset_undefined:
  assumes "env_ok wire env" "client_inv c" "cl_mutex c" "cl_error c = MQTT_OK" "cl_send_offset c = 0"
    and "1 < length (mq_msgs (cl_mq c))" "open_qos2 c 0" "q_packet_id (snd (msg_at c 0)) = pid"
    and "open_qos2 c 1" "msg_state c 1 = MQTT_QUEUED_UNSENT"
    and "\<forall>q \<in> set (mq_msgs (cl_mq c)). q_control_type q \<noteq> MQTT_CONTROL_PUBREL"
    and "send_loop env w c 0 False (length (mq_msgs (cl_mq c))) = Some (w1, c1, Break)"
    and "length (fst (msg_at c 1)) < cl_send_offset c1"
  shows "\<exists>w3 c2 e. handle_pubrec env w2 c1 pid = Some (w3, c2, e) \<and>
    (\<forall>w4. mqtt_send env w4 (c2\<lparr>cl_mutex := False\<rparr>) = None)"
proof -
  have k: "client_inv c1" "n_msgs c1 = n_msgs c" "cl_mutex c1" "cl_error c1 = MQTT_OK" "msg_at c1 1 = msg_at c 1"
    "\<forall>j < n_msgs c. q_control_type (snd (msg_at c1 j)) = q_control_type (snd (msg_at c j)) \<and>
       q_packet_id (snd (msg_at c1 j)) = q_packet_id (snd (msg_at c j))"
    using held_back_kept [OF assms(1,2,5,6,7,9,12)] assms(3,4) by simp_all
  have head: "q_control_type (snd (msg_at c1 0)) = MQTT_CONTROL_PUBLISH" "q_packet_id (snd (msg_at c1 0)) = pid"
    using spec [OF k(6), of 0] assms(6-8) by (auto simp: open_qos2_def)
  have held: "msg_state c1 1 \<noteq> MQTT_QUEUED_COMPLETE" using k(5) assms(10) by (simp add: msg_state_def)
  have fresh: "\<forall>j < n_msgs c1. q_control_type (snd (msg_at c1 j)) \<noteq> MQTT_CONTROL_PUBREL"
    using k(2,6) assms(11) by (simp add: msg_at_def)
  have n: "1 < n_msgs c1" using k(2) assms(6) by simp
  obtain w3 c2 e rest where p: "handle_pubrec env w2 c1 pid = Some (w3, c2, e)" "client_inv c2" "cl_send_offset c2 = cl_send_offset c1"
    "cl_error c2 = MQTT_OK \<or> cl_error c2 = MQTT_ERROR_SEND_BUFFER_IS_FULL"
    "pending c2 = (fst (msg_at c1 1), (snd (msg_at c1 1))\<lparr>q_start := 0\<rparr>) # rest"
    using pubrec_advances [OF k(1,3,4) n head held fresh, of env w2] by blast
  have "send_loop env w4 (c2\<lparr>cl_mutex := True\<rparr>) 0 False (n_msgs (c2\<lparr>cl_mutex := True\<rparr>)) = None" for w4
    by (rule first_pending_overruns [where b = "fst (msg_at c1 1)" and q = "(snd (msg_at c1 1))\<lparr>q_start := 0\<rparr>" and rest = rest])
      (use p(2,3,5) k(5) assms(10,13) in \<open>simp_all add: msg_state_def\<close>)
  then have "mqtt_send env w4 (c2\<lparr>cl_mutex := False\<rparr>) = None" for w4
    using p(4) by (auto simp: mqtt_send_def mutex_lock_def mqtt_mq_length_def Let_def)
  then show ?thesis using p(1) by blast
qed

text \<open>Two QoS 2 messages of seven bytes, the first unacknowledged, and one of twelve bytes.\<close>

definition stuffed_client :: mqtt_client where
  "stuffed_client = (idle_client 200 True MQTT_OK)\<lparr>cl_mq :=
     mq_update 0 (\<lambda>q. q\<lparr>q_control_type := MQTT_CONTROL_PUBLISH, q_packet_id := 7, q_state := MQTT_QUEUED_AWAITING_ACK,
       q_time_sent := 90\<rparr>)
     (mq_update 1 (\<lambda>q. q\<lparr>q_control_type := MQTT_CONTROL_PUBLISH, q_packet_id := 8\<rparr>)
     (mq_update 2 (\<lambda>q. q\<lparr>q_control_type := MQTT_CONTROL_PUBLISH, q_packet_id := 9\<rparr>)
       (mqtt_mq_register (mqtt_mq_register (mqtt_mq_register (mqtt_mq_init blank_queue
         (Some ([0x34, 5, 0, 1, 97, 0, 7, 0x34, 5, 0, 1, 98, 0, 8, 0x30, 10, 0, 1, 99, 1, 2, 3, 4, 5, 6, 7] @ replicate 174 0)))
         7) 7) 12)))\<rparr>"

lemma stuffed_client_inv: "client_inv stuffed_client"
proof -
  have "mq_inv (cl_mq stuffed_client)"
    unfolding stuffed_client_def
    by (simp, subst mq_update_inv, simp, subst mq_update_inv, simp, subst mq_update_inv, simp, rule mq_register_inv,
        rule mq_register_inv, rule mq_register_inv, rule mq_init_inv)
      (simp_all add: mqtt_mq_register_def mqtt_mq_init_def set_curr_sz_def mqtt_mq_currsz_def queue_tail_def
        mem_end_def sizeof_queued_message_def Let_def)
  then show ?thesis by (simp add: stuffed_client_def)
qed

lemma stuffed_client_eval:
  "mq_msgs (cl_mq stuffed_client) =
     [blank_msg\<lparr>q_size := 7, q_state := MQTT_QUEUED_AWAITING_ACK, q_time_sent := 90, q_control_type := MQTT_CONTROL_PUBLISH,
        q_packet_id := 7\<rparr>,
      blank_msg\<lparr>q_start := 7, q_size := 7, q_control_type := MQTT_CONTROL_PUBLISH, q_packet_id := 8\<rparr>,
      blank_msg\<lparr>q_start := 14, q_size := 12, q_control_type := MQTT_CONTROL_PUBLISH, q_packet_id := 9\<rparr>]"
  "mq_mem (cl_mq stuffed_client) = [0x34, 5, 0, 1, 97, 0, 7, 0x34, 5, 0, 1, 98, 0, 8, 0x30, 10, 0, 1, 99, 1, 2, 3, 4, 5, 6, 7] @
     replicate 174 0"
  "cl_response_timeout stuffed_client = 30" "cl_send_offset stuffed_client = 0" "cl_mutex stuffed_client"
  "cl_error stuffed_client = MQTT_OK"
  by (simp_all add: stuffed_client_def mq_update_def
      mqtt_mq_register_def mqtt_mq_init_def set_curr_sz_def Let_def blank_queue_def idle_client_def blank_msg_def)

theorem stale_offset_undefined_witness:
  "\<exists>w1 c1 w3 c2 e. send_loop throttled_env ([9, 0, 99], []) stuffed_client 0 False 3 = Some (w1, c1, Break) \<and>
     handle_pubrec throttled_env w1 c1 7 = Some (w3, c2, e) \<and> mqtt_send throttled_env w3 (c2\<lparr>cl_mutex := False\<rparr>) = None"
proof -
  note ev = send_message_def mqtt_mq_get_def stuffed_client_eval check_resend_def blank_msg_def throttled_env_def
    hold_back_qos2_def load_def header_qos_def transmit_def mqtt_pal_sendall_def read_bytes_def sendall_loop.simps EAGAIN_def
  have run: "send_loop throttled_env ([9, 0, 99], []) stuffed_client 0 False 3 =
      Some (([99], [0x30, 10, 0, 1, 99, 1, 2, 3, 4]), stuffed_client\<lparr>cl_send_offset := 9\<rparr>, Break)"
    by (simp add: ev numeral_3_eq_3 Let_def)
  have len: "length (mq_msgs (cl_mq stuffed_client)) = 3" by (simp add: stuffed_client_eval)
  have run': "send_loop throttled_env ([9, 0, 99], []) stuffed_client 0 False (length (mq_msgs (cl_mq stuffed_client))) =
      Some (([99], [0x30, 10, 0, 1, 99, 1, 2, 3, 4]), stuffed_client\<lparr>cl_send_offset := 9\<rparr>, Break)"
    using run by (simp add: len)
  have "\<exists>w3 c2 e. handle_pubrec throttled_env ([99], [0x30, 10, 0, 1, 99, 1, 2, 3, 4]) (stuffed_client\<lparr>cl_send_offset := 9\<rparr>) 7 =
      Some (w3, c2, e) \<and> (\<forall>w4. mqtt_send throttled_env w4 (c2\<lparr>cl_mutex := False\<rparr>) = None)"
    by (rule stale_offset_undefined [OF throttled_env_ok stuffed_client_inv _ _ _ _ _ _ _ _ _ run'])
      (simp_all add: stuffed_client_eval open_qos2_def msg_state_def msg_at_def blank_msg_def msg_bytes_def qos_of_def header_qos_def)
  then show ?thesis using run by blast
qed

end
