(* ===== verification/Wilc_Driver.thy ===== *)
theory Wilc_Driver
  imports Caeco_Driver
begin

text \<open>
  The driver \<open>src/petalinux/utils/wilc/files/wilc.c\<close>, from the same template as \<open>caeco.c\<close>: its probe takes the memory
  region, the mapping and the interrupt, its removal gives them back. The ledger of resources and the number of
  warnings are those of the theory \<open>Caeco_Driver\<close>; messages are left out.
\<close>

text \<open>The interrupt number is assigned last, and only if there is one.\<close>

record wilc_local =
  wl_irq :: "int option"
  wl_mem_start :: u64
  wl_mem_end :: u64
  wl_base_addr :: u64

record wilc_answers =
  wa_mem :: "(u64 \<times> u64) option"
  wa_kmalloc :: bool
  wa_region :: bool
  wa_ioremap :: "u64 option"
  wa_irq :: "int option"
  wa_request_irq :: int

text \<open>The interrupt is only reported as handled.\<close>

datatype irqreturn = IRQ_NONE | IRQ_HANDLED

definition wilc_irq :: "int \<Rightarrow> irqreturn" where
  "wilc_irq irq = IRQ_HANDLED"

definition wilc_region :: "wilc_local \<Rightarrow> cares" where
  "wilc_region lp = Ca_region (wl_mem_start lp) (wl_mem_end lp - wl_mem_start lp + 1)"

text \<open>The labels at the end: \<open>error2\<close> and \<open>error1\<close>, and \<open>error3\<close> before them.\<close>

definition wilc_error1 :: "caledger \<Rightarrow> caledger option" where
  "wilc_error1 l = release Ca_local l"

definition wilc_error2 :: "wilc_local \<Rightarrow> caledger \<Rightarrow> caledger option" where
  "wilc_error2 lp l = do { l \<leftarrow> release (wilc_region lp) l; wilc_error1 l }"

definition wilc_error3 :: "wilc_local \<Rightarrow> caledger \<Rightarrow> (caledger \<times> nat) option" where
  "wilc_error3 lp l =
     do { irq \<leftarrow> wl_irq lp;
          let (l, w) = give_back (Ca_irq irq) l;
          l \<leftarrow> wilc_error2 lp l;
          Some (l, w) }"

definition wilc_probe :: "wilc_answers \<Rightarrow> caledger \<Rightarrow> (wilc_local option \<times> caledger \<times> int \<times> nat) option" where
  "wilc_probe ans l =
     (case wa_mem ans of
        None \<Rightarrow> Some (None, l, -ENODEV, 0)
      | Some (start, stop) \<Rightarrow>
      if \<not> wa_kmalloc ans then Some (None, l, -ENOMEM, 0) else
      let l = acquire Ca_local l;
          lp = \<lparr>wl_irq = None, wl_mem_start = start, wl_mem_end = stop, wl_base_addr = 0\<rparr> in
      if \<not> wa_region ans then do { l \<leftarrow> wilc_error1 l; Some (None, l, -EBUSY, 0) } else
      let l = acquire (wilc_region lp) l in
     (case wa_ioremap ans of
        None \<Rightarrow> do { l \<leftarrow> wilc_error2 lp l; Some (None, l, -EIO, 0) }
      | Some base \<Rightarrow>
      let l = acquire (Ca_iomem base) l;
          lp = lp\<lparr>wl_base_addr := base\<rparr> in
     (case wa_irq ans of
        None \<Rightarrow> Some (Some lp, l, 0, 0)
      | Some irq \<Rightarrow>
      let lp = lp\<lparr>wl_irq := Some irq\<rparr>; rc = wa_request_irq ans in
      if rc \<noteq> 0 then do { (l, w) \<leftarrow> wilc_error3 lp l; Some (None, l, rc, w) }
      else Some (Some lp, acquire (Ca_irq irq) l, 0, 0))))"

definition wilc_remove :: "wilc_local \<Rightarrow> caledger \<Rightarrow> (caledger \<times> int \<times> nat) option" where
  "wilc_remove lp l =
     do { irq \<leftarrow> wl_irq lp;
          let (l, w) = give_back (Ca_irq irq) l;
          l \<leftarrow> release (Ca_iomem (wl_base_addr lp)) l;
          l \<leftarrow> release (wilc_region lp) l;
          l \<leftarrow> release Ca_local l;
          Some (l, 0, w) }"

text \<open>Loading and unloading the module: registering the driver, and removing the devices it was bound to.\<close>

definition wilc_init :: "int \<Rightarrow> int" where
  "wilc_init register = register"

definition wilc_exit :: "wilc_local list \<Rightarrow> caledger \<Rightarrow> (caledger \<times> nat) option" where
  "wilc_exit bound l =
     foldr (\<lambda>lp r. do { (l, w) \<leftarrow> r; (l, rc, w') \<leftarrow> wilc_remove lp l; Some (l, w + w') }) bound (Some (l, 0))"

subsection \<open>What the probe leaves behind\<close>

lemmas wilc_probe_simps = wilc_probe_def wilc_error1_def wilc_error2_def wilc_error3_def wilc_region_def ledger_simps

text \<open>
  The probe always returns. If it fails it has given back everything but the mapping of the registers, and that only
  when the interrupt is refused; if it succeeds with an interrupt, removing the driver restores the ledger, and without
  one it reads the number that was never assigned.
\<close>

lemma wilc_probe_outcomes:
  assumes "\<And>irq. wa_irq ans = Some irq \<Longrightarrow> Ca_irq irq \<notin># l"
  shows "\<exists>lp l' rc w. wilc_probe ans l = Some (lp, l', rc, w) \<and>
    (case lp of
       None \<Rightarrow> rc \<noteq> 0 \<and> (if w = 0 then l' = l else \<exists>base. wa_ioremap ans = Some base \<and> l' = acquire (Ca_iomem base) l)
     | Some lp \<Rightarrow> rc = 0 \<and> w = 0 \<and> wilc_remove lp l' = (if wa_irq ans = None then None else Some (l, 0, 0)))"
proof (cases "wa_mem ans = None \<or> \<not> wa_kmalloc ans \<or> \<not> wa_region ans \<or> wa_ioremap ans = None")
  case True
  then have "\<exists>rc. rc \<noteq> 0 \<and> wilc_probe ans l = Some (None, l, rc, 0)"
    by (cases "wa_mem ans") (auto simp: wilc_probe_simps errno_defs Let_def split: option.split)
  then show ?thesis by auto
next
  case False
  then obtain start stop base where a: "wa_mem ans = Some (start, stop)" "wa_kmalloc ans" "wa_region ans" "wa_ioremap ans = Some base"
    by auto
  show ?thesis
  proof (cases "wa_irq ans")
    case None
    then show ?thesis using a by (simp add: wilc_probe_simps wilc_remove_def Let_def)
  next
    case (Some irq)
    have "release (Ca_irq irq) l = None" using assms [OF Some] by (simp add: release_None_iff)
    then show ?thesis using a Some
      by (cases "wa_request_irq ans = 0") (simp_all add: wilc_probe_simps wilc_remove_def give_back_def Let_def)
  qed
qed

lemma wilc_refused_leaks:
  assumes "wa_mem ans = Some (start, stop)" "wa_kmalloc ans" "wa_region ans" "wa_ioremap ans = Some base" "wa_irq ans = Some irq"
    and "wa_request_irq ans \<noteq> 0" "Ca_irq irq \<notin># l"
  shows "wilc_probe ans l = Some (None, acquire (Ca_iomem base) l, wa_request_irq ans, 1)"
proof -
  have "release (Ca_irq irq) l = None" using assms(7) by (simp add: release_None_iff)
  then show ?thesis using assms(1-6) by (simp add: wilc_probe_simps give_back_def Let_def)
qed

end
