(* ===== verification/Tool_Properties.thy ===== *)
theory Tool_Properties
  imports App_Properties Axidma_Host Axidma_Benchmark Mqtt_Sockets Mqtt_Framing Mqtt_Offset Wilc_Driver
begin

text \<open>
  The properties of the programs around the application: the thread that serves its client, the test programs and the
  test bench, the benchmark, the platform layers and sockets the MQTT client can be built with, and the WILC driver.
\<close>

subsection \<open>The thread of the application\<close>

text \<open>
  C4: The thread that serves the client beside the main thread, while the broker keeps the topics of its PUBLISH packets
  inside them. In every state that their steps can reach, in whatever order, as long as no pass over the queue has left a
  packet half-sent: the client keeps its invariant and the mutex is free; the next part of the thread is defined and
  returns, and what it sends are whole packets of the queue and at most the beginning of one; and the main thread may
  subscribe. Alone, the thread gets through any number of rounds, or at least to the end of one that leaves a packet
  half-sent. (How the client can go wrong from there is C21 and C37.)
\<close>

theorem refresher_safe:
  assumes "env_ok wire env" "delivers avail env" "refreshed c" "broker_keeps env cb (w, c, At_sync)"
    and "steady_reach env cb (w, c, At_sync) (w', c', pc)"
  shows "refreshed c' \<and> part_defined wire env cb w' c' pc \<and>
    (\<forall>topic qos. length topic < 65536 \<longrightarrow> (\<exists>c'' e. mqtt_subscribe c' topic qos = Some (c'', e))) \<and>
    (\<forall>n. \<exists>start k w'' c''. client_refresher env cb start k w c = Some (w'', c'') \<and>
       (k = n \<or> k < n \<and> cl_send_offset c'' \<noteq> 0))"
proof -
  have c': "refreshed c'" using reach_refreshed [OF assms(1,2,4,5)] assms(3) by simp
  have "part_defined wire env cb w' c' pc"
    by (rule refreshed_part_defined [OF assms(1,2) c']) (use assms(4,5) in \<open>auto simp: broker_keeps_def\<close>)
  moreover have "\<exists>start k w'' c''. client_refresher env cb start k w c = Some (w'', c'') \<and>
      (k = n \<or> k < n \<and> cl_send_offset c'' \<noteq> 0)" for n
    using client_refresher_runs [OF assms(1-4), of n] by (metis le_neq_implies_less)
  ultimately show ?thesis using c' refreshed_subscribe [OF c'] by blast
qed

text \<open>A socket that takes everything and has nothing to deliver.\<close>

definition quiet_env :: "u8 list env" where
  "quiet_env = \<lparr>sys_send = (\<lambda>out bytes. (out @ bytes, Ret (length bytes))), sys_recv = (\<lambda>out n. (out, Errno EAGAIN)),
     sys_time = (\<lambda>out. (out, 0))\<rparr>"

lemma quiet_env_ok: "env_ok id quiet_env" "delivers (\<lambda>_. 0) quiet_env"
  by (auto simp: env_ok_def delivers_def clock_ok_def quiet_env_def)

lemma quiet_recvall: "mqtt_pal_recvall quiet_env w m p n = Some (w, m, Cnt 0)"
  by (simp add: mqtt_pal_recvall_def recvall_loop.simps quiet_env_def EAGAIN_def)

lemma quiet_iteration:
  assumes "cl_recv_curr c = 0"
  shows "iteration_safe quiet_env w c" "\<exists>c1 r1 e. recv_iteration quiet_env w c r = Some (w, c1, r1, Some e) \<and> cl_recv_curr c1 = 0"
  using assms
  by (auto simp: iteration_safe_def publish_in_bounds_def quiet_recvall mqtt_unpack_fixed_header_def recv_iteration_def
      mqtt_unpack_response_def Let_def)

lemma quiet_broker: "cl_recv_curr c = 0 \<Longrightarrow> broker_ok quiet_env w c r"
proof -
  assume c: "cl_recv_curr c = 0"
  have "(w', c', r') = (w, c, r)" if "recv_reaches quiet_env (w, c, r) (w', c', r')" for w' c' r'
    using that by (cases rule: recv_reaches.cases) (use quiet_iteration(2) [OF c, of w r] in auto)
  then show ?thesis using quiet_iteration(1) [OF c] by (fastforce simp: broker_ok_def)
qed

lemma quiet_recv:
  assumes "cl_recv_curr c = 0" "mqtt_recv quiet_env fuel r w c = Some (w', c', Some e)"
  shows "cl_recv_curr c' = 0"
proof -
  let ?c = "c\<lparr>cl_mutex := True\<rparr>"
  obtain c1 r1 e1 where "recv_iteration quiet_env w ?c r = Some (w, c1, r1, Some e1)" "cl_recv_curr c1 = 0"
    using quiet_iteration(2) [of ?c w r] assms(1) by auto
  then show ?thesis using assms(2)
    by (cases fuel) (auto simp: mqtt_recv_def mutex_lock_def mutex_unlock_def split: if_splits)
qed

lemma quiet_step:
  assumes step: "client_step quiet_env cb (w, c, pc) (w', c', pc')" and c: "refreshed c" "cl_recv_curr c = 0"
  shows "cl_recv_curr c' = 0"
proof (rule client_stepE [OF step])
  fix c1 reconnecting
  assume "sync_recover cb c = Some (c1, Inr reconnecting)" "sync_inspect cb c1 = Some (c', MQTT_OK)"
  then show ?thesis using c
    by (auto simp: sync_recover_def sync_inspect_def mutex_lock_def mutex_unlock_def refreshed_def Let_def split: if_splits)
next
  fix fuel response e reconnecting
  assume "mqtt_recv quiet_env fuel response w c = Some (w', c', Some e)"
  then show ?thesis by (rule quiet_recv [OF c(2)])
next
  fix rv
  assume "mqtt_send quiet_env w c = Some (w', c', rv)"
  moreover have "offset_fits c 0" using c(1) by (simp add: refreshed_def offset_fits_def)
  ultimately show ?thesis
    using mqtt_send_ok [OF quiet_env_ok(1), of c w] c by (auto simp: refreshed_def)
next
  fix topic qos e
  assume "mqtt_subscribe c topic qos = Some (c', e)" "length topic < 65536"
  then show ?thesis using refreshed_subscribe [OF c(1), of topic qos] c(2) by auto
qed

lemma quiet_reach:
  "steady_reach quiet_env cb x y \<Longrightarrow> refreshed (fst (snd x)) \<Longrightarrow> cl_recv_curr (fst (snd x)) = 0 \<Longrightarrow>
    refreshed (fst (snd y)) \<and> cl_recv_curr (fst (snd y)) = 0"
proof (induction rule: steady_reach.induct)
  case (steady_more y z)
  obtain w c pc w' c' pc' where yz: "y = (w, c, pc)" "z = (w', c', pc')" by (metis prod_cases3)
  note step = steady_more.hyps(2) [unfolded yz]
  have c: "refreshed c" "cl_recv_curr c = 0" "cl_send_offset c' = 0" using steady_more yz by simp_all
  have "refreshed c'" by (rule step_refreshed [OF quiet_env_ok _ step c(1,3)]) (simp add: quiet_broker c(2))
  then show ?case using quiet_step [OF step c(1,2)] yz by simp
qed simp

lemma idle_refreshed: "refreshed (idle_client 1024 False MQTT_OK)"
  by (simp add: refreshed_def) (simp add: idle_client_def)

lemma quiet_keeps:
  assumes "refreshed c" "cl_recv_curr c = 0"
  shows "broker_keeps quiet_env cb ([], c, At_sync)"
proof -
  have "broker_ok quiet_env w (d\<lparr>cl_mutex := True\<rparr>) r"
    if "steady_reach quiet_env cb ([], c, At_sync) (w, d, At_recv rec)" for w d rec r
    using quiet_reach [OF that] quiet_broker [of "d\<lparr>cl_mutex := True\<rparr>"] assms by simp
  then show ?thesis by (auto simp: broker_keeps_def)
qed

lemma idle_received: "cl_recv_curr (idle_client n b e) = 0"
  by (simp add: idle_client_def)

definition quiet_callbacks :: callbacks where
  "quiet_callbacks = \<lparr>cb_inspector = (\<lambda>c. (c, MQTT_OK)), cb_reconnect = id\<rparr>"

text \<open>The thread receives, and then the main thread subscribes.\<close>

lemma quiet_round:
  "\<exists>c1. mqtt_subscribe (idle_client 1024 False MQTT_OK) vibration_topic 0 = Some (c1, MQTT_OK) \<and> refreshed c1 \<and>
     steady_reach quiet_env quiet_callbacks ([], idle_client 1024 False MQTT_OK, At_sync) ([], c1, At_send False)"
proof -
  let ?c = "idle_client 1024 False MQTT_OK"
  have "sync_recover quiet_callbacks ?c = Some (?c, Inr False)" "sync_inspect quiet_callbacks ?c = Some (?c, MQTT_OK)"
    by (simp_all add: sync_recover_def sync_inspect_def mutex_lock_def mutex_unlock_def idle_client_def Let_def)
  from steady_more [OF steady_start step_recover [OF this], of "[]" quiet_env]
  have 1: "steady_reach quiet_env quiet_callbacks ([], ?c, At_sync) ([], ?c, At_recv False)" by (simp add: idle_client_def)
  have "mqtt_recv quiet_env 1 no_response [] ?c = Some ([], ?c, Some MQTT_OK)"
    by (simp add: mqtt_recv_def mutex_lock_def mutex_unlock_def recv_iteration_def quiet_recvall
        mqtt_unpack_response_def mqtt_unpack_fixed_header_def Let_def idle_client_def)
  from steady_more [OF 1 step_recv [OF this]]
  have 2: "steady_reach quiet_env quiet_callbacks ([], ?c, At_sync) ([], ?c, At_send False)" by (simp add: idle_client_def)
  obtain c1 e where c1: "mqtt_subscribe ?c vibration_topic 0 = Some (c1, e)" "refreshed c1"
    using refreshed_subscribe [OF idle_refreshed, of vibration_topic 0] by (auto simp: vibration_topic_def)
  have "52 \<le> mq_curr_sz (cl_mq ?c)"
    by (rule client_room) (simp_all, simp add: idle_client_def mqtt_mq_init_def set_curr_sz_def Let_def)
  then have ok: "e = MQTT_OK"
    using subscribe_room [OF _ _ _ _ _ _ c1(1)] subscribe_length by (simp add: vibration_topic_def)
  have "cl_send_offset (fst (snd ([] :: u8 list, c1, At_send False))) = 0" using c1(2) by (simp add: refreshed_def)
  from steady_more [OF 2 step_main [OF c1(1)] this] c1 ok show ?thesis by (auto simp: vibration_topic_def)
qed

theorem refresher_safe_witness:
  "\<exists>c1. steady_reach quiet_env quiet_callbacks ([], idle_client 1024 False MQTT_OK, At_sync) ([], c1, At_send False) \<and>
     refreshed c1 \<and> part_defined id quiet_env quiet_callbacks [] c1 (At_send False)"
proof -
  obtain c1 where reach: "steady_reach quiet_env quiet_callbacks ([], idle_client 1024 False MQTT_OK, At_sync) ([], c1, At_send False)"
    using quiet_round by blast
  show ?thesis
    using reach refresher_safe [OF quiet_env_ok idle_refreshed quiet_keeps [OF idle_refreshed idle_received] reach] by blast
qed

text \<open>
  C5: Whatever the two threads do, while the broker keeps the topics of its PUBLISH packets inside them and until a pass
  over the queue leaves a packet half-sent, what the client has written to the broker since is a sequence of whole MQTT
  packets: a receiver that reads a fixed header, with its rules, and takes as many bytes as it says, finds exactly these
  packets and nothing is left over. The step that leaves one half-sent adds the beginning of one packet of the queue, as
  long as the offset it keeps. It follows from an invariant of the queue, that every message in it is a packet of the
  kind it is marked with, which receiving, acknowledging, resending with the DUP flag, pinging and subscribing keep. (How
  the stream breaks after that is C21 and C37.)
\<close>

theorem stream_of_packets:
  assumes "env_ok wire env" "delivers avail env" "refreshed c" "broker_keeps env cb (w, c, At_sync)"
    and "queue_framed (cl_mq c)" "steady_reach env cb (w, c, At_sync) (w1, c1, pc1)"
    and "client_step env cb (w1, c1, pc1) (w', c', pc')"
  shows "\<exists>ps part. wire w' = wire w @ concat (map snd ps) @ part \<and>
    split_packets (length ps) (concat (map snd ps)) = Some ps \<and>
    (part = [] \<or> (\<exists>b \<in> fst ` set (mq_abs (cl_mq c1)). strict_prefix part b \<and> cl_send_offset c' = length part)) \<and>
    (cl_send_offset c' = 0 \<longrightarrow> part = []) \<and> queue_framed (cl_mq c')"
proof -
  have 1: "queue_framed (cl_mq c1)" "stream_grows wire w w1" "refreshed c1"
    using reach_framed [OF assms(1,2,4,6)] reach_refreshed [OF assms(1,2,4,6)] assms(3,5) by simp_all
  have "queue_framed (cl_mq c') \<and> stream_ends wire w1 c1 w' (cl_send_offset c')"
    by (rule step_framed [OF assms(1,2) _ assms(7) 1(3,1)]) (use assms(4,6) in \<open>auto simp: broker_keeps_def\<close>)
  then have 2: "queue_framed (cl_mq c')" "stream_ends wire w c1 w' (cl_send_offset c')"
    using stream_grows_ends [OF 1(2)] by auto
  from 2(2) obtain ps part where p: "list_all (\<lambda>(ct, bs). framed ct bs) ps" "wire w' = wire w @ concat (map snd ps) @ part"
    "part = [] \<or> (\<exists>b \<in> fst ` set (mq_abs (cl_mq c1)). strict_prefix part b \<and> cl_send_offset c' = length part)"
    unfolding stream_ends_def by (elim exE conjE) (rule that)
  then show ?thesis using split_packets_framed [OF p(1)] 2(1)
    by (intro exI [of _ ps] exI [of _ part]) auto
qed

lemma idle_framed: "queue_framed (cl_mq (idle_client n b e))"
  by (simp add: queue_framed_def mq_abs_def idle_client_def mqtt_mq_init_def set_curr_sz_def Let_def)

theorem stream_of_packets_witness:
  "\<exists>c1 w' c' rv ps part. mqtt_subscribe (idle_client 1024 False MQTT_OK) vibration_topic 0 = Some (c1, MQTT_OK) \<and>
     mqtt_send quiet_env [] c1 = Some (w', c', rv) \<and>
     id w' = id [] @ concat (map snd ps) @ part \<and> split_packets (length ps) (concat (map snd ps)) = Some ps"
proof -
  obtain c1 where 1: "mqtt_subscribe (idle_client 1024 False MQTT_OK) vibration_topic 0 = Some (c1, MQTT_OK)" "refreshed c1"
    "steady_reach quiet_env quiet_callbacks ([], idle_client 1024 False MQTT_OK, At_sync) ([], c1, At_send False)"
    using quiet_round by blast
  obtain w' c' rv where 2: "mqtt_send quiet_env [] c1 = Some (w', c', rv)"
    using refreshed_send [OF quiet_env_ok(1) 1(2), of "[]"] by blast
  have "client_step quiet_env quiet_callbacks ([], c1, At_send False) (w', c', At_sync)" by (rule step_send [OF 2]) simp
  from stream_of_packets [OF quiet_env_ok idle_refreshed quiet_keeps [OF idle_refreshed idle_received] idle_framed 1(3) this]
  show ?thesis using 1(1) 2 by blast
qed

subsection \<open>The test programs\<close>

lemma session_transfer:
  assumes inv: "session_inv area base chans I s" and eng: "engine_keeps I (in_area area) eng"
    and ld: "describes chans ld" and i: "kind_ids t d chans = i # is" and buf: "no_wrap buf len"
  shows "\<exists>s' rc. axidma_oneway_transfer (stack_env ho junk eng k ext p) s ld i buf len wait = Some (s', rc) \<and>
    session_inv area base chans I s' \<and> rc \<in> {0, -1}"
proof -
  obtain h w dev l where s: "s = (h, w, dev, l)" by (cases s)
  have d: "driver_inv area base chans I (w, dev, l)" "chans \<noteq> []" "device_ok dev" "ad_channels dev = chans"
    using inv by (auto simp: s session_inv_def driver_inv_simp)
  have "i \<in> set (kind_ids t d chans)" unfolding i by simp
  then obtain c where c: "c \<in> set chans" "ch_id c = i" by (auto simp: kind_ids_def)
  let ?t = "\<lparr>tr_wait = wait, tr_channel_id = ch_id c, tr_buf = buf, tr_buf_len = len\<rparr>"
  obtain w' dev' rc where run: "oneway_transfer (ch_dir c) eng p w dev ?t = Some (w', dev', rc)"
    and "driver_inv area base chans I (w', dev', l)"
    using oneway_answers [OF d(1) eng, of ?t "ch_dir c" p] buf
    by (cases "oneway_transfer (ch_dir c) eng p w dev ?t") (auto simp: answers_def engine_result_def)
  then show ?thesis
    using stack_oneway [of dev ld c ho junk eng k ext p h w l buf len wait] d ld c by (auto simp: s session_inv_def)
qed

text \<open>The programs with two buffers: how they start, and how they clean up.\<close>

lemma mapped_two_buffers:
  assumes "host_grants ho" "\<forall>h fd n. snd (ho_mmap ho h fd n) = Some (addr n)" "mapped_inv ho mapped M area base chans I s"
    and "\<not> ax_initialized ld" "arrays_empty ld"
  shows "\<exists>s1 ld1 s2 s3. axidma_init (stack_env ho junk eng k ext p) s ld = Some (s1, ld1, True) \<and>
    axidma_malloc (stack_env ho junk eng k ext p) s1 ld1 m = (s2, Some (addr m)) \<and>
    axidma_malloc (stack_env ho junk eng k ext p) s2 ld1 n = (s3, Some (addr n)) \<and>
    mapped_inv ho mapped (add_mset (addr n, n) (add_mset (addr m, m) M)) area base chans I s3 \<and>
    describes chans ld1 \<and> ax_initialized ld1"
proof -
  let ?env = "stack_env ho junk eng k ext p"
  obtain s1 ld1 where 1: "axidma_init ?env s ld = Some (s1, ld1, True)" "mapped_inv ho mapped M area base chans I s1"
    "describes chans ld1" "ax_initialized ld1"
    using mapped_opens [OF assms(1,3-5), of junk eng k ext p] by blast
  obtain s2 where 2: "axidma_malloc ?env s1 ld1 m = (s2, Some (addr m))"
    "mapped_inv ho mapped (add_mset (addr m, m) M) area base chans I s2"
    using mapped_maps [OF assms(2) 1(2), of junk eng k ext p ld1 m] by blast
  obtain s3 where "axidma_malloc ?env s2 ld1 n = (s3, Some (addr n))"
    "mapped_inv ho mapped (add_mset (addr n, n) (add_mset (addr m, m) M)) area base chans I s3"
    using mapped_maps [OF assms(2) 2(2), of junk eng k ext p ld1 n] by blast
  then show ?thesis using 1 2 by blast
qed

lemma mapped_frees:
  assumes "host_grants ho" "\<forall>h a n. 0 \<le> snd (ho_munmap ho h a n)" "describes chans ld"
    and "mapped_inv ho mapped (add_mset (x, m) (add_mset (y, n) M)) area base chans I s"
  shows "\<exists>s' ld'. free_and_destroy (stack_env ho junk eng k ext p) [(x, m), (y, n)] s ld r = Some (s', ld', r) \<and>
    mapped_inv ho mapped M area base chans I s' \<and> \<not> ax_initialized ld'"
proof -
  let ?env = "stack_env ho junk eng k ext p"
  let ?u = "fst (le_munmap ?env s x m)"
  let ?v = "fst (le_munmap ?env ?u y n)"
  have u: "axidma_free ?env s x m = Some ?u" "mapped_inv ho mapped (add_mset (y, n) M) area base chans I ?u"
    using mapped_unmaps [OF assms(2,4), where junk = junk and eng = eng and k = k and ext = ext and p = p and a = x and n = m]
    by simp_all
  have v: "axidma_free ?env ?u y n = Some ?v" "mapped_inv ho mapped M area base chans I ?v"
    using mapped_unmaps [OF assms(2) u(2), where junk = junk and eng = eng and k = k and ext = ext and p = p and a = y and n = n]
    by simp_all
  obtain s' ld' where "axidma_destroy ?env ?v ld = Some (s', ld')" "mapped_inv ho mapped M area base chans I s'"
    "\<not> ax_initialized ld'"
    using mapped_destroys [OF assms(1,3) v(2), of junk eng k ext p] by blast
  then show ?thesis using u(1) v(1) by (simp add: free_and_destroy_def del: stack_env_simps)
qed

lemma length_sample_words: "length (concat (map sample_words samples)) = 3 * length samples"
  by (simp add: length_concat comp_def sample_words_def case_prod_beta sum_list_triv)

text \<open>
  C24: The first test program, over a loaded driver with a DMA transmit channel and with a host that grants open, memory
  and the mapping of a buffer that does not wrap around. It opens the library's device and maps its buffer. If the payload
  has 110 samples, and the byte that is never written behind each copied number is no digit, it puts the first 110
  samples into the buffer and hands it, whole, to the first transmit channel; otherwise its behaviour is undefined. What
  it returns is the result of that transfer, 0 or -1, the driver is as the transfer left it, and keeps its invariant. When
  the transfer succeeds, the buffer has been unmapped and the device destroyed in the end; a failed transfer ends the
  program with the buffer mapped and the device still initialised.
\<close>

theorem test_program_sends:
  assumes "host_grants ho" "\<forall>h fd n. snd (ho_mmap ho h fd n) = Some (addr n)" "\<forall>h a n. 0 \<le> snd (ho_munmap ho h a n)"
    and "mapped_inv ho mapped M area base chans I s" "engine_keeps I (in_area area) eng" "no_wrap (addr 1320) 1320"
    and "kind_ids AXIDMA_DMA AXIDMA_WRITE chans = i # is" "\<not> ax_initialized ld" "arrays_empty ld"
    and "samples \<noteq> []" "\<forall>s \<in> set samples. int_range s" "length mem = 330"
  shows "if 110 \<le> length samples \<and> terminated fill 0 330 then
      \<exists>s1 ld1 s2 s3 rc s' ld'.
        axidma_init (stack_env ho junk eng k ext p) s ld = Some (s1, ld1, True) \<and> describes chans ld1 \<and>
        axidma_malloc (stack_env ho junk eng k ext p) s1 ld1 1320 = (s2, Some (addr 1320)) \<and>
        axidma_oneway_transfer (stack_env ho junk eng k ext p) s2 ld1 i (addr 1320) 1320 True = Some (s3, rc) \<and>
        caeco_test_main fill (stack_env ho junk eng k ext p) mem (show_payload samples time) s ld =
          Some (s', ld', concat (map sample_words (take 110 samples)), rc) \<and>
        snd s' = snd s3 \<and> rc \<in> {0, -1} \<and> (ax_initialized ld' \<longleftrightarrow> rc < 0) \<and>
        mapped_inv ho mapped (if rc < 0 then add_mset (addr 1320, 1320) M else M) area base chans I s'
    else caeco_test_main fill (stack_env ho junk eng k ext p) mem (show_payload samples time) s ld = None"
proof -
  let ?env = "stack_env ho junk eng k ext p" and ?words = "concat (map sample_words (take 110 samples))"
  let ?main = "caeco_test_main fill ?env mem (show_payload samples time) s ld"
  obtain s1 ld1 where 1: "axidma_init ?env s ld = Some (s1, ld1, True)" "mapped_inv ho mapped M area base chans I s1"
    "describes chans ld1" "ax_initialized ld1"
    using mapped_opens [OF assms(1,4,8,9), of junk eng k ext p] by blast
  let ?M = "add_mset (addr 1320, 1320) M"
  obtain s2 where 2: "axidma_malloc ?env s1 ld1 1320 = (s2, Some (addr 1320))" "mapped_inv ho mapped ?M area base chans I s2"
    using mapped_maps [OF assms(2) 1(2), of junk eng k ext p ld1 1320] by blast
  obtain s3 rc where 3: "axidma_oneway_transfer ?env s2 ld1 i (addr 1320) 1320 True = Some (s3, rc)"
    "mapped_inv ho mapped ?M area base chans I s3" "rc \<in> {0, -1}"
    using mapped_transfer [OF 2(2) assms(5) 1(3) assms(7,6), of junk k ext p True] by blast
  note run = caeco_test_transfers [OF 1(1,3) assms(7) 2(1), of fill mem "show_payload samples time"]
  have filled: "fill_tx_buffer fill mem 1320 (show_payload samples time) =
      (if 110 \<le> length samples \<and> terminated fill 0 330 then Some ?words else None)"
    using fill_tx_buffer_payload [OF assms(10,11), of mem 110 fill time] assms(12) by simp
  show ?thesis
  proof (cases "110 \<le> length samples \<and> terminated fill 0 330")
    case False
    then show ?thesis using run filled by (simp only: if_False bind.bind_lzero)
  next
    case ok: True
    have "\<exists>s' ld'. ?main = Some (s', ld', ?words, rc) \<and> snd s' = snd s3 \<and> (ax_initialized ld' \<longleftrightarrow> rc < 0) \<and>
        mapped_inv ho mapped (if rc < 0 then ?M else M) area base chans I s'"
    proof (cases "rc < 0")
      case True
      then show ?thesis using run filled ok 3(1,2) 1(4) by simp
    next
      case False
      let ?u = "fst (le_munmap ?env s3 (addr 1320) 1320)"
      have u: "axidma_free ?env s3 (addr 1320) 1320 = Some ?u" "mapped_inv ho mapped M area base chans I ?u" "snd ?u = snd s3"
        using mapped_unmaps [OF assms(3) 3(2), where junk = junk and eng = eng and k = k and ext = ext and p = p
            and a = "addr 1320" and n = 1320] by (simp_all add: stack_env_def)
      obtain s5 ld' where "axidma_destroy ?env ?u ld1 = Some (s5, ld')" "mapped_inv ho mapped M area base chans I s5"
        "\<not> ax_initialized ld'" "snd s5 = snd ?u"
        using mapped_destroys [OF assms(1) 1(3) u(2), of junk eng k ext p] by blast
      then show ?thesis using run filled ok 3(1) u False by (simp del: stack_env_simps)
    qed
    then obtain s' ld' where r: "?main = Some (s', ld', ?words, rc)" "snd s' = snd s3" "ax_initialized ld' \<longleftrightarrow> rc < 0"
      "mapped_inv ho mapped (if rc < 0 then ?M else M) area base chans I s'" by (elim exE conjE) (rule that)
    show ?thesis unfolding if_P [OF ok]
      by (intro exI conjI) (rule 1(1), rule 1(3), rule 2(1), rule 3(1), rule r(1), rule r(2), rule 3(3), rule r(3), rule r(4))
  qed
qed

lemma demo_loaded:
  "session_inv demo_area demo_ledger demo_chans (recorded_in demo_area) ((), [], demo_mapped, demo_mapped_ledger)"
  using demo_mapped_inv by (simp add: session_inv_def demo_chans_def)

lemma demo_mappings:
  "\<forall>h fd n. snd (ho_mmap demo_host h fd n) = Some 0x70000000" "\<forall>h a n. 0 \<le> snd (ho_munmap demo_host h a n)"
  "\<not> ax_initialized zeroed_dev" "arrays_empty zeroed_dev"
  "kind_ids AXIDMA_DMA AXIDMA_WRITE demo_chans = 0 # []" "kind_ids AXIDMA_DMA AXIDMA_READ demo_chans = 1 # []"
  by (simp_all add: demo_host_def zeroed_dev_def arrays_empty_def kind_ids_def demo_chans_def)

lemma demo_samples:
  "\<forall>s \<in> set (replicate n (5, 5, 5)). int_range s" "\<forall>i :: nat. \<not> is_digit CHR ''}''"
  by (auto simp: int_range_def INT_MIN_def INT_MAX_def is_digit_def)

theorem test_program_sends_witness:
  "\<exists>s' ld' rc. caeco_test_main (\<lambda>_. CHR ''}'') book_env (replicate 330 0) (show_payload (replicate 222 (5, 5, 5)) 1664810617768)
      ({#}, [], demo_mapped, demo_mapped_ledger) zeroed_dev =
      Some (s', ld', concat (map sample_words (take 110 (replicate 222 (5, 5, 5)))), rc) \<and> (ax_initialized ld' \<longleftrightarrow> rc < 0) \<and>
      fst s' = (if rc < 0 then {#(0x70000000, 1320)#} else {#})"
proof -
  let ?samples = "replicate 222 (5 :: int, 5 :: int, 5 :: int)"
  have cond: "(110 \<le> length ?samples \<and> terminated (\<lambda>_. CHR ''}'') 0 330) = True" by simp
  have wrap: "no_wrap 0x70000000 1320" "?samples \<noteq> []" "length (replicate 330 (0 :: int)) = 330" by (simp_all add: no_wrap_def)
  note sends = test_program_sends [where junk = junk_chan and k = True and ext = no_import and p = 7 and time = 1664810617768
      and fill = "\<lambda>_. CHR ''}''", OF book_host_ok(1,3,4) book_loaded recorder_keeps(1) wrap(1) demo_mappings(5,3,4) wrap(2)
      demo_samples(1) wrap(3), unfolded cond if_True]
  obtain s' ld' rc where r: "caeco_test_main (\<lambda>_. CHR ''}'') book_env (replicate 330 0) (show_payload ?samples 1664810617768)
      ({#}, [], demo_mapped, demo_mapped_ledger) zeroed_dev =
      Some (s', ld', concat (map sample_words (take 110 ?samples)), rc)" "ax_initialized ld' \<longleftrightarrow> rc < 0"
    "mapped_inv book_host id (if rc < 0 then {#(0x70000000, 1320)#} else {#}) demo_area demo_ledger demo_chans
      (recorded_in demo_area) s'"
    using sends by (elim exE conjE) (rule that)
  have "fst s' = (if rc < 0 then {#(0x70000000, 1320)#} else {#})" using r(3) by (simp add: mapped_inv_def)
  then show ?thesis using r(1,2) by (intro exI conjI)
qed

text \<open>The rounds of the second program in which both transfers succeed.\<close>

lemma rounds_sums:
  assumes hardware: "\<And>t t1 t2. axidma_oneway_transfer env t dev i a n True = Some (t1, 0) \<Longrightarrow>
      axidma_oneway_transfer env t1 dev j b m True = Some (t2, 0) \<Longrightarrow> accelerated words (rx t2)"
    and out: "calc_output words (int (4 * length words)) = Some sums" "4 * length words < 2 ^ 31"
  shows "sent_rounds env dev (i, a, n) (j, b, m) s rs s' \<Longrightarrow> \<forall>r \<in> set rs. fst r = 0 \<longrightarrow> rx (snd r) = sums"
proof (induction rs arbitrary: s)
  case (Cons r rs)
  then obtain s1 where r: "axidma_oneway_transfer env s dev i a n True = Some (s1, fst r)"
    "axidma_oneway_transfer env s1 dev j b m True = Some (snd r, 0)" "sent_rounds env dev (i, a, n) (j, b, m) (snd r) rs s'"
    by auto
  have "rx (snd r) = sums" if "fst r = 0"
    by (rule accelerated_sums [OF hardware [OF r(1) [unfolded that] r(2)] out])
  then show ?case using Cons.IH [OF r(3)] by simp
qed simp

text \<open>The four rounds, over the whole stack.\<close>

lemma mapped_rounds:
  fixes addr :: "u64 \<Rightarrow> u64"
  assumes M: "mapped_inv ho mapped M area base chans I s" and dev: "describes chans dev"
    and "engine_keeps I (in_area area) eng" "no_wrap (addr 2652) 2652" "no_wrap (addr 12) 12"
    and "kind_ids AXIDMA_DMA AXIDMA_WRITE chans = i # is" "kind_ids AXIDMA_DMA AXIDMA_READ chans = j # js"
    and out: "calc_output words (int (4 * length words)) = Some sums" "4 * length words < 2 ^ 31"
    and hardware: "\<And>t t1 t2. axidma_oneway_transfer (stack_env ho junk eng k ext p) t dev i (addr 2652) 2652 True = Some (t1, 0) \<Longrightarrow>
      axidma_oneway_transfer (stack_env ho junk eng k ext p) t1 dev j (addr 12) 12 True = Some (t2, 0) \<Longrightarrow> accelerated words (rx t2)"
    and len: "\<forall>t. length (rx t) = 3"
  shows "\<exists>s5 rs s4 rc. sum_test_rounds (stack_env ho junk eng k ext p) dev (i, addr 2652, 2652) (j, addr 12, 12) rx 4 s [sums] 0 =
      Some (s5, sums # map (rx \<circ> snd) rs, rc) \<and> mapped_inv ho mapped M area base chans I s5 \<and> length rs \<le> 4 \<and>
    sent_rounds (stack_env ho junk eng k ext p) dev (i, addr 2652, 2652) (j, addr 12, 12) s rs s4 \<and>
    rc = (if length rs < 4 then -1 else 0) \<and> (\<forall>r \<in> set rs. fst r = 0 \<longrightarrow> rx (snd r) = sums)"
proof -
  let ?env = "stack_env ho junk eng k ext p" and ?P = "mapped_inv ho mapped M area base chans I"
  have t: "\<forall>t. ?P t \<longrightarrow> (\<exists>s' rc. axidma_oneway_transfer ?env t dev i (addr 2652) 2652 True = Some (s', rc) \<and> ?P s')"
    using mapped_transfer [OF _ assms(3) dev assms(6,4), of ho mapped M base _ junk k ext p True] by blast
  have r: "\<forall>t. ?P t \<longrightarrow> (\<exists>s' rc. axidma_oneway_transfer ?env t dev j (addr 12) 12 True = Some (s', rc) \<and> ?P s' \<and> rc \<in> {0, -1})"
    using mapped_transfer [OF _ assms(3) dev assms(7,5), of ho mapped M base _ junk k ext p True] by blast
  have l: "length (rx t) = 3" for t by (rule len [THEN spec])
  obtain s5 rs s4 rc where 4: "sum_test_rounds ?env dev (i, addr 2652, 2652) (j, addr 12, 12) rx 4 s [sums] 0 =
      Some (s5, [sums] @ map (rx \<circ> snd) rs, rc)" "?P s5" "length rs \<le> 4"
      "sent_rounds ?env dev (i, addr 2652, 2652) (j, addr 12, 12) s rs s4"
      "if length rs = 4 then s5 = s4 \<and> rc = (if (4 :: nat) = 0 then 0 else 0)
       else rc = -1 \<and> (\<exists>s2 r. axidma_oneway_transfer ?env s4 dev i (addr 2652) 2652 True = Some (s2, r) \<and>
         axidma_oneway_transfer ?env s2 dev j (addr 12) 12 True = Some (s5, -1))"
    using sum_test_rounds_run [where P = ?P and env = ?env and n = 4 and printed = "[sums]"
        and rx_mem = rx and rc = 0, OF t r l M] by (elim exE conjE) (rule that)
  have rc: "rc = (if length rs < 4 then -1 else 0)" using 4(3,5) by (cases "length rs = 4") simp_all
  have same: "\<forall>r \<in> set rs. fst r = 0 \<longrightarrow> rx (snd r) = sums"
    by (rule rounds_sums [OF hardware out 4(4)])
  show ?thesis using 4(1,2,3,4) rc same unfolding append_Cons append_Nil by blast
qed

text \<open>
  C11: The second test program, over a loaded driver with a DMA channel of each direction, a host that grants what it
  asks for, and an accelerator that, for a buffer that was sent and a result that was received without an error, leaves
  in the receive buffer what the hardware model makes of the transmit buffer. If the payload has 221 samples, the byte
  behind each copied number is no digit and no sum overflows, every round sends the buffer and then receives; the program
  prints the sums the software computes, and after each round whose receiving succeeded the receive buffer. All lines of
  rounds in which the sending succeeded, too, are the same sums; a sending transfer that fails is not noticed, and its
  round prints whatever the receive buffer holds. It prints four rounds exactly if it returns 0, and then has unmapped its
  buffers and destroyed the device; a receiving transfer that fails ends the program with -1, the buffers mapped and
  the device still initialised. If one of the conditions fails the behaviour is undefined.
\<close>

theorem test_sum_lines_agree:
  assumes "host_grants ho" "\<forall>h fd n. snd (ho_mmap ho h fd n) = Some (addr n)" "\<forall>h a n. 0 \<le> snd (ho_munmap ho h a n)"
    and "mapped_inv ho mapped M area base chans I s" "engine_keeps I (in_area area) eng" "no_wrap (addr 2652) 2652" "no_wrap (addr 12) 12"
    and "kind_ids AXIDMA_DMA AXIDMA_WRITE chans = i # is" "kind_ids AXIDMA_DMA AXIDMA_READ chans = j # js"
    and "\<not> ax_initialized ld" "arrays_empty ld" "samples \<noteq> []" "\<forall>s \<in> set samples. int_range s" "length mem = 663"
    and "words = concat (map sample_words (take 221 samples))" "\<forall>t. length (rx_mem words t) = 3"
    and hardware: "\<And>dev t t1 t2. describes chans dev \<Longrightarrow>
      axidma_oneway_transfer (stack_env ho junk eng k ext p) t dev i (addr 2652) 2652 True = Some (t1, 0) \<Longrightarrow>
      axidma_oneway_transfer (stack_env ho junk eng k ext p) t1 dev j (addr 12) 12 True = Some (t2, 0) \<Longrightarrow>
      accelerated words (rx_mem words t2)"
  shows "case (if 221 \<le> length samples \<and> terminated fill 0 663 then calc_output words 2652 else None) of
      None \<Rightarrow> sum_test_main fill (stack_env ho junk eng k ext p) mem rx_mem (show_payload samples time) s ld = None
    | Some sums \<Rightarrow> \<exists>s1 dev s2 s3 rs s4 s' ld' rc.
        axidma_init (stack_env ho junk eng k ext p) s ld = Some (s1, dev, True) \<and> describes chans dev \<and>
        axidma_malloc (stack_env ho junk eng k ext p) s1 dev 2652 = (s2, Some (addr 2652)) \<and>
        axidma_malloc (stack_env ho junk eng k ext p) s2 dev 12 = (s3, Some (addr 12)) \<and>
        sent_rounds (stack_env ho junk eng k ext p) dev (i, addr 2652, 2652) (j, addr 12, 12) s3 rs s4 \<and>
        sum_test_main fill (stack_env ho junk eng k ext p) mem rx_mem (show_payload samples time) s ld =
          Some (s', ld', sums # map (rx_mem words \<circ> snd) rs, rc) \<and>
        (\<forall>r \<in> set rs. fst r = 0 \<longrightarrow> rx_mem words (snd r) = sums) \<and>
        length rs \<le> 4 \<and> rc = (if length rs < 4 then -1 else 0) \<and> (ax_initialized ld' \<longleftrightarrow> rc < 0) \<and>
        mapped_inv ho mapped (if rc < 0 then add_mset (addr 12, 12) (add_mset (addr 2652, 2652) M) else M) area base chans I s'"
proof -
  let ?env = "stack_env ho junk eng k ext p" and ?M = "add_mset (addr 12, 12) (add_mset (addr 2652, 2652) M)"
  let ?main = "sum_test_main fill ?env mem rx_mem (show_payload samples time) s ld"
  obtain s1 dev s2 s3 where 1: "axidma_init ?env s ld = Some (s1, dev, True)" "axidma_malloc ?env s1 dev 2652 = (s2, Some (addr 2652))"
    "axidma_malloc ?env s2 dev 12 = (s3, Some (addr 12))" "mapped_inv ho mapped ?M area base chans I s3" "describes chans dev"
    "ax_initialized dev"
    using mapped_two_buffers [OF assms(1,2,4,10,11), of junk eng k ext p 2652 12] by blast
  note run = sum_test_prints [OF 1(1,5) assms(8,9) 1(2,3), of fill mem rx_mem "show_payload samples time"]
  have filled: "fill_tx_buffer fill mem 2652 (show_payload samples time) =
      (if 221 \<le> length samples \<and> terminated fill 0 663 then Some words else None)"
    using fill_tx_buffer_payload [OF assms(12,13), of mem 221 fill time] assms(14,15) by simp
  show ?thesis
  proof (cases "if 221 \<le> length samples \<and> terminated fill 0 663 then calc_output words 2652 else None")
    case None
    have "?main = None"
    proof (cases "221 \<le> length samples \<and> terminated fill 0 663")
      case True
      then have "calc_output words 2652 = None" using None by simp
      then show ?thesis using True run filled by simp
    next
      case False
      then have "fill_tx_buffer fill mem 2652 (show_payload samples time) = None" using filled by simp
      then show ?thesis using run by simp
    qed
    then show ?thesis unfolding None option.case .
  next
    case (Some sums)
    then have ok: "221 \<le> length samples" "terminated fill 0 663" "calc_output words 2652 = Some sums" by (simp_all split: if_splits)
    have "length words = 663" using ok(1) assms(15) by (simp add: length_sample_words)
    then have out: "calc_output words (int (4 * length words)) = Some sums" "4 * length words < 2 ^ 31"
      using ok(3) by simp_all
    have "\<exists>s5 rs s4 rc. sum_test_rounds ?env dev (i, addr 2652, 2652) (j, addr 12, 12) (rx_mem words) 4 s3 [sums] 0 =
        Some (s5, sums # map (rx_mem words \<circ> snd) rs, rc) \<and> mapped_inv ho mapped ?M area base chans I s5 \<and> length rs \<le> 4 \<and>
        sent_rounds ?env dev (i, addr 2652, 2652) (j, addr 12, 12) s3 rs s4 \<and> rc = (if length rs < 4 then -1 else 0) \<and>
        (\<forall>r \<in> set rs. fst r = 0 \<longrightarrow> rx_mem words (snd r) = sums)"
      by (rule mapped_rounds [OF 1(4,5) assms(5-9) out hardware [OF 1(5)] assms(16)])
    then obtain s5 rs s4 rc where 4: "sum_test_rounds ?env dev (i, addr 2652, 2652) (j, addr 12, 12) (rx_mem words) 4 s3 [sums] 0 =
        Some (s5, sums # map (rx_mem words \<circ> snd) rs, rc)" "mapped_inv ho mapped ?M area base chans I s5" "length rs \<le> 4"
        "sent_rounds ?env dev (i, addr 2652, 2652) (j, addr 12, 12) s3 rs s4" "rc = (if length rs < 4 then -1 else 0)"
        "\<forall>r \<in> set rs. fst r = 0 \<longrightarrow> rx_mem words (snd r) = sums"
      by (elim exE conjE) (rule that)
    have "\<exists>s' ld'. ?main = Some (s', ld', sums # map (rx_mem words \<circ> snd) rs, rc) \<and> (ax_initialized ld' \<longleftrightarrow> rc < 0) \<and>
        mapped_inv ho mapped (if rc < 0 then ?M else M) area base chans I s'"
    proof (cases "rc < 0")
      case True
      then show ?thesis using run filled ok 4(1,2) 1(6) by simp
    next
      case False
      obtain s' ld' where "free_and_destroy ?env [(addr 12, 12), (addr 2652, 2652)] s5 dev (sums # map (rx_mem words \<circ> snd) rs, rc) =
          Some (s', ld', sums # map (rx_mem words \<circ> snd) rs, rc)" "mapped_inv ho mapped M area base chans I s'" "\<not> ax_initialized ld'"
        using mapped_frees [OF assms(1,3) 1(5) 4(2), where junk = junk and eng = eng and k = k and ext = ext and p = p
            and r = "(sums # map (rx_mem words \<circ> snd) rs, rc)"] by (elim exE conjE) (rule that)
      then show ?thesis using run filled ok 4(1) False by simp
    qed
    then show ?thesis
      unfolding Some option.case using 1(1,2,3,5) 4(3,4,5,6) by blast
  qed
qed

lemma checked_sum_replicate:
  "0 \<le> r \<Longrightarrow> 0 \<le> c \<Longrightarrow> r + int n * c \<le> INT_MAX \<Longrightarrow> checked_sum r (replicate n c) = Some (r + int n * c)"
proof (induction n arbitrary: r)
  case (Suc n)
  have "0 \<le> int n * c" using Suc.prems(2) by simp
  moreover have "r + c + int n * c \<le> INT_MAX" using Suc.prems(3) by (simp add: distrib_right add.assoc)
  ultimately have "INT_MIN \<le> r + c" "r + c \<le> INT_MAX" using Suc.prems(1,2) unfolding INT_MIN_def by linarith+
  then show ?case using Suc.IH [of "r + c"] Suc.prems by (simp add: int_add_def distrib_right add.assoc)
qed simp

lemma demo_words: "concat (map sample_words (take 221 (replicate 222 (5, 5, 5)))) = replicate 663 5"
proof -
  have "concat (replicate n [c, c, c]) = replicate (3 * n) c" for n and c :: int
    by (induction n) (simp_all add: numeral_3_eq_3)
  then show ?thesis by (simp add: min_def)
qed

lemma demo_sums: "calc_output (replicate 663 5) 2652 = Some [1650, 1650, 15]"
  using calc_output_chunks [of "replicate 663 5"] checked_sum_replicate [of 0 5 330] checked_sum_replicate [of 0 5 3]
  by (simp add: chunks_replicate INT_MAX_def)

lemma accelerated_exists:
  assumes "calc_output buf (int (4 * length buf)) = Some sums" "4 * length buf < 2 ^ 31" "buf \<noteq> []"
  shows "accelerated buf sums"
proof -
  let ?ps = "map (\<lambda>x. demo_packet (word_of_int x) False) (butlast buf) @ [demo_packet (word_of_int (last buf)) True]"
  have m: "marked ?ps" by (auto simp: marked_def demo_packet_def butlast_append)
  have "map sc_data ?ps = map word_of_int (butlast buf @ [last buf])" by (simp add: demo_packet_def comp_def)
  then have d: "map sc_data ?ps = map word_of_int buf" using assms(3) by simp
  show ?thesis using hardware_is_software [OF assms(1,2) m d] m d unfolding accelerated_def by blast
qed

theorem test_sum_lines_agree_witness:
  "\<exists>s' ld' rs rc. sum_test_main (\<lambda>_. CHR ''}'') book_env (replicate 663 0) (\<lambda>_ _. [1650, 1650, 15])
      (show_payload (replicate 222 (5, 5, 5)) 1664810617768) ({#}, [], demo_mapped, demo_mapped_ledger) zeroed_dev =
      Some (s', ld', [1650, 1650, 15] # map ((\<lambda>_. [1650, 1650, 15]) \<circ> snd) (rs :: (int \<times> ((u64 \<times> u64) multiset, (u64 \<times> u32) list) stack) list), rc) \<and>
      length rs \<le> 4 \<and> rc = (if length rs < 4 then -1 else 0)"
proof -
  have acc: "accelerated (replicate 663 5) [1650, 1650, 15]"
    using accelerated_exists [of "replicate 663 5"] demo_sums by simp
  have some: "(if 221 \<le> length (replicate 222 (5 :: int, 5 :: int, 5 :: int)) \<and> terminated (\<lambda>_. CHR ''}'') 0 663
      then calc_output (replicate 663 5) 2652 else None) = Some [1650, 1650, 15]" by (simp add: demo_sums)
  have wrap: "no_wrap 0x70000000 2652" "no_wrap 0x70000000 12" by (simp_all add: no_wrap_def)
  have lens: "length (replicate 663 (0 :: int)) = 663" "\<forall>t. length [1650, 1650, 15 :: int] = 3"
    "replicate 222 (5 :: int, 5 :: int, 5 :: int) \<noteq> []" by simp_all
  note lines = test_sum_lines_agree [where rx_mem = "\<lambda>_ _. [1650, 1650, 15]" and fill = "\<lambda>_. CHR ''}''" and k = True and ext = no_import
      and p = 7 and time = 1664810617768 and junk = junk_chan, OF book_host_ok(1,3,4) book_loaded recorder_keeps(1) wrap demo_mappings(5,6,3,4)
      lens(3) demo_samples(1) lens(1) demo_words [symmetric] lens(2) acc]
  obtain s' ld' and rs :: "(int \<times> ((u64 \<times> u64) multiset, (u64 \<times> u32) list) stack) list" and rc where
    r: "sum_test_main (\<lambda>_. CHR ''}'') book_env (replicate 663 0) (\<lambda>_ _. [1650, 1650, 15])
      (show_payload (replicate 222 (5, 5, 5)) 1664810617768) ({#}, [], demo_mapped, demo_mapped_ledger) zeroed_dev =
      Some (s', ld', [1650, 1650, 15] # map ((\<lambda>_. [1650, 1650, 15]) \<circ> snd) rs, rc)"
      "length rs \<le> 4" "rc = (if length rs < 4 then -1 else 0)"
    using lines unfolding some option.case by (elim exE conjE) (rule that)
  show ?thesis by (intro exI conjI) (rule r)+
qed

text \<open>
  The test bench of the accelerator prints the results its comment announces: three times the sum of 330 words, and
  once that of the ten that are left.
\<close>

theorem test_bench_results: "tb_main = Some [330 * 100, 330 * 100, 330 * 100, 10 * 100]"
  by (simp add: tb_main_results)

subsection \<open>The benchmark\<close>

lemma int_of_size_small:
  assumes "unat w < 2 ^ 31"
  shows "int_of_size w = int (unat w)" "word_of_int (int_of_size w) = w"
proof -
  have "uint w < 2 ^ 31" using assms unfolding nat_uint_eq [symmetric] by (simp add: nat_less_iff del: nat_uint_eq)
  then have "signed_take_bit 31 (uint w) = uint w" by (intro signed_take_bit_int_eq_self) (simp_all add: order.trans [OF _ uint_ge_0])
  then show "int_of_size w = int (unat w)" "word_of_int (int_of_size w) = w"
    by (simp_all add: int_of_size_def int_of_u32_def unsigned_ucast_eq signed_ucast_eq)
qed

text \<open>The part of the benchmark between its buffers, over a loaded driver.\<close>

lemma mapped_benchmark:
  assumes inv: "mapped_inv ho mapped M area base chans I s" and eng: "engine_keeps I (in_area area) eng" and ld: "describes chans ld"
    and kinds: "kind_ids AXIDMA_DMA AXIDMA_WRITE chans = i # is" "kind_ids AXIDMA_DMA AXIDMA_READ chans = j # js"
    and args: "\<not> ba_use_vdma a" "ba_tx_channel a = -1" "ba_rx_channel a = -1" "unat (ba_tx_size a) < 2 ^ 31" "unat (ba_rx_size a) < 2 ^ 31"
    and buf: "no_wrap x (ba_tx_size a)" "no_wrap y (ba_rx_size a)"
    and mem: "\<forall>n. length (fresh_mem n) = unat n" "keeps_lengths effect"
  shows "\<exists>s' rc. run_bench sg (stack_env ho junk eng k ext p) effect fresh_mem a x y s ld = Some (s', rc) \<and>
    mapped_inv ho mapped M area base chans I s' \<and> (unat (ba_tx_size a) mod 4 \<noteq> 0 \<and> unat (ba_tx_size a) < 2 ^ 29 \<longrightarrow> rc < 0)"
proof -
  let ?env = "stack_env ho junk eng k ext p" and ?P = "mapped_inv ho mapped M area base chans I"
  let ?m = "ba_tx_size a" and ?n = "ba_rx_size a"
  let ?tx = "\<lparr>bs_channel = i, bs_addr = x, bs_mem = fresh_mem ?m, bs_size = int_of_size ?m, bs_frame = None\<rparr>"
  let ?rx = "\<lparr>bs_channel = j, bs_addr = y, bs_mem = fresh_mem ?n, bs_size = int_of_size ?n, bs_frame = None\<rparr>"
  note size = int_of_size_small [OF args(4)] int_of_size_small [OF args(5)]
  have "\<exists>s' rc. transfer_both ?env t ld ?tx ?rx = Some (s', rc) \<and> ?P s'" if "?P t" for t
    using mapped_both [OF that eng ld kinds buf, of junk k ext p True] size by (simp add: transfer_both_def)
  then have moves: "moves ?P ?env ld ?tx ?rx" by (simp add: moves_def)
  have len: "int (length (bs_mem ?tx)) = bs_size ?tx" "int (length (bs_mem ?rx)) = bs_size ?rx"
    using mem(1) size by simp_all
  obtain s4 rc where 4: "single_transfer_test sg ?env effect s ld ?tx ?rx = Some (s4, rc)" "?P s4"
    "bs_size ?tx mod 4 \<noteq> 0 \<and> bs_size ?tx < 2 ^ 29 \<longrightarrow> rc < 0"
    using single_transfer_answers [OF inv moves len mem(2), of sg] by (elim exE conjE) (rule that)
  obtain s5 rc' where 5: "time_dma ?env s4 ld ?tx ?rx (ba_num_transfers a) = Some (s5, rc')" "?P s5"
    using time_transfers_answers [OF 4(2) moves, of "nat (ba_num_transfers a)", folded time_dma_def]
    by (elim exE conjE) (rule that)
  define r where "r = (if rc < 0 then (s4, rc) else (s5, rc'))"
  have rx_chan: "block_load (at_data (ax_dma_rx ld)) 0 = Some j" "1 \<le> at_len (ax_dma_rx ld)"
    using ld kinds(2) by (simp_all add: describes_def arrays_hold_def filled_def block_load_def)
  have run: "run_bench sg ?env effect fresh_mem a x y s ld = Some r"
    using described_first [OF ld kinds(1)] rx_chan args(1-3) 4(1) 5(1)
    by (simp add: run_bench_def axidma_get_dma_tx_def axidma_get_dma_rx_def r_def)
  have arith: "int z mod 4 \<noteq> 0 \<and> int z < 2 ^ 29" if "z mod 4 \<noteq> 0" "z < 2 ^ 29" for z :: nat
    using that by (intro conjI) (presburger, simp)
  have "bs_size ?tx = int (unat ?m)" by (simp only: bench_side.simps size(1))
  then have "rc < 0" if "unat ?m mod 4 \<noteq> 0" "unat ?m < 2 ^ 29"
    using 4(3) arith [OF that] by (simp only: simp_thms)
  then have "?P (fst r)" "unat ?m mod 4 \<noteq> 0 \<and> unat ?m < 2 ^ 29 \<longrightarrow> snd r < 0"
    using 4(2) 5(2) by (auto simp: r_def)
  then show ?thesis using run by (intro exI [of _ "fst r"] exI [of _ "snd r"]) simp
qed

text \<open>
  C23: A run of the benchmark over a loaded driver, whose arguments are accepted, do not ask for VDMA or name channels, and
  give sizes below \<open>2 ^ 31\<close>, on a host that grants open, memory and mappings that do not wrap around, and with a DMA
  channel of each direction. It returns. Whichever transfer or check fails, in the end it has unmapped exactly what it has mapped
  and destroyed the library's device, and the driver keeps its invariant. But for a transmit size that is no multiple of
  the size of an \<open>int\<close> (and below \<open>2 ^ 29\<close>) it always reports a failure: the bytes that are left over are written to the
  start of the buffer, over its first word, and are compared as \<open>char\<close>s with whole words of the pattern.
\<close>

theorem benchmark_cleans_up:
  assumes "host_grants ho" "\<forall>h fd n. snd (ho_mmap ho h fd n) = Some (addr n)" "\<forall>h a n. 0 \<le> snd (ho_munmap ho h a n)"
    and "mapped_inv ho mapped M area base chans I s" "engine_keeps I (in_area area) eng"
    and "kind_ids AXIDMA_DMA AXIDMA_WRITE chans = i # is" "kind_ids AXIDMA_DMA AXIDMA_READ chans = j # js"
    and "\<not> ax_initialized ld" "arrays_empty ld" "parse_args mib opts = Some (Parsed a)"
    and "\<not> ba_use_vdma a" "ba_tx_channel a = -1" "ba_rx_channel a = -1"
    and "unat (ba_tx_size a) < 2 ^ 31" "unat (ba_rx_size a) < 2 ^ 31"
    and "no_wrap (addr (ba_tx_size a)) (ba_tx_size a)" "no_wrap (addr (ba_rx_size a)) (ba_rx_size a)"
    and "\<forall>n. length (fresh_mem n) = unat n" "keeps_lengths effect"
  shows "\<exists>s1 ld1 s2 s3 s' ld' rc.
    axidma_init (stack_env ho junk eng k ext p) s ld = Some (s1, ld1, True) \<and>
    axidma_malloc (stack_env ho junk eng k ext p) s1 ld1 (ba_tx_size a) = (s2, Some (addr (ba_tx_size a))) \<and>
    axidma_malloc (stack_env ho junk eng k ext p) s2 ld1 (ba_rx_size a) = (s3, Some (addr (ba_rx_size a))) \<and>
    mapped (fst s3) = add_mset (addr (ba_rx_size a), ba_rx_size a) (add_mset (addr (ba_tx_size a), ba_tx_size a) (mapped (fst s))) \<and>
    bench_main sg mib (stack_env ho junk eng k ext p) effect fresh_mem opts s ld = Some (s', ld', rc) \<and>
    mapped (fst s') = mapped (fst s) \<and> \<not> ax_initialized ld' \<and> session_inv area base chans I s' \<and>
    (unat (ba_tx_size a) mod 4 \<noteq> 0 \<and> unat (ba_tx_size a) < 2 ^ 29 \<longrightarrow> rc < 0)"
proof -
  let ?env = "stack_env ho junk eng k ext p"
  let ?M = "add_mset (addr (ba_rx_size a), ba_rx_size a) (add_mset (addr (ba_tx_size a), ba_tx_size a) M)"
  obtain s1 ld1 s2 s3 where 1: "axidma_init ?env s ld = Some (s1, ld1, True)"
    "axidma_malloc ?env s1 ld1 (ba_tx_size a) = (s2, Some (addr (ba_tx_size a)))"
    "axidma_malloc ?env s2 ld1 (ba_rx_size a) = (s3, Some (addr (ba_rx_size a)))" "mapped_inv ho mapped ?M area base chans I s3"
    "describes chans ld1"
    using mapped_two_buffers [OF assms(1,2,4,8,9), of junk eng k ext p "ba_tx_size a" "ba_rx_size a"] by blast
  obtain s4 rc where 2: "run_bench sg ?env effect fresh_mem a (addr (ba_tx_size a)) (addr (ba_rx_size a)) s3 ld1 = Some (s4, rc)"
    "mapped_inv ho mapped ?M area base chans I s4" "unat (ba_tx_size a) mod 4 \<noteq> 0 \<and> unat (ba_tx_size a) < 2 ^ 29 \<longrightarrow> rc < 0"
    using mapped_benchmark [OF 1(4) assms(5) 1(5) assms(6,7,11-19), of sg junk k ext p] by blast
  obtain s5 ld' where 3: "free_and_destroy ?env [(addr (ba_rx_size a), ba_rx_size a), (addr (ba_tx_size a), ba_tx_size a)] s4 ld1 rc = Some (s5, ld', rc)"
    "mapped_inv ho mapped M area base chans I s5" "\<not> ax_initialized ld'"
    using mapped_frees [OF assms(1,3) 1(5) 2(2), of junk eng k ext p rc] by blast
  have run: "bench_main sg mib ?env effect fresh_mem opts s ld = Some (s5, ld', rc)"
    using assms(10) 1(1-3) 2(1) 3(1) by (simp add: bench_main_def)
  have books: "mapped (fst s) = M" "mapped (fst s3) = ?M" "mapped (fst s5) = M" "session_inv area base chans I s5"
    using assms(4) 1(4) 3(2) by (simp_all add: mapped_inv_def)
  show ?thesis unfolding books(1)
    by (intro exI conjI) (rule 1(1), rule 1(2), rule 1(3), rule books(2), rule run, rule books(3), rule 3(3), rule books(4), rule 2(3))
qed

lemma demo_parsed:
  "parse_args mib [(CHR ''b'', ''6''), (CHR ''s'', ''8''), (CHR ''n'', ''2'')] =
    Some (Parsed (default_args\<lparr>ba_tx_size := 6, ba_rx_size := 8, ba_num_transfers := 2\<rparr>))"
  by (simp add: parse_args_def parse_option_def with_int_def parse_int_def scan_int_def is_space_def is_digit_def
      fits_int_def INT_MIN_def INT_MAX_def check_args_def default_args_def DEFAULT_TRANSFER_SIZE_def)

lemma demo_effect: "keeps_lengths (\<lambda>tx rx. (tx, map NOT rx))"
  by (simp add: keeps_lengths_def)

theorem benchmark_cleans_up_witness:
  "\<exists>s' ld' rc. bench_main False (\<lambda>_. None) book_env (\<lambda>tx rx. (tx, map NOT rx)) (\<lambda>n. replicate (unat n) 0)
      [(CHR ''b'', ''6''), (CHR ''s'', ''8''), (CHR ''n'', ''2'')] ({#}, [], demo_mapped, demo_mapped_ledger) zeroed_dev =
      Some (s', ld', rc) \<and> rc < 0 \<and> \<not> ax_initialized ld' \<and> fst s' = {#}"
proof -
  let ?args = "default_args\<lparr>ba_tx_size := 6, ba_rx_size := 8, ba_num_transfers := 2\<rparr>"
  have a: "\<not> ba_use_vdma ?args" "ba_tx_channel ?args = -1" "ba_rx_channel ?args = -1" "unat (ba_tx_size ?args) < 2 ^ 31"
    "unat (ba_rx_size ?args) < 2 ^ 31" "no_wrap 0x70000000 (ba_tx_size ?args)" "no_wrap 0x70000000 (ba_rx_size ?args)"
    "\<forall>n :: u64. length (replicate (unat n) (0 :: u8)) = unat n"
    by (simp_all add: default_args_def no_wrap_def)
  note cleans = benchmark_cleans_up [where sg = False and mib = "\<lambda>_. None" and junk = junk_chan and k = True and ext = no_import and p = 7,
      OF book_host_ok(1,3,4) book_loaded recorder_keeps(1) demo_mappings(5,6,3,4) demo_parsed a demo_effect]
  obtain s' ld' rc where r: "bench_main False (\<lambda>_. None) book_env (\<lambda>tx rx. (tx, map NOT rx)) (\<lambda>n. replicate (unat n) 0)
      [(CHR ''b'', ''6''), (CHR ''s'', ''8''), (CHR ''n'', ''2'')] ({#}, [], demo_mapped, demo_mapped_ledger) zeroed_dev =
      Some (s', ld', rc)" "fst s' = {#}" "\<not> ax_initialized ld'"
    "unat (ba_tx_size ?args) mod 4 \<noteq> 0 \<and> unat (ba_tx_size ?args) < 2 ^ 29 \<longrightarrow> rc < 0"
    using cleans unfolding id_apply fst_conv by (elim exE conjE) (rule that)
  then have "rc < 0" by (simp add: default_args_def)
  then show ?thesis using r(1-3) by (intro exI conjI)
qed

text \<open>
  C34: For buffers of whole words, the verification of the benchmark decides exactly whether the transmit buffer still is
  what the initialisation wrote and the receive buffer is not.
\<close>

theorem verification_decides:
  assumes "length tx = 4 * n" "length tx' = 4 * n" "length rx = 4 * k" "length rx' = 4 * k"
  shows "\<exists>tx0 rx0. init_data tx rx (4 * n) (4 * k) = Some (tx0, rx0) \<and>
    verify_data sg tx' rx' (4 * n) (4 * k) = Some (if tx' = tx0 \<and> rx' \<noteq> rx0 then 0 else - EINVAL)"
  using assms by (rule verify_decides)

theorem verification_decides_witness:
  "\<exists>tx0 rx0. init_data (replicate 8 0) (replicate 4 0) (4 * 2) (4 * 1) = Some (tx0, rx0) \<and>
    verify_data False [0xDE, 0xAC, 0x34, 0x12, 0xDF, 0xAC, 0x34, 0x12] [1, 2, 3, 4] (4 * 2) (4 * 1) =
      Some (if [0xDE, 0xAC, 0x34, 0x12, 0xDF, 0xAC, 0x34, 0x12] = tx0 \<and> [1, 2, 3, 4] \<noteq> rx0 then 0 else - EINVAL)"
  by (rule verification_decides) simp_all

subsection \<open>The platform layers of the client\<close>

text \<open>
  C18: Over a POSIX socket, and over mbedTLS if a write that accepts nothing has flushed something, a message that is taken
  up again in as many calls as it takes, each from the count of the last, arrives on the stream as a prefix of itself:
  nothing of it is lost, repeated or out of order, whatever the calls return.
\<close>

theorem message_resumed:
  assumes "env_ok wire env" "flushes backlog env" "buf + len \<le> length m"
  shows "(\<exists>w' n. send_rest (mqtt_pal_sendall env) k w m buf len = Some (w', n) \<and> n \<le> len \<and>
      wire w' = wire w @ take n (drop buf m)) \<and>
    (\<exists>w' n. send_rest (mbedtls_sendall env again) k w m buf len = Some (w', n) \<and> n \<le> len \<and>
      wire w' = wire w @ take n (drop buf m))"
  using posix.send_rest_exact [OF assms(1,3)] mbedtls.send_rest_exact [OF conjI [OF assms(1,2)] assms(3)] by simp

lemma throttled_flushes: "flushes (\<lambda>w. length (fst w)) throttled_env"
  by (auto simp: flushes_def throttled_env_def split: list.splits)

theorem message_resumed_witness:
  "(\<exists>w' n. send_rest (mqtt_pal_sendall throttled_env) 3 ([2, 0, 99], []) [1, 2, 3, 4, 5] 1 4 = Some (w', n) \<and> n \<le> 4 \<and>
      snd w' = [] @ take n (drop 1 [1, 2, 3, 4, 5])) \<and>
    (\<exists>w' n. send_rest (mbedtls_sendall throttled_env (\<lambda>e. e = EAGAIN)) 3 ([2, 0, 99], []) [1, 2, 3, 4, 5] 1 4 = Some (w', n) \<and> n \<le> 4 \<and>
      snd w' = [] @ take n (drop 1 [1, 2, 3, 4, 5]))"
  using message_resumed [OF throttled_env_ok throttled_flushes, of 1 4 "[1, 2, 3, 4, 5]" 3 "([2, 0, 99], [])" "\<lambda>e. e = EAGAIN"] by simp

text \<open>
  C28: A failure behind a partial write: POSIX reports the bytes that went out, so that the client goes on behind them; wolfSSL,
  BIO and Winsock report only the error, and the count is lost.
\<close>

theorem partial_count_dropped:
  assumes "buf + len \<le> length m" "fits_cast len" "sys_send env w (take len (drop buf m)) = (w1, Ret n)" "0 < n" "n < len"
    and "sys_send env w1 (drop n (take len (drop buf m))) = (w2, Errno e)" "\<not> want (get_error w2 e)" "\<not> should_retry w2"
  shows "mqtt_pal_sendall env w m buf len = Some (w2, Cnt n) \<and>
    wolfssl_sendall env get_error want w m buf len = Some (w2, Err MQTT_ERROR_SOCKET_ERROR) \<and>
    bio_sendall env should_retry w m buf len = Some (w2, Err MQTT_ERROR_SOCKET_ERROR) \<and>
    winsock_sendall env w m buf len = Some (w2, Err MQTT_ERROR_SOCKET_ERROR)"
proof -
  let ?bs = "take len (drop buf m)"
  have read: "read_bytes m buf len = Some ?bs" and len: "n < length ?bs" "fits_cast (length ?bs)"
    using assms(1,2,5) by (simp_all add: read_bytes_def)
  note s = assms(3,4) len(1) and f = assms(6)
  have "fst (sendall_loop env w ?bs 0) = w2" "fst (snd (sendall_loop env w ?bs 0)) = n" by (rule posix_keeps [OF s f])+
  then have "mqtt_pal_sendall env w m buf len = Some (w2, Cnt n)"
    using read assms(4) by (cases "sendall_loop env w ?bs 0") (simp add: mqtt_pal_sendall_def)
  then show ?thesis
    using read wolfssl_drops [where want = want and get_error = get_error, OF s len(2) f assms(7)]
      bio_drops [where should_retry = should_retry, OF s len(2) f assms(8)] winsock_drops [OF s f]
    by (simp add: wolfssl_sendall_def bio_sendall_def winsock_sendall_def)
qed

definition failing_env :: "u8 list env" where
  "failing_env =
     \<lparr>sys_send = (\<lambda>out bytes. if out = [] then (take 2 bytes, Ret (min 2 (length bytes))) else (out, Errno 104)),
      sys_recv = (\<lambda>out n. (out, Ret [])), sys_time = (\<lambda>out. (out, 0))\<rparr>"

theorem partial_count_dropped_witness:
  "mqtt_pal_sendall failing_env [] [1, 2, 3, 4, 5] 1 4 = Some ([2, 3], Cnt 2) \<and>
    wolfssl_sendall failing_env (\<lambda>_ e. e) (\<lambda>e. e = 2) [] [1, 2, 3, 4, 5] 1 4 = Some ([2, 3], Err MQTT_ERROR_SOCKET_ERROR) \<and>
    bio_sendall failing_env (\<lambda>_. False) [] [1, 2, 3, 4, 5] 1 4 = Some ([2, 3], Err MQTT_ERROR_SOCKET_ERROR) \<and>
    winsock_sendall failing_env [] [1, 2, 3, 4, 5] 1 4 = Some ([2, 3], Err MQTT_ERROR_SOCKET_ERROR)"
  by (rule partial_count_dropped [of 1 4 _ failing_env "[]" "[2, 3]" 2 "[2, 3]" 104])
    (simp_all add: failing_env_def fits_cast_def INT_MAX_def)

text \<open>
  C29: Sending with BearSSL, over any engine whose application data only grow by what is copied into its buffer. If the call
  returns, the whole message has been handed to the engine and its length is the result, or a part of it has and the
  result is an error, never a count. If it does not return, it is because from some iteration on nothing more is handed
  over, for ever, with a part of the message sent: the loop spins, as it does when the socket takes nothing for now.
\<close>

theorem bearssl_sends_all:
  assumes "bearssl_ok plain br" "buf + len \<le> length m"
  shows "case bearssl_sendall br w m buf len of
      Some (w', rv) \<Rightarrow> \<exists>sent. plain w' = plain w @ take sent (drop buf m) \<and>
        (rv = Cnt len \<and> sent = len \<or> rv = Err MQTT_ERROR_SOCKET_ERROR \<and> sent < len)
    | None \<Rightarrow> \<exists>N sent. sent < len \<and> (\<forall>n \<ge> N. \<exists>w'. plain w' = plain w @ take sent (drop buf m) \<and>
        bearssl_rounds br n w (take len (drop buf m)) = Inr (w', drop sent (take len (drop buf m))))"
  using assms by (rule bearssl_sendall_all)

definition demo_engine :: "u8 list bearssl" where
  "demo_engine =
     \<lparr>br_last_error = (\<lambda>w. 0), br_state = (\<lambda>w. BR_SSL_SENDAPP), br_sendrec_buf = (\<lambda>w. []), br_low_write = (\<lambda>w bs. (w, 0)),
      br_sendrec_ack = (\<lambda>w n. w), br_recvrec_len = (\<lambda>w. 0), br_low_read = (\<lambda>w n. (w, 0)), br_recvrec_ack = (\<lambda>w n. w),
      br_sendapp_len = (\<lambda>w. 3), br_sendapp = (\<lambda>w bs. w @ bs), br_flush = (\<lambda>w. w), br_recvapp_buf = (\<lambda>w. []),
      br_recvapp_ack = (\<lambda>w n. w)\<rparr>"

lemma demo_engine_ok: "bearssl_ok id demo_engine"
  by (simp add: bearssl_ok_def demo_engine_def)

lemma demo_engine_runs: "bearssl_sendall demo_engine [9] [1, 2, 3, 4, 5, 6] 1 4 = Some ([9, 2, 3, 4, 5], Cnt 4)"
proof -
  have "bearssl_rounds demo_engine 3 [9] [2, 3, 4, 5] = Inl ([9, 2, 3, 4, 5], MQTT_OK)"
    by (simp add: numeral_3_eq_3 bearssl_round_def move_records_def demo_engine_def BR_SSL_CLOSED_def BR_SSL_RECVREC_def
        BR_SSL_SENDREC_def BR_SSL_SENDAPP_def Let_def)
  from bearssl_rounds_end [OF this] show ?thesis by (simp add: bearssl_sendall_def read_bytes_def)
qed

theorem bearssl_sends_all_witness:
  "\<exists>w' rv sent. bearssl_sendall demo_engine [9] [1, 2, 3, 4, 5, 6] 1 4 = Some (w', rv) \<and>
    id w' = id [9] @ take sent (drop 1 [1, 2, 3, 4, 5, 6]) \<and>
    (rv = Cnt 4 \<and> sent = 4 \<or> rv = Err MQTT_ERROR_SOCKET_ERROR \<and> sent < 4)"
  using bearssl_sends_all [OF demo_engine_ok, of 1 4 "[1, 2, 3, 4, 5, 6]" "[9]"] unfolding demo_engine_runs by simp

text \<open>
  C33: Opening the connection leaks no socket: whatever the resolver, the sockets and the peers answer, either the result is a
  descriptor, and it is the only one that is open afterwards and was not before, or the result is -1 and none is.
\<close>

theorem connection_opened:
  assumes "net_ok opened net" "open_nb_socket net w = (w', r)"
  shows "if r = -1 then opened w' = opened w else 0 \<le> r \<and> opened w' = add_mset r (opened w)"
  using assms by (rule open_nb_socket_opened)

definition demo_net :: "(int multiset, nat) net" where
  "demo_net =
     \<lparr>net_resolve = (\<lambda>w. (w, Some [1, 2])), net_socket = (\<lambda>w a. (add_mset 7 w, 7)),
      net_connect = (\<lambda>w fd a. (w, if a = 2 then 0 else -1)), net_close = (\<lambda>w fd. w - {#fd#}), net_nonblock = (\<lambda>w fd. w)\<rparr>"

theorem connection_opened_witness:
  "open_nb_socket demo_net {#4#} = ({#7, 4#}, 7) \<and>
    (if (7 :: int) = -1 then id {#7, 4#} = id {#4 :: int#} else (0 :: int) \<le> 7 \<and> id {#7, 4#} = add_mset 7 (id {#4 :: int#}))"
proof -
  have "open_nb_socket demo_net {#4#} = ({#7, 4#}, 7)" by (simp add: open_nb_socket_def demo_net_def)
  moreover have "net_ok id demo_net" by (simp add: net_ok_def demo_net_def)
  ultimately show ?thesis using connection_opened [of id demo_net "{#4#}" "{#7, 4#}" 7] by (intro conjI) assumption+
qed

subsection \<open>The WILC driver\<close>

text \<open>
  C35: The probe of the WILC driver always returns. If it fails, everything it took has been given back, or the interrupt was
  refused, the kernel has warned about one that was never held, and the mapping of the registers is left behind. If it
  succeeds with an interrupt, removing the driver gives everything back without a warning; without an interrupt the
  removal reads a number that was never assigned.
\<close>

theorem wilc_probe_balance:
  assumes "\<forall>irq. wa_irq ans = Some irq \<longrightarrow> Ca_irq irq \<notin># l"
  shows "\<exists>lp l' rc w. wilc_probe ans l = Some (lp, l', rc, w) \<and>
    (case lp of
       None \<Rightarrow> rc \<noteq> 0 \<and> (if w = 0 then l' = l else \<exists>base. wa_ioremap ans = Some base \<and> l' = acquire (Ca_iomem base) l)
     | Some lp \<Rightarrow> rc = 0 \<and> w = 0 \<and> wilc_remove lp l' = (if wa_irq ans = None then None else Some (l, 0, 0)))"
  by (rule wilc_probe_outcomes) (use assms in blast)

definition demo_wilc :: wilc_answers where
  "demo_wilc = \<lparr>wa_mem = Some (0x43C10000, 0x43C1FFFF), wa_kmalloc = True, wa_region = True, wa_ioremap = Some 0xF0010000,
     wa_irq = Some 62, wa_request_irq = 0\<rparr>"

theorem wilc_probe_balance_witness:
  "\<exists>lp l'. wilc_probe demo_wilc {#Ca_class#} = Some (Some lp, l', 0, 0) \<and> wilc_remove lp l' = Some ({#Ca_class#}, 0, 0)"
proof -
  obtain lp l' rc w where r: "wilc_probe demo_wilc {#Ca_class#} = Some (lp, l', rc, w)"
    "case lp of
       None \<Rightarrow> rc \<noteq> 0 \<and> (if w = 0 then l' = {#Ca_class#} else \<exists>base. wa_ioremap demo_wilc = Some base \<and> l' = acquire (Ca_iomem base) {#Ca_class#})
     | Some lp \<Rightarrow> rc = 0 \<and> w = 0 \<and> wilc_remove lp l' = (if wa_irq demo_wilc = None then None else Some ({#Ca_class#}, 0, 0))"
    using wilc_probe_balance [of demo_wilc "{#Ca_class#}"] by (auto simp: demo_wilc_def)
  moreover have "lp \<noteq> None" using r(1) by (auto simp: wilc_probe_simps demo_wilc_def Let_def)
  ultimately show ?thesis by (auto simp: demo_wilc_def)
qed

end
