(* ===== verification/Data_Path.thy ===== *)
theory Data_Path
  imports Tool_Properties
begin

text \<open>
  The way of the samples through the whole application: a PUBLISH packet in the receive buffer of the client, the
  string the application takes its payload for, the transmit buffer, the driver, the accelerator. The client hands a
  payload over as an address and a size; \<open>publish_callback\<close> looks at the address only and reads a string up to the next
  zero, so what lies behind the packet matters.
\<close>

subsection \<open>The payload as a string\<close>

text \<open>The string at an address: without a zero behind it, reading it leaves the buffer.\<close>

definition c_string_at :: "mem \<Rightarrow> nat \<Rightarrow> char list option" where
  "c_string_at m i =
     (if 0 \<in> set (drop i m) then Some (map (\<lambda>b. char_of (unat b)) (takeWhile (\<lambda>b. b \<noteq> 0) (drop i m))) else None)"

text \<open>The call of \<open>publish_callback\<close> by the client whose receive buffer is \<open>m\<close>.\<close>

definition app_published ::
    "(nat \<Rightarrow> char) \<Rightarrow> 's lib_env \<Rightarrow> axidma_dev \<Rightarrow> u64 \<Rightarrow> (app \<Rightarrow> app) \<Rightarrow> mem \<Rightarrow> mqtt_response_publish \<Rightarrow> 's \<Rightarrow> app \<Rightarrow> ('s \<times> app) option" where
  "app_published fill env dev addr during m published s a =
     do { message \<leftarrow> c_string_at m (application_message published);
          publish_callback fill env dev addr during message s a }"

text \<open>Text on the wire.\<close>

definition wire_text :: "char list \<Rightarrow> u8 list" where
  "wire_text = map of_char"

lemma unat_of_char: "unat (of_char c :: u8) = of_char c"
proof -
  have "unat (of_nat (of_char c) :: u8) = of_char c mod 256" by (simp add: unat_of_nat take_bit_eq_mod)
  then show ?thesis by (simp only: of_nat_of_char of_char_mod_256)
qed

definition no_zero :: "char list \<Rightarrow> bool" where
  "no_zero s \<longleftrightarrow> (\<forall>c \<in> set s. (of_char c :: nat) \<noteq> 0)"

lemma no_zero_simps [simp]:
  "no_zero []" "no_zero (c # s) \<longleftrightarrow> (of_char c :: nat) \<noteq> 0 \<and> no_zero s" "no_zero (s @ t) \<longleftrightarrow> no_zero s \<and> no_zero t"
  by (auto simp: no_zero_def)

lemma wire_text_char: "char_of (unat (of_char c :: u8)) = c"
  by (simp add: unat_of_char)

lemma wire_text_zero: "(of_char c :: u8) = 0 \<longleftrightarrow> (of_char c :: nat) = 0"
  unfolding unat_of_char [symmetric] by (simp only: unat_eq_zero)

text \<open>Text that holds no zero, at an address: the string goes on with what is behind it.\<close>

definition rest_string :: "u8 list \<Rightarrow> char list" where
  "rest_string rest = map (\<lambda>b. char_of (unat b)) (takeWhile (\<lambda>b. b \<noteq> 0) rest)"

lemma rest_string_wire: "no_zero s \<Longrightarrow> rest_string (wire_text s @ 0 # bs) = s"
proof -
  assume "no_zero s"
  then have "takeWhile (\<lambda>b. b \<noteq> 0) (wire_text s @ 0 # bs) = wire_text s"
    using wire_text_zero by (subst takeWhile_append2) (auto simp: wire_text_def no_zero_def)
  then show ?thesis by (simp add: rest_string_def wire_text_def comp_def wire_text_char)
qed

lemma c_string_wire:
  assumes "drop i m = wire_text s @ rest" "no_zero s"
  shows "c_string_at m i = (if 0 \<in> set rest then Some (s @ rest_string rest) else None)"
proof -
  have z: "b \<noteq> 0" if "b \<in> set (wire_text s)" for b
    using that assms(2) wire_text_zero by (auto simp: wire_text_def no_zero_def)
  have "takeWhile (\<lambda>b. b \<noteq> 0) (wire_text s @ rest) = wire_text s @ takeWhile (\<lambda>b. b \<noteq> 0) rest"
    by (rule takeWhile_append2) (use z in auto)
  moreover have "map (\<lambda>b. char_of (unat b)) (wire_text s) = s" by (simp add: wire_text_def comp_def wire_text_char)
  ultimately show ?thesis using z by (auto simp: c_string_at_def assms(1) rest_string_def)
qed

text \<open>A payload holds none.\<close>

lemma no_zero_nat: "no_zero (show_nat n)"
  using show_nat_digits [of n] by (auto simp: list_all_iff is_digit_def no_zero_def)

lemma no_zero_object: "no_zero (show_object s)"
  by (cases s) (simp add: show_object_def key_def show_int_def no_zero_nat)

lemma no_zero_payload: "no_zero (show_payload samples time)"
proof -
  have "no_zero (show_samples samples)"
    by (induction samples rule: show_samples.induct) (simp_all add: no_zero_object)
  then show ?thesis by (simp add: show_payload_def quoted_def no_zero_nat)
qed

subsection \<open>A packet in the receive buffer\<close>

text \<open>The message of a PUBLISH is the end of the packet.\<close>

lemma publish_response_end:
  "mqtt_unpack_publish_response fh m start = Some (Inr (k, Publish p)) \<Longrightarrow>
    application_message p + application_message_size p = start + k"
  by (auto simp: mqtt_unpack_publish_response_def Let_def split: bind_splits if_splits)

lemma publish_body_end:
  "unpack_body fh m start = Some (Inr (k, Publish p)) \<Longrightarrow> application_message p + application_message_size p = start + k"
  by (auto simp: unpack_body_def mqtt_unpack_connack_response_def mqtt_unpack_pubxxx_response_def
      mqtt_unpack_suback_response_def mqtt_unpack_unsuback_response_def Let_def
      dest!: publish_response_end split: bind_splits if_splits MQTTControlPacketType.splits)

lemma publish_end:
  assumes "mqtt_unpack_response r m (Some i) n = Some (\<lparr>fixed_header = fh, decoded = Publish p\<rparr>, Cnt k)" "k \<noteq> 0"
  shows "application_message p + application_message_size p = i + k"
  using assms by (cases r) (auto simp: mqtt_unpack_response_def Let_def dest!: publish_body_end split: bind_splits if_splits ssize.splits sum.splits)

lemma unpacked_message:
  assumes "length topic < 65536" "4 \<le> length (publish_body flags topic pid msg)"
    and "length (publish_body flags topic pid msg) < 2 ^ 28" "length (enc_publish flags topic pid msg) \<le> n"
  shows "\<exists>fh p. mqtt_unpack_response r (enc_publish flags topic pid msg @ rest) (Some 0) n =
      Some (\<lparr>fixed_header = fh, decoded = Publish p\<rparr>, Cnt (length (enc_publish flags topic pid msg))) \<and>
    qos_level p = publish_qos flags \<and>
    read_bytes (enc_publish flags topic pid msg @ rest) (topic_name p) (unat (topic_name_size p)) = Some topic \<and>
    read_bytes (enc_publish flags topic pid msg @ rest) (application_message p) (application_message_size p) = Some msg \<and>
    drop (application_message p) (enc_publish flags topic pid msg @ rest) = msg @ rest"
proof -
  let ?e = "enc_publish flags topic pid msg"
  have at: "at_mem (?e @ rest) 0 ?e" by (auto simp: at_mem_def load_def nth_append)
  obtain fh p where p: "mqtt_unpack_response r (?e @ rest) (Some 0) n =
      Some (\<lparr>fixed_header = fh, decoded = Publish p\<rparr>, Cnt (length ?e))" "qos_level p = publish_qos flags"
    "read_bytes (?e @ rest) (topic_name p) (unat (topic_name_size p)) = Some topic"
    "read_bytes (?e @ rest) (application_message p) (application_message_size p) = Some msg"
    using unpack_publish_enc [OF at _ assms(4,1,2,3), of r] by auto
  have ne: "length ?e \<noteq> 0" using assms(2) by (auto simp: enc_publish_def)
  have fin: "application_message p + application_message_size p = length ?e" using publish_end [OF p(1) ne] by simp
  have size: "application_message_size p = length msg" using read_bytes_length [OF p(4)] by simp
  have "?e = take (application_message p) ?e @ msg"
  proof -
    have "take (length msg) (drop (application_message p) ?e) = msg"
      using p(4) fin size by (simp add: read_bytes_def)
    then show ?thesis using fin size by (metis append_take_drop_id take_all_iff length_drop add_diff_cancel_left' order_refl)
  qed
  then have "drop (application_message p) (?e @ rest) = msg @ rest"
    using fin by (metis add_leE append_eq_append_conv_if append_eq_conv_conj append.assoc length_take min.absorb2 order_refl)
  then show ?thesis using p by blast
qed

text \<open>An iteration of the receive loop that finds a whole PUBLISH with QoS 0 in the buffer delivers it.\<close>

lemma publish_received:
  assumes env: "env_ok wire env" and inv: "client_inv c"
    and rc: "mqtt_pal_recvall env w (cl_recv_mem c) (cl_recv_curr c) (cl_recv_curr_sz c) =
      Some (w1, enc_publish flags topic pid msg @ rest, Cnt n)"
    and len: "length (enc_publish flags topic pid msg) \<le> cl_recv_curr c + n" and qos: "publish_qos flags = 0"
    and fit: "length topic < 65536" "4 \<le> length (publish_body flags topic pid msg)" "length (publish_body flags topic pid msg) < 2 ^ 28"
  shows "\<exists>c' fh p. recv_iteration env w c r = Some (w1, c', \<lparr>fixed_header = fh, decoded = Publish p\<rparr>, None) \<and>
    cl_published c' = cl_published c @ [\<lparr>call_publish = p, call_topic = Some topic, call_message = Some msg\<rparr>] \<and>
    drop (application_message p) (enc_publish flags topic pid msg @ rest) = msg @ rest"
proof -
  let ?e = "enc_publish flags topic pid msg"
  have room: "cl_recv_curr c + cl_recv_curr_sz c = length (cl_recv_mem c)" using inv by (simp add: client_inv_def)
  obtain bs where bs: "n = length bs" "length bs \<le> cl_recv_curr_sz c" "?e @ rest = patch (cl_recv_mem c) (cl_recv_curr c) bs"
    using recvall_safe [OF env, of "cl_recv_curr c" "cl_recv_curr_sz c" "cl_recv_mem c" w] room rc by auto
  then have total: "length (?e @ rest) = cl_recv_curr c + cl_recv_curr_sz c" using room by simp
  obtain fh p where p: "mqtt_unpack_response r (?e @ rest) (Some 0) (cl_recv_curr c + n) =
      Some (\<lparr>fixed_header = fh, decoded = Publish p\<rparr>, Cnt (length ?e))" "qos_level p = publish_qos flags"
    "read_bytes (?e @ rest) (topic_name p) (unat (topic_name_size p)) = Some topic"
    "read_bytes (?e @ rest) (application_message p) (application_message_size p) = Some msg"
    "drop (application_message p) (?e @ rest) = msg @ rest"
    using unpacked_message [OF fit len, of r rest] by blast
  have ne: "length ?e \<noteq> 0" using fit(2) by (auto simp: enc_publish_def)
  let ?c = "c\<lparr>cl_recv_mem := ?e @ rest, cl_recv_curr := cl_recv_curr c + n, cl_recv_curr_sz := cl_recv_curr_sz c - n\<rparr>"
  have "handle_response env w1 ?c (Publish p) = Some (w1, publish_response_callback ?c p, MQTT_OK)"
    using p(2) qos by (simp add: handle_response_def handle_publish_def)
  moreover obtain c' where c': "consume (publish_response_callback ?c p) (length ?e) = Some c'"
    "cl_published c' = cl_published (publish_response_callback ?c p)"
    using len total bs(1,2) by (auto simp: consume_def memmove_down publish_response_callback_def)
  ultimately have "recv_iteration env w c r = Some (w1, c', \<lparr>fixed_header = fh, decoded = Publish p\<rparr>, None)"
    using rc p(1) ne by (simp add: recv_iteration_def Let_def)
  moreover have "cl_published c' = cl_published c @ [\<lparr>call_publish = p, call_topic = Some topic, call_message = Some msg\<rparr>]"
    using c'(2) p(3,4) by (simp add: publish_response_callback_def)
  ultimately show ?thesis using p(5) by blast
qed

subsection \<open>What the application makes of it\<close>

text \<open>Behind as many samples as the buffer takes, nothing matters.\<close>

lemma fill_tx_buffer_prefix:
  assumes "k \<le> length samples" "samples \<noteq> []" "\<forall>s \<in> set samples. int_range s" "length buffer = 3 * k"
  shows "fill_tx_buffer fill buffer (4 * length buffer) (show_payload samples time @ t) =
    (if terminated fill 0 (3 * k) then Some (concat (map sample_words (take k samples))) else None)"
proof -
  let ?rest = "quoted ''time'' @ CHR '':'' # show_nat time @ ''}'' @ t"
  let ?a = "CHR ''{'' # quoted ''vibration'' @ '':[''" and ?ps = "sample_pieces samples"
  have "show_payload samples time @ t = ?a @ concat (map piece ?ps) @ ?rest"
    using show_samples_pieces [OF assms(2), of ?rest] by (simp add: show_payload_def)
  also have "\<dots> = ?a @ concat (map piece (take k ?ps)) @ concat (map piece (drop k ?ps)) @ ?rest"
    by (metis append.assoc append_take_drop_id concat_append map_append)
  finally have payload: "show_payload samples time @ t = \<dots>" .
  have good: "\<forall>p \<in> set (take k ?ps). good_piece p" using sample_pieces_good [OF assms(3)] in_set_takeD by fast
  have words: "map (sample_words \<circ> fst) (take k ?ps) = map sample_words (take k samples)"
    by (metis list.map_comp sample_pieces_map(1) take_map)
  have x: "CHR ''x'' \<notin> set ?a" by (simp add: quoted_def)
  show ?thesis
    using fill_loop_pieces [OF good _ _ x, of 0 buffer "3 * k" "3 * k" fill "concat (map piece (drop k ?ps)) @ ?rest"] assms(1,4)
    unfolding payload words by (cases "3 * k - k") (auto simp: fill_tx_buffer_def)
qed

text \<open>With fewer samples, it goes on with those of the text behind.\<close>

lemma fill_tx_buffer_behind:
  assumes "samples \<noteq> []" "\<forall>s \<in> set samples. int_range s" "length buffer = 3 * k"
    and "length samples \<le> k" "k \<le> length samples + length old" "\<forall>p \<in> set old. good_piece p" "CHR ''x'' \<notin> set t"
  shows "fill_tx_buffer fill buffer (4 * length buffer) (show_payload samples time @ t @ concat (map piece old) @ u) =
    (if terminated fill 0 (3 * k) then Some (concat (map sample_words (samples @ take (k - length samples) (map fst old)))) else None)"
proof -
  let ?rest = "quoted ''time'' @ CHR '':'' # show_nat time @ ''}'' @ t @ concat (map piece old) @ u"
  let ?a = "CHR ''{'' # quoted ''vibration'' @ '':[''" and ?ps = "sample_pieces samples" and ?j = "length samples"
  let ?b = "CHR '','' # quoted ''time'' @ CHR '':'' # show_nat time @ ''}'' @ t"
  let ?new = "take (k - ?j) old" and ?words = "concat (map sample_words samples)"
  have payload: "show_payload samples time @ t @ concat (map piece old) @ u = ?a @ concat (map piece ?ps) @ ?rest"
    using show_samples_pieces [OF assms(1), of ?rest] by (simp add: show_payload_def)
  have x: "CHR ''x'' \<notin> set ?a" "CHR ''x'' \<notin> set ?b" using assms(7) show_nat_no_x by (auto simp: quoted_def)
  have ne: "?ps \<noteq> []" using assms(1) sample_pieces_map(2) [of samples] by (metis length_0_conv)
  have words: "map (sample_words \<circ> fst) ?ps = map sample_words samples" by (metis list.map_comp sample_pieces_map(1))
  have len: "length ?words = 3 * ?j" by (simp add: length_concat comp_def sample_words_def case_prod_beta sum_list_triv)
  let ?mid = "(?words @ drop (3 * ?j) buffer, 3 * ?j, Some (?b @ concat (map piece ?new) @ concat (map piece (drop (k - ?j) old)) @ u))"
  have one: "fill_loop (3 * k) (3 * k) fill (buffer, 0, Some (?a @ concat (map piece ?ps) @ ?rest)) =
      (if terminated fill 0 (3 * ?j) then fill_loop (3 * k - ?j) (3 * k) fill ?mid else None)"
    using fill_loop_pieces [OF sample_pieces_good [OF assms(2)] _ _ x(1), of 0 buffer "3 * k" "3 * k" fill ?rest] assms(3,4) ne
    by (simp add: words) (metis append_take_drop_id concat_append map_append append.assoc)
  have good: "\<forall>p \<in> set ?new. good_piece p" using assms(6) in_set_takeD by fast
  have size: "length ?new = k - ?j" using assms(5) by simp
  have two: "fill_loop (3 * k - ?j) (3 * k) fill ?mid = (if terminated fill (3 * ?j) (3 * (k - ?j))
      then Some (?words @ concat (map (sample_words \<circ> fst) ?new), 3 * k, Some ((if ?new = [] then ?b else '','') @
        concat (map piece (drop (k - ?j) old)) @ u)) else None)"
    using fill_loop_pieces [OF good _ _ x(2), of "3 * ?j" "?words @ drop (3 * ?j) buffer" "3 * k - ?j" "3 * k" fill
        "concat (map piece (drop (k - ?j) old)) @ u"] assms(3,4) size len
    by (cases "3 * k - ?j - (k - ?j)") (simp_all add: algebra_simps)
  have "3 * ?j + 3 * (k - ?j) = 3 * k" using assms(4) by simp
  then have split: "terminated fill 0 (3 * k) \<longleftrightarrow> terminated fill 0 (3 * ?j) \<and> terminated fill (3 * ?j) (3 * (k - ?j))"
    using terminated_append [of fill 0 "3 * ?j" "3 * (k - ?j)"] by simp
  show ?thesis
    unfolding payload split using one two assms(3) by (simp add: fill_tx_buffer_def take_map)
qed

lemma on_signals_frame [simp]:
  "ap_tx_buf (on_signals k a) = ap_tx_buf a" "ap_tx_channel (on_signals k a) = ap_tx_channel a" "ap_run (on_signals k a) = ap_run a"
proof -
  have "ap_tx_buf ((signal_caeco ^^ k) a) = ap_tx_buf a \<and> ap_tx_channel ((signal_caeco ^^ k) a) = ap_tx_channel a \<and>
      ap_run ((signal_caeco ^^ k) a) = ap_run a" by (induction k) (simp_all add: signal_caeco_def)
  then show "ap_tx_buf (on_signals k a) = ap_tx_buf a" "ap_tx_channel (on_signals k a) = ap_tx_channel a"
    "ap_run (on_signals k a) = ap_run a" by (simp_all add: on_signals_def)
qed

text \<open>A payload whose string fills the buffer: the transfer, if the accelerator is ready, and the buffer afterwards.\<close>

lemma published_transfers:
  assumes inv: "session_inv area base chans I s" and eng: "engine_keeps I (in_area area) eng" and ld: "describes chans ld"
    and i: "kind_ids AXIDMA_DMA AXIDMA_WRITE chans = ap_tx_channel a # is" and buf: "no_wrap addr 1320"
    and msg: "c_string_at m (application_message p) = Some message" "fill_tx_buffer fill (ap_tx_buf a) 1320 message = Some words"
  shows "\<exists>s' a' rc. app_published fill (stack_env ho junk eng k ext pp) ld addr (on_signals sigs) m p s a = Some (s', a') \<and>
    session_inv area base chans I s' \<and> ap_tx_buf a' = words \<and> \<not> ap_rdy a' \<and>
    (if ap_rdy a then axidma_oneway_transfer (stack_env ho junk eng k ext pp) s ld (ap_tx_channel a) addr 1320 True = Some (s', rc) \<and>
       ap_cnt a' = ap_cnt a + 1 else s' = s \<and> ap_cnt a' = ap_cnt a)"
proof -
  obtain s1 rc where t: "axidma_oneway_transfer (stack_env ho junk eng k ext pp) s ld (ap_tx_channel a) addr 1320 True = Some (s1, rc)"
    "session_inv area base chans I s1"
    using session_transfer [OF inv eng ld i buf, of ho junk k ext pp True] by blast
  show ?thesis
  proof (cases "ap_rdy a")
    case True
    let ?a = "(on_signals sigs (a\<lparr>ap_tx_buf := words, ap_cnt := ap_cnt a + 1\<rparr>))\<lparr>ap_rdy := False\<rparr>"
    have "app_published fill (stack_env ho junk eng k ext pp) ld addr (on_signals sigs) m p s a = Some (s1, ?a)"
      using True msg t(1) by (simp add: app_published_def publish_callback_def tx_size_def)
    then show ?thesis using True t by (intro exI [of _ s1] exI [of _ ?a] exI [of _ rc]) simp
  next
    case False
    have "app_published fill (stack_env ho junk eng k ext pp) ld addr (on_signals sigs) m p s a = Some (s, a\<lparr>ap_tx_buf := words\<rparr>)"
      using False msg by (simp add: app_published_def publish_callback_def tx_size_def)
    then show ?thesis using False inv by (intro exI [of _ s] exI [of _ "a\<lparr>ap_tx_buf := words\<rparr>"]) simp
  qed
qed

text \<open>The packets the sensor publishes.\<close>

definition samples_packet :: "u8 \<Rightarrow> u16 \<Rightarrow> (int \<times> int \<times> int) list \<Rightarrow> nat \<Rightarrow> u8 list" where
  "samples_packet flags pid samples time = enc_publish flags vibration_topic pid (wire_text (show_payload samples time))"

lemma samples_packet_fits:
  assumes "length (samples_packet flags pid samples time) \<le> 4096"
  shows "length vibration_topic < 65536" "4 \<le> length (publish_body flags vibration_topic pid (wire_text (show_payload samples time)))"
    "length (publish_body flags vibration_topic pid (wire_text (show_payload samples time))) < 2 ^ 28"
  using assms by (simp_all add: samples_packet_def enc_publish_def length_publish_body mqtt_packed_cstrlen_def vibration_topic_def)

subsection \<open>From the wire to the accelerator\<close>

text \<open>
  C3: The whole way of the samples. A PUBLISH with QoS 0 and at least 110 samples that is complete in the receive buffer of
  4096 bytes is delivered by the next iteration of the receive loop. The callback of the application is defined exactly if
  there is a zero somewhere behind the packet, where the string it takes the payload for ends, and if the byte behind
  each copied number, which is never written, is no digit. It then returns and leaves the first 110 samples in its
  transmit buffer, whatever else is behind the packet. If the accelerator was ready, the buffer has been handed to the
  loaded driver as one transfer of 1320 bytes on the application's channel, one more is counted, and the driver keeps its
  invariant; otherwise nothing is transferred. In any case the application waits for the next interrupt. What the hardware
  model makes of the buffer is what the software computes of it, wherever that is defined, which is if no sum overflows.
\<close>

theorem samples_reach_accelerator:
  assumes "env_ok wire env" "client_inv c" "length (cl_recv_mem c) = 4096" "publish_qos flags = 0"
    and "mqtt_pal_recvall env w (cl_recv_mem c) (cl_recv_curr c) (cl_recv_curr_sz c) =
      Some (w1, samples_packet flags pid samples time @ rest, Cnt n)"
    and "length (samples_packet flags pid samples time) \<le> cl_recv_curr c + n"
    and "110 \<le> length samples" "\<forall>x \<in> set samples. int_range x" "length (ap_tx_buf a) = 330"
    and "session_inv area base chans I s" "engine_keeps I (in_area area) eng" "describes chans ld" "no_wrap addr 1320"
    and "kind_ids AXIDMA_DMA AXIDMA_WRITE chans = ap_tx_channel a # is"
  shows "\<exists>c' fh p. recv_iteration env w c r = Some (w1, c', \<lparr>fixed_header = fh, decoded = Publish p\<rparr>, None) \<and>
    (if 0 \<in> set rest \<and> terminated fill 0 330 then
       \<exists>s' a' rc.
         app_published fill (stack_env ho junk eng k ext pp) ld addr (on_signals sigs) (samples_packet flags pid samples time @ rest) p s a =
           Some (s', a') \<and>
         session_inv area base chans I s' \<and> ap_tx_buf a' = concat (map sample_words (take 110 samples)) \<and> \<not> ap_rdy a' \<and>
         (if ap_rdy a then axidma_oneway_transfer (stack_env ho junk eng k ext pp) s ld (ap_tx_channel a) addr 1320 True = Some (s', rc) \<and>
            ap_cnt a' = ap_cnt a + 1 else s' = s \<and> ap_cnt a' = ap_cnt a) \<and>
         (\<forall>sums results. calc_output (ap_tx_buf a') 1320 = Some sums \<longrightarrow> accelerated (ap_tx_buf a') results \<longrightarrow> results = sums)
     else app_published fill (stack_env ho junk eng k ext pp) ld addr (on_signals sigs) (samples_packet flags pid samples time @ rest) p s a =
       None)"
proof -
  let ?m = "samples_packet flags pid samples time @ rest" and ?words = "concat (map sample_words (take 110 samples))"
  let ?env = "stack_env ho junk eng k ext pp"
  obtain bs where "?m = patch (cl_recv_mem c) (cl_recv_curr c) bs" "length bs \<le> cl_recv_curr_sz c"
    using recvall_safe [OF assms(1), of "cl_recv_curr c" "cl_recv_curr_sz c" "cl_recv_mem c" w] assms(2,5)
    by (auto simp: client_inv_def)
  then have "length ?m = 4096" using assms(2,3) by (simp add: client_inv_def)
  then have fits: "length (samples_packet flags pid samples time) \<le> 4096" by simp
  obtain c' fh p where p: "recv_iteration env w c r = Some (w1, c', \<lparr>fixed_header = fh, decoded = Publish p\<rparr>, None)"
    "drop (application_message p) ?m = wire_text (show_payload samples time) @ rest"
    using publish_received [OF assms(1,2) assms(5) [unfolded samples_packet_def] assms(6) [unfolded samples_packet_def] assms(4)
        samples_packet_fits [OF fits], where r = r] unfolding samples_packet_def by blast
  have "samples \<noteq> []" "length (ap_tx_buf a) = 3 * 110" using assms(7,9) by auto
  then have f: "fill_tx_buffer fill (ap_tx_buf a) 1320 (show_payload samples time @ rest_string rest) =
      (if terminated fill 0 330 then Some ?words else None)"
    using fill_tx_buffer_prefix [OF assms(7) _ assms(8)] assms(9) by simp
  have str: "c_string_at ?m (application_message p) = (if 0 \<in> set rest then Some (show_payload samples time @ rest_string rest) else None)"
    using c_string_wire [OF p(2) no_zero_payload] .
  have "if 0 \<in> set rest \<and> terminated fill 0 330 then
       \<exists>s' a' rc. app_published fill ?env ld addr (on_signals sigs) ?m p s a = Some (s', a') \<and>
         session_inv area base chans I s' \<and> ap_tx_buf a' = ?words \<and> \<not> ap_rdy a' \<and>
         (if ap_rdy a then axidma_oneway_transfer ?env s ld (ap_tx_channel a) addr 1320 True = Some (s', rc) \<and>
            ap_cnt a' = ap_cnt a + 1 else s' = s \<and> ap_cnt a' = ap_cnt a) \<and>
         (\<forall>sums results. calc_output (ap_tx_buf a') 1320 = Some sums \<longrightarrow> accelerated (ap_tx_buf a') results \<longrightarrow> results = sums)
     else app_published fill ?env ld addr (on_signals sigs) ?m p s a = None"
  proof (cases "0 \<in> set rest \<and> terminated fill 0 330")
    case False
    then have "app_published fill ?env ld addr (on_signals sigs) ?m p s a = None"
      using f str by (auto simp: app_published_def publish_callback_def tx_size_def)
    then show ?thesis unfolding if_not_P [OF False] .
  next
    case True
    obtain s' a' rc where t: "app_published fill ?env ld addr (on_signals sigs) ?m p s a = Some (s', a')"
      "session_inv area base chans I s'" "ap_tx_buf a' = ?words" "\<not> ap_rdy a'"
      "if ap_rdy a then axidma_oneway_transfer ?env s ld (ap_tx_channel a) addr 1320 True = Some (s', rc) \<and>
         ap_cnt a' = ap_cnt a + 1 else s' = s \<and> ap_cnt a' = ap_cnt a"
      using published_transfers [OF assms(10-12,14,13), of ?m p "show_payload samples time @ rest_string rest" fill ?words ho junk k ext pp sigs]
        str f True by auto
    have "length ?words = 330" using assms(7) by (simp add: length_sample_words)
    then have "results = sums" if "calc_output (ap_tx_buf a') 1320 = Some sums" "accelerated (ap_tx_buf a') results" for sums results
      using accelerated_sums [OF that(2), of sums] that(1) t(3) by simp
    then show ?thesis unfolding if_P [OF True] using t by blast
  qed
  with p(1) show ?thesis by blast
qed

text \<open>A receive buffer that holds such a packet, and nothing more to receive.\<close>

definition five_samples :: "(int \<times> int \<times> int) list" where
  "five_samples = replicate 110 (5, 5, 5)"

definition received_client :: mqtt_client where
  "received_client = (let b = samples_packet 0 0 five_samples 1664810617768 in
     (idle_client 1024 True MQTT_OK)\<lparr>cl_recv_mem := b @ replicate (4096 - length b) 0, cl_recv_curr := length b,
       cl_recv_curr_sz := 4096 - length b\<rparr>)"

lemma length_show_replicate: "length (show_samples (replicate (Suc n) x)) = n * Suc (length (show_object x)) + length (show_object x)"
proof (induction n)
  case (Suc n)
  have "show_samples (replicate (Suc (Suc n)) x) = show_object x @ CHR '','' # show_samples (replicate (Suc n) x)" by simp
  then show ?case using Suc by simp
qed simp

lemma five_length: "length (samples_packet 0 0 five_samples 1664810617768) < 4096"
proof -
  have time: "length (show_nat 1664810617768) = 13" by (simp add: show_nat.simps)
  have "length (show_object (5, 5, 5)) = 19" by (simp add: show_object_def key_def show_int_def show_nat.simps)
  then have "length (show_samples five_samples) = 109 * 20 + 19"
    using length_show_replicate [of 109 "(5, 5, 5)"] by (simp add: five_samples_def)
  then have "length (wire_text (show_payload five_samples 1664810617768)) = 2236"
    by (simp add: wire_text_def show_payload_def quoted_def time)
  then show ?thesis
    by (simp add: samples_packet_def enc_publish_def length_publish_body mqtt_packed_cstrlen_def vibration_topic_def
        enc_fixed_header_def enc_length.simps publish_qos_def)
qed

lemma received_ok: "client_inv received_client" "length (cl_recv_mem received_client) = 4096" "0 \<in> set (replicate (4096 - length (samples_packet 0 0 five_samples 1664810617768)) (0 :: u8))"
proof -
  have "mq_inv (cl_mq (idle_client 1024 True MQTT_OK))" using idle_client_inv [of 1024 True MQTT_OK] by (simp add: client_inv_def)
  then show "client_inv received_client" using five_length by (simp add: client_inv_def received_client_def Let_def)
  show "length (cl_recv_mem received_client) = 4096" using five_length by (simp add: received_client_def Let_def)
  show "0 \<in> set (replicate (4096 - length (samples_packet 0 0 five_samples 1664810617768)) (0 :: u8))" using five_length by simp
qed

lemma five_words: "concat (map sample_words (take 110 five_samples)) = replicate 330 5"
proof -
  have "concat (map sample_words (replicate n (5, 5, 5))) = replicate (3 * n) 5" for n
    by (induction n) (simp_all add: numeral_3_eq_3)
  then show ?thesis by (simp add: five_samples_def)
qed

lemma five_sums: "calc_output (replicate 330 5) 1320 = Some [1650]"
  using calc_output_chunks [of "replicate 330 5"] checked_sum_replicate [of 0 5 330] by (simp add: chunks_replicate INT_MAX_def)

theorem samples_reach_accelerator_witness:
  "\<exists>c' fh p s' a'. recv_iteration quiet_env [] received_client no_response =
      Some ([], c', \<lparr>fixed_header = fh, decoded = Publish p\<rparr>, None) \<and>
    app_published (\<lambda>_. CHR ''}'') demo_env demo_ld 0x70000000 (on_signals 0) (cl_recv_mem received_client) p
      ((), [], demo_mapped, demo_mapped_ledger) idle_app = Some (s', a') \<and>
    ap_tx_buf a' = replicate 330 5 \<and> ap_cnt a' = 1 \<and> \<not> ap_rdy a' \<and>
    (\<forall>results. accelerated (ap_tx_buf a') results \<longrightarrow> results = [1650])"
proof -
  let ?b = "samples_packet 0 0 five_samples 1664810617768" and ?zeros = "replicate (4096 - length (samples_packet 0 0 five_samples 1664810617768)) (0 :: u8)"
  have mem: "cl_recv_mem received_client = ?b @ ?zeros" "length ?b \<le> cl_recv_curr received_client + 0"
    by (simp_all add: received_client_def Let_def)
  have recv: "mqtt_pal_recvall quiet_env [] (cl_recv_mem received_client) (cl_recv_curr received_client) (cl_recv_curr_sz received_client) =
      Some ([], ?b @ ?zeros, Cnt 0)"
    unfolding mem(1) by (rule quiet_recvall)
  have q: "publish_qos 0 = 0" "no_wrap 0x70000000 1320" by (simp_all add: publish_qos_def no_wrap_def)
  have five: "110 \<le> length five_samples" "\<forall>x \<in> set five_samples. int_range x" "length (ap_tx_buf idle_app) = 330"
    "kind_ids AXIDMA_DMA AXIDMA_WRITE demo_chans = ap_tx_channel idle_app # []"
    using demo_samples(1) [of 110] demo_mappings(5) by (simp_all add: five_samples_def idle_app_def)
  have cond: "(0 \<in> set ?zeros \<and> terminated (\<lambda>_. CHR ''}'') 0 330) = True" using received_ok(3) by simp
  note reach = samples_reach_accelerator [OF quiet_env_ok(1) received_ok(1,2) q(1) recv mem(2) five(1-3) demo_loaded recorder_keeps(1)
      demo_describes q(2) five(4), where r = no_response and fill = "\<lambda>_. CHR ''}''" and ho = demo_host and junk = junk_chan and k = True
      and ext = no_import and pp = 7 and sigs = 0, unfolded cond if_True five_words]
  obtain c' fh p s' a' where run: "recv_iteration quiet_env [] received_client no_response =
      Some ([], c', \<lparr>fixed_header = fh, decoded = Publish p\<rparr>, None)"
    "app_published (\<lambda>_. CHR ''}'') demo_env demo_ld 0x70000000 (on_signals 0) (?b @ ?zeros) p
      ((), [], demo_mapped, demo_mapped_ledger) idle_app = Some (s', a')"
    "ap_tx_buf a' = replicate 330 5" "\<not> ap_rdy a'" "ap_cnt a' = 1"
    "\<forall>sums results. calc_output (ap_tx_buf a') 1320 = Some sums \<longrightarrow> accelerated (ap_tx_buf a') results \<longrightarrow> results = sums"
    using reach by (auto simp: idle_app_def)
  have "\<forall>results. accelerated (ap_tx_buf a') results \<longrightarrow> results = [1650]" using run(3,6) five_sums by simp
  then show ?thesis using run(1-5) unfolding mem(1) by blast
qed

text \<open>
  C20: A payload with fewer than 110 samples does not leave the rest of the buffer alone: the callback goes on reading
  behind the packet, and if the bytes there still hold samples of an earlier one, it fills the buffer with those. The
  size that the client hands over, of the payload alone, is not looked at. If there is no zero behind the packet either,
  reading leaves the receive buffer; and the byte behind each copied number must be no digit. (Shown for an application
  that is not ready, so that nothing is transferred.)
\<close>

theorem short_payload_reads_behind:
  assumes "length (samples_packet flags pid samples time) \<le> 4096" "length (samples_packet flags pid samples time) \<le> n"
    and "samples \<noteq> []" "length samples < 110" "\<forall>x \<in> set samples. int_range x" "length (ap_tx_buf a) = 330"
    and "rest_string rest = t @ concat (map piece old) @ u" "CHR ''x'' \<notin> set t" "\<forall>p \<in> set old. good_piece p"
    and "110 \<le> length samples + length old" "\<not> ap_rdy a"
  shows "\<exists>fh p.
    mqtt_unpack_response r (samples_packet flags pid samples time @ rest) (Some 0) n =
      Some (\<lparr>fixed_header = fh, decoded = Publish p\<rparr>, Cnt (length (samples_packet flags pid samples time))) \<and>
    read_bytes (samples_packet flags pid samples time @ rest) (application_message p) (application_message_size p) =
      Some (wire_text (show_payload samples time)) \<and>
    app_published fill env ld addr during (samples_packet flags pid samples time @ rest) p s a =
      (if 0 \<in> set rest \<and> terminated fill 0 330
       then Some (s, a\<lparr>ap_tx_buf := concat (map sample_words (samples @ take (110 - length samples) (map fst old)))\<rparr>)
       else None)"
proof -
  let ?m = "samples_packet flags pid samples time @ rest"
  obtain fh p where p: "mqtt_unpack_response r ?m (Some 0) n =
      Some (\<lparr>fixed_header = fh, decoded = Publish p\<rparr>, Cnt (length (samples_packet flags pid samples time)))"
    "read_bytes ?m (application_message p) (application_message_size p) = Some (wire_text (show_payload samples time))"
    "drop (application_message p) ?m = wire_text (show_payload samples time) @ rest"
    using unpacked_message [OF samples_packet_fits [OF assms(1)] assms(2) [unfolded samples_packet_def], where r = r and rest = rest]
    by (auto simp: samples_packet_def)
  have "length (ap_tx_buf a) = 3 * 110" "length samples \<le> 110" using assms(4,6) by simp_all
  then have f: "fill_tx_buffer fill (ap_tx_buf a) 1320 (show_payload samples time @ rest_string rest) = (if terminated fill 0 330
      then Some (concat (map sample_words (samples @ take (110 - length samples) (map fst old)))) else None)"
    using fill_tx_buffer_behind [OF assms(3,5) _ _ assms(10,9,8), where buffer = "ap_tx_buf a" and fill = fill and u = u and time = time]
      assms(6,7) by simp
  have "app_published fill env ld addr during ?m p s a =
      (if 0 \<in> set rest \<and> terminated fill 0 330
       then Some (s, a\<lparr>ap_tx_buf := concat (map sample_words (samples @ take (110 - length samples) (map fst old)))\<rparr>)
       else None)"
    using c_string_wire [OF p(3) no_zero_payload] f assms(11) by (simp add: app_published_def publish_callback_def tx_size_def)
  then show ?thesis using p by blast
qed

text \<open>One sample, and behind it 109 of an earlier payload.\<close>

definition stale_text :: "((int \<times> int \<times> int) \<times> char list) list" where
  "stale_text = replicate 109 ((7, 7, 7), [])"

definition stale_bytes :: "u8 list" where
  "stale_bytes = wire_text (concat (map piece stale_text)) @ [0]"

lemma stale_string: "rest_string stale_bytes = [] @ concat (map piece stale_text) @ []"
proof -
  have "no_zero (concat (map piece (replicate n ((7, 7, 7), []))))" for n
    by (induction n) (simp_all add: piece_def no_zero_object)
  then show ?thesis by (simp add: stale_bytes_def stale_text_def rest_string_wire del: map_replicate)
qed

lemma one_length: "length (samples_packet 0 0 [(1, 2, 3)] 1664810617768) \<le> 4096"
  by (simp add: samples_packet_def enc_publish_def length_publish_body mqtt_packed_cstrlen_def vibration_topic_def
      wire_text_def show_payload_def quoted_def show_object_def key_def show_int_def show_nat.simps
      enc_fixed_header_def enc_length.simps publish_qos_def)

theorem short_payload_reads_behind_witness:
  "\<exists>fh p. mqtt_unpack_response no_response (samples_packet 0 0 [(1, 2, 3)] 1664810617768 @ stale_bytes) (Some 0) 4096 =
      Some (\<lparr>fixed_header = fh, decoded = Publish p\<rparr>, Cnt (length (samples_packet 0 0 [(1, 2, 3)] 1664810617768))) \<and>
    app_published (\<lambda>_. CHR ''}'') demo_env demo_ld 0x70000000 id (samples_packet 0 0 [(1, 2, 3)] 1664810617768 @ stale_bytes) p
      ((), [], demo_mapped, demo_mapped_ledger) (idle_app\<lparr>ap_rdy := False\<rparr>) =
      Some (((), [], demo_mapped, demo_mapped_ledger),
        idle_app\<lparr>ap_rdy := False, ap_tx_buf := [1, 2, 3] @ replicate 327 7\<rparr>)"
proof -
  have sevens: "concat (map sample_words (replicate n (7, 7, 7))) = replicate (3 * n) 7" for n
    by (induction n) (simp_all add: numeral_3_eq_3)
  have "110 - length [(1, 2, 3) :: int \<times> int \<times> int] = 109" "map fst stale_text = replicate 109 (7, 7, 7)"
    by (simp_all add: stale_text_def)
  then have words: "concat (map sample_words ([(1, 2, 3)] @ take (110 - length [(1, 2, 3) :: int \<times> int \<times> int]) (map fst stale_text))) =
      [1, 2, 3] @ replicate 327 7"
    using sevens [of 109] by simp
  have "\<forall>p \<in> set stale_text. good_piece p" "\<forall>x \<in> set [(1, 2, 3)]. int_range x" "0 \<in> set stale_bytes" "length stale_text = 109"
    by (simp_all add: stale_text_def good_piece_def int_range_def INT_MIN_def INT_MAX_def stale_bytes_def)
  then show ?thesis
    using short_payload_reads_behind [OF one_length one_length [THEN order.trans], of 4096 "idle_app\<lparr>ap_rdy := False\<rparr>"
        stale_bytes "[]" stale_text "[]" no_response "\<lambda>_. CHR ''}''" demo_env demo_ld "0x70000000" id "((), [], demo_mapped, demo_mapped_ledger)"]
      stale_string
    unfolding words by (auto simp: idle_app_def)
qed

end
