(* ===== verification/Mqtt_Tls_Sockets.thy ===== *)
theory Mqtt_Tls_Sockets
  imports Mqtt_Sockets
begin

text \<open>
  The other socket templates: \<open>bio_sockets.h\<close>, \<open>openssl_sockets.h\<close>, \<open>mbedtls_sockets.h\<close>, and the rest of
  \<open>bearssl_sockets.h\<close>. The calls of the libraries are functions of a world; what is set up without an answer that the
  code looks at is left out, as are messages. A template ends with a result, or it ends the program. A loop that waits
  for the peer may never end: then the result is \<open>None\<close>.
\<close>

subsection \<open>BIO\<close>

text \<open>\<open>bio_create\<close> and \<open>bio_free\<close> open and free a handle; \<open>bio_do_connect\<close> is positive when the connection is there.\<close>

record 'w bio_calls =
  bio_create :: "'w \<Rightarrow> 'w \<times> nat"
  bio_do_connect :: "'w \<Rightarrow> nat \<Rightarrow> 'w \<times> int"
  bio_time :: "'w \<Rightarrow> 'w \<times> int"

partial_function (option) bio_wait :: "'w bio_calls \<Rightarrow> 'w \<Rightarrow> nat \<Rightarrow> int \<Rightarrow> 'w option" where
  "bio_wait lib w bio start_time =
     (let (w, rv) = bio_do_connect lib w bio in
      if rv = 0 then
        let (w, now) = bio_time lib w in
        if now - start_time < 10 then bio_wait lib w bio start_time else Some w
      else Some w)"

definition bio_open_nb_socket :: "'w bio_calls \<Rightarrow> 'w \<Rightarrow> ('w \<times> nat option) option" where
  "bio_open_nb_socket lib w =
     (let (w, bio) = bio_create lib w;
          (w, start_time) = bio_time lib w
      in do { w \<leftarrow> bio_wait lib w bio start_time;
              let (w, rv) = bio_do_connect lib w bio;
              Some (w, if rv \<le> 0 then None else Some bio) })"

text \<open>
  A non-blocking connect that is still under way answers -1; the loop only waits for 0. And the handle of a connection
  that failed is lost.
\<close>

lemma bio_never_waits:
  assumes "bio_create lib w = (w1, bio)" "bio_time lib w1 = (w2, t)" "bio_do_connect lib w2 bio = (w3, -1)"
    and "bio_do_connect lib w3 bio = (w4, -1)"
  shows "bio_open_nb_socket lib w = Some (w4, None)"
  using assms by (simp add: bio_open_nb_socket_def bio_wait.simps Let_def)

subsection \<open>OpenSSL\<close>

datatype 'r ended = Continues 'r | Exits int

record 'w openssl_calls =
  os_load_ca :: "'w \<Rightarrow> 'w \<times> bool"
  os_use_cert :: "'w \<Rightarrow> 'w \<times> bool"
  os_use_key :: "'w \<Rightarrow> 'w \<times> bool"
  os_do_connect :: "'w \<Rightarrow> 'w \<times> int"
  os_should_retry :: "'w \<Rightarrow> bool"
  os_time :: "'w \<Rightarrow> 'w \<times> int"
  os_free :: "'w \<Rightarrow> 'w"
  os_verify_result :: "'w \<Rightarrow> int"

definition X509_V_OK :: int where "X509_V_OK = 0"

partial_function (option) openssl_wait :: "'w openssl_calls \<Rightarrow> 'w \<Rightarrow> int \<Rightarrow> int \<Rightarrow> ('w \<times> int) option" where
  "openssl_wait lib w start_time do_connect_rv =
     (if do_connect_rv \<le> 0 \<and> os_should_retry lib w then
        let (w, now) = os_time lib w in
        if now - start_time < 10 then
          let (w, rv) = os_do_connect lib w in openssl_wait lib w start_time rv
        else Some (w, do_connect_rv)
      else Some (w, do_connect_rv))"

text \<open>The certificates. \<open>client_cert\<close>: the caller gave a certificate and a key.\<close>

definition openssl_load :: "'w openssl_calls \<Rightarrow> bool \<Rightarrow> 'w \<Rightarrow> 'w ended" where
  "openssl_load lib client_cert w =
     (let (w, ok) = os_load_ca lib w in
      if \<not> ok then Exits 1
      else if client_cert then
        let (w, ok) = os_use_cert lib w in
        if \<not> ok then Exits 1
        else
          let (w, ok) = os_use_key lib w in
          if \<not> ok then Exits 1 else Continues w
      else Continues w)"

text \<open>The result tells whether the handles are there; otherwise they are freed and null.\<close>

definition openssl_open_nb_socket :: "'w openssl_calls \<Rightarrow> bool \<Rightarrow> 'w \<Rightarrow> ('w \<times> bool) ended option" where
  "openssl_open_nb_socket lib client_cert w =
     (case openssl_load lib client_cert w of
        Exits status \<Rightarrow> Some (Exits status)
      | Continues w \<Rightarrow>
          let (w, start_time) = os_time lib w;
              (w, do_connect_rv) = os_do_connect lib w
          in do { (w, do_connect_rv) \<leftarrow> openssl_wait lib w start_time do_connect_rv;
                  Some (if do_connect_rv \<le> 0 then Continues (os_free lib w, False)
                        else if os_verify_result lib w \<noteq> X509_V_OK then Exits 1
                        else Continues (w, True)) })"

subsection \<open>mbedTLS\<close>

text \<open>The calls whose result the code looks at, and the two results of the handshake that ask for more.\<close>

record 'w mbedtls_calls =
  mb_want_read :: int
  mb_want_write :: int
  mb_ctr_drbg_seed :: "'w \<Rightarrow> 'w \<times> int"
  mb_crt_parse_file :: "'w \<Rightarrow> 'w \<times> int"
  mb_config_defaults :: "'w \<Rightarrow> 'w \<times> int"
  mb_net_connect :: "'w \<Rightarrow> 'w \<times> int"
  mb_set_nonblock :: "'w \<Rightarrow> 'w \<times> int"
  mb_ssl_setup :: "'w \<Rightarrow> 'w \<times> int"
  mb_set_hostname :: "'w \<Rightarrow> 'w \<times> int"
  mb_handshake :: "'w \<Rightarrow> 'w \<times> int"
  mb_poll :: "'w \<Rightarrow> u32 \<Rightarrow> 'w \<times> int"
  mb_verify_result :: "'w \<Rightarrow> u32"

text \<open>The values for older libraries.\<close>

definition MBEDTLS_NET_POLL_READ :: u32 where "MBEDTLS_NET_POLL_READ = 1"
definition MBEDTLS_NET_POLL_WRITE :: u32 where "MBEDTLS_NET_POLL_WRITE = 1"

text \<open>\<open>failed\<close> and \<open>cert_verify_failed\<close> print and end the program.\<close>

definition failed :: "int \<Rightarrow> 'r ended" where
  "failed rv = Exits 1"

definition cert_verify_failed :: "u32 \<Rightarrow> 'r ended" where
  "cert_verify_failed rv = Exits 1"

fun mbedtls_setup :: "('w \<Rightarrow> 'w \<times> int) list \<Rightarrow> 'w \<Rightarrow> 'w ended" where
  "mbedtls_setup [] w = Continues w"
| "mbedtls_setup (call # calls) w =
     (let (w, rv) = call w in if rv \<noteq> 0 then failed rv else mbedtls_setup calls w)"

definition mbedtls_steps :: "'w mbedtls_calls \<Rightarrow> ('w \<Rightarrow> 'w \<times> int) list" where
  "mbedtls_steps lib =
     [mb_ctr_drbg_seed lib, mb_crt_parse_file lib, mb_config_defaults lib, mb_net_connect lib, mb_set_nonblock lib,
      mb_ssl_setup lib, mb_set_hostname lib]"

partial_function (option) mbedtls_handshake_loop :: "'w mbedtls_calls \<Rightarrow> 'w \<Rightarrow> ('w \<times> int) ended option" where
  "mbedtls_handshake_loop lib w =
     (let (w, rv) = mb_handshake lib w in
      if rv = mb_want_read lib \<or> rv = mb_want_write lib then
        let want = (if rv = mb_want_read lib then 0 OR MBEDTLS_NET_POLL_READ else 0 OR MBEDTLS_NET_POLL_WRITE);
            (w, rv) = mb_poll lib w want
        in if rv < 0 then Some (failed rv) else mbedtls_handshake_loop lib w
      else Some (Continues (w, rv)))"

definition mbedtls_open_nb_socket :: "'w mbedtls_calls \<Rightarrow> 'w \<Rightarrow> 'w ended option" where
  "mbedtls_open_nb_socket lib w =
     (case mbedtls_setup (mbedtls_steps lib) w of
        Exits status \<Rightarrow> Some (Exits status)
      | Continues w \<Rightarrow>
          do { r \<leftarrow> mbedtls_handshake_loop lib w;
               Some (case r of
                  Exits status \<Rightarrow> Exits status
                | Continues (w, rv) \<Rightarrow>
                    if rv \<noteq> 0 then failed rv
                    else
                      let result = mb_verify_result lib w in
                      if result \<noteq> 0 then
                        if result = -1 then failed (-1) else cert_verify_failed result
                      else Continues w) })"

text \<open>The replacement of older libraries for \<open>mbedtls_net_poll\<close> waits, and claims readiness.\<close>

definition mbedtls_net_poll :: "'w \<Rightarrow> u32 \<Rightarrow> u32 \<Rightarrow> 'w \<times> int" where
  "mbedtls_net_poll w rw timeout = (w, 1)"

subsection \<open>The rest of BearSSL\<close>

record 'w br_context =
  ctx_start :: "'w \<Rightarrow> 'w"
  ctx_close :: "'w \<Rightarrow> 'w"
  ctx_shutdown :: "'w \<Rightarrow> int \<Rightarrow> 'w"
  ctx_close_fd :: "'w \<Rightarrow> int \<Rightarrow> 'w \<times> int"

text \<open>The descriptor is kept in the context, even -1.\<close>

definition bearssl_open_nb_socket :: "'w br_context \<Rightarrow> ('w, 'a) net \<Rightarrow> 'a \<Rightarrow> 'w \<Rightarrow> 'w \<times> int \<times> int" where
  "bearssl_open_nb_socket ctx net ipv4 w =
     (let (w, fd) = host_connect net ipv4 (ctx_start ctx w) in (w, fd, if fd = -1 then -1 else 0))"

text \<open>The result is only assigned if there is a descriptor to close.\<close>

definition close_socket :: "'w br_context \<Rightarrow> 'w \<Rightarrow> int \<Rightarrow> ('w \<times> int \<times> int) option" where
  "close_socket ctx w fd =
     (let w = ctx_close ctx w in
      if fd \<noteq> 0 then
        let (w, rc) = ctx_close_fd ctx (ctx_shutdown ctx w fd) fd in Some (w, 0, rc)
      else None)"

lemma close_twice_undefined:
  assumes "close_socket ctx w fd = Some (w', fd', rc)"
  shows "close_socket ctx w' fd' = None"
  using assms by (auto simp: close_socket_def Let_def split: if_splits prod.splits)

subsection \<open>No connection without a verified certificate\<close>

lemma openssl_verified:
  assumes "openssl_open_nb_socket lib client_cert w = Some (Continues (w', True))"
  shows "os_verify_result lib w' = X509_V_OK"
  using assms
  by (auto simp: openssl_open_nb_socket_def Let_def bind_eq_Some_conv split: ended.splits prod.splits if_splits)

lemma mbedtls_verified:
  assumes "mbedtls_open_nb_socket lib w = Some (Continues w')"
  shows "mb_verify_result lib w' = 0"
proof (cases "mbedtls_setup (mbedtls_steps lib) w")
  case (Exits status)
  then show ?thesis using assms by (simp add: mbedtls_open_nb_socket_def)
next
  case (Continues w1)
  then obtain r where r: "mbedtls_handshake_loop lib w1 = Some r"
    using assms by (cases "mbedtls_handshake_loop lib w1") (simp_all add: mbedtls_open_nb_socket_def)
  show ?thesis using assms Continues r
    by (cases r) (auto simp: mbedtls_open_nb_socket_def Let_def failed_def cert_verify_failed_def split: prod.splits if_splits)
qed

text \<open>And the waiting ends, if the clock goes on while OpenSSL connects.\<close>

lemma openssl_wait_ends:
  assumes clock: "\<And>w. snd (os_time lib w) = now w" and ticks: "\<And>w. now w < now (fst (os_do_connect lib (fst (os_time lib w))))"
  shows "\<exists>r. openssl_wait lib w start rv = Some r"
proof (induction "nat (start + 10 - now w)" arbitrary: w rv rule: less_induct)
  case less
  obtain w1 t where t: "os_time lib w = (w1, t)" by (cases "os_time lib w")
  obtain w2 rv' where c: "os_do_connect lib w1 = (w2, rv')" by (cases "os_do_connect lib w1")
  have "t = now w" "now w < now w2" using clock [of w] ticks [of w] t c by simp_all
  then have "\<exists>r. openssl_wait lib w2 start rv' = Some r" if "t - start < 10"
    using less [of w2 rv'] that by simp
  then show ?case using t c by (subst openssl_wait.simps) auto
qed

end
