(* ===== verification/Spec2Isabelle.thy ===== *)
theory Spec2Isabelle
  imports Mqtt_Properties Axidma_Properties App_Properties Tool_Properties Data_Path Mqtt_Tls_Sockets
begin

text \<open>
  \<^bold>\<open>A verification library for the CAECO accelerator\<close>

  The program runs on a Zynq board. An acceleration sensor publishes samples over MQTT; the application
  (\<open>src/src/transfer-accelero-caeco.c\<close>) receives them with the client \<open>src/src/mqtt-c\<close>, parses them into a DMA
  buffer (\<open>src/src/axidma_transfer.c\<close>) and hands that to the accelerator through the library
  \<open>src/src/xilinx_axidma/library/libaxidma.c\<close>, whose ioctls the kernel driver
  \<open>src/petalinux/utils/xilinx-axidma/files\<close> serves. The accelerator (\<open>src/HLS/sum_330.cpp\<close>) raises an interrupt
  when it is done; its driver (\<open>src/caeco/caeco.c\<close>) turns it into a signal for the application.

  \<^bold>\<open>Theories\<close>

  \<^item> \<open>Prelude_C\<close>: checked access to memory, the option monad's laws, words. Throughout, \<open>None\<close> is undefined behaviour:
    an access outside an object, a use of \<open>NULL\<close>, of freed or of unwritten memory, a failed assertion, a signed
    overflow in user space. An error the code reports is a value (a return code, an \<open>Inl\<close>). A theorem that an
    operation \<^emph>\<open>returns\<close> is an equation with \<open>Some\<close>.
  \<^item> \<open>Mqtt_Types\<close>, \<open>Mqtt_Fixed_Header\<close>, \<open>Mqtt_Pack\<close>, \<open>Mqtt_Unpack\<close>: the codecs of \<open>mqtt.c\<close>, over lists of bytes.
    The lemmas give, for each packer, the bytes of the packet on every branch, and round trips with the unpackers.
  \<^item> \<open>Mqtt_Queue\<close>: the queue of packets. Its contract is the locale \<open>packet_queue\<close>, over an abstract list of packets,
    which the code's queue interprets as \<open>mqueue\<close>; the retry of \<open>MQTT_CLIENT_TRY_PACK\<close> is proved once in the locale.
  \<^item> \<open>Mqtt_Pid\<close>: packet identifiers, a shift register and a loop that may not end: a \<open>partial_function\<close> whose
    termination is a theorem (and its failure another).
  \<^item> \<open>Mqtt_Pal\<close>: the POSIX branch of \<open>mqtt_pal.c\<close> over the system calls as a record of functions on a world.
    \<open>Mqtt_Pal_Platforms\<close>: its other branches (mbedTLS, wolfSSL, BearSSL, BIO, Winsock). The locale \<open>exact_sender\<close>
    is the contract of \<open>mqtt_pal_sendall\<close>, that it tells how much it has sent; the POSIX and the mbedTLS branch
    interpret it as \<open>posix\<close> and \<open>mbedtls\<close>. The others forget a count that an error follows, which is a theorem.
  \<^item> \<open>Mqtt_Sockets\<close>, \<open>Mqtt_Tls_Sockets\<close>: opening a connection, the templates under \<open>mqtt-c/templates\<close>.
  \<^item> \<open>Mqtt_Client\<close>, \<open>Mqtt_Send\<close>, \<open>Mqtt_Recv\<close>: the client's state, the operations that queue packets, the send and the
    receive pass and \<open>mqtt_sync\<close>; the mutex is a flag, and locking a locked mutex or unlocking a free one is \<open>None\<close>.
    The receive loop has fuel: one more than the bytes in the buffer and still to come is enough, which is proved.
  \<^item> \<open>Mqtt_Properties\<close>: the properties of the client. \<open>Mqtt_Offset\<close>: what a half-sent message can lead to.
  \<^item> \<open>Kernel_C\<close>: error numbers and the ledger of acquired resources; releasing what is not held is \<open>None\<close>, so that "no
    leak" is an equation between ledgers.
  \<^item> \<open>Axidma_Types\<close> (\<open>axidma_ioctl.h\<close>), \<open>Axidma_Of\<close> (\<open>axidma_of.c\<close>), \<open>Axidma_Buffers\<close> and \<open>Axidma_Chrdev\<close>
    (\<open>axidma_chrdev.c\<close>), \<open>Axidma_Dma\<close> (\<open>axidma_dma.c\<close>), \<open>Axidma_Driver\<close> (loading, with \<open>axi_dma.c\<close>): the driver. The
    device tree, user memory and the kernel's DMA engine are records of answers.
  \<^item> \<open>Axidma_Session\<close>: any sequence of ioctls, mappings, unmappings and completions as a step relation; the reachable
    states keep the driver's invariant by rule induction. Two relations: of well-formed requests (\<open>driver_reach\<close>, with the
    conditions in \<open>request_ok\<close>), for which the engine is only asked for bytes of the buffers, and of any requests
    (\<open>any_reach\<close>), after which the driver still gives back what it holds.
  \<^item> \<open>Libaxidma\<close>: the library over a record of system calls. The locale \<open>channel_driver\<close> is what it relies on.
  \<^item> \<open>Axidma_Stack\<close>: the driver interprets \<open>channel_driver\<close> as \<open>stack\<close>, so what was proved of the library over any such
    driver holds over this one; its transfers are the driver's. A second interpretation, \<open>session\<close>, is for the invariant
    of the whole session.
  \<^item> \<open>Axidma_Properties\<close>: the properties of driver and library. \<open>Axidma_Host\<close>: the same stack over a host that keeps account
    of the mappings (\<open>counts_maps\<close>), a third interpretation, \<open>mappings\<close>, for what the programs map and unmap.
  \<^item> \<open>Axidma_Transfer\<close>: parsing samples, block sums and setting transfers up. \<open>Hls_Sum\<close>: the accelerator, over lists of
    packets with a 32-bit sum. \<open>Caeco_Driver\<close>: its driver. \<open>Accelero_App\<close>: the application up to its waiting loop, and its
    life with the accelerator as a step relation, in which the accepted transfers are counted at the system call. \<open>Client_Refresher\<close>: the application's second thread, and the steps of
    both threads, interleaved at the mutex. Its locale \<open>receive_frame\<close> is for relations that receiving keeps; it is
    interpreted twice, as \<open>kept\<close> for what never changes and in \<open>Mqtt_Framing\<close> as \<open>framing\<close> for the invariant that every
    queued message is a whole packet of its kind.
  \<^item> \<open>App_Properties\<close>: the properties of these, among them the start of the application over the whole stack.
  \<^item> \<open>Test_Programs\<close> (\<open>test-transfer-*.c\<close> and the test bench \<open>sum_330_tb.cpp\<close>), \<open>Axidma_Benchmark\<close> (\<open>axidma-benchmark.c\<close> with
    \<open>util.c\<close>) and \<open>Wilc_Driver\<close> (\<open>wilc.c\<close>): the programs around the application. \<open>Tool_Properties\<close>: their properties,
    and those of the thread, the platform layer and the sockets.
  \<^item> \<open>Data_Path\<close>: one PUBLISH on its way from the receive buffer through the callback, the library and the driver to the
    accelerator.

  \<^bold>\<open>What the properties show\<close>

  Of the client: codecs that survive the wire, a decoder whose answers are well-typed, a queue that loses no packet,
  passes that return and write whole packets, the QoS 2 discipline, a thread that keeps all this whatever the main thread
  does beside it, and a stream that a receiver splits into the packets again, both until a pass leaves a packet
  half-sent; and where the code breaks these promises (a PUBLISH whose topic overruns it, a legal PUBLISH that is too
  short for the decoder, an interrupted resend, the offset of a half-sent message applied to another one, a TLS layer
  that forgets what it has sent or spins). Of the driver
  and the library: the engine is only asked for bytes of the driver's buffers by well-formed requests, nothing leaks
  whatever is asked, and the library sees the driver's channels; and where that ends (lengths that wrap around, video
  commands, buffers that cannot be given back, a second initialisation). Of the accelerator: it computes what the software computes, and its test bench
  and the test programs see that. Of the application: it starts, the samples of a large enough payload reach
  the accelerator if the copies of the numbers happen to be terminated (\<open>terminated\<close>: the byte that \<open>extract_val\<close> never
  writes is an argument \<open>fill\<close>, and the properties say what holds for every value of it), and those of a smaller one are mixed with what lies behind it; it has at most one buffer under way,
  and it stalls for ever after an interrupt that comes too early. Of the benchmark: it gives back what it took, and its verification
  decides whether the pattern arrived. Of the sockets: one descriptor is open after success and none after failure.
  Of the WILC driver: what its probe took is given back, and what is not.

  \<^bold>\<open>Bounds and assumptions\<close>

  Pointers and sizes are 64-bit words and structures have the LP64 layout. Sums of pointers wrap around, as in the
  kernel's build; \<open>int\<close> in the kernel wraps around, too, and in user space its overflow is undefined. A C string is
  the list of its characters without the final zero. The hypotheses on code that is not here say what it documents:
  errors of the kernel are negative, a device tree has the children it names (\<open>tree_ok\<close>), the allocator answers
  memory inside an area that does not wrap around, the system calls of the MQTT client send and deliver bytes in order
  (\<open>env_ok\<close>, \<open>delivers\<close>), a TLS library that accepts nothing has flushed something (\<open>flushes\<close>), the data of the BearSSL
  engine grow only by what is copied into its buffer (\<open>bearssl_ok\<close>; that it ever takes more is not assumed), the socket
  calls open and close one descriptor each (\<open>net_ok\<close>), a host that grants what it is asked for (\<open>host_grants\<close>). Sockets
  may send any part of a packet. The properties of the thread and of the stream follow its steps as long as no pass has
  left a packet half-sent (\<open>steady_reach\<close>), with a broker whose PUBLISH packets are consistent (\<open>broker_keeps\<close>); what can
  happen from there is stated apart. What the thread does to the client before the main thread subscribes is a
  parameter (\<open>mn_daemon\<close>) that keeps the client's invariant and mutex (\<open>daemon_keeps\<close>). A buffer length that does not fit the \<open>int\<close> it is cast to is \<open>None\<close>. Loops that wait for a
  peer may not end: they are \<open>partial_function\<close>s, and where they do end is proved. The thread of the application
  never returns: its definition counts rounds.

  \<^bold>\<open>Not modelled\<close>

  \<open>mqtt_pal.h\<close>, which is aliases of types and functions; the VMS and the Windows variants inside the socket templates;
  calls that set a TLS library up and whose answer is not looked at; device trees, recipes and Makefiles. Sleeping,
  timing, usage texts and printing are left out everywhere, except where what is printed is the function's result.
  The length of an imported buffer in the kernel's scatter-gather table is not modelled, only the one its user claims, which
  is all the code looks at; \<open>cb_comp\<close>, a pointer to a completion on the stack of a transfer, is whether there is one, so a
  completion through the dangling pointer of a transfer that has timed out cannot be expressed; the answer of the
  library's \<open>mmap\<close> is a parameter of the host and not tied to \<open>axidma_mmap\<close>.
  The driver's data structures are not protected against concurrent ioctls by the code; the model interleaves whole
  operations of the driver only, and of the client the sections that hold its mutex.
\<close>

end
